(* ===== verification/Prelude.thy ===== *)
theory Prelude
  imports Main "HOL-Library.Word" "HOL-Library.Monad_Syntax"
begin

unbundle bit_operations_syntax

text \<open>
  Shared vocabulary of the development.

  \<^item> C control flow: an operation that may abort returns an \<open>option\<close>. \<open>None\<close> stands for a run that
    has no result: a failed \<open>FSL_ASSERT\<close> or \<open>assert\<close> (both end in \<open>abort ()\<close>), an access outside an
    array, or a loop that never ends. A theorem that an operation yields \<open>Some\<close> is therefore a
    statement of memory safety, of all assertions holding and of termination at once.
  \<^item> Machine integers: unsigned quantities are naturals, and every addition that can wrap is wrapped
    by \<open>u32\<close> or \<open>u64\<close> explicitly. Values read from the disk and bytes are words.
  \<^item> Generic lemmas on lists, intervals and words used by several components.
\<close>

named_theorems rt_simps "unfolding and rewriting rules of the runtime model"
named_theorems rt_inv "preservation of invariants by the operations of the runtime"

type_synonym byte = "8 word"
type_synonym addr = nat

section \<open>Assertions and checked array accesses\<close>

definition assert_c :: "bool \<Rightarrow> unit option" where
  "assert_c b = (if b then Some () else None)"

definition get_at :: "'a list \<Rightarrow> nat \<Rightarrow> 'a option" where
  "get_at xs i = (if i < length xs then Some (xs ! i) else None)"

definition upd_at :: "'a list \<Rightarrow> nat \<Rightarrow> 'a \<Rightarrow> 'a list option" where
  "upd_at xs i v = (if i < length xs then Some (xs[i := v]) else None)"

section \<open>Unsigned machine integers\<close>

definition u32 :: "nat \<Rightarrow> nat" where
  "u32 x = x mod 2 ^ 32"

definition u64 :: "nat \<Rightarrow> nat" where
  "u64 x = x mod 2 ^ 64"

text \<open>The all-ones values \<open>~0\<close> at the two widths.\<close>

definition ones32 :: nat where
  "ones32 = 2 ^ 32 - 1"

definition ones64 :: nat where
  "ones64 = 2 ^ 64 - 1"

section \<open>Decimal numbers\<close>

fun dec :: "nat \<Rightarrow> string" where
  "dec n = (if n < 10 then [char_of (48 + n)] else dec (n div 10) @ [char_of (48 + n mod 10)])"

declare dec.simps [simp del]

section \<open>Lemmas\<close>

lemma assert_c_simps [simp]:
  "assert_c True = Some ()"
  "assert_c False = None"
  by (simp_all add: assert_c_def)

lemma assert_c_eq_Some [simp]: "assert_c b = Some u \<longleftrightarrow> b"
  by (simp add: assert_c_def)

lemma get_at_in [simp]: "i < length xs \<Longrightarrow> get_at xs i = Some (xs ! i)"
  by (simp add: get_at_def)

lemma upd_at_in [simp]: "i < length xs \<Longrightarrow> upd_at xs i v = Some (xs[i := v])"
  by (simp add: upd_at_def)

lemma get_at_eq_Some: "get_at xs i = Some x \<longleftrightarrow> i < length xs \<and> x = xs ! i"
  by (auto simp: get_at_def)

lemma upd_at_eq_Some: "upd_at xs i v = Some ys \<longleftrightarrow> i < length xs \<and> ys = xs[i := v]"
  by (auto simp: upd_at_def)

lemma u32_less [simp]: "u32 x < 2 ^ 32"
  by (simp add: u32_def)

lemma u64_less [simp]: "u64 x < 2 ^ 64"
  by (simp add: u64_def)

lemma u32_id: "x < 2 ^ 32 \<Longrightarrow> u32 x = x"
  by (simp add: u32_def)

lemma u64_id: "x < 2 ^ 64 \<Longrightarrow> u64 x = x"
  by (simp add: u64_def)

lemma u32_add_ones: "0 < n \<Longrightarrow> n < 2 ^ 32 \<Longrightarrow> u32 (n + ones32) = n - 1"
proof -
  assume n: "0 < n" "n < 2 ^ 32"
  then have "n + ones32 = (n - 1) + 2 ^ 32"
    by (simp add: ones32_def)
  then have "u32 (n + ones32) = (n - 1) mod 2 ^ 32"
    by (simp only: u32_def mod_add_self2)
  with n show ?thesis by simp
qed

lemma u64_add_ones: "0 < n \<Longrightarrow> n < 2 ^ 64 \<Longrightarrow> u64 (n + ones64) = n - 1"
proof -
  assume n: "0 < n" "n < 2 ^ 64"
  then have "n + ones64 = (n - 1) + 2 ^ 64"
    by (simp add: ones64_def)
  then have "u64 (n + ones64) = (n - 1) mod 2 ^ 64"
    by (simp only: u64_def mod_add_self2)
  with n show ?thesis by simp
qed

lemma u64_0 [simp]: "u64 0 = 0"
  by (simp add: u64_def)

subsection \<open>Splitting an interval at the byte boundary\<close>

lemma upt_split_byte:
  assumes "i < B" and "ii \<le> 8"
  shows "[8 * i + ii..<8 * B] = [8 * i + ii..<8 * i + 8] @ [8 * Suc i..<8 * B]"
proof -
  have "8 * i + ii \<le> 8 * i + 8" and "8 * i + 8 \<le> 8 * B"
    using assms by simp_all
  then have "[8 * i + ii..<8 * B] = [8 * i + ii..<8 * i + 8] @ [8 * i + 8..<8 * B]"
    using upt_add_eq_append [of "8 * i + ii" "8 * i + 8" "8 * B - (8 * i + 8)"] by simp
  then show ?thesis by (simp add: add.commute)
qed

lemma upt_byte_map: "[8 * i + ii..<8 * i + 8] = map (\<lambda>k. 8 * i + k) [ii..<8]"
  by (rule nth_equalityI) auto

lemma div_mod_byte [simp]:
  fixes i k :: nat
  shows "k < 8 \<Longrightarrow> (8 * i + k) div 8 = i" "k < 8 \<Longrightarrow> (8 * i + k) mod 8 = k"
  by simp_all

subsection \<open>Bits of bytes\<close>

lemma byte_bit_test:
  fixes x :: byte
  shows "x AND push_bit k 1 = 0 \<longleftrightarrow> \<not> bit x k" "x AND 2 ^ k = 0 \<longleftrightarrow> \<not> bit x k"
  by (simp_all add: push_bit_of_1 and_exp_eq_0_iff_not_bit)

lemma byte_bit_ge8: "8 \<le> k \<Longrightarrow> \<not> bit (x :: byte) k"
  using bit_imp_le_length [of x k] by force

lemma byte_all_ones:
  fixes x :: byte
  assumes "x = 255" and "k < 8"
  shows "bit x k"
proof -
  have "x = mask 8" using assms(1) by (simp add: mask_eq_exp_minus_1)
  then show ?thesis unfolding bit_mask_iff using assms(2) by (auto simp: bit_mask_iff)
qed

end
