(* ===== verification/RtMax.thy ===== *)
theory RtMax
  imports Prelude
begin

text \<open>
  The maximum outcalls of \<open>src/runtime/max.c\<close>, which compiled file system descriptions call. The C
  functions take unsigned 64-bit arguments and only compare them.
\<close>

section \<open>Operations\<close>

definition max2_c :: "64 word \<Rightarrow> 64 word \<Rightarrow> 64 word" where
  "max2_c a0 a1 = (if a0 > a1 then a0 else a1)"

definition max3_c :: "64 word \<Rightarrow> 64 word \<Rightarrow> 64 word \<Rightarrow> 64 word" where
  "max3_c a0 a1 a2 =
     (if a0 \<ge> a1 \<and> a0 \<ge> a2 then a0
      else if a1 \<ge> a0 \<and> a1 \<ge> a2 then a1
      else a2)"

definition max4_c :: "64 word \<Rightarrow> 64 word \<Rightarrow> 64 word \<Rightarrow> 64 word \<Rightarrow> 64 word" where
  "max4_c a0 a1 a2 a3 =
     (if a0 \<ge> a1 \<and> a0 \<ge> a2 \<and> a0 \<ge> a3 then a0
      else if a1 \<ge> a0 \<and> a1 \<ge> a2 \<and> a1 \<ge> a3 then a1
      else if a2 \<ge> a0 \<and> a2 \<ge> a1 \<and> a2 \<ge> a3 then a1
      else a3)"

definition max5_c :: "64 word \<Rightarrow> 64 word \<Rightarrow> 64 word \<Rightarrow> 64 word \<Rightarrow> 64 word \<Rightarrow> 64 word" where
  "max5_c a0 a1 a2 a3 a4 = (let m = max4_c a0 a1 a2 a3 in if m > a4 then m else a4)"

definition max6_c ::
  "64 word \<Rightarrow> 64 word \<Rightarrow> 64 word \<Rightarrow> 64 word \<Rightarrow> 64 word \<Rightarrow> 64 word \<Rightarrow> 64 word" where
  "max6_c a0 a1 a2 a3 a4 a5 = (let m = max5_c a0 a1 a2 a3 a4 in if m > a5 then m else a5)"

definition max7_c ::
  "64 word \<Rightarrow> 64 word \<Rightarrow> 64 word \<Rightarrow> 64 word \<Rightarrow> 64 word \<Rightarrow> 64 word \<Rightarrow> 64 word \<Rightarrow> 64 word" where
  "max7_c a0 a1 a2 a3 a4 a5 a6 =
     (let m = max6_c a0 a1 a2 a3 a4 a5 in if m > a6 then m else a6)"

section \<open>What they compute\<close>

lemma max2_c_max: "max2_c a b = max a b"
  by (auto simp: max2_c_def max_def)

lemma max3_c_max: "max3_c a b c = max a (max b c)"
  by (auto simp: max3_c_def max_def)

text \<open>
  The third branch of \<open>__max4\<close> returns its second argument: the result is the maximum unless the
  third argument exceeds the first two and reaches the fourth.
\<close>

lemma max4_c_spec:
  "max4_c a b c d =
     (if a < c \<and> b < c \<and> d \<le> c then b else Max {a, b, c, d})"
proof (cases "a < c \<and> b < c \<and> d \<le> c")
  case True
  then show ?thesis by (auto simp: max4_c_def)
next
  case False
  have "Max {a, b, c, d} = max4_c a b c d"
  proof (rule Max_eqI)
    show "max4_c a b c d \<in> {a, b, c, d}" by (simp add: max4_c_def)
    show "y \<le> max4_c a b c d" if "y \<in> {a, b, c, d}" for y
      using that False unfolding max4_c_def by (auto simp: not_le not_less)
  qed simp
  with False show ?thesis by (simp only: if_not_P if_False)
qed

lemma max_pad_eq_iff:
  fixes b :: "'a :: linorder"
  assumes "b < c"
  shows "max b r = max c r \<longleftrightarrow> c \<le> r"
  using assms by (auto simp: max_def)

text \<open>
  C40: the seven-way maximum is the largest argument exactly when the third argument is not the
  strict maximum of the first three that also reaches the fourth, or a later argument dominates
  everything; in the remaining cases it is wrong because of the third branch of \<open>__max4\<close>.
\<close>

theorem max7_c_correct_iff:
  "max7_c a b c d e f g = Max {a, b, c, d, e, f, g} \<longleftrightarrow>
     \<not> (a < c \<and> b < c \<and> d \<le> c \<and> e < c \<and> f < c \<and> g < c)"
proof -
  have later: "max7_c a b c d e f g = max (max4_c a b c d) (max e (max f g))"
  proof -
    have step: "(if x < (m :: 64 word) then m else x) = max m x" for m x
      by (auto simp: max_def)
    show ?thesis by (simp add: max7_c_def max6_c_def max5_c_def Let_def step max.assoc)
  qed
  have whole: "Max {a, b, c, d, e, f, g} = max (Max {a, b, c, d}) (max e (max f g))"
    by (simp add: max.assoc)
  show ?thesis
  proof (cases "a < c \<and> b < c \<and> d \<le> c")
    case True
    then have "Max {a, b, c, d} = c"
      by (intro Max_eqI) auto
    with True have "max7_c a b c d e f g = Max {a, b, c, d, e, f, g} \<longleftrightarrow> c \<le> max e (max f g)"
      unfolding later whole max4_c_spec by (simp add: max_pad_eq_iff)
    with True show ?thesis by (auto simp: not_le le_max_iff_disj)
  next
    case False
    then show ?thesis unfolding later whole max4_c_spec by auto
  qed
qed

end
