(* ===== verification/Bitmap.thy ===== *)
theory Bitmap
  imports Prelude
begin

text \<open>
  The bitmap of \<open>src/runtime/bitmap.c\<close>: a byte array with a number of significant bits. The bits
  between \<open>bmp_size\<close> and the end of the last byte are padding; the search and count loops of the
  code run over whole bytes and therefore see the padding too. The signed \<open>int\<close> locals of the code
  agree with the naturals below for bitmaps of fewer than \<open>2 ^ 31\<close> bits, which \<open>bmp_ok\<close> records.
\<close>

record bitmap =
  bmp_data :: "byte list"
  bmp_bytes :: nat
  bmp_size :: nat

section \<open>Operations\<close>

text \<open>\<open>junk\<close> is what \<open>malloc\<close> returns: memory with arbitrary contents.\<close>

definition bmp_init :: "(nat \<Rightarrow> byte) \<Rightarrow> nat \<Rightarrow> bitmap" where
  "bmp_init junk elements =
     (let bytes = u32 (elements + 7) div 8
      in \<lparr>bmp_data = map junk [0..<bytes], bmp_bytes = bytes, bmp_size = elements\<rparr>)"

definition bmp_clear :: "bitmap \<Rightarrow> bitmap" where
  "bmp_clear b = b\<lparr>bmp_data := replicate (bmp_bytes b) 0\<rparr>"

function bmp_fill :: "byte list \<Rightarrow> nat \<Rightarrow> nat \<Rightarrow> nat \<Rightarrow> byte \<Rightarrow> byte list option" where
  "bmp_fill data base i n v =
     (if i < n
      then do { data \<leftarrow> upd_at data (i + base) v; bmp_fill data base (Suc i) n v }
      else Some data)"
  by pat_completeness auto
termination
  by (relation "measure (\<lambda>(data, base, i, n, v). n - i)") auto

declare bmp_fill.simps [simp del]

text \<open>
  \<open>bmp_set\<close> and \<open>bmp_unset\<close> have the same three phases (the bits left of the first byte boundary,
  whole bytes, the bits right of the last boundary) and differ in how a mask is applied to a byte
  (\<open>|=\<close> the mask, \<open>&=\<close> its complement) and in the value of a whole byte.
\<close>

definition bmp_left ::
  "(byte \<Rightarrow> byte \<Rightarrow> byte) \<Rightarrow> byte list \<Rightarrow> nat \<Rightarrow> nat \<Rightarrow> (byte list \<times> nat \<times> nat) option" where
  "bmp_left apply_mask data offset n =
     (if offset mod 8 \<noteq> 0 then do {
        let i = (if n < 8 - offset mod 8 then n else 8 - offset mod 8);
        x \<leftarrow> get_at data (offset div 8);
        data \<leftarrow> upd_at data (offset div 8) (apply_mask x (push_bit (offset mod 8) (mask i)));
        Some (data, offset + i, n - i)
      } else Some (data, offset, n))"

definition bmp_right ::
  "(byte \<Rightarrow> byte \<Rightarrow> byte) \<Rightarrow> byte list \<Rightarrow> nat \<Rightarrow> nat \<Rightarrow> byte list option" where
  "bmp_right apply_mask data off count =
     (if count mod 8 \<noteq> 0 then do {
        x \<leftarrow> get_at data (count div 8 + off div 8);
        upd_at data (count div 8 + off div 8) (apply_mask x (mask (count mod 8)))
      } else Some data)"

definition bmp_range_op ::
  "(byte \<Rightarrow> byte \<Rightarrow> byte) \<Rightarrow> byte \<Rightarrow> bitmap \<Rightarrow> nat \<Rightarrow> nat \<Rightarrow> bitmap option" where
  "bmp_range_op apply_mask full b offset n = do {
     assert_c (u32 (offset + u32 (n + ones32)) < bmp_size b);
     (data, off, count) \<leftarrow> bmp_left apply_mask (bmp_data b) offset n;
     data \<leftarrow> bmp_fill data (off div 8) 0 (count div 8) full;
     data \<leftarrow> bmp_right apply_mask data off count;
     Some (b\<lparr>bmp_data := data\<rparr>)
   }"

definition bmp_set :: "bitmap \<Rightarrow> nat \<Rightarrow> nat \<Rightarrow> bitmap option" where
  "bmp_set b offset n = bmp_range_op (\<lambda>x m. x OR m) 255 b offset n"

definition bmp_unset :: "bitmap \<Rightarrow> nat \<Rightarrow> nat \<Rightarrow> bitmap option" where
  "bmp_unset b offset n = bmp_range_op (\<lambda>x m. x AND NOT m) 0 b offset n"

text \<open>
  \<open>bmp_is_set\<close> has no range check of its own; its result is the masked byte, and callers test it
  against zero.
\<close>

definition bmp_is_set :: "bitmap \<Rightarrow> nat \<Rightarrow> byte option" where
  "bmp_is_set b offset = do {
     x \<leftarrow> get_at (bmp_data b) (offset div 8);
     Some (x AND push_bit (offset mod 8) 1)
   }"

text \<open>
  The two contiguous counts share their loop nest up to the polarity of the test; \<open>want\<close> is the
  value a bit must have to be counted. The inner loop says whether it left the function.
\<close>

function bmp_contig_byte :: "bool \<Rightarrow> byte \<Rightarrow> nat \<Rightarrow> nat \<Rightarrow> nat \<times> bool" where
  "bmp_contig_byte want x ii n =
     (if ii < 8
      then if (x AND push_bit ii 1 \<noteq> 0) = want
           then bmp_contig_byte want x (Suc ii) (Suc n)
           else (n, True)
      else (n, False))"
  by pat_completeness auto
termination
  by (relation "measure (\<lambda>(want, x, ii, n). 8 - ii)") auto

declare bmp_contig_byte.simps [simp del]

function bmp_contig_loop :: "bool \<Rightarrow> bitmap \<Rightarrow> nat \<Rightarrow> nat \<Rightarrow> nat \<Rightarrow> nat option" where
  "bmp_contig_loop want b i ii n =
     (if i < bmp_bytes b then do {
        x \<leftarrow> get_at (bmp_data b) i;
        let (n, stop) = bmp_contig_byte want x ii n;
        if stop then Some n else bmp_contig_loop want b (Suc i) 0 n
      } else Some n)"
  by pat_completeness auto
termination
  by (relation "measure (\<lambda>(want, b, i, ii, n). bmp_bytes b - i)") auto

declare bmp_contig_loop.simps [simp del]

definition bmp_count_contig_avail :: "bitmap \<Rightarrow> nat \<Rightarrow> nat option" where
  "bmp_count_contig_avail b offset = bmp_contig_loop False b (offset div 8) (offset mod 8) 0"

definition bmp_count_contig_set :: "bitmap \<Rightarrow> nat \<Rightarrow> nat option" where
  "bmp_count_contig_set b offset = bmp_contig_loop True b (offset div 8) (offset mod 8) 0"

text \<open>The searches skip a byte that cannot hold a wanted bit.\<close>

function bmp_find_byte :: "bool \<Rightarrow> byte \<Rightarrow> nat \<Rightarrow> nat option" where
  "bmp_find_byte want x ii =
     (if ii < 8
      then if (x AND push_bit ii 1 \<noteq> 0) = want then Some ii else bmp_find_byte want x (Suc ii)
      else None)"
  by pat_completeness auto
termination
  by (relation "measure (\<lambda>(want, x, ii). 8 - ii)") auto

declare bmp_find_byte.simps [simp del]

function bmp_find_loop :: "bool \<Rightarrow> bitmap \<Rightarrow> nat \<Rightarrow> nat \<Rightarrow> int option" where
  "bmp_find_loop want b i ii =
     (if i < bmp_bytes b then do {
        x \<leftarrow> get_at (bmp_data b) i;
        case (if x \<noteq> (if want then 0 else 255) then bmp_find_byte want x ii else None) of
          Some k \<Rightarrow> Some (int (i * 8 + k))
        | None \<Rightarrow> bmp_find_loop want b (Suc i) 0
      } else Some (- 1))"
  by pat_completeness auto
termination
  by (relation "measure (\<lambda>(want, b, i, ii). bmp_bytes b - i)") auto

declare bmp_find_loop.simps [simp del]

definition bmp_find_avail :: "bitmap \<Rightarrow> nat \<Rightarrow> int option" where
  "bmp_find_avail b offset = bmp_find_loop False b (offset div 8) (offset mod 8)"

definition bmp_find_set :: "bitmap \<Rightarrow> nat \<Rightarrow> int option" where
  "bmp_find_set b offset = bmp_find_loop True b (offset div 8) (offset mod 8)"

definition bmp_get_set :: "bitmap \<Rightarrow> nat \<Rightarrow> int option" where
  "bmp_get_set b offset = do {
     assert_c (offset < bmp_size b);
     bmp_find_set b offset
   }"

definition bmp_count_set_contiguous :: "bitmap \<Rightarrow> nat \<Rightarrow> (int \<times> nat) option" where
  "bmp_count_set_contiguous b offset = do {
     assert_c (offset < bmp_size b);
     set_loc \<leftarrow> bmp_find_set b offset;
     if set_loc = - 1 then Some (- 1, 0)
     else do {
       num \<leftarrow> bmp_count_contig_set b (nat set_loc);
       Some (set_loc, num)
     }
   }"

function bmp_count_byte :: "bool \<Rightarrow> byte \<Rightarrow> nat \<Rightarrow> nat \<Rightarrow> nat" where
  "bmp_count_byte want x ii n =
     (if ii < 8
      then bmp_count_byte want x (Suc ii)
             (if (x AND push_bit ii 1 \<noteq> 0) = want then Suc n else n)
      else n)"
  by pat_completeness auto
termination
  by (relation "measure (\<lambda>(want, x, ii, n). 8 - ii)") auto

declare bmp_count_byte.simps [simp del]

function bmp_count_loop :: "bool \<Rightarrow> bitmap \<Rightarrow> nat \<Rightarrow> nat \<Rightarrow> nat \<Rightarrow> nat option" where
  "bmp_count_loop want b i ii n =
     (if i < bmp_bytes b then do {
        x \<leftarrow> get_at (bmp_data b) i;
        bmp_count_loop want b (Suc i) 0 (bmp_count_byte want x ii n)
      } else Some n)"
  by pat_completeness auto
termination
  by (relation "measure (\<lambda>(want, b, i, ii, n). bmp_bytes b - i)") auto

declare bmp_count_loop.simps [simp del]

definition bmp_count_set :: "bitmap \<Rightarrow> nat \<Rightarrow> nat option" where
  "bmp_count_set b offset = do {
     assert_c (offset < bmp_size b);
     bmp_count_loop True b (offset div 8) (offset mod 8) 0
   }"

definition bmp_count_avail :: "bitmap \<Rightarrow> nat \<Rightarrow> nat option" where
  "bmp_count_avail b offset = do {
     assert_c (offset < bmp_size b);
     bmp_count_loop False b (offset div 8) (offset mod 8) 0
   }"

text \<open>
  The first-fit search: a location that is too short is skipped, a long enough one is taken. The
  loop bound is an unsigned comparison.
\<close>

partial_function (option) bmp_set_avail_loop ::
  "bitmap \<Rightarrow> nat \<Rightarrow> nat \<Rightarrow> (int \<times> bitmap) option" where
  "bmp_set_avail_loop b avail_loc n = do {
     loc \<leftarrow> bmp_find_avail b avail_loc;
     if loc = - 1 then Some (- 1, b)
     else do {
       count \<leftarrow> bmp_count_contig_avail b (nat loc);
       if count < n then
         (if nat loc + count \<le> u32 (bmp_size b + 2 ^ 32 - n)
          then bmp_set_avail_loop b (nat loc + count) n
          else Some (- 1, b))
       else do {
         b' \<leftarrow> bmp_set b (nat loc) n;
         Some (loc, b')
       }
     }
   }"

definition bmp_set_avail :: "bitmap \<Rightarrow> nat \<Rightarrow> nat \<Rightarrow> (int \<times> bitmap) option" where
  "bmp_set_avail b offset n = do {
     assert_c (offset < bmp_size b);
     bmp_set_avail_loop b offset n
   }"

section \<open>Well-formedness and the abstract view\<close>

definition bmp_ok :: "bitmap \<Rightarrow> bool" where
  "bmp_ok b \<longleftrightarrow>
     length (bmp_data b) = bmp_bytes b \<and> bmp_bytes b = (bmp_size b + 7) div 8 \<and> bmp_size b < 2 ^ 31"

definition data_bit :: "byte list \<Rightarrow> nat \<Rightarrow> bool" where
  "data_bit data k \<longleftrightarrow> bit (data ! (k div 8)) (k mod 8)"

definition bmp_bit :: "bitmap \<Rightarrow> nat \<Rightarrow> bool" where
  "bmp_bit b k \<longleftrightarrow> data_bit (bmp_data b) k"

text \<open>The set a bitmap stands for: its significant bits that are one.\<close>

definition bmp_set_of :: "bitmap \<Rightarrow> nat set" where
  "bmp_set_of b = {k. k < bmp_size b \<and> bmp_bit b k}"

definition bmp_pad_clear :: "bitmap \<Rightarrow> bool" where
  "bmp_pad_clear b \<longleftrightarrow> (\<forall>k < 8 * bmp_bytes b. bmp_size b \<le> k \<longrightarrow> \<not> bmp_bit b k)"

lemma bmp_ok_bytes: "bmp_ok b \<Longrightarrow> k < bmp_size b \<Longrightarrow> k div 8 < bmp_bytes b"
  by (simp add: bmp_ok_def)

lemma bmp_ok_bits: "bmp_ok b \<Longrightarrow> bmp_size b \<le> 8 * bmp_bytes b"
  by (simp add: bmp_ok_def)

section \<open>The counting and searching loops\<close>

lemma bmp_contig_byte_spec:
  "ii \<le> 8 \<Longrightarrow> bmp_contig_byte want x ii n =
     (n + length (takeWhile (\<lambda>k. bit x k = want) [ii..<8]), \<not> (\<forall>k \<in> {ii..<8}. bit x k = want))"
proof (induction want x ii n rule: bmp_contig_byte.induct)
  case (1 want x ii n)
  show ?case
  proof (cases "ii < 8")
    case True
    then have up: "[ii..<8] = ii # [Suc ii..<8]" and iv: "{ii..<8} = insert ii {Suc ii..<8}"
      by (auto simp: upt_conv_Cons)
    show ?thesis
      using 1 True by (auto simp: bmp_contig_byte.simps [of want x ii] byte_bit_test up iv)
  next
    case False
    with 1 show ?thesis by (subst bmp_contig_byte.simps) simp
  qed
qed

lemma bmp_contig_loop_spec:
  assumes "length (bmp_data b) = bmp_bytes b" and "ii \<le> 8"
  shows "bmp_contig_loop want b i ii n =
     Some (n + length (takeWhile (\<lambda>k. bmp_bit b k = want) [8 * i + ii..<8 * bmp_bytes b]))"
  using assms
proof (induction want b i ii n rule: bmp_contig_loop.induct)
  case (1 want b i ii n)
  show ?case
  proof (cases "i < bmp_bytes b")
    case True
    let ?x = "bmp_data b ! i"
    let ?all = "\<forall>k \<in> {ii..<8}. bit ?x k = want"
    have byte: "takeWhile (\<lambda>k. bmp_bit b k = want) [8 * i + ii..<8 * i + 8] =
        map (\<lambda>k. 8 * i + k) (takeWhile (\<lambda>k. bit ?x k = want) [ii..<8])"
      unfolding upt_byte_map takeWhile_map
      by (intro arg_cong [where f = "map _"] takeWhile_cong) (auto simp: bmp_bit_def data_bit_def o_def)
    have all: "(\<forall>k \<in> set [8 * i + ii..<8 * i + 8]. bmp_bit b k = want) \<longleftrightarrow> ?all"
      unfolding upt_byte_map set_map ball_simps by (auto simp: bmp_bit_def data_bit_def)
    have split: "takeWhile (\<lambda>k. bmp_bit b k = want) [8 * i + ii..<8 * bmp_bytes b] =
        (if ?all then [8 * i + ii..<8 * i + 8] @
           takeWhile (\<lambda>k. bmp_bit b k = want) [8 * Suc i..<8 * bmp_bytes b]
         else map (\<lambda>k. 8 * i + k) (takeWhile (\<lambda>k. bit ?x k = want) [ii..<8]))"
      unfolding upt_split_byte [OF True "1.prems"(2)] takeWhile_append all byte by simp
    show ?thesis
    proof (cases ?all)
      case all': True
      then have tw: "takeWhile (\<lambda>k. bit ?x k = want) [ii..<8] = [ii..<8]"
        by (simp add: takeWhile_eq_all_conv)
      have "bmp_contig_loop want b i ii n = bmp_contig_loop want b (Suc i) 0 (n + (8 - ii))"
        using True "1.prems" all' by (simp add: bmp_contig_loop.simps [of want b i] bmp_contig_byte_spec tw)
      also have "\<dots> = Some (n + (8 - ii) +
          length (takeWhile (\<lambda>k. bmp_bit b k = want) [8 * Suc i..<8 * bmp_bytes b]))"
        using "1.IH" [OF True, of ?x "(n + (8 - ii), False)" "n + (8 - ii)" False] True "1.prems" all'
        by (simp add: bmp_contig_byte_spec tw)
      finally show ?thesis using all' by (simp add: split)
    next
      case False
      then show ?thesis
        using True "1.prems" by (auto simp: bmp_contig_loop.simps [of want b i] bmp_contig_byte_spec split)
    qed
  next
    case False
    with "1.prems" show ?thesis by (simp add: bmp_contig_loop.simps [of want b i])
  qed
qed

lemma bmp_find_byte_spec:
  "ii \<le> 8 \<Longrightarrow> bmp_find_byte want x ii = List.find (\<lambda>k. bit x k = want) [ii..<8]"
proof (induction want x ii rule: bmp_find_byte.induct)
  case (1 want x ii)
  show ?case
  proof (cases "ii < 8")
    case True
    then have "[ii..<8] = ii # [Suc ii..<8]" by (simp add: upt_conv_Cons)
    with 1 True show ?thesis by (auto simp: bmp_find_byte.simps [of want x ii] byte_bit_test)
  next
    case False
    with 1 show ?thesis by (subst bmp_find_byte.simps) simp
  qed
qed

lemma find_append:
  "List.find P (xs @ ys) = (case List.find P xs of Some x \<Rightarrow> Some x | None \<Rightarrow> List.find P ys)"
  by (induction xs) auto

lemma find_map: "List.find P (map f xs) = map_option f (List.find (P \<circ> f) xs)"
  by (induction xs) auto

definition find_int :: "(nat \<Rightarrow> bool) \<Rightarrow> nat list \<Rightarrow> int" where
  "find_int P xs = (case List.find P xs of Some k \<Rightarrow> int k | None \<Rightarrow> - 1)"

lemma bmp_find_loop_spec:
  assumes "length (bmp_data b) = bmp_bytes b" and "ii \<le> 8"
  shows "bmp_find_loop want b i ii =
     Some (find_int (\<lambda>k. bmp_bit b k = want) [8 * i + ii..<8 * bmp_bytes b])"
  using assms
proof (induction want b i ii rule: bmp_find_loop.induct)
  case (1 want b i ii)
  show ?case
  proof (cases "i < bmp_bytes b")
    case True
    let ?x = "bmp_data b ! i"
    let ?f = "if ?x \<noteq> (if want then 0 else 255) then bmp_find_byte want ?x ii else None"
    have find: "?f = List.find (\<lambda>k. bit ?x k = want) [ii..<8]"
    proof (cases "?x = (if want then 0 else 255)")
      case skip: True
      then have "bit ?x k \<noteq> want" if "k < 8" for k
        using that byte_all_ones [of ?x k] by (cases want) auto
      then have "List.find (\<lambda>k. bit ?x k = want) [ii..<8] = None"
        by (auto simp: find_None_iff)
      with skip show ?thesis by simp
    qed (simp add: bmp_find_byte_spec "1.prems")
    have byte: "List.find (\<lambda>k. bmp_bit b k = want) [8 * i + ii..<8 * i + 8] = map_option (\<lambda>k. 8 * i + k) ?f"
      unfolding upt_byte_map find_map find
      by (intro arg_cong [where f = "map_option _"] find_cong) (auto simp: bmp_bit_def data_bit_def)
    have step: "bmp_find_loop want b i ii =
        (case ?f of Some k \<Rightarrow> Some (int (i * 8 + k)) | None \<Rightarrow> bmp_find_loop want b (Suc i) 0)"
      using True "1.prems" by (subst bmp_find_loop.simps) simp
    show ?thesis
    proof (cases ?f)
      case None
      have "bmp_find_loop want b i ii = bmp_find_loop want b (Suc i) 0"
        unfolding step None by simp
      also have "\<dots> = Some (find_int (\<lambda>k. bmp_bit b k = want) [8 * Suc i..<8 * bmp_bytes b])"
        using "1.IH" [OF True, of ?x] True "1.prems" None by simp
      finally show ?thesis
        unfolding upt_split_byte [OF True "1.prems"(2)] find_int_def find_append byte None by simp
    next
      case (Some k)
      then show ?thesis
        unfolding step upt_split_byte [OF True "1.prems"(2)] find_int_def find_append byte Some
        by (simp add: mult.commute)
    qed
  next
    case False
    with "1.prems" show ?thesis by (subst bmp_find_loop.simps) (simp add: find_int_def)
  qed
qed

lemma bmp_count_byte_spec:
  "ii \<le> 8 \<Longrightarrow> bmp_count_byte want x ii n = n + length (filter (\<lambda>k. bit x k = want) [ii..<8])"
proof (induction want x ii n rule: bmp_count_byte.induct)
  case (1 want x ii n)
  show ?case
  proof (cases "ii < 8")
    case True
    then have "[ii..<8] = ii # [Suc ii..<8]" by (simp add: upt_conv_Cons)
    with 1 True show ?thesis by (auto simp: bmp_count_byte.simps [of want x ii] byte_bit_test)
  next
    case False
    with 1 show ?thesis by (subst bmp_count_byte.simps) simp
  qed
qed

lemma bmp_count_loop_spec:
  assumes "length (bmp_data b) = bmp_bytes b" and "ii \<le> 8"
  shows "bmp_count_loop want b i ii n =
     Some (n + length (filter (\<lambda>k. bmp_bit b k = want) [8 * i + ii..<8 * bmp_bytes b]))"
  using assms
proof (induction want b i ii n rule: bmp_count_loop.induct)
  case (1 want b i ii n)
  show ?case
  proof (cases "i < bmp_bytes b")
    case True
    let ?x = "bmp_data b ! i"
    have byte: "length (filter (\<lambda>k. bmp_bit b k = want) [8 * i + ii..<8 * i + 8]) =
        length (filter (\<lambda>k. bit ?x k = want) [ii..<8])"
      unfolding upt_byte_map filter_map length_map
      by (intro arg_cong [where f = length] filter_cong) (auto simp: bmp_bit_def data_bit_def)
    have "bmp_count_loop want b i ii n =
        bmp_count_loop want b (Suc i) 0 (bmp_count_byte want ?x ii n)"
      using True "1.prems" by (subst bmp_count_loop.simps) simp
    also have "\<dots> = Some (bmp_count_byte want ?x ii n +
        length (filter (\<lambda>k. bmp_bit b k = want) [8 * Suc i..<8 * bmp_bytes b]))"
      using "1.IH" [OF True, of ?x] True "1.prems" by simp
    finally show ?thesis
      unfolding upt_split_byte [OF True "1.prems"(2)] filter_append
      by (simp add: bmp_count_byte_spec "1.prems" byte)
  next
    case False
    with "1.prems" show ?thesis by (subst bmp_count_loop.simps) simp
  qed
qed

section \<open>Setting and clearing a range\<close>

lemma bmp_fill_spec:
  "base + n \<le> length data \<Longrightarrow> i \<le> n \<Longrightarrow> bmp_fill data base i n v =
     Some (map (\<lambda>j. if base + i \<le> j \<and> j < base + n then v else data ! j) [0..<length data])"
proof (induction data base i n v rule: bmp_fill.induct)
  case (1 data base i n v)
  show ?case
  proof (cases "i < n")
    case True
    then have "i + base < length data" using "1.prems" by simp
    then have "bmp_fill data base i n v = bmp_fill (data[i + base := v]) base (Suc i) n v"
      using True by (subst bmp_fill.simps) simp
    also have "\<dots> = Some (map (\<lambda>j. if base + Suc i \<le> j \<and> j < base + n then v
        else data[i + base := v] ! j) [0..<length data])"
      using "1.IH" [OF True] "1.prems" True \<open>i + base < length data\<close> by simp
    also have "\<dots> = Some (map (\<lambda>j. if base + i \<le> j \<and> j < base + n then v else data ! j) [0..<length data])"
      using True by (auto simp: nth_list_update)
    finally show ?thesis .
  next
    case False
    with "1.prems" have "i = n" by simp
    moreover have "map (\<lambda>j. if base + n \<le> j \<and> j < base + n then v else data ! j) [0..<length data] = data"
      by (rule nth_equalityI) auto
    ultimately show ?thesis by (subst bmp_fill.simps) simp
  qed
qed

lemma data_bit_fill:
  assumes "k < 8 * length data"
  shows "data_bit (map (\<lambda>j. if base \<le> j \<and> j < base + n then v else data ! j) [0..<length data]) k \<longleftrightarrow>
     (if 8 * base \<le> k \<and> k < 8 * (base + n) then bit v (k mod 8) else data_bit data k)"
proof -
  have "k div 8 < length data" using assms by auto
  moreover have "base \<le> k div 8 \<longleftrightarrow> 8 * base \<le> k" "k div 8 < base + n \<longleftrightarrow> k < 8 * (base + n)"
    by auto
  ultimately show ?thesis by (simp add: data_bit_def)
qed

lemma bmp_range_guard:
  assumes "bmp_ok b" and "0 < n" and "offset + n \<le> bmp_size b"
  shows "u32 (offset + u32 (n + ones32)) < bmp_size b"
proof -
  have "n < 2 ^ 32" "offset + (n - 1) < 2 ^ 32" using assms by (auto simp: bmp_ok_def)
  then have "u32 (offset + u32 (n + ones32)) = offset + (n - 1)"
    using assms(2) by (simp add: u32_add_ones u32_id)
  with assms show ?thesis by simp
qed

lemma split_byte_range:
  fixes A C r k :: nat
  shows "8 * A \<le> k \<and> k < 8 * A + (8 * C + r) \<longleftrightarrow>
     8 * A \<le> k \<and> k < 8 * (A + C) \<or> 8 * (C + A) \<le> k \<and> k < 8 * (C + A) + r"
  by auto

definition left_bits :: "nat \<Rightarrow> nat \<Rightarrow> nat" where
  "left_bits offset n =
     (if offset mod 8 \<noteq> 0 then (if n < 8 - offset mod 8 then n else 8 - offset mod 8) else 0)"

lemma left_bits_le: "offset mod 8 + left_bits offset n \<le> 8" "left_bits offset n \<le> n"
  by (auto simp: left_bits_def)

lemma left_bits_aligned:
  assumes "left_bits offset n < n"
  shows "8 * ((offset + left_bits offset n) div 8) = offset + left_bits offset n"
proof (cases "offset mod 8 = 0")
  case True
  then show ?thesis by (auto simp: left_bits_def)
next
  case False
  with assms have "offset + left_bits offset n = 8 * (offset div 8 + 1)"
    by (simp add: left_bits_def split: if_splits) presburger
  then show ?thesis by simp
qed

text \<open>
  A way to write a range of bits: \<open>apply_mask\<close> writes the value \<open>w\<close> under a mask and leaves the other
  bits of the byte, and \<open>full\<close> is the byte with \<open>w\<close> everywhere.
\<close>

locale range_writer =
  fixes apply_mask :: "byte \<Rightarrow> byte \<Rightarrow> byte" and full :: byte and w :: bool
  assumes apply_mask_bit: "j < 8 \<Longrightarrow> bit (apply_mask x m) j \<longleftrightarrow> (if bit m j then w else bit x j)"
    and full_bit: "j < 8 \<Longrightarrow> bit full j = w"
begin

lemma apply_mask_0: "apply_mask x 0 = x"
  by (rule bit_eqI) (simp add: apply_mask_bit)

lemma field_write:
  assumes "q < length data" and "m + i \<le> 8"
  shows "data_bit (data[q := apply_mask (data ! q) (push_bit m (mask i))]) k \<longleftrightarrow>
     (if 8 * q + m \<le> k \<and> k < 8 * q + m + i then w else data_bit data k)"
proof (cases "k div 8 = q")
  case True
  then have k: "k = 8 * q + k mod 8" "k mod 8 < 8" by (auto simp: mult.commute)
  have "bit (push_bit m (mask i) :: byte) (k mod 8) \<longleftrightarrow> m \<le> k mod 8 \<and> k mod 8 < m + i"
    using k(2) by (auto simp: bit_push_bit_iff bit_mask_iff)
  moreover have "8 * q + m \<le> k \<and> k < 8 * q + m + i \<longleftrightarrow> m \<le> k mod 8 \<and> k mod 8 < m + i"
    using k by linarith
  ultimately show ?thesis
    using True assms(1) k(2) by (simp add: data_bit_def apply_mask_bit)
next
  case False
  then have "\<not> (8 * q + m \<le> k \<and> k < 8 * q + m + i)"
    using assms(2) by auto
  with False show ?thesis by (auto simp: data_bit_def)
qed

lemma left_phase:
  assumes "offset div 8 < length data"
  shows "\<exists>data1. bmp_left apply_mask data offset n =
       Some (data1, offset + left_bits offset n, n - left_bits offset n) \<and>
     length data1 = length data \<and>
     (\<forall>k. data_bit data1 k \<longleftrightarrow>
        (if offset \<le> k \<and> k < offset + left_bits offset n then w else data_bit data k))"
proof -
  let ?i = "left_bits offset n"
  let ?data1 = "data[offset div 8 := apply_mask (data ! (offset div 8)) (push_bit (offset mod 8) (mask ?i))]"
  have "bmp_left apply_mask data offset n = Some (?data1, offset + ?i, n - ?i)"
    using assms by (auto simp: bmp_left_def left_bits_def Let_def apply_mask_0)
  moreover have "8 * (offset div 8) + offset mod 8 = offset" by simp
  note field_write [OF assms left_bits_le(1), unfolded this]
  ultimately show ?thesis by auto
qed

lemma fill_phase:
  assumes "base + n \<le> length data"
  shows "\<exists>data2. bmp_fill data base 0 n full = Some data2 \<and> length data2 = length data \<and>
     (\<forall>k < 8 * length data. data_bit data2 k \<longleftrightarrow>
        (if 8 * base \<le> k \<and> k < 8 * (base + n) then w else data_bit data k))"
  using bmp_fill_spec [OF assms, of 0 full] by (auto simp: data_bit_fill full_bit)

lemma right_phase:
  assumes "count mod 8 \<noteq> 0 \<Longrightarrow> count div 8 + off div 8 < length data"
  shows "\<exists>data3. bmp_right apply_mask data off count = Some data3 \<and> length data3 = length data \<and>
     (\<forall>k. data_bit data3 k \<longleftrightarrow>
        (if 8 * (count div 8 + off div 8) \<le> k \<and> k < 8 * (count div 8 + off div 8) + count mod 8
         then w else data_bit data k))"
  using field_write [of "count div 8 + off div 8" data 0 "count mod 8"] assms
  by (cases "count mod 8 = 0") (auto simp: bmp_right_def)

lemma range_op_data:
  assumes ok: "bmp_ok b" and n: "0 < n" and range: "offset + n \<le> bmp_size b"
  shows "\<exists>data. bmp_range_op apply_mask full b offset n = Some (b\<lparr>bmp_data := data\<rparr>) \<and>
     length data = bmp_bytes b \<and>
     (\<forall>k < 8 * bmp_bytes b. data_bit data k \<longleftrightarrow>
        (if offset \<le> k \<and> k < offset + n then w else data_bit (bmp_data b) k))"
proof -
  define i off count where "i = left_bits offset n" and "off = offset + i" and "count = n - i"
  have len: "length (bmp_data b) = bmp_bytes b" and bits: "bmp_size b \<le> 8 * bmp_bytes b"
    using ok by (auto simp: bmp_ok_def)
  have sum: "off + count = offset + n" "offset \<le> off" and al: "count = 0 \<or> 8 * (off div 8) = off"
    using left_bits_le(2) [of offset n] left_bits_aligned [of offset n]
    by (cases "left_bits offset n < n"; simp add: off_def count_def i_def)+
  have top: "off div 8 + count div 8 \<le> bmp_bytes b"
    using sum al range bits by linarith
  have last: "count div 8 + off div 8 < bmp_bytes b" if "count mod 8 \<noteq> 0"
  proof -
    from that have "8 * (off div 8) = off" using al by auto
    moreover have "8 * (count div 8) < count" using that by presburger
    ultimately show ?thesis using sum range bits by linarith
  qed
  obtain data1 where d1: "bmp_left apply_mask (bmp_data b) offset n = Some (data1, off, count)"
      "length data1 = bmp_bytes b"
      "\<And>k. data_bit data1 k \<longleftrightarrow> (if offset \<le> k \<and> k < off then w else data_bit (bmp_data b) k)"
    using left_phase [of offset "bmp_data b" n] bmp_ok_bytes [OF ok, of offset] n range len
    by (auto simp: off_def count_def i_def)
  obtain data2 where d2: "bmp_fill data1 (off div 8) 0 (count div 8) full = Some data2"
      "length data2 = bmp_bytes b"
      "\<And>k. k < 8 * bmp_bytes b \<Longrightarrow> data_bit data2 k \<longleftrightarrow>
        (if 8 * (off div 8) \<le> k \<and> k < 8 * (off div 8 + count div 8) then w else data_bit data1 k)"
    using fill_phase [of "off div 8" "count div 8" data1] top d1(2) by auto
  obtain data3 where d3: "bmp_right apply_mask data2 off count = Some data3"
      "length data3 = bmp_bytes b"
      "\<And>k. data_bit data3 k \<longleftrightarrow>
        (if 8 * (count div 8 + off div 8) \<le> k \<and> k < 8 * (count div 8 + off div 8) + count mod 8
         then w else data_bit data2 k)"
    using right_phase [of count off data2] last d2(2) by auto
  have "bmp_range_op apply_mask full b offset n = Some (b\<lparr>bmp_data := data3\<rparr>)"
    using bmp_range_guard [OF assms] by (simp add: bmp_range_op_def d1 d2 d3)
  moreover have "data_bit data3 k \<longleftrightarrow>
      (if offset \<le> k \<and> k < offset + n then w else data_bit (bmp_data b) k)"
    if "k < 8 * bmp_bytes b" for k
    using al
  proof
    assume "count = 0"
    with sum show ?thesis by (simp add: d3 d2(3) [OF that] d1)
  next
    assume al: "8 * (off div 8) = off"
    have "off \<le> k \<and> k < offset + n \<longleftrightarrow>
        off \<le> k \<and> k < 8 * (off div 8 + count div 8) \<or> 8 * (count div 8 + off div 8) \<le> k \<and>
        k < 8 * (count div 8 + off div 8) + count mod 8"
      using split_byte_range [where A = "off div 8" and C = "count div 8" and r = "count mod 8" and k = k] sum al by simp
    with sum al show ?thesis by (auto simp: d3 d2(3) [OF that] d1)
  qed
  ultimately show ?thesis using d3(2) by auto
qed

end

interpretation bset: range_writer "\<lambda>x m. x OR m" 255 True
proof unfold_locales
  show "bit (255 :: byte) j = True" if "j < 8" for j
    using byte_all_ones [OF refl that] by blast
qed (auto simp: bit_or_iff)

interpretation bunset: range_writer "\<lambda>x m. x AND NOT m" 0 False
  by unfold_locales (auto simp: bit_and_iff bit_not_iff)

section \<open>Correctness of the operations\<close>

lemma bmp_set_of_iff: "bmp_ok b \<Longrightarrow> k \<in> bmp_set_of b \<longleftrightarrow> k < bmp_size b \<and> data_bit (bmp_data b) k"
  by (simp add: bmp_set_of_def bmp_bit_def)

lemma bmp_upd_data:
  assumes "bmp_ok b" and "length data = bmp_bytes b"
    and "\<forall>k < 8 * bmp_bytes b. data_bit data k \<longleftrightarrow> P k"
  shows "bmp_ok (b\<lparr>bmp_data := data\<rparr>)"
    and "bmp_set_of (b\<lparr>bmp_data := data\<rparr>) = {k. k < bmp_size b \<and> P k}"
  using assms by (auto simp: bmp_ok_def bmp_set_of_def bmp_bit_def)

lemma bmp_set_spec:
  assumes ok: "bmp_ok b" and n: "0 < n" and range: "offset + n \<le> bmp_size b"
  shows "\<exists>b'. bmp_set b offset n = Some b' \<and> bmp_ok b' \<and> bmp_size b' = bmp_size b \<and>
     bmp_set_of b' = bmp_set_of b \<union> {offset..<offset + n} \<and>
     (bmp_pad_clear b \<longrightarrow> bmp_pad_clear b')"
proof -
  obtain data where d: "bmp_set b offset n = Some (b\<lparr>bmp_data := data\<rparr>)" "length data = bmp_bytes b"
      "\<forall>k < 8 * bmp_bytes b. data_bit data k \<longleftrightarrow>
         (if offset \<le> k \<and> k < offset + n then True else data_bit (bmp_data b) k)"
    using bset.range_op_data [OF assms] by (auto simp: bmp_set_def)
  note upd = bmp_upd_data [where P = "\<lambda>k. if offset \<le> k \<and> k < offset + n then True
      else data_bit (bmp_data b) k", OF ok d(2,3)]
  have "bmp_set_of (b\<lparr>bmp_data := data\<rparr>) = bmp_set_of b \<union> {offset..<offset + n}"
    unfolding upd(2) using range by (auto simp: bmp_set_of_def bmp_bit_def)
  moreover have "bmp_pad_clear b \<longrightarrow> bmp_pad_clear (b\<lparr>bmp_data := data\<rparr>)"
    using range by (auto simp: bmp_pad_clear_def bmp_bit_def d(3) [rule_format])
  ultimately show ?thesis using d(1) upd(1) by auto
qed

lemma bmp_unset_spec:
  assumes ok: "bmp_ok b" and n: "0 < n" and range: "offset + n \<le> bmp_size b"
  shows "\<exists>b'. bmp_unset b offset n = Some b' \<and> bmp_ok b' \<and> bmp_size b' = bmp_size b \<and>
     bmp_set_of b' = bmp_set_of b - {offset..<offset + n} \<and>
     (bmp_pad_clear b \<longrightarrow> bmp_pad_clear b')"
proof -
  obtain data where d: "bmp_unset b offset n = Some (b\<lparr>bmp_data := data\<rparr>)" "length data = bmp_bytes b"
      "\<forall>k < 8 * bmp_bytes b. data_bit data k \<longleftrightarrow>
         (if offset \<le> k \<and> k < offset + n then False else data_bit (bmp_data b) k)"
    using bunset.range_op_data [OF assms] by (auto simp: bmp_unset_def)
  note upd = bmp_upd_data [where P = "\<lambda>k. if offset \<le> k \<and> k < offset + n then False
      else data_bit (bmp_data b) k", OF ok d(2,3)]
  have "bmp_set_of (b\<lparr>bmp_data := data\<rparr>) = bmp_set_of b - {offset..<offset + n}"
    unfolding upd(2) using range by (auto simp: bmp_set_of_def bmp_bit_def)
  moreover have "bmp_pad_clear b \<longrightarrow> bmp_pad_clear (b\<lparr>bmp_data := data\<rparr>)"
    by (auto simp: bmp_pad_clear_def bmp_bit_def d(3) [rule_format])
  ultimately show ?thesis using d(1) upd(1) by auto
qed

lemma bmp_is_set_spec:
  assumes "bmp_ok b" and "k < bmp_size b"
  shows "\<exists>x. bmp_is_set b k = Some x \<and> (x \<noteq> 0 \<longleftrightarrow> k \<in> bmp_set_of b)"
  using assms bmp_ok_bytes [OF assms]
  by (auto simp: bmp_is_set_def bmp_ok_def bmp_set_of_def bmp_bit_def data_bit_def byte_bit_test)

lemma bmp_range_op_abort:
  assumes "bmp_size b < offset + n" and "0 < n" and "offset + n \<le> 2 ^ 32"
  shows "bmp_range_op f v b offset n = None"
proof -
  have "\<not> u32 (offset + u32 (n + ones32)) < bmp_size b"
  proof (cases "n = 2 ^ 32")
    case True
    then show ?thesis using assms by (simp add: u32_def ones32_def)
  next
    case False
    then have "n < 2 ^ 32" using assms(3) by simp
    then show ?thesis using assms by (simp add: u32_add_ones u32_id)
  qed
  then show ?thesis by (simp add: bmp_range_op_def)
qed

lemma bmp_init_clear_spec:
  assumes "elements < 2 ^ 31"
    and b_def: "b = bmp_clear (bmp_init junk elements)"
  shows "bmp_ok b" and "bmp_size b = elements" and "bmp_set_of b = {}" and "bmp_pad_clear b"
proof -
  have "u32 (elements + 7) = elements + 7" using assms(1) by (simp add: u32_id)
  then have bytes: "bmp_bytes b = (elements + 7) div 8" and size: "bmp_size b = elements"
    and data: "bmp_data b = replicate ((elements + 7) div 8) 0"
    by (simp_all add: b_def bmp_clear_def bmp_init_def Let_def)
  have "\<not> bmp_bit b k" if "k < 8 * bmp_bytes b" for k
  proof -
    have "k div 8 < (elements + 7) div 8" using that bytes by auto
    then show ?thesis by (simp add: bmp_bit_def data_bit_def data)
  qed
  then show "bmp_set_of b = {}" "bmp_pad_clear b"
    using bytes size by (fastforce simp: bmp_set_of_def bmp_pad_clear_def)+
  show "bmp_ok b" "bmp_size b = elements"
    using assms(1) by (simp_all add: bmp_ok_def bytes size data)
qed

lemmas bmp_loop_specs = bmp_contig_loop_spec bmp_find_loop_spec bmp_count_loop_spec

lemma bmp_ok_length: "bmp_ok b \<Longrightarrow> length (bmp_data b) = bmp_bytes b"
  by (simp add: bmp_ok_def)

lemma bmp_find_set_eq:
  "bmp_ok b \<Longrightarrow> bmp_find_set b offset = Some (find_int (bmp_bit b) [offset..<8 * bmp_bytes b])"
  by (simp add: bmp_find_set_def bmp_loop_specs bmp_ok_length)

lemma bmp_find_avail_eq:
  "bmp_ok b \<Longrightarrow>
     bmp_find_avail b offset = Some (find_int (\<lambda>k. \<not> bmp_bit b k) [offset..<8 * bmp_bytes b])"
  by (simp add: bmp_find_avail_def bmp_loop_specs bmp_ok_length)

lemma bmp_count_contig_eq:
  "bmp_ok b \<Longrightarrow> bmp_count_contig_set b offset =
     Some (length (takeWhile (bmp_bit b) [offset..<8 * bmp_bytes b]))"
  "bmp_ok b \<Longrightarrow> bmp_count_contig_avail b offset =
     Some (length (takeWhile (\<lambda>k. \<not> bmp_bit b k) [offset..<8 * bmp_bytes b]))"
  by (simp_all add: bmp_count_contig_set_def bmp_count_contig_avail_def bmp_loop_specs bmp_ok_length)

lemma find_int_upt:
  "find_int P [i..<n] = - 1 \<longleftrightarrow> (\<forall>k. i \<le> k \<and> k < n \<longrightarrow> \<not> P k)"
  "find_int P [i..<n] = int k \<longleftrightarrow> i \<le> k \<and> k < n \<and> P k \<and> (\<forall>j. i \<le> j \<and> j < k \<longrightarrow> \<not> P j)"
proof -
  show "find_int P [i..<n] = - 1 \<longleftrightarrow> (\<forall>k. i \<le> k \<and> k < n \<longrightarrow> \<not> P k)"
  proof -
    have "find_int P [i..<n] = - 1 \<longleftrightarrow> List.find P [i..<n] = None"
      by (simp add: find_int_def split: option.splits)
    then show ?thesis by (auto simp: find_None_iff)
  qed
  have "find_int P [i..<n] = int k \<longleftrightarrow> List.find P [i..<n] = Some k"
    by (auto simp: find_int_def split: option.splits)
  also have "\<dots> \<longleftrightarrow> i \<le> k \<and> k < n \<and> P k \<and> (\<forall>j. i \<le> j \<and> j < k \<longrightarrow> \<not> P j)"
  proof
    assume "List.find P [i..<n] = Some k"
    then obtain m where m: "m < n - i" "P (i + m)" "k = i + m" "\<And>j. j < m \<Longrightarrow> \<not> P (i + j)"
      by (auto simp: find_Some_iff)
    moreover have "\<not> P j" if "i \<le> j" "j < k" for j
      using m(4) [of "j - i"] that m(3) by simp
    ultimately show "i \<le> k \<and> k < n \<and> P k \<and> (\<forall>j. i \<le> j \<and> j < k \<longrightarrow> \<not> P j)"
      by auto
  next
    assume "i \<le> k \<and> k < n \<and> P k \<and> (\<forall>j. i \<le> j \<and> j < k \<longrightarrow> \<not> P j)"
    then show "List.find P [i..<n] = Some k"
      by (auto simp: find_Some_iff intro!: exI [of _ "k - i"])
  qed
  finally show "find_int P [i..<n] = int k \<longleftrightarrow> i \<le> k \<and> k < n \<and> P k \<and> (\<forall>j. i \<le> j \<and> j < k \<longrightarrow> \<not> P j)" .
qed

lemma takeWhile_upt:
  assumes "c = length (takeWhile P [i..<n])"
  shows "\<And>k. i \<le> k \<Longrightarrow> k < i + c \<Longrightarrow> P k" and "i + c < n \<Longrightarrow> \<not> P (i + c)" and "i \<le> n \<Longrightarrow> i + c \<le> n"
proof -
  have len: "c \<le> n - i"
    using length_takeWhile_le [of P "[i..<n]"] assms by simp
  show "P k" if "i \<le> k" "k < i + c" for k
  proof -
    have "k - i < length (takeWhile P [i..<n])" using that assms by simp
    then have "P (takeWhile P [i..<n] ! (k - i))" by (metis nth_mem set_takeWhileD)
    moreover have "takeWhile P [i..<n] ! (k - i) = k"
      using that len assms by (simp add: takeWhile_nth)
    ultimately show ?thesis by simp
  qed
  show "\<not> P (i + c)" if "i + c < n"
    using nth_length_takeWhile [of P "[i..<n]"] that assms by simp
  show "i + c \<le> n" if "i \<le> n" using that len by simp
qed

section \<open>First fit\<close>

definition bmp_free_run :: "bitmap \<Rightarrow> nat \<Rightarrow> nat \<Rightarrow> bool" where
  "bmp_free_run b l n \<longleftrightarrow> (\<forall>k. l \<le> k \<and> k < l + n \<longrightarrow> \<not> bmp_bit b k)"

lemma bmp_set_avail_bound:
  "bmp_ok b \<Longrightarrow> n \<le> bmp_size b \<Longrightarrow> 0 < n \<Longrightarrow> u32 (bmp_size b + 2 ^ 32 - n) = bmp_size b - n"
proof -
  assume a: "bmp_ok b" "n \<le> bmp_size b" "0 < n"
  then have "bmp_size b + 2 ^ 32 - n = (bmp_size b - n) + 2 ^ 32" by simp
  then have "u32 (bmp_size b + 2 ^ 32 - n) = (bmp_size b - n) mod 2 ^ 32"
    by (simp only: u32_def mod_add_self2)
  moreover have "bmp_size b - n < 2 ^ 32" using a(1) by (auto simp: bmp_ok_def)
  ultimately show ?thesis by simp
qed

lemma bmp_set_avail_loop_first_fit:
  assumes ok: "bmp_ok b" and n: "0 < n"
    and l: "l + n \<le> bmp_size b" "bmp_free_run b l n"
    and least: "\<And>l'. a \<le> l' \<Longrightarrow> l' < l \<Longrightarrow> \<not> bmp_free_run b l' n"
    and a: "a \<le> l"
  shows "bmp_set_avail_loop b a n = map_option (\<lambda>b'. (int l, b')) (bmp_set b l n)"
  using a least
proof (induction "l - a" arbitrary: a rule: less_induct)
  case less
  let ?top = "8 * bmp_bytes b"
  have top: "l + n \<le> ?top" using l(1) bmp_ok_bits [OF ok] by simp
  have "\<not> bmp_bit b l" using l(2) n by (simp add: bmp_free_run_def)
  then have "find_int (\<lambda>k. \<not> bmp_bit b k) [a..<?top] \<noteq> - 1"
    using top n less.prems(1) by (auto simp: find_int_upt)
  then obtain loc where "find_int (\<lambda>k. \<not> bmp_bit b k) [a..<?top] = int loc"
    by (auto simp: find_int_def split: option.splits)
  then have loc: "bmp_find_avail b a = Some (int loc)" "a \<le> loc" "loc < ?top" "\<not> bmp_bit b loc"
      "\<And>j. a \<le> j \<Longrightarrow> j < loc \<Longrightarrow> bmp_bit b j"
    using find_int_upt(2) [of "\<lambda>k. \<not> bmp_bit b k" a ?top loc] by (auto simp: bmp_find_avail_eq [OF ok])
  have "loc \<le> l" using loc(5) [of l] \<open>\<not> bmp_bit b l\<close> less.prems(1) by force
  define c where "c = length (takeWhile (\<lambda>k. \<not> bmp_bit b k) [loc..<?top])"
  have cnt: "bmp_count_contig_avail b loc = Some c" by (simp add: c_def bmp_count_contig_eq [OF ok])
  note run = takeWhile_upt [OF c_def]
  have "c \<noteq> 0" using run(2) loc(3,4) by (cases c) auto
  show ?case
  proof (cases "c < n")
    case False
    then have "bmp_free_run b loc n" using run(1) by (simp add: bmp_free_run_def)
    then have "loc = l" using less.prems(2) [of loc] loc(2) \<open>loc \<le> l\<close> by force
    with False loc(1) cnt show ?thesis
      by (subst bmp_set_avail_loop.simps) (simp add: map_conv_bind_option o_def)
  next
    case True
    have skip: "\<not> (a \<le> l' \<and> l' \<le> loc + c \<and> bmp_free_run b l' n \<and> l' + n \<le> ?top)" for l'
    proof
      assume h: "a \<le> l' \<and> l' \<le> loc + c \<and> bmp_free_run b l' n \<and> l' + n \<le> ?top"
      then have "loc \<le> l'" using loc(5) [of l'] n by (force simp: bmp_free_run_def)
      with h True have "loc + c < l' + n" by simp
      with h run(2) show False by (auto simp: bmp_free_run_def)
    qed
    then have "loc + c < l" using l(2) less.prems(1) top by (meson not_le)
    then have "bmp_set_avail_loop b a n = bmp_set_avail_loop b (loc + c) n"
      using loc(1) cnt True l(1) n bmp_set_avail_bound [OF ok, of n]
      by (subst bmp_set_avail_loop.simps) auto
    also have "\<dots> = map_option (\<lambda>b'. (int l, b')) (bmp_set b l n)"
    proof (rule less.hyps)
      show "l - (loc + c) < l - a" using \<open>c \<noteq> 0\<close> loc(2) \<open>loc + c < l\<close> by simp
      show "loc + c \<le> l" using \<open>loc + c < l\<close> by simp
      show "\<not> bmp_free_run b l' n" if "loc + c \<le> l'" "l' < l" for l'
        using less.prems(2) [of l'] that loc(2) by simp
    qed
    finally show ?thesis .
  qed
qed

section \<open>The interface the allocation cache uses\<close>

text \<open>
  A finite set of small naturals with single-element updates and a membership test: the contract
  \<open>choice.c\<close> relies on. Its clients are proved in the locale; the bitmap implements it.
\<close>

locale index_set =
  fixes invar :: "'b \<Rightarrow> bool" and cap :: "'b \<Rightarrow> nat" and abs :: "'b \<Rightarrow> nat set"
    and add1 :: "'b \<Rightarrow> nat \<Rightarrow> 'b option" and del1 :: "'b \<Rightarrow> nat \<Rightarrow> 'b option"
    and test :: "'b \<Rightarrow> nat \<Rightarrow> byte option"
  assumes add1_ok: "invar b \<Longrightarrow> k < cap b \<Longrightarrow>
      \<exists>b'. add1 b k = Some b' \<and> invar b' \<and> cap b' = cap b \<and> abs b' = insert k (abs b)"
    and del1_ok: "invar b \<Longrightarrow> k < cap b \<Longrightarrow>
      \<exists>b'. del1 b k = Some b' \<and> invar b' \<and> cap b' = cap b \<and> abs b' = abs b - {k}"
    and test_ok: "invar b \<Longrightarrow> k < cap b \<Longrightarrow> \<exists>x. test b k = Some x \<and> (x \<noteq> 0 \<longleftrightarrow> k \<in> abs b)"
begin

lemma add_then_test:
  assumes "invar b" and "k < cap b" and "j < cap b"
  shows "\<exists>b' x. add1 b k = Some b' \<and> test b' j = Some x \<and> (x \<noteq> 0 \<longleftrightarrow> j = k \<or> j \<in> abs b)"
  using add1_ok [OF assms(1,2)] test_ok assms(3) by force

lemma del_then_test:
  assumes "invar b" and "k < cap b" and "j < cap b"
  shows "\<exists>b' x. del1 b k = Some b' \<and> test b' j = Some x \<and> (x \<noteq> 0 \<longleftrightarrow> j \<noteq> k \<and> j \<in> abs b)"
  using del1_ok [OF assms(1,2)] test_ok assms(3) by force

end

definition bmp_invar :: "bitmap \<Rightarrow> bool" where
  "bmp_invar b \<longleftrightarrow> bmp_ok b \<and> bmp_pad_clear b"

interpretation bits: index_set bmp_invar bmp_size bmp_set_of
    "\<lambda>b k. bmp_set b k 1" "\<lambda>b k. bmp_unset b k 1" bmp_is_set
proof unfold_locales
  fix b k assume b: "bmp_invar b" "k < bmp_size b"
  then show "\<exists>b'. bmp_set b k 1 = Some b' \<and> bmp_invar b' \<and> bmp_size b' = bmp_size b \<and>
      bmp_set_of b' = insert k (bmp_set_of b)"
    using bmp_set_spec [of b 1 k] by (auto simp: bmp_invar_def)
  show "\<exists>b'. bmp_unset b k 1 = Some b' \<and> bmp_invar b' \<and> bmp_size b' = bmp_size b \<and>
      bmp_set_of b' = bmp_set_of b - {k}"
    using bmp_unset_spec [of b 1 k] b by (auto simp: bmp_invar_def)
  show "\<exists>x. bmp_is_set b k = Some x \<and> (x \<noteq> 0 \<longleftrightarrow> k \<in> bmp_set_of b)"
    using bmp_is_set_spec [of b k] b by (auto simp: bmp_invar_def)
qed

section \<open>Properties\<close>

text \<open>
  C34: setting a non-empty range inside the bitmap succeeds (every byte access is in bounds), keeps
  the bitmap well formed and its padding clear, and adds exactly the range to the set it stands for.
\<close>

theorem bmp_set_adds_range:
  assumes "bmp_invar b" and "0 < n" and "offset + n \<le> bmp_size b"
  shows "\<exists>b'. bmp_set b offset n = Some b' \<and> bmp_invar b' \<and> bmp_size b' = bmp_size b \<and>
     bmp_set_of b' = bmp_set_of b \<union> {offset..<offset + n}"
  using bmp_set_spec [OF _ assms(2,3)] assms(1) by (auto simp: bmp_invar_def)

definition demo_bmp :: bitmap where
  "demo_bmp = \<lparr>bmp_data = [0, 6, 0], bmp_bytes = 3, bmp_size = 20\<rparr>"

lemma demo_bmp_bits: "k < 24 \<Longrightarrow> bmp_bit demo_bmp k \<longleftrightarrow> k = 9 \<or> k = 10"
proof -
  have "\<forall>k \<in> set [0..<24]. bmp_bit demo_bmp k \<longleftrightarrow> k = 9 \<or> k = 10"
    by (simp add: demo_bmp_def bmp_bit_def data_bit_def upt_rec)
  then show "k < 24 \<Longrightarrow> ?thesis" by (metis atLeastLessThan_iff less_eq_nat.simps(1) set_upt)
qed

lemma demo_bmp_fields [simp]: "bmp_bytes demo_bmp = 3" "bmp_size demo_bmp = 20"
  by (simp_all add: demo_bmp_def)

lemma demo_bmp_invar: "bmp_invar demo_bmp"
  by (auto simp: bmp_invar_def bmp_pad_clear_def demo_bmp_bits) (simp add: bmp_ok_def demo_bmp_def)

theorem bmp_set_adds_range_witness:
  "\<exists>b'. bmp_set demo_bmp 3 14 = Some b' \<and> bmp_invar b' \<and> bmp_size b' = bmp_size demo_bmp \<and>
     bmp_set_of b' = bmp_set_of demo_bmp \<union> {3..<3 + 14}"
  by (rule bmp_set_adds_range [OF demo_bmp_invar]) (simp_all add: demo_bmp_def)

text \<open>
  Clearing a non-empty range inside the bitmap succeeds, keeps the bitmap well formed and removes
  exactly the range.
\<close>

theorem bmp_unset_removes_range:
  assumes "bmp_invar b" and "0 < n" and "offset + n \<le> bmp_size b"
  shows "\<exists>b'. bmp_unset b offset n = Some b' \<and> bmp_invar b' \<and> bmp_size b' = bmp_size b \<and>
     bmp_set_of b' = bmp_set_of b - {offset..<offset + n}"
  using bmp_unset_spec [OF _ assms(2,3)] assms(1) by (auto simp: bmp_invar_def)

theorem bmp_unset_removes_range_witness:
  "\<exists>b'. bmp_unset demo_bmp 3 14 = Some b' \<and> bmp_invar b' \<and> bmp_size b' = bmp_size demo_bmp \<and>
     bmp_set_of b' = bmp_set_of demo_bmp - {3..<3 + 14}"
  by (rule bmp_unset_removes_range [OF demo_bmp_invar]) (simp_all add: demo_bmp_def)

lemma bmp_bit_set_of:
  "bmp_invar b \<Longrightarrow> k < 8 * bmp_bytes b \<Longrightarrow> bmp_bit b k \<longleftrightarrow> k \<in> bmp_set_of b"
  by (auto simp: bmp_invar_def bmp_pad_clear_def bmp_set_of_def not_less [symmetric])

lemma bmp_set_searches:
  assumes "bmp_invar b" and "offset < bmp_size b"
  shows "bmp_get_set b offset = Some (- 1) \<longleftrightarrow> bmp_set_of b \<inter> {offset..} = {}"
    and "bmp_get_set b offset = Some (int k) \<longleftrightarrow>
           k \<in> bmp_set_of b \<and> offset \<le> k \<and> (\<forall>j \<in> bmp_set_of b. offset \<le> j \<longrightarrow> k \<le> j)"
    and "bmp_count_set b offset = Some (card (bmp_set_of b \<inter> {offset..}))"
proof -
  have ok: "bmp_ok b" using assms(1) by (simp add: bmp_invar_def)
  have sub: "j < 8 * bmp_bytes b" if "j \<in> bmp_set_of b" for j
    using that bmp_ok_bits [OF ok] by (simp add: bmp_set_of_def)
  have get: "bmp_get_set b offset = Some (find_int (bmp_bit b) [offset..<8 * bmp_bytes b])"
    using assms(2) by (simp add: bmp_get_set_def bmp_find_set_eq [OF ok])
  show "bmp_get_set b offset = Some (- 1) \<longleftrightarrow> bmp_set_of b \<inter> {offset..} = {}"
    using bmp_bit_set_of [OF assms(1)] sub by (auto simp: get find_int_upt)
  show "bmp_get_set b offset = Some (int k) \<longleftrightarrow>
      k \<in> bmp_set_of b \<and> offset \<le> k \<and> (\<forall>j \<in> bmp_set_of b. offset \<le> j \<longrightarrow> k \<le> j)"
    using bmp_bit_set_of [OF assms(1)] sub
    by (auto simp: get find_int_upt not_less [symmetric]) (meson less_trans not_less)+
  have "bmp_count_set b offset = Some (length (filter (bmp_bit b) [offset..<8 * bmp_bytes b]))"
    using assms(2) by (simp add: bmp_count_set_def bmp_count_loop_spec bmp_ok_length [OF ok])
  also have "length (filter (bmp_bit b) [offset..<8 * bmp_bytes b]) =
      card {k. bmp_bit b k \<and> offset \<le> k \<and> k < 8 * bmp_bytes b}"
    using distinct_card [of "filter (bmp_bit b) [offset..<8 * bmp_bytes b]"]
    by (simp add: conj_commute cong: conj_cong)
  also have "{k. bmp_bit b k \<and> offset \<le> k \<and> k < 8 * bmp_bytes b} = bmp_set_of b \<inter> {offset..}"
    using bmp_bit_set_of [OF assms(1)] sub by auto
  finally show "bmp_count_set b offset = Some (card (bmp_set_of b \<inter> {offset..}))" .
qed

text \<open>
  On a well-formed bitmap with clear padding the searches and counts of set bits are exact:
  \<open>bmp_get_set\<close> returns the least set index not below the offset, or -1 when there is none, and
  \<open>bmp_count_set\<close> returns how many set indices lie at or above the offset.
\<close>

theorem bmp_set_searches_exact:
  assumes "bmp_invar b" and "offset < bmp_size b"
  shows "(bmp_get_set b offset = Some (- 1) \<longleftrightarrow> bmp_set_of b \<inter> {offset..} = {}) \<and>
    (\<forall>k. bmp_get_set b offset = Some (int k) \<longleftrightarrow>
       k \<in> bmp_set_of b \<and> offset \<le> k \<and> (\<forall>j \<in> bmp_set_of b. offset \<le> j \<longrightarrow> k \<le> j)) \<and>
    bmp_count_set b offset = Some (card (bmp_set_of b \<inter> {offset..}))"
  using bmp_set_searches [OF assms] by blast

theorem bmp_set_searches_exact_witness:
  "(bmp_get_set demo_bmp 3 = Some (- 1) \<longleftrightarrow> bmp_set_of demo_bmp \<inter> {3..} = {}) \<and>
    (\<forall>k. bmp_get_set demo_bmp 3 = Some (int k) \<longleftrightarrow>
       k \<in> bmp_set_of demo_bmp \<and> 3 \<le> k \<and> (\<forall>j \<in> bmp_set_of demo_bmp. 3 \<le> j \<longrightarrow> k \<le> j)) \<and>
    bmp_count_set demo_bmp 3 = Some (card (bmp_set_of demo_bmp \<inter> {3..}))"
  by (rule bmp_set_searches_exact [OF demo_bmp_invar]) (simp add: demo_bmp_def)

text \<open>
  C14: \<open>bmp_set_avail\<close> is a first-fit allocator: when the significant bits at or above the offset hold
  a clear run of the wanted length, the call terminates, returns the start of the first such run and
  sets exactly that run.
\<close>

theorem bmp_set_avail_first_fit:
  assumes "bmp_invar b" and "0 < n" and "offset \<le> l" and "l + n \<le> bmp_size b"
    and "bmp_free_run b l n"
    and "\<And>l'. offset \<le> l' \<Longrightarrow> l' < l \<Longrightarrow> \<not> bmp_free_run b l' n"
  shows "\<exists>b'. bmp_set_avail b offset n = Some (int l, b') \<and> bmp_invar b' \<and>
     bmp_set_of b' = bmp_set_of b \<union> {l..<l + n}"
proof -
  have ok: "bmp_ok b" using assms(1) by (simp add: bmp_invar_def)
  have "bmp_set_avail b offset n = map_option (\<lambda>b'. (int l, b')) (bmp_set b l n)"
    using bmp_set_avail_loop_first_fit [OF ok assms(2,4,5,6,3)] assms(2,3,4)
    by (simp add: bmp_set_avail_def)
  then show ?thesis
    using bmp_set_spec [OF ok assms(2,4)] assms(1) by (auto simp: bmp_invar_def)
qed

theorem bmp_set_avail_first_fit_witness:
  "\<exists>b'. bmp_set_avail demo_bmp 9 5 = Some (int 11, b') \<and> bmp_invar b' \<and>
     bmp_set_of b' = bmp_set_of demo_bmp \<union> {11..<11 + 5}"
proof (rule bmp_set_avail_first_fit [OF demo_bmp_invar])
  show "bmp_free_run demo_bmp 11 5" by (auto simp: bmp_free_run_def demo_bmp_bits)
  show "\<not> bmp_free_run demo_bmp l' 5" if "9 \<le> l'" "l' < 11" for l'
    using that demo_bmp_bits [of 10] by (auto simp: bmp_free_run_def intro!: exI [of _ 10])
qed simp_all

text \<open>
  \<open>bmp_set_avail\<close> treats the padding of the last byte as available: when every significant bit
  from the offset on is taken and the padding is long enough, it aborts in the range check of
  \<open>bmp_set\<close> instead of returning -1.
\<close>

theorem bmp_set_avail_padding_aborts:
  assumes "bmp_invar b" and "0 < n" and "offset < bmp_size b"
    and "\<And>k. offset \<le> k \<Longrightarrow> k < bmp_size b \<Longrightarrow> k \<in> bmp_set_of b"
    and "bmp_size b + n \<le> 8 * bmp_bytes b"
  shows "bmp_set_avail b offset n = None"
proof -
  have ok: "bmp_ok b" using assms(1) by (simp add: bmp_invar_def)
  note bit = bmp_bit_set_of [OF assms(1)]
  have set: "bmp_bit b k" if "offset \<le> k" "k < bmp_size b" for k
    using assms(4) [OF that] by (simp add: bmp_set_of_def)
  have pad: "\<not> bmp_bit b k" if "bmp_size b \<le> k" "k < 8 * bmp_bytes b" for k
    using bit [OF that(2)] that(1) by (auto simp: bmp_set_of_def)
  have find: "bmp_find_avail b offset = Some (int (bmp_size b))"
    using set pad assms(2,3,5) by (auto simp: bmp_find_avail_eq [OF ok] find_int_upt)
  have "takeWhile (\<lambda>k. \<not> bmp_bit b k) [bmp_size b..<8 * bmp_bytes b] = [bmp_size b..<8 * bmp_bytes b]"
    using pad by (simp add: takeWhile_eq_all_conv)
  then have count: "bmp_count_contig_avail b (bmp_size b) = Some (8 * bmp_bytes b - bmp_size b)"
    by (simp only: bmp_count_contig_eq [OF ok] length_upt)
  have "bmp_set b (bmp_size b) n = None"
    using assms(2,5) ok unfolding bmp_set_def
    by (intro bmp_range_op_abort) (auto simp: bmp_ok_def)
  moreover have "\<not> 8 * bmp_bytes b - bmp_size b < n" using assms(5) by simp
  ultimately show ?thesis
    using assms(3) find count unfolding bmp_set_avail_def
    by (subst bmp_set_avail_loop.simps) simp
qed

definition full_bmp :: bitmap where
  "full_bmp = \<lparr>bmp_data = [15], bmp_bytes = 1, bmp_size = 4\<rparr>"

lemma full_bmp_bits: "k < 8 \<Longrightarrow> bmp_bit full_bmp k \<longleftrightarrow> k < 4"
proof -
  have "\<forall>k \<in> set [0..<8]. bmp_bit full_bmp k \<longleftrightarrow> k < 4"
    by (simp add: full_bmp_def bmp_bit_def data_bit_def upt_rec)
  then show "k < 8 \<Longrightarrow> ?thesis" by (metis atLeastLessThan_iff less_eq_nat.simps(1) set_upt)
qed

lemma full_bmp_fields [simp]: "bmp_bytes full_bmp = 1" "bmp_size full_bmp = 4"
  by (simp_all add: full_bmp_def)

theorem bmp_set_avail_padding_aborts_witness:
  "bmp_set_avail full_bmp 0 1 = None"
proof (rule bmp_set_avail_padding_aborts)
  show "bmp_invar full_bmp"
    by (auto simp: bmp_invar_def bmp_pad_clear_def full_bmp_bits) (simp add: bmp_ok_def full_bmp_def)
  show "k \<in> bmp_set_of full_bmp" if "0 \<le> k" "k < bmp_size full_bmp" for k
    using that full_bmp_bits [of k] by (simp add: bmp_set_of_def)
qed simp_all

end
