(* ===== verification/RtTypes.thy ===== *)
theory RtTypes
  imports Prelude
begin

text \<open>
  The data of the runtime: \<open>runtime.h\<close>, \<open>virt.h\<close>, \<open>type_info.h\<close>, \<open>log.h\<close>, \<open>io.h\<close>, \<open>rt-pread/cache.h\<close>
  and the event logs of \<open>hits.c\<close> and \<open>temporal.c\<close>.

  \<^item> \<open>env\<close> is the process state: the backing file, the block cache, the read and write logs, the
    statistics and exception flags of \<open>struct fsl_rt_ctx\<close>, and the heap of \<open>type_info\<close> and mapping
    objects. Heap objects live at addresses handed out by a bump allocator; a nullable pointer is an
    \<open>addr option\<close>.
  \<^item> The tables that the compiler generates for a file system (\<open>fsl_rt_table\<close>, the write packets) are
    not part of this repository's C code. They are parameters: lists of records whose function
    pointers are functions on \<open>env\<close>, because generated code calls back into the runtime. A pointer
    into such a table is an index into it.
  \<^item> Function pointers the runtime itself installs (I/O callbacks) are the constructors of
    \<open>fsl_io_callback\<close>.
\<close>

section \<open>Closures, statistics, exceptions\<close>

record fsl_rt_closure =
  clo_offset :: nat
  clo_params :: "nat list"
  clo_xlate :: "addr option"

datatype fsl_stat =
    FSL_STAT_ACCESS | FSL_STAT_PHYSACCESS | FSL_STAT_BITS_READ | FSL_STAT_XLATE_CALL
  | FSL_STAT_XLATE_ALLOC | FSL_STAT_COMPUTEARRAYBITS | FSL_STAT_TYPEINFO_ALLOC
  | FSL_STAT_COMPUTEARRAYBITS_LOOPS | FSL_STAT_WRITES | FSL_STAT_BITS_WRITTEN | FSL_STAT_XLATE_HIT
  | FSL_STAT_IOCACHE_MISS | FSL_STAT_IOCACHE_HIT | FSL_STAT_IOCACHE_DROP

record fsl_rt_except =
  ex_in_unsafe_op :: bool
  ex_err_unsafe_op :: int

section \<open>Block cache\<close>

definition FSL_IO_CACHE_ENTS :: nat where
  "FSL_IO_CACHE_ENTS = 512"

definition FSL_IO_CACHE_BYTES :: nat where
  "FSL_IO_CACHE_BYTES = 32"

definition FSL_IO_CACHE_BITS :: nat where
  "FSL_IO_CACHE_BITS = FSL_IO_CACHE_BYTES * 8"

record fsl_io_cache_ent =
  ce_addr :: nat
  ce_misses :: nat
  ce_hits :: nat
  ce_data :: "byte list"

record fsl_io_cache =
  ioc_misses :: nat
  ioc_hits :: nat
  ioc_ents :: "nat \<Rightarrow> fsl_io_cache_ent"

section \<open>Read and write logs, callbacks\<close>

definition IO_IDX_STOPPED :: int where
  "IO_IDX_STOPPED = - 2"

definition IO_MAX_ACCESS :: nat where
  "IO_MAX_ACCESS = 64"

text \<open>The three events that \<open>hits.c\<close> and \<open>temporal.c\<close> can record.\<close>

datatype log_ev = EvHit | EvMiss | EvWrite

datatype fsl_io_callback =
    CbRlog
  | CbIdentity
  | CbHits log_ev
  | CbTemporal log_ev

record fsl_rt_rlog =
  log_accessed :: "nat list"
  log_accessed_idx :: int
  log_next_cb :: "fsl_io_callback option"

record fsl_rt_wlog_ent =
  we_bit_addr :: nat
  we_val :: "64 word"
  we_bits :: nat

record fsl_rt_wlog =
  wl_write :: "fsl_rt_wlog_ent list"
  wl_idx :: int

record io_ev_log =
  ev_log :: "nat list option"
  ev_fname :: "string option"
  ev_cb_prev :: "fsl_io_callback option"

record cb_log =
  cl_buf :: "nat list"
  cl_buf_idx :: nat
  cl_file :: "nat list option"
  cl_cb_prev :: "fsl_io_callback option"

datatype io_cb_type = IO_CB_CACHE_HIT | IO_CB_CACHE_MISS | IO_CB_CACHE_ANY | IO_CB_WRITE

section \<open>Address spaces and type instances\<close>

definition VIRT_CACHE_ENTS :: nat where
  "VIRT_CACHE_ENTS = 8"

record fsl_virtc_ent =
  vc_idx :: nat
  vc_off :: nat

text \<open>
  \<open>rtm_virt\<close> points to a virtual type of the tables, given by the type number and the index in
  \<open>tt_virt\<close>. \<open>rtm_clo\<close> points to the closure inside the parent \<open>type_info\<close>, given by the address of
  that \<open>type_info\<close>.
\<close>

record fsl_rt_mapping =
  rtm_clo :: addr
  rtm_virt :: "nat \<times> nat"
  rtm_ref_c :: nat
  rtm_cached_minidx :: nat
  rtm_cached_maxidx :: nat
  rtm_cached_srcsz :: nat
  rtm_cache :: "nat \<Rightarrow> fsl_virtc_ent"

record type_desc =
  td_typenum :: nat
  td_clo :: fsl_rt_closure

datatype field_tab = TabStrong | TabFieldall | TabFieldtypes | TabField

type_synonym field_ref = "field_tab \<times> nat \<times> nat"

datatype iter_ref =
    IterPointsto nat nat
  | IterVirt nat nat
  | IterSel nat nat
  | IterChoice nat nat

record type_info =
  ti_td :: type_desc
  ti_prev :: "addr option"
  ti_ref_c :: nat
  ti_print_name :: "string option"
  ti_print_idxval :: nat
  ti_field :: "field_ref option"
  ti_virt :: "(nat \<times> nat) option"
  ti_points :: "(nat \<times> nat) option"
  ti_iter :: "iter_ref option"
  ti_flag :: nat
  ti_depth :: nat

section \<open>The process state\<close>

text \<open>
  \<open>io_slop\<close> is the memory behind a cache line: the wide loads of the cache may run past the end of the
  line, and nothing is assumed about the bytes they pick up there.
\<close>

record env =
  disk :: "byte list"
  iop_cache :: fsl_io_cache
  io_slop :: "byte list"
  io_cb :: "io_cb_type \<Rightarrow> fsl_io_callback option"
  io_rlog :: fsl_rt_rlog
  io_wlog :: fsl_rt_wlog
  io_blksize :: nat
  io_blk_c :: nat
  fctx_stat :: "fsl_stat \<Rightarrow> nat"
  fctx_except :: fsl_rt_except
  fctx_failed_assert :: "string option"
  fsl_mode :: int
  bdev_bytes :: nat
  memotab :: "nat list"
  h_ti :: "addr \<Rightarrow> type_info option"
  h_rtm :: "addr \<Rightarrow> fsl_rt_mapping option"
  h_next :: addr
  hits_log :: "log_ev \<Rightarrow> io_ev_log"
  temporal_log :: "log_ev \<Rightarrow> cb_log"

type_synonym 'a rt = "env \<Rightarrow> ('a \<times> env) option"

definition FSL_MODE_BIGENDIAN :: int where
  "FSL_MODE_BIGENDIAN = 1"

definition FSL_MODE_LITTLEENDIAN :: int where
  "FSL_MODE_LITTLEENDIAN = 0"

definition stats_add :: "fsl_stat \<Rightarrow> nat \<Rightarrow> env \<Rightarrow> env" where
  "stats_add s n e = e\<lparr>fctx_stat := (fctx_stat e)(s := u64 (fctx_stat e s + n))\<rparr>"

definition stats_inc :: "fsl_stat \<Rightarrow> env \<Rightarrow> env" where
  "stats_inc s e = stats_add s 1 e"

lemma stats_sel [simp]:
  "disk (stats_add s n e) = disk e" "disk (stats_inc s e) = disk e"
  "iop_cache (stats_add s n e) = iop_cache e" "iop_cache (stats_inc s e) = iop_cache e"
  "io_slop (stats_add s n e) = io_slop e" "io_slop (stats_inc s e) = io_slop e"
  "io_cb (stats_add s n e) = io_cb e" "io_cb (stats_inc s e) = io_cb e"
  "io_rlog (stats_add s n e) = io_rlog e" "io_rlog (stats_inc s e) = io_rlog e"
  "io_wlog (stats_add s n e) = io_wlog e" "io_wlog (stats_inc s e) = io_wlog e"
  "io_blksize (stats_add s n e) = io_blksize e" "io_blksize (stats_inc s e) = io_blksize e"
  "io_blk_c (stats_add s n e) = io_blk_c e" "io_blk_c (stats_inc s e) = io_blk_c e"
  "fctx_except (stats_add s n e) = fctx_except e" "fctx_except (stats_inc s e) = fctx_except e"
  "fctx_failed_assert (stats_add s n e) = fctx_failed_assert e" "fctx_failed_assert (stats_inc s e) = fctx_failed_assert e"
  "fsl_mode (stats_add s n e) = fsl_mode e" "fsl_mode (stats_inc s e) = fsl_mode e"
  "bdev_bytes (stats_add s n e) = bdev_bytes e" "bdev_bytes (stats_inc s e) = bdev_bytes e"
  "memotab (stats_add s n e) = memotab e" "memotab (stats_inc s e) = memotab e"
  "h_ti (stats_add s n e) = h_ti e" "h_ti (stats_inc s e) = h_ti e"
  "h_rtm (stats_add s n e) = h_rtm e" "h_rtm (stats_inc s e) = h_rtm e"
  "h_next (stats_add s n e) = h_next e" "h_next (stats_inc s e) = h_next e"
  "hits_log (stats_add s n e) = hits_log e" "hits_log (stats_inc s e) = hits_log e"
  "temporal_log (stats_add s n e) = temporal_log e" "temporal_log (stats_inc s e) = temporal_log e"
  by (simp_all add: stats_add_def stats_inc_def)

definition TYPENUM_INVALID :: nat where
  "TYPENUM_INVALID = ones32"

definition OFFSET_INVALID :: nat where
  "OFFSET_INVALID = ones64"

definition OFFSET_EOF :: nat where
  "OFFSET_EOF = ones64 - 1"

definition offset_is_bad :: "nat \<Rightarrow> bool" where
  "offset_is_bad x \<longleftrightarrow> x \<ge> OFFSET_EOF"

definition offset_in_range :: "env \<Rightarrow> nat \<Rightarrow> bool" where
  "offset_in_range e x \<longleftrightarrow> x < u64 (bdev_bytes e * 8)"

section \<open>Generated tables\<close>

record fsl_rt_iter =
  it_type_dst :: nat
  it_range :: "fsl_rt_closure \<Rightarrow> nat \<Rightarrow> (nat \<times> nat list \<times> addr option) rt"
  it_min :: "fsl_rt_closure \<Rightarrow> nat rt"
  it_max :: "fsl_rt_closure \<Rightarrow> nat rt"

definition iter_is_ok :: "fsl_rt_iter \<Rightarrow> fsl_rt_closure \<Rightarrow> bool rt" where
  "iter_is_ok it clo e = do {
     (mn, e) \<leftarrow> it_min it clo e;
     if mn = ones64 then Some (False, e)
     else do {
       (mx, e) \<leftarrow> it_max it clo e;
       if mx < mn then Some (False, e) else Some (True, e)
     }
   }"

definition FIELD_FL_CONSTSIZE :: nat where
  "FIELD_FL_CONSTSIZE = 1"

definition FIELD_FL_FIXED :: nat where
  "FIELD_FL_FIXED = 2"

definition FIELD_FL_NOFOLLOW :: nat where
  "FIELD_FL_NOFOLLOW = 4"

text \<open>\<open>tf_typesize\<close> takes a nullable closure pointer: \<open>ti_size\<close> passes \<open>NULL\<close>.\<close>

record fsl_rtt_field =
  tf_fieldname :: string
  tf_typenum :: nat
  tf_flags :: nat
  tf_fieldbitoff :: "fsl_rt_closure \<Rightarrow> nat rt"
  tf_elemcount :: "fsl_rt_closure \<Rightarrow> nat rt"
  tf_typesize :: "fsl_rt_closure option \<Rightarrow> nat rt"
  tf_cond :: "(fsl_rt_closure \<Rightarrow> bool rt) option"
  tf_params :: "fsl_rt_closure \<Rightarrow> nat \<Rightarrow> nat list rt"
  tf_fieldnum :: nat

record fsl_rtt_pointsto =
  pt_iter :: fsl_rt_iter
  pt_name :: "string option"

record fsl_rtt_virt =
  vt_type_virttype :: nat
  vt_iter :: fsl_rt_iter
  vt_name :: "string option"

record fsl_rtt_assert =
  as_assertf :: "fsl_rt_closure \<Rightarrow> bool rt"
  as_name :: "string option"

text \<open>Write packets refer to each other by their index in the table of packets.\<close>

record fsl_rtt_wpkt2wpkt =
  w2w_params_f :: "nat list \<Rightarrow> nat list rt"
  w2w_cond_f :: "nat list \<Rightarrow> bool rt"
  w2w_wpkt :: nat

record fsl_rtt_wpkt =
  wpkt_param_c :: nat
  wpkt_funcs :: "(nat list \<Rightarrow> unit rt) list"
  wpkt_calls :: "fsl_rtt_wpkt2wpkt list"
  wpkt_blks :: "nat option"
  wpkt_next :: "nat option"

record fsl_rtt_wpkt_inst =
  wpi_params :: "fsl_rt_closure \<Rightarrow> nat list \<Rightarrow> nat list rt"
  wpi_wpkt :: nat

record fsl_rtt_reloc =
  rel_sel :: fsl_rt_iter
  rel_choice :: fsl_rt_iter
  rel_ccond :: "fsl_rt_closure \<Rightarrow> nat \<Rightarrow> bool rt"
  rel_alloc :: fsl_rtt_wpkt_inst
  rel_replace :: fsl_rtt_wpkt_inst
  rel_relink :: fsl_rtt_wpkt_inst
  rel_name :: "string option"

record fsl_rtt_repair =
  rep_cond :: "fsl_rt_closure \<Rightarrow> bool rt"
  rep_wpkt :: fsl_rtt_wpkt_inst
  rep_name :: "string option"

record fsl_rtt_type =
  tt_name :: string
  tt_param_c :: nat
  tt_size :: "fsl_rt_closure \<Rightarrow> nat rt"
  tt_fieldstrong :: "fsl_rtt_field list"
  tt_fieldall_thunkoff :: "fsl_rtt_field list"
  tt_fieldtypes_thunkoff :: "fsl_rtt_field list"
  tt_field_table :: "fsl_rtt_field list"
  tt_pointsto :: "fsl_rtt_pointsto list"
  tt_assert :: "fsl_rtt_assert list"
  tt_virt :: "fsl_rtt_virt list"
  tt_reloc :: "fsl_rtt_reloc list"
  tt_repair :: "fsl_rtt_repair list"

record fsl_memo =
  m_fprim :: "nat rt"
  m_ftype :: "nat list rt"
  m_typenum :: nat
  m_tabidx :: nat

record fsl_tables =
  fsl_rt_table :: "fsl_rtt_type list"
  fsl_wpkts :: "fsl_rtt_wpkt list"
  fsl_rt_origin_typenum :: nat
  fsl_memotab_funcs :: "fsl_memo list"

section \<open>Dereferencing table pointers\<close>

definition tt_by_num :: "fsl_tables \<Rightarrow> nat \<Rightarrow> fsl_rtt_type option" where
  "tt_by_num T n = get_at (fsl_rt_table T) n"

fun field_tab_of :: "field_tab \<Rightarrow> fsl_rtt_type \<Rightarrow> fsl_rtt_field list" where
  "field_tab_of TabStrong tt = tt_fieldstrong tt"
| "field_tab_of TabFieldall tt = tt_fieldall_thunkoff tt"
| "field_tab_of TabFieldtypes tt = tt_fieldtypes_thunkoff tt"
| "field_tab_of TabField tt = tt_field_table tt"

fun field_by_ref :: "fsl_tables \<Rightarrow> field_ref \<Rightarrow> fsl_rtt_field option" where
  "field_by_ref T (tab, n, i) = do { tt \<leftarrow> tt_by_num T n; get_at (field_tab_of tab tt) i }"

fun virt_by_ref :: "fsl_tables \<Rightarrow> nat \<times> nat \<Rightarrow> fsl_rtt_virt option" where
  "virt_by_ref T (n, i) = do { tt \<leftarrow> tt_by_num T n; get_at (tt_virt tt) i }"

fun points_by_ref :: "fsl_tables \<Rightarrow> nat \<times> nat \<Rightarrow> fsl_rtt_pointsto option" where
  "points_by_ref T (n, i) = do { tt \<leftarrow> tt_by_num T n; get_at (tt_pointsto tt) i }"

fun iter_by_ref :: "fsl_tables \<Rightarrow> iter_ref \<Rightarrow> fsl_rt_iter option" where
  "iter_by_ref T (IterPointsto n i) = map_option pt_iter (points_by_ref T (n, i))"
| "iter_by_ref T (IterVirt n i) = map_option vt_iter (virt_by_ref T (n, i))"
| "iter_by_ref T (IterSel n i) =
     do { tt \<leftarrow> tt_by_num T n; rel \<leftarrow> get_at (tt_reloc tt) i; Some (rel_sel rel) }"
| "iter_by_ref T (IterChoice n i) =
     do { tt \<leftarrow> tt_by_num T n; rel \<leftarrow> get_at (tt_reloc tt) i; Some (rel_choice rel) }"

section \<open>Heap accesses\<close>

definition ti_at :: "env \<Rightarrow> addr \<Rightarrow> type_info option" where
  "ti_at e a = h_ti e a"

definition rtm_at :: "env \<Rightarrow> addr \<Rightarrow> fsl_rt_mapping option" where
  "rtm_at e a = h_rtm e a"

definition put_ti :: "addr \<Rightarrow> type_info \<Rightarrow> env \<Rightarrow> env" where
  "put_ti a ti e = e\<lparr>h_ti := (h_ti e)(a \<mapsto> ti)\<rparr>"

definition put_rtm :: "addr \<Rightarrow> fsl_rt_mapping \<Rightarrow> env \<Rightarrow> env" where
  "put_rtm a rtm e = e\<lparr>h_rtm := (h_rtm e)(a \<mapsto> rtm)\<rparr>"

definition free_ti :: "addr \<Rightarrow> env \<Rightarrow> env" where
  "free_ti a e = e\<lparr>h_ti := (h_ti e)(a := None)\<rparr>"

definition free_rtm :: "addr \<Rightarrow> env \<Rightarrow> env" where
  "free_rtm a e = e\<lparr>h_rtm := (h_rtm e)(a := None)\<rparr>"

definition ti_clo :: "type_info \<Rightarrow> fsl_rt_closure" where
  "ti_clo ti = td_clo (ti_td ti)"

definition ti_typenum :: "type_info \<Rightarrow> nat" where
  "ti_typenum ti = td_typenum (ti_td ti)"

definition ti_offset :: "type_info \<Rightarrow> nat" where
  "ti_offset ti = clo_offset (ti_clo ti)"

definition ti_xlate :: "type_info \<Rightarrow> addr option" where
  "ti_xlate ti = clo_xlate (ti_clo ti)"

definition set_ti_xlate :: "addr option \<Rightarrow> type_info \<Rightarrow> type_info" where
  "set_ti_xlate x ti = ti\<lparr>ti_td := (ti_td ti)\<lparr>td_clo := (ti_clo ti)\<lparr>clo_xlate := x\<rparr>\<rparr>\<rparr>"

definition set_ti_offset :: "nat \<Rightarrow> type_info \<Rightarrow> type_info" where
  "set_ti_offset off ti = ti\<lparr>ti_td := (ti_td ti)\<lparr>td_clo := (ti_clo ti)\<lparr>clo_offset := off\<rparr>\<rparr>\<rparr>"

lemmas ti_sel_defs = ti_clo_def ti_typenum_def ti_offset_def ti_xlate_def set_ti_xlate_def set_ti_offset_def

section \<open>A process before any input is opened\<close>

text \<open>A state for concrete evaluations: empty disk, empty heap, nothing hooked, both logs stopped.\<close>

definition blank_env :: env where
  "blank_env = \<lparr>disk = [], iop_cache = \<lparr>ioc_misses = 0, ioc_hits = 0,
       ioc_ents = (\<lambda>_. \<lparr>ce_addr = ones64, ce_misses = 0, ce_hits = 0, ce_data = replicate 32 0\<rparr>)\<rparr>,
     io_slop = [], io_cb = (\<lambda>_. None),
     io_rlog = \<lparr>log_accessed = replicate 64 0, log_accessed_idx = - 2, log_next_cb = None\<rparr>,
     io_wlog = \<lparr>wl_write = replicate 64 \<lparr>we_bit_addr = 0, we_val = 0, we_bits = 0\<rparr>, wl_idx = - 1\<rparr>,
     io_blksize = 4096, io_blk_c = 0, fctx_stat = (\<lambda>_. 0),
     fctx_except = \<lparr>ex_in_unsafe_op = False, ex_err_unsafe_op = 0\<rparr>, fctx_failed_assert = None,
     fsl_mode = FSL_MODE_LITTLEENDIAN, bdev_bytes = 0, memotab = [], h_ti = (\<lambda>_. None), h_rtm = (\<lambda>_. None), h_next = 0,
     hits_log = (\<lambda>_. \<lparr>ev_log = None, ev_fname = None, ev_cb_prev = None\<rparr>),
     temporal_log = (\<lambda>_. \<lparr>cl_buf = replicate 4096 0, cl_buf_idx = 0, cl_file = None, cl_cb_prev = None\<rparr>)\<rparr>"

end
