(* ===== verification/Choice.thy ===== *)
theory Choice
  imports Bitmap RtTypes
begin

text \<open>
  The cache of relocation choices of \<open>src/runtime/choice.c\<close> and the accessor macros of \<open>choice.h\<close>:
  a bitmap over the interval of choice numbers in which a set bit means that the choice is free.
\<close>

record choice_cache =
  cc_bmp :: bitmap
  cc_min :: nat
  cc_max :: nat

section \<open>Operations\<close>

text \<open>
  \<open>choice_rebase\<close> subtracts in 64 bits; the result is passed to an \<open>unsigned int\<close> parameter.
\<close>

definition choice_rebase :: "choice_cache \<Rightarrow> nat \<Rightarrow> nat" where
  "choice_rebase cc y = u32 (u64 (y + 2 ^ 64 - cc_min cc))"

definition choice_mark_alloc :: "choice_cache \<Rightarrow> nat \<Rightarrow> choice_cache option" where
  "choice_mark_alloc cc y = do {
     b \<leftarrow> bmp_unset (cc_bmp cc) (choice_rebase cc y) 1;
     Some (cc\<lparr>cc_bmp := b\<rparr>)
   }"

definition choice_mark_free :: "choice_cache \<Rightarrow> nat \<Rightarrow> choice_cache option" where
  "choice_mark_free cc y = do {
     b \<leftarrow> bmp_set (cc_bmp cc) (choice_rebase cc y) 1;
     Some (cc\<lparr>cc_bmp := b\<rparr>)
   }"

definition choice_is_free :: "choice_cache \<Rightarrow> nat \<Rightarrow> bool option" where
  "choice_is_free cc y = do {
     x \<leftarrow> bmp_is_set (cc_bmp cc) (choice_rebase cc y);
     Some (x \<noteq> 0)
   }"

definition choice_is_alloc :: "choice_cache \<Rightarrow> nat \<Rightarrow> bool option" where
  "choice_is_alloc cc y = do {
     f \<leftarrow> choice_is_free cc y;
     Some (\<not> f)
   }"

text \<open>The loading loop of \<open>choice_alloc\<close>: the 64-bit counter wraps like the C one.\<close>

partial_function (option) choice_load ::
  "type_info \<Rightarrow> fsl_rtt_reloc \<Rightarrow> nat \<Rightarrow> nat \<Rightarrow> choice_cache \<Rightarrow> env \<Rightarrow> (choice_cache \<times> env) option" where
  "choice_load ti rel cur mx cc e =
     (if cur \<le> mx then do {
        (c_ok, e) \<leftarrow> rel_ccond rel (ti_clo ti) cur e;
        cc \<leftarrow> (if c_ok then choice_mark_free cc cur else Some cc);
        choice_load ti rel (u64 (cur + 1)) mx cc e
      } else Some (cc, e))"

definition choice_alloc ::
  "(nat \<Rightarrow> byte) \<Rightarrow> type_info \<Rightarrow> fsl_rtt_reloc \<Rightarrow> choice_cache option rt" where
  "choice_alloc junk ti rel e = do {
     (mn, e) \<leftarrow> it_min (rel_choice rel) (ti_clo ti) e;
     (mx, e) \<leftarrow> it_max (rel_choice rel) (ti_clo ti) e;
     if mx < mn then Some (None, e)
     else do {
       let bmp = bmp_clear (bmp_init junk (u32 (u32 (u32 mx + 2 ^ 32 - u32 mn) + 1)));
       (cc, e) \<leftarrow> choice_load ti rel mn mx \<lparr>cc_bmp = bmp, cc_min = u32 mn, cc_max = u32 mx\<rparr> e;
       Some (Some cc, e)
     }
   }"

partial_function (option) choice_find_loop :: "choice_cache \<Rightarrow> nat \<Rightarrow> nat \<Rightarrow> int option" where
  "choice_find_loop cc cur min_count = do {
     x \<leftarrow> bmp_is_set (cc_bmp cc) cur;
     found_bits \<leftarrow> (if x \<noteq> 0 then bmp_count_contig_set (cc_bmp cc) cur
                    else bmp_count_contig_avail (cc_bmp cc) cur);
     if x \<noteq> 0 \<and> found_bits \<ge> min_count then Some (int (cur + cc_min cc))
     else if cur + found_bits < bmp_size (cc_bmp cc)
       then choice_find_loop cc (cur + found_bits) min_count
     else Some (- 1)
   }"

definition choice_find_avail :: "choice_cache \<Rightarrow> nat \<Rightarrow> nat \<Rightarrow> int option" where
  "choice_find_avail cc offset min_count = do {
     assert_c (offset \<ge> cc_min cc);
     assert_c (offset \<le> cc_max cc);
     choice_find_loop cc (offset - cc_min cc) min_count
   }"

text \<open>\<open>choice_dump\<close> prints one line per maximal extent; the model returns the printed extents.\<close>

function choice_dump_loop ::
  "choice_cache \<Rightarrow> nat \<Rightarrow> nat \<Rightarrow> bool \<Rightarrow> (bool \<times> nat \<times> nat) list option" where
  "choice_dump_loop cc cur ext_start was_last_free =
     (if cur \<le> cc_max cc then do {
        is_cur_free \<leftarrow> choice_is_free cc cur;
        if is_cur_free \<noteq> was_last_free then do {
          rest \<leftarrow> choice_dump_loop cc (cur + 1) cur is_cur_free;
          Some ((was_last_free, ext_start, cur - 1) # rest)
        } else choice_dump_loop cc (cur + 1) ext_start was_last_free
      } else Some [(was_last_free, ext_start, cur - 1)])"
  by pat_completeness auto
termination
  by (relation "measure (\<lambda>(cc, cur, ext_start, was_last_free). Suc (cc_max cc) - cur)") auto

declare choice_dump_loop.simps [simp del]

definition choice_dump :: "choice_cache \<Rightarrow> (bool \<times> nat \<times> nat) list option" where
  "choice_dump cc = do {
     was_last_free \<leftarrow> choice_is_free cc (cc_min cc);
     choice_dump_loop cc (cc_min cc + 1) (cc_min cc) was_last_free
   }"

section \<open>Well-formedness and the abstract view\<close>

definition choice_ok :: "choice_cache \<Rightarrow> bool" where
  "choice_ok cc \<longleftrightarrow> bmp_invar (cc_bmp cc) \<and> cc_min cc \<le> cc_max cc \<and> cc_max cc < 2 ^ 31 - 1 \<and>
     bmp_size (cc_bmp cc) = cc_max cc - cc_min cc + 1"

definition choice_free_set :: "choice_cache \<Rightarrow> nat set" where
  "choice_free_set cc = {y. cc_min cc \<le> y \<and> y - cc_min cc \<in> bmp_set_of (cc_bmp cc)}"

lemma choice_free_set_bounds:
  "choice_ok cc \<Longrightarrow> y \<in> choice_free_set cc \<Longrightarrow> cc_min cc \<le> y \<and> y \<le> cc_max cc"
  by (auto simp: choice_ok_def choice_free_set_def bmp_set_of_def)

lemma choice_rebase_eq:
  assumes "cc_min cc \<le> y" and "y < 2 ^ 31"
  shows "choice_rebase cc y = y - cc_min cc"
proof -
  have "y + 2 ^ 64 - cc_min cc = (y - cc_min cc) + 2 ^ 64" using assms by simp
  then have "u64 (y + 2 ^ 64 - cc_min cc) = (y - cc_min cc) mod 2 ^ 64"
    by (simp only: u64_def mod_add_self2)
  moreover have "y - cc_min cc < 2 ^ 31" using assms by simp
  ultimately show ?thesis by (simp add: choice_rebase_def u32_def)
qed

lemma choice_mark_spec:
  assumes ok: "choice_ok cc" and y: "cc_min cc \<le> y" "y \<le> cc_max cc"
  shows "\<exists>cc'. choice_mark_free cc y = Some cc' \<and> choice_ok cc' \<and> cc_min cc' = cc_min cc \<and>
      cc_max cc' = cc_max cc \<and> choice_free_set cc' = insert y (choice_free_set cc)"
    and "\<exists>cc'. choice_mark_alloc cc y = Some cc' \<and> choice_ok cc' \<and> cc_min cc' = cc_min cc \<and>
      cc_max cc' = cc_max cc \<and> choice_free_set cc' = choice_free_set cc - {y}"
proof -
  have reb: "choice_rebase cc y = y - cc_min cc" using choice_rebase_eq [of cc y] ok y
    by (simp add: choice_ok_def)
  have k: "bmp_invar (cc_bmp cc)" "y - cc_min cc < bmp_size (cc_bmp cc)"
    using ok y by (auto simp: choice_ok_def)
  show "\<exists>cc'. choice_mark_free cc y = Some cc' \<and> choice_ok cc' \<and> cc_min cc' = cc_min cc \<and>
      cc_max cc' = cc_max cc \<and> choice_free_set cc' = insert y (choice_free_set cc)"
    using bits.add1_ok [OF k] ok y
    by (fastforce simp: choice_mark_free_def reb choice_ok_def choice_free_set_def)
  show "\<exists>cc'. choice_mark_alloc cc y = Some cc' \<and> choice_ok cc' \<and> cc_min cc' = cc_min cc \<and>
      cc_max cc' = cc_max cc \<and> choice_free_set cc' = choice_free_set cc - {y}"
    using bits.del1_ok [OF k] ok y
    by (fastforce simp: choice_mark_alloc_def reb choice_ok_def choice_free_set_def)
qed

lemma choice_is_free_spec:
  assumes "choice_ok cc" and "cc_min cc \<le> y" and "y \<le> cc_max cc"
  shows "choice_is_free cc y = Some (y \<in> choice_free_set cc)"
proof -
  have "choice_rebase cc y = y - cc_min cc" using choice_rebase_eq [of cc y] assms
    by (simp add: choice_ok_def)
  moreover have "\<exists>x. bmp_is_set (cc_bmp cc) (y - cc_min cc) = Some x \<and>
      (x \<noteq> 0 \<longleftrightarrow> y - cc_min cc \<in> bmp_set_of (cc_bmp cc))"
    using assms by (intro bits.test_ok) (auto simp: choice_ok_def)
  ultimately show ?thesis using assms(2) by (auto simp: choice_is_free_def choice_free_set_def)
qed

section \<open>Searching for free choices\<close>

text \<open>In bitmap coordinates: \<open>l\<close> starts a run of \<open>n\<close> free choices.\<close>

definition bmp_set_run :: "bitmap \<Rightarrow> nat \<Rightarrow> nat \<Rightarrow> bool" where
  "bmp_set_run b l n \<longleftrightarrow> {l..<l + n} \<subseteq> bmp_set_of b"

lemma bmp_set_run_head: "bmp_set_run b l n \<Longrightarrow> 0 < n \<Longrightarrow> l \<in> bmp_set_of b"
  unfolding bmp_set_run_def by (erule subsetD) simp

definition least_from :: "(nat \<Rightarrow> bool) \<Rightarrow> nat \<Rightarrow> nat \<Rightarrow> bool" where
  "least_from P i l \<longleftrightarrow> i \<le> l \<and> P l \<and> (\<forall>j. i \<le> j \<and> j < l \<longrightarrow> \<not> P j)"

lemma least_from_step: "(\<And>j. i \<le> j \<Longrightarrow> j < k \<Longrightarrow> \<not> P j) \<Longrightarrow> i \<le> k \<Longrightarrow> least_from P i l \<longleftrightarrow> least_from P k l"
  by (auto simp: least_from_def) (meson leI)+

lemma choice_run_step:
  assumes inv: "bmp_invar b" and cur: "cur < bmp_size b" and n: "0 < n"
    and c: "c = length (takeWhile (\<lambda>k. bmp_bit b k = bmp_bit b cur) [cur..<8 * bmp_bytes b])"
    and short: "\<not> (bmp_bit b cur \<and> n \<le> c)"
  shows "0 < c" and "cur \<le> j \<Longrightarrow> j < cur + c \<Longrightarrow> \<not> bmp_set_run b j n"
proof -
  have top: "cur < 8 * bmp_bytes b"
    using cur bmp_ok_bits [of b] inv by (simp add: bmp_invar_def)
  note run = takeWhile_upt [OF c]
  show "0 < c" using run(2) top by (cases c) auto
  assume j: "cur \<le> j" "j < cur + c"
  show "\<not> bmp_set_run b j n"
  proof (cases "bmp_bit b cur")
    case False
    then have "\<not> bmp_bit b j" using run(1) [OF j] by simp
    then show ?thesis using bmp_set_run_head [OF _ n, of b j] by (auto simp: bmp_set_of_def)
  next
    case True
    with short have "c < n" by simp
    then have "cur + c \<in> {j..<j + n}" using j by simp
    moreover have "cur + c \<notin> bmp_set_of b"
    proof
      assume m: "cur + c \<in> bmp_set_of b"
      then have "cur + c < 8 * bmp_bytes b"
        using bmp_ok_bits [of b] inv by (simp add: bmp_invar_def bmp_set_of_def)
      with run(2) True m show False by (simp add: bmp_set_of_def)
    qed
    ultimately show ?thesis by (auto simp: bmp_set_run_def)
  qed
qed

lemma choice_find_loop_exact:
  assumes inv: "bmp_invar (cc_bmp cc)" and n: "0 < n" and cur: "cur < bmp_size (cc_bmp cc)"
  shows "(\<exists>l. least_from (\<lambda>l. bmp_set_run (cc_bmp cc) l n) cur l \<and>
            choice_find_loop cc cur n = Some (int (l + cc_min cc))) \<or>
         (\<forall>l \<ge> cur. \<not> bmp_set_run (cc_bmp cc) l n) \<and> choice_find_loop cc cur n = Some (- 1)"
  using cur
proof (induction "bmp_size (cc_bmp cc) - cur" arbitrary: cur rule: less_induct)
  case less
  let ?b = "cc_bmp cc" and ?P = "\<lambda>l. bmp_set_run (cc_bmp cc) l n"
  have ok: "bmp_ok ?b" using inv by (simp add: bmp_invar_def)
  obtain x where x: "bmp_is_set ?b cur = Some x" "x \<noteq> 0 \<longleftrightarrow> bmp_bit ?b cur"
    using bmp_is_set_spec [OF ok less.prems] less.prems by (auto simp: bmp_set_of_def)
  define c where "c = length (takeWhile (\<lambda>k. bmp_bit ?b k = bmp_bit ?b cur) [cur..<8 * bmp_bytes ?b])"
  have found: "(if x \<noteq> 0 then bmp_count_contig_set ?b cur else bmp_count_contig_avail ?b cur) = Some c"
    using x(2) by (auto simp: c_def bmp_count_contig_eq [OF ok])
  have unfold: "choice_find_loop cc cur n =
      (if bmp_bit ?b cur \<and> n \<le> c then Some (int (cur + cc_min cc))
       else if cur + c < bmp_size ?b then choice_find_loop cc (cur + c) n else Some (- 1))"
    using x found by (subst choice_find_loop.simps) simp
  show ?case
  proof (cases "bmp_bit ?b cur \<and> n \<le> c")
    case True
    have "k \<in> bmp_set_of ?b" if "cur \<le> k" "k < cur + n" for k
      using takeWhile_upt(1,3) [OF c_def] True that bmp_bit_set_of [OF inv, of k] bmp_ok_bits [OF ok]
        less.prems by force
    then have "?P cur" by (auto simp: bmp_set_run_def)
    with True show ?thesis by (auto simp: unfold least_from_def)
  next
    case False
    note step = choice_run_step [OF inv less.prems n c_def False]
    show ?thesis
    proof (cases "cur + c < bmp_size ?b")
      case True
      then have "choice_find_loop cc cur n = choice_find_loop cc (cur + c) n"
        using False by (auto simp: unfold)
      moreover have "least_from ?P cur l \<longleftrightarrow> least_from ?P (cur + c) l" for l
        using step(2) by (intro least_from_step) auto
      moreover have "(\<forall>l \<ge> cur + c. \<not> ?P l) \<longrightarrow> (\<forall>l \<ge> cur. \<not> ?P l)"
        using step(2) by (meson leI)
      ultimately show ?thesis using less.hyps [of "cur + c"] step(1) True by auto
    next
      case out: False
      have "\<not> ?P l" if "cur \<le> l" for l
      proof (cases "l < cur + c")
        case False
        with out have "l \<notin> bmp_set_of ?b" by (auto simp: bmp_set_of_def)
        then show ?thesis using bmp_set_run_head [OF _ n] by blast
      qed (use step(2) that in blast)
      with False out show ?thesis by (auto simp: unfold)
    qed
  qed
qed

section \<open>Properties\<close>

lemma choice_find_avail_exact_spec:
  assumes ok: "choice_ok cc" and off: "cc_min cc \<le> offset" "offset \<le> cc_max cc" and n: "0 < n"
  shows "(\<exists>l. offset \<le> l \<and> {l..<l + n} \<subseteq> choice_free_set cc \<and>
            (\<forall>j. offset \<le> j \<and> j < l \<longrightarrow> \<not> {j..<j + n} \<subseteq> choice_free_set cc) \<and>
            choice_find_avail cc offset n = Some (int l)) \<or>
         (\<forall>l \<ge> offset. \<not> {l..<l + n} \<subseteq> choice_free_set cc) \<and>
            choice_find_avail cc offset n = Some (- 1)"
proof -
  let ?m = "cc_min cc" and ?P = "\<lambda>l. bmp_set_run (cc_bmp cc) l n"
  have inv: "bmp_invar (cc_bmp cc)" and cur: "offset - ?m < bmp_size (cc_bmp cc)"
    using ok off by (auto simp: choice_ok_def)
  have run: "{j..<j + n} \<subseteq> choice_free_set cc \<longleftrightarrow> ?P (j - ?m)" if "?m \<le> j" for j
  proof
    assume h: "{j..<j + n} \<subseteq> choice_free_set cc"
    have "k \<in> bmp_set_of (cc_bmp cc)" if "j - ?m \<le> k" "k < j - ?m + n" for k
    proof -
      have "j \<le> k + ?m" "k + ?m < j + n" using that \<open>?m \<le> j\<close> by linarith+
      then have "k + ?m \<in> {j..<j + n}" by simp
      then have "k + ?m \<in> choice_free_set cc" by (rule subsetD [OF h])
      then show ?thesis by (simp add: choice_free_set_def)
    qed
    then show "?P (j - ?m)" by (auto simp: bmp_set_run_def)
  next
    assume h: "?P (j - ?m)"
    have "y \<in> choice_free_set cc" if "j \<le> y" "y < j + n" for y
    proof -
      have "j - ?m \<le> y - ?m" "y - ?m < j - ?m + n" using that \<open>?m \<le> j\<close> by linarith+
      then have "y - ?m \<in> {j - ?m..<j - ?m + n}" by simp
      then have "y - ?m \<in> bmp_set_of (cc_bmp cc)" by (rule subsetD [OF h [unfolded bmp_set_run_def]])
      then show ?thesis using that \<open>?m \<le> j\<close> by (simp add: choice_free_set_def)
    qed
    then show "{j..<j + n} \<subseteq> choice_free_set cc" by auto
  qed
  have call: "choice_find_avail cc offset n = choice_find_loop cc (offset - ?m) n"
    using off by (simp add: choice_find_avail_def)
  from choice_find_loop_exact [OF inv n cur] show ?thesis
  proof
    assume "\<exists>l. least_from ?P (offset - ?m) l \<and> choice_find_loop cc (offset - ?m) n = Some (int (l + ?m))"
    then obtain l where l: "least_from ?P (offset - ?m) l"
        "choice_find_loop cc (offset - ?m) n = Some (int (l + ?m))" by blast
    have "\<not> {j..<j + n} \<subseteq> choice_free_set cc" if "offset \<le> j" "j < l + ?m" for j
    proof -
      have "offset - ?m \<le> j - ?m" "j - ?m < l" "?m \<le> j" using that off by linarith+
      then show ?thesis using l(1) run [of j] by (auto simp: least_from_def)
    qed
    moreover have "offset \<le> l + ?m" "{l + ?m..<l + ?m + n} \<subseteq> choice_free_set cc"
      using l(1) off run [of "l + ?m"] by (auto simp: least_from_def)
    ultimately show ?thesis unfolding call l(2) by (intro disjI1 exI [of _ "l + ?m"]) simp
  next
    assume "(\<forall>l \<ge> offset - ?m. \<not> ?P l) \<and> choice_find_loop cc (offset - ?m) n = Some (- 1)"
    moreover have "\<not> {l..<l + n} \<subseteq> choice_free_set cc" if "offset \<le> l" for l
    proof -
      have "offset - ?m \<le> l - ?m" "?m \<le> l" using that off by linarith+
      then show ?thesis using calculation run [of l] by blast
    qed
    ultimately show ?thesis unfolding call by blast
  qed
qed

text \<open>
  C35: the search for free choices is exact and terminates: \<open>choice_find_avail\<close> returns the first choice
  number not below the offset that starts a run of at least the wanted number of free choices, and -1
  exactly when there is no such run.
\<close>

theorem choice_find_avail_exact:
  assumes ok: "choice_ok cc" and off: "cc_min cc \<le> offset" "offset \<le> cc_max cc" and n: "0 < n"
  shows "(\<exists>l. offset \<le> l \<and> {l..<l + n} \<subseteq> choice_free_set cc \<and>
            (\<forall>j. offset \<le> j \<and> j < l \<longrightarrow> \<not> {j..<j + n} \<subseteq> choice_free_set cc) \<and>
            choice_find_avail cc offset n = Some (int l)) \<or>
         (\<forall>l \<ge> offset. \<not> {l..<l + n} \<subseteq> choice_free_set cc) \<and>
            choice_find_avail cc offset n = Some (- 1)"
  by (rule choice_find_avail_exact_spec [OF assms])

definition demo_choice :: choice_cache where
  "demo_choice = \<lparr>cc_bmp = demo_bmp, cc_min = 100, cc_max = 119\<rparr>"

lemma demo_choice_ok: "choice_ok demo_choice"
  using demo_bmp_invar by (simp add: choice_ok_def demo_choice_def)

theorem choice_find_avail_exact_witness:
  "(\<exists>l. 103 \<le> l \<and> {l..<l + 2} \<subseteq> choice_free_set demo_choice \<and>
      (\<forall>j. 103 \<le> j \<and> j < l \<longrightarrow> \<not> {j..<j + 2} \<subseteq> choice_free_set demo_choice) \<and>
      choice_find_avail demo_choice 103 2 = Some (int l)) \<or>
   (\<forall>l \<ge> 103. \<not> {l..<l + 2} \<subseteq> choice_free_set demo_choice) \<and>
      choice_find_avail demo_choice 103 2 = Some (- 1)"
  by (rule choice_find_avail_exact [OF demo_choice_ok]) (simp_all add: demo_choice_def)

text \<open>
  Loading the cache, for a condition of the generated code that can be evaluated in every state
  satisfying \<open>P\<close> (a read of the disk keeps \<open>P\<close> but may change the block cache).
\<close>

lemma choice_load_spec:
  assumes cond: "\<And>k e. P e \<Longrightarrow> lo \<le> k \<Longrightarrow> k \<le> hi \<Longrightarrow>
      \<exists>e'. rel_ccond rel (ti_clo ti) k e = Some (good k, e') \<and> P e'"
    and ok: "choice_ok cc" "cc_min cc = lo" "cc_max cc = hi"
    and cur: "lo \<le> cur" "cur \<le> hi + 1" and e: "P e"
  shows "\<exists>cc' e'. choice_load ti rel cur hi cc e = Some (cc', e') \<and> P e' \<and> choice_ok cc' \<and>
     cc_min cc' = lo \<and> cc_max cc' = hi \<and>
     choice_free_set cc' = choice_free_set cc \<union> {k. cur \<le> k \<and> k \<le> hi \<and> good k}"
  using ok cur e
proof (induction "hi + 1 - cur" arbitrary: cur cc e)
  case 0
  then have "\<not> cur \<le> hi" by simp
  with 0 show ?case by (subst choice_load.simps) auto
next
  case (Suc d)
  then have cur: "cur \<le> hi" "lo \<le> cur" by simp_all
  obtain e1 where e1: "rel_ccond rel (ti_clo ti) cur e = Some (good cur, e1)" "P e1"
    using cond Suc.prems cur by blast
  obtain cc1 where cc1: "(if good cur then choice_mark_free cc cur else Some cc) = Some cc1"
      "choice_ok cc1" "cc_min cc1 = lo" "cc_max cc1 = hi"
      "choice_free_set cc1 = choice_free_set cc \<union> (if good cur then {cur} else {})"
    using choice_mark_spec(1) [OF Suc.prems(1), of cur] Suc.prems cur by (cases "good cur") auto
  have "hi < 2 ^ 31" using Suc.prems(1,3) by (auto simp: choice_ok_def)
  then have "u64 (cur + 1) = cur + 1" using cur by (simp add: u64_id)
  then have step: "choice_load ti rel cur hi cc e = choice_load ti rel (cur + 1) hi cc1 e1"
    using cur e1(1) cc1(1) by (subst choice_load.simps) simp
  have "{k. cur \<le> k \<and> k \<le> hi \<and> good k} =
      (if good cur then {cur} else {}) \<union> {k. cur + 1 \<le> k \<and> k \<le> hi \<and> good k}"
    using cur by (auto simp: le_eq_less_or_eq)
  then show ?case
    using Suc.hyps(1) [of "cur + 1" cc1 e1] Suc.hyps(2) cc1 e1(2) cur unfolding step by auto
qed

lemma choice_alloc_loads_condition_spec:
  assumes mn: "\<And>e. P e \<Longrightarrow> \<exists>e'. it_min (rel_choice rel) (ti_clo ti) e = Some (lo, e') \<and> P e'"
    and mx: "\<And>e. P e \<Longrightarrow> \<exists>e'. it_max (rel_choice rel) (ti_clo ti) e = Some (hi, e') \<and> P e'"
    and cond: "\<And>k e. P e \<Longrightarrow> lo \<le> k \<Longrightarrow> k \<le> hi \<Longrightarrow>
      \<exists>e'. rel_ccond rel (ti_clo ti) k e = Some (good k, e') \<and> P e'"
    and le: "lo \<le> hi" "hi < 2 ^ 31 - 1" and e: "P e"
  shows "\<exists>cc e'. choice_alloc junk ti rel e = Some (Some cc, e') \<and> P e' \<and> choice_ok cc \<and>
     cc_min cc = lo \<and> cc_max cc = hi \<and> choice_free_set cc = {k. lo \<le> k \<and> k \<le> hi \<and> good k}"
proof -
  obtain e1 where e1: "it_min (rel_choice rel) (ti_clo ti) e = Some (lo, e1)" "P e1" using mn [OF e] by blast
  obtain e2 where e2: "it_max (rel_choice rel) (ti_clo ti) e1 = Some (hi, e2)" "P e2" using mx [OF e1(2)] by blast
  have u: "u32 lo = lo" "u32 hi = hi" using le by (simp_all add: u32_id)
  have "hi + 2 ^ 32 - lo = (hi - lo) + 2 ^ 32" using le by simp
  then have "u32 (hi + 2 ^ 32 - lo) = (hi - lo) mod 2 ^ 32" by (simp only: u32_def mod_add_self2)
  then have size: "u32 (u32 (hi + 2 ^ 32 - lo) + 1) = hi - lo + 1" using le by (simp add: u32_def)
  let ?b = "bmp_clear (bmp_init junk (hi - lo + 1))"
  let ?cc = "\<lparr>cc_bmp = ?b, cc_min = lo, cc_max = hi\<rparr>"
  have b: "bmp_ok ?b" "bmp_size ?b = hi - lo + 1" "bmp_set_of ?b = {}" "bmp_pad_clear ?b"
    using bmp_init_clear_spec [of "hi - lo + 1" ?b junk] le by simp_all
  have "choice_ok ?cc" using b le by (simp add: choice_ok_def bmp_invar_def)
  moreover have "choice_free_set ?cc = {}" using b by (simp add: choice_free_set_def)
  ultimately obtain cc e3 where load: "choice_load ti rel lo hi ?cc e2 = Some (cc, e3)" "P e3" "choice_ok cc"
      "cc_min cc = lo" "cc_max cc = hi" "choice_free_set cc = {k. lo \<le> k \<and> k \<le> hi \<and> good k}"
    using choice_load_spec [where P = P and lo = lo and hi = hi and good = good and cc = ?cc and cur = lo and e = e2,
        OF cond _ _ _ _ _ e2(2)] le by auto
  have "choice_alloc junk ti rel e = Some (Some cc, e3)"
    unfolding choice_alloc_def e1 e2 bind.bind_lunit prod.case u size Let_def load(1) using le(1) by simp
  with load show ?thesis by blast
qed

text \<open>
  \<open>choice_alloc\<close> records exactly the choices whose condition holds: for bounds below \<open>2 ^ 31 - 1\<close>
  and generated functions that answer in every state satisfying \<open>P\<close>, it terminates with a
  well-formed cache over the whole interval whose free set is the set of good choices, whatever the
  allocated memory contained.
\<close>

theorem choice_alloc_loads_condition:
  assumes mn: "\<And>e. P e \<Longrightarrow> \<exists>e'. it_min (rel_choice rel) (ti_clo ti) e = Some (lo, e') \<and> P e'"
    and mx: "\<And>e. P e \<Longrightarrow> \<exists>e'. it_max (rel_choice rel) (ti_clo ti) e = Some (hi, e') \<and> P e'"
    and cond: "\<And>k e. P e \<Longrightarrow> lo \<le> k \<Longrightarrow> k \<le> hi \<Longrightarrow>
      \<exists>e'. rel_ccond rel (ti_clo ti) k e = Some (good k, e') \<and> P e'"
    and le: "lo \<le> hi" "hi < 2 ^ 31 - 1" and e: "P e"
  shows "\<exists>cc e'. choice_alloc junk ti rel e = Some (Some cc, e') \<and> P e' \<and> choice_ok cc \<and>
     cc_min cc = lo \<and> cc_max cc = hi \<and> choice_free_set cc = {k. lo \<le> k \<and> k \<le> hi \<and> good k}"
  by (rule choice_alloc_loads_condition_spec [OF assms])

definition demo_rel :: fsl_rtt_reloc where
  "demo_rel = \<lparr>
     rel_sel = \<lparr>it_type_dst = 0, it_range = \<lambda>c i e. None, it_min = \<lambda>c e. None, it_max = \<lambda>c e. None\<rparr>,
     rel_choice = \<lparr>it_type_dst = 0, it_range = \<lambda>c i e. None, it_min = \<lambda>c e. Some (5, e),
       it_max = \<lambda>c e. Some (30, e)\<rparr>,
     rel_ccond = \<lambda>c k e. Some (even k, e),
     rel_alloc = \<lparr>wpi_params = \<lambda>c i e. None, wpi_wpkt = 0\<rparr>,
     rel_replace = \<lparr>wpi_params = \<lambda>c i e. None, wpi_wpkt = 0\<rparr>,
     rel_relink = \<lparr>wpi_params = \<lambda>c i e. None, wpi_wpkt = 0\<rparr>,
     rel_name = None\<rparr>"

theorem choice_alloc_loads_condition_witness:
  "\<forall>junk ti e. \<exists>cc e'. choice_alloc junk ti demo_rel e = Some (Some cc, e') \<and> True \<and> choice_ok cc \<and>
     cc_min cc = 5 \<and> cc_max cc = 30 \<and> choice_free_set cc = {k. 5 \<le> k \<and> k \<le> 30 \<and> even k}"
  by (intro allI, rule choice_alloc_loads_condition [where P = "\<lambda>_. True" and lo = 5 and hi = 30])
     (simp_all add: demo_rel_def)

end
