(* ===== verification/Usemap.thy ===== *)
theory Usemap
  imports Prelude
begin

text \<open>
  The usage map of \<open>usemap.c\<close>: the number of used bytes of each 16 KiB bucket of the disk, kept in
  signed 16 bit counters. \<open>malloc\<close> leaves \<open>um_total_bytes\<close> undefined, which is the argument \<open>junk\<close> of
  \<open>usemap_alloc\<close>. A counter update is an assignment to an \<open>int16_t\<close>: the low 16 bits are kept.
\<close>

record usemap =
  um_total_bytes :: nat
  um_bytes_per_ent :: nat
  um_ents :: nat
  um_map_c :: "16 word list"

definition usemap_alloc :: "nat \<Rightarrow> nat \<Rightarrow> usemap" where
  "usemap_alloc junk um_total = (let
     ents = u32 (u64 (um_total + (4 * 4096 - 1)) div (4 * 4096))
   in \<lparr>um_total_bytes = junk, um_bytes_per_ent = 4 * 4096, um_ents = ents, um_map_c = replicate (u32 (2 * ents) div 2) 0\<rparr>)"

definition usemap_add :: "usemap \<Rightarrow> nat \<Rightarrow> nat \<Rightarrow> usemap option" where
  "usemap_add um byte_off num_bytes = do {
     let i = byte_off div um_bytes_per_ent um;
     c \<leftarrow> get_at (um_map_c um) i;
     m \<leftarrow> upd_at (um_map_c um) i (c + of_nat num_bytes);
     Some (um\<lparr>um_map_c := m\<rparr>)
   }"

definition usemap_sub :: "usemap \<Rightarrow> nat \<Rightarrow> nat \<Rightarrow> usemap option" where
  "usemap_sub um byte_off num_bytes = do {
     let i = byte_off div um_bytes_per_ent um;
     c \<leftarrow> get_at (um_map_c um) i;
     m \<leftarrow> upd_at (um_map_c um) i (c - of_nat num_bytes);
     Some (um\<lparr>um_map_c := m\<rparr>)
   }"

definition usemap_get_bucket :: "usemap \<Rightarrow> nat \<Rightarrow> int option" where
  "usemap_get_bucket um byte_off = do {
     assert_c (byte_off < um_total_bytes um);
     c \<leftarrow> get_at (um_map_c um) (byte_off div um_bytes_per_ent um);
     Some (sint c)
   }"

section \<open>Use counts\<close>

text \<open>A log of additions and subtractions, replayed on the map.\<close>

datatype use_op = UseAdd nat nat | UseSub nat nat

fun usemap_apply :: "use_op \<Rightarrow> usemap \<Rightarrow> usemap option" where
  "usemap_apply (UseAdd off n) um = usemap_add um off n"
| "usemap_apply (UseSub off n) um = usemap_sub um off n"

fun usemap_replay :: "use_op list \<Rightarrow> usemap \<Rightarrow> usemap option" where
  "usemap_replay [] um = Some um"
| "usemap_replay (x # xs) um = do { um \<leftarrow> usemap_apply x um; usemap_replay xs um }"

fun use_delta :: "nat \<Rightarrow> use_op \<Rightarrow> int" where
  "use_delta b (UseAdd off n) = (if off div 16384 = b then int n else 0)"
| "use_delta b (UseSub off n) = (if off div 16384 = b then - int n else 0)"

fun use_off :: "use_op \<Rightarrow> nat" where
  "use_off (UseAdd off n) = off"
| "use_off (UseSub off n) = off"

lemma usemap_apply_spec:
  assumes "um_bytes_per_ent um = 16384" and "use_off x div 16384 < length (um_map_c um)"
  shows "\<exists>um'. usemap_apply x um = Some um' \<and> um_bytes_per_ent um' = 16384 \<and>
    um_total_bytes um' = um_total_bytes um \<and> length (um_map_c um') = length (um_map_c um) \<and>
    (\<forall>b < length (um_map_c um). um_map_c um' ! b = um_map_c um ! b + of_int (use_delta b x))"
  using assms by (cases x) (auto simp: usemap_add_def usemap_sub_def Let_def nth_list_update)

lemma usemap_replay_spec:
  assumes "um_bytes_per_ent um = 16384" and "\<forall>x \<in> set xs. use_off x div 16384 < length (um_map_c um)"
  shows "\<exists>um'. usemap_replay xs um = Some um' \<and> um_bytes_per_ent um' = 16384 \<and>
    um_total_bytes um' = um_total_bytes um \<and> length (um_map_c um') = length (um_map_c um) \<and>
    (\<forall>b < length (um_map_c um).
       um_map_c um' ! b = um_map_c um ! b + of_int (sum_list (map (use_delta b) xs)))"
  using assms
proof (induction xs arbitrary: um)
  case (Cons x xs)
  then obtain um1 where um1: "usemap_apply x um = Some um1" "um_bytes_per_ent um1 = 16384"
      "um_total_bytes um1 = um_total_bytes um" "length (um_map_c um1) = length (um_map_c um)"
      "\<forall>b < length (um_map_c um). um_map_c um1 ! b = um_map_c um ! b + of_int (use_delta b x)"
    using usemap_apply_spec [of um x] by auto
  with Cons.IH [of um1] Cons.prems show ?case by (auto simp: add.assoc)
qed simp

text \<open>
  The counter of a bucket is the exact sum of the bytes added to it minus those subtracted,
  as long as the sum fits in a signed 16 bit integer: after any replay of additions and subtractions
  inside the disk, \<open>usemap_get_bucket\<close> of a byte offset below the recorded total returns it.
\<close>

theorem usemap_counts_bytes:
  assumes "um_total + 16383 < 2 ^ 44" and "\<forall>x \<in> set xs. use_off x < um_total"
    and "off < um_total" and "off < junk"
    and "- (2 ^ 15) \<le> sum_list (map (use_delta (off div 16384)) xs)"
    and "sum_list (map (use_delta (off div 16384)) xs) < 2 ^ 15"
  shows "\<exists>um. usemap_replay xs (usemap_alloc junk um_total) = Some um \<and>
     usemap_get_bucket um off = Some (sum_list (map (use_delta (off div 16384)) xs))"
proof -
  let ?um = "usemap_alloc junk um_total" and ?s = "sum_list (map (use_delta (off div 16384)) xs)"
  have ents: "um_bytes_per_ent ?um = 16384" "length (um_map_c ?um) = (um_total + 16383) div 16384"
      "um_total_bytes ?um = junk" "um_map_c ?um = replicate ((um_total + 16383) div 16384) 0"
    using assms(1) by (simp_all add: usemap_alloc_def Let_def u64_id u32_id)
  have inb: "o' div 16384 < (um_total + 16383) div 16384" if "o' < um_total" for o'
    using that by linarith
  from ents inb assms(2) have "\<forall>x \<in> set xs. use_off x div 16384 < length (um_map_c ?um)" by simp
  then obtain um where um: "usemap_replay xs ?um = Some um" "um_bytes_per_ent um = 16384"
      "um_total_bytes um = junk" "length (um_map_c um) = (um_total + 16383) div 16384"
      "\<forall>b < (um_total + 16383) div 16384. um_map_c um ! b = um_map_c ?um ! b + of_int (sum_list (map (use_delta b) xs))"
    using usemap_replay_spec [OF ents(1), of xs] unfolding ents by auto
  have "um_map_c um ! (off div 16384) = of_int ?s"
    using um(5) inb [OF assms(3)] ents(4) by simp
  moreover have "sint (of_int ?s :: 16 word) = ?s"
    using assms(5,6) by (simp add: signed_of_int signed_take_bit_int_eq_self)
  ultimately have "usemap_get_bucket um off = Some ?s"
    using um inb [OF assms(3)] assms(4) by (simp add: usemap_get_bucket_def)
  with um(1) show ?thesis by blast
qed

theorem usemap_counts_bytes_witness:
  "\<exists>um. usemap_replay [UseAdd 5 4096, UseAdd 20000 512, UseSub 100 96] (usemap_alloc 40000 40000) = Some um \<and>
     usemap_get_bucket um 77 = Some (sum_list (map (use_delta (77 div 16384))
       [UseAdd 5 4096, UseAdd 20000 512, UseSub 100 96]))"
  by (rule usemap_counts_bytes) simp_all

end
