(* ===== verification/RtLog.thy ===== *)
theory RtLog
  imports RtTypes
begin

text \<open>
  Callbacks and logs of the I/O layer: the hook table of \<open>io.c\<close>, the read and write logs of
  \<open>log.c\<close>, and the two event recorders \<open>hits.c\<close> and \<open>temporal.c\<close>.

  \<open>run_cb\<close> is a call through a \<open>fsl_io_callback\<close> pointer. A callback may call the one that was hooked
  before it, so the call is a recursive function whose termination is not obvious; it is defined by
  \<open>partial_function (option)\<close>, and \<open>None\<close> is also the result of a call through \<open>NULL\<close>.
\<close>

section \<open>Hooks (\<open>io.c\<close>)\<close>

definition fsl_io_hook :: "fsl_io_callback option \<Rightarrow> io_cb_type \<Rightarrow> env \<Rightarrow> fsl_io_callback option \<times> env" where
  "fsl_io_hook cb cb_type e = (io_cb e cb_type, e\<lparr>io_cb := (io_cb e)(cb_type := cb)\<rparr>)"

definition fsl_io_unhook :: "io_cb_type \<Rightarrow> env \<Rightarrow> env option" where
  "fsl_io_unhook cb_type e = do {
     assert_c (io_cb e cb_type \<noteq> None);
     Some (e\<lparr>io_cb := (io_cb e)(cb_type := None)\<rparr>)
   }"

section \<open>Read log (\<open>log.c\<close>)\<close>

definition addr2log :: "nat \<Rightarrow> nat" where
  "addr2log x = x div 2 ^ 6"

definition log2addr :: "nat \<Rightarrow> nat" where
  "log2addr x = u64 (x * 2 ^ 6)"

definition fsl_rlog_contains :: "env \<Rightarrow> nat \<Rightarrow> bool" where
  "fsl_rlog_contains e addr = (let log = io_rlog e in
     addr2log addr \<in> set (take (nat (log_accessed_idx log)) (log_accessed log)))"

definition fsl_rlog_init :: "env \<Rightarrow> env" where
  "fsl_rlog_init e = e\<lparr>io_rlog := (io_rlog e)\<lparr>log_accessed_idx := IO_IDX_STOPPED, log_next_cb := None\<rparr>\<rparr>"

definition fsl_rlog_start :: "env \<Rightarrow> env option" where
  "fsl_rlog_start e = do {
     assert_c (log_accessed_idx (io_rlog e) = IO_IDX_STOPPED);
     let (old_io_cb, e) = fsl_io_hook (Some CbRlog) IO_CB_CACHE_ANY e;
     Some (e\<lparr>io_rlog := (io_rlog e)\<lparr>log_accessed_idx := 0\<rparr>\<rparr>)
   }"

definition fsl_rlog_stop :: "env \<Rightarrow> env option" where
  "fsl_rlog_stop e = do {
     assert_c (log_accessed_idx (io_rlog e) \<noteq> IO_IDX_STOPPED);
     let e = e\<lparr>io_rlog := (io_rlog e)\<lparr>log_accessed_idx := IO_IDX_STOPPED\<rparr>\<rparr>;
     e \<leftarrow> fsl_io_unhook IO_CB_CACHE_ANY e;
     case log_next_cb (io_rlog e) of
       None \<Rightarrow> Some e
     | Some cb \<Rightarrow> do {
         let (old, e) = fsl_io_hook (Some cb) IO_CB_CACHE_ANY e;
         Some (e\<lparr>io_rlog := (io_rlog e)\<lparr>log_next_cb := None\<rparr>\<rparr>)
       }
   }"

text \<open>The part of \<open>fsl_rlog\<close> before it calls the next callback.\<close>

definition fsl_rlog_record :: "nat \<Rightarrow> env \<Rightarrow> env option" where
  "fsl_rlog_record addr e = do {
     let log = io_rlog e;
     assert_c (log_accessed_idx log \<noteq> IO_IDX_STOPPED);
     assert_c (log_accessed_idx log < int IO_MAX_ACCESS);
     if \<not> fsl_rlog_contains e addr then do {
       assert_c (0 \<le> log_accessed_idx log);
       acc \<leftarrow> upd_at (log_accessed log) (nat (log_accessed_idx log)) (addr2log addr);
       Some (e\<lparr>io_rlog := log\<lparr>log_accessed := acc, log_accessed_idx := log_accessed_idx log + 1\<rparr>\<rparr>)
     } else Some e
   }"

section \<open>Event counts (\<open>hits.c\<close>) and event traces (\<open>temporal.c\<close>)\<close>

definition HIT_BYTE_GRANULARITY :: nat where
  "HIT_BYTE_GRANULARITY = 32"

fun ev_cb_type :: "log_ev \<Rightarrow> io_cb_type" where
  "ev_cb_type EvHit = IO_CB_CACHE_HIT"
| "ev_cb_type EvMiss = IO_CB_CACHE_MISS"
| "ev_cb_type EvWrite = IO_CB_WRITE"

text \<open>The part of \<open>fsl_hits_io_cb_x\<close> before it calls the previous callback: the sector it passes on.\<close>

definition fsl_hits_record :: "log_ev \<Rightarrow> nat \<Rightarrow> nat rt" where
  "fsl_hits_record ev bit_addr e = do {
     let bit_addr = bit_addr div 8;
     let bit_addr = bit_addr div HIT_BYTE_GRANULARITY;
     log \<leftarrow> ev_log (hits_log e ev);
     h \<leftarrow> get_at log bit_addr;
     log \<leftarrow> upd_at log bit_addr (u64 (h + 1));
     Some (bit_addr, e\<lparr>hits_log := (hits_log e)(ev := (hits_log e ev)\<lparr>ev_log := Some log\<rparr>)\<rparr>)
   }"

definition LOG_BUF_ENTS :: nat where
  "LOG_BUF_ENTS = 4096"

text \<open>\<open>cl_file\<close> holds the numbers printed to the trace file so far.\<close>

definition log_flush :: "cb_log \<Rightarrow> cb_log option" where
  "log_flush cl = (if cl_buf_idx cl = 0 then Some cl else do {
     file \<leftarrow> cl_file cl;
     assert_c (cl_buf_idx cl \<le> length (cl_buf cl));
     Some (cl\<lparr>cl_file := Some (file @ take (cl_buf_idx cl) (cl_buf cl)), cl_buf_idx := 0\<rparr>)
   })"

definition log_update :: "cb_log \<Rightarrow> nat \<Rightarrow> cb_log option" where
  "log_update cl bit_addr = do {
     buf \<leftarrow> upd_at (cl_buf cl) (cl_buf_idx cl) bit_addr;
     let cl = cl\<lparr>cl_buf := buf, cl_buf_idx := cl_buf_idx cl + 1\<rparr>;
     if cl_buf_idx cl = LOG_BUF_ENTS then log_flush cl else Some cl
   }"

section \<open>Calling a callback\<close>

partial_function (option) run_cb :: "fsl_io_callback option \<Rightarrow> nat \<Rightarrow> env \<Rightarrow> env option" where
  "run_cb cb bit_addr e = (case cb of
     None \<Rightarrow> None
   | Some CbIdentity \<Rightarrow> Some e
   | Some CbRlog \<Rightarrow> do {
       e \<leftarrow> fsl_rlog_record bit_addr e;
       if log_next_cb (io_rlog e) \<noteq> None then run_cb (log_next_cb (io_rlog e)) bit_addr e else Some e
     }
   | Some (CbHits ev) \<Rightarrow> do {
       (sector, e) \<leftarrow> fsl_hits_record ev bit_addr e;
       run_cb (ev_cb_prev (hits_log e ev)) sector e
     }
   | Some (CbTemporal ev) \<Rightarrow> do {
       cl \<leftarrow> log_update (temporal_log e ev) bit_addr;
       let e = e\<lparr>temporal_log := (temporal_log e)(ev := cl)\<rparr>;
       run_cb (cl_cb_prev (temporal_log e ev)) bit_addr e
     })"

text \<open>The pattern \<open>if (io->io_cb_x != NULL) io->io_cb_x (io, off)\<close>.\<close>

definition call_io_cb :: "io_cb_type \<Rightarrow> nat \<Rightarrow> env \<Rightarrow> env option" where
  "call_io_cb t off e = (if io_cb e t \<noteq> None then run_cb (io_cb e t) off e else Some e)"

section \<open>Starting and stopping the recorders\<close>

text \<open>
  \<open>getenv ev\<close> is the value of the environment variable of the event, \<open>junk\<close> the contents of the
  memory that \<open>malloc\<close> returns, \<open>fopen\<close> tells whether the file can be opened.
\<close>

definition fsl_hits_init_ev :: "(log_ev \<Rightarrow> string option) \<Rightarrow> (nat \<Rightarrow> nat) \<Rightarrow> nat \<Rightarrow> log_ev \<Rightarrow> env \<Rightarrow> env" where
  "fsl_hits_init_ev getenv junk byte_len ev e = (let
     l = (hits_log e ev)\<lparr>ev_log := None, ev_fname := getenv ev\<rparr>
   in if getenv ev = None then e\<lparr>hits_log := (hits_log e)(ev := l)\<rparr>
      else let
        l = l\<lparr>ev_log := Some (map junk [0..<byte_len div 8])\<rparr>;
        (prev, e) = fsl_io_hook (Some (CbHits ev)) (ev_cb_type ev) e;
        prev = (if prev = None then Some CbIdentity else prev)
      in e\<lparr>hits_log := (hits_log e)(ev := l\<lparr>ev_cb_prev := prev\<rparr>)\<rparr>)"

definition fsl_hits_init :: "(log_ev \<Rightarrow> string option) \<Rightarrow> (log_ev \<Rightarrow> nat \<Rightarrow> nat) \<Rightarrow> env \<Rightarrow> env" where
  "fsl_hits_init getenv junk e = (let
     byte_len = u32 (u32 (bdev_bytes e div HIT_BYTE_GRANULARITY + 1) * 8);
     e = fsl_hits_init_ev getenv (junk EvHit) byte_len EvHit e;
     e = fsl_hits_init_ev getenv (junk EvMiss) byte_len EvMiss e
   in fsl_hits_init_ev getenv (junk EvWrite) byte_len EvWrite e)"

definition fsl_hits_uninit_ev :: "log_ev \<Rightarrow> env \<Rightarrow> env" where
  "fsl_hits_uninit_ev ev e =
     e\<lparr>hits_log := (hits_log e)(ev := (hits_log e ev)\<lparr>ev_log := None, ev_fname := None\<rparr>)\<rparr>"

text \<open>The lines \<open>(start_byte_offset, last_byte_offset, hits)\<close> printed to the file, if one is written.\<close>

definition fsl_hits_dump :: "(string \<Rightarrow> bool) \<Rightarrow> log_ev \<Rightarrow> env \<Rightarrow> (string \<times> (nat \<times> nat \<times> nat) list) option option" where
  "fsl_hits_dump fopen ev e = (case (ev_fname (hits_log e ev), ev_log (hits_log e ev)) of
     (Some fname, Some hits) \<Rightarrow>
       if \<not> fopen fname then Some None
       else do {
         let num_ents = u32 (bdev_bytes e div HIT_BYTE_GRANULARITY);
         assert_c (num_ents \<le> length hits);
         let row = (\<lambda>i. (i * HIT_BYTE_GRANULARITY, i * HIT_BYTE_GRANULARITY + HIT_BYTE_GRANULARITY - 1, hits ! i));
         Some (Some (fname, map row (filter (\<lambda>i. hits ! i \<noteq> 0) [0..<num_ents])))
       }
   | _ \<Rightarrow> Some None)"

definition fsl_hits_uninit ::
  "(string \<Rightarrow> bool) \<Rightarrow> env \<Rightarrow> ((string \<times> (nat \<times> nat \<times> nat) list) option list \<times> env) option" where
  "fsl_hits_uninit fopen e = do {
     h \<leftarrow> fsl_hits_dump fopen EvHit e;
     m \<leftarrow> fsl_hits_dump fopen EvMiss e;
     w \<leftarrow> fsl_hits_dump fopen EvWrite e;
     Some ([h, m, w], fsl_hits_uninit_ev EvWrite (fsl_hits_uninit_ev EvMiss (fsl_hits_uninit_ev EvHit e)))
   }"

definition log_init :: "(log_ev \<Rightarrow> string option) \<Rightarrow> (string \<Rightarrow> bool) \<Rightarrow> log_ev \<Rightarrow> env \<Rightarrow> env option" where
  "log_init getenv fopen ev e = (case getenv ev of
     None \<Rightarrow> Some e
   | Some fname \<Rightarrow> do {
       assert_c (fopen fname);
       let (prev, e) = fsl_io_hook (Some (CbTemporal ev)) (ev_cb_type ev) e;
       let prev = (if prev = None then Some CbIdentity else prev);
       Some (e\<lparr>temporal_log := (temporal_log e)(ev := (temporal_log e ev)\<lparr>cl_file := Some [], cl_cb_prev := prev\<rparr>)\<rparr>)
     })"

definition log_uninit :: "log_ev \<Rightarrow> env \<Rightarrow> env option" where
  "log_uninit ev e = (if cl_file (temporal_log e ev) = None then Some e
   else do {
     cl \<leftarrow> log_flush (temporal_log e ev);
     Some (e\<lparr>temporal_log := (temporal_log e)(ev := cl)\<rparr>)
   })"

definition fsl_temporal_init :: "(log_ev \<Rightarrow> string option) \<Rightarrow> (string \<Rightarrow> bool) \<Rightarrow> env \<Rightarrow> env option" where
  "fsl_temporal_init getenv fopen e = do {
     e \<leftarrow> log_init getenv fopen EvHit e;
     e \<leftarrow> log_init getenv fopen EvMiss e;
     log_init getenv fopen EvWrite e
   }"

definition fsl_temporal_uninit :: "env \<Rightarrow> env option" where
  "fsl_temporal_uninit e = do {
     e \<leftarrow> log_uninit EvHit e;
     e \<leftarrow> log_uninit EvMiss e;
     log_uninit EvWrite e
   }"

section \<open>Write log (\<open>log.c\<close>)\<close>

definition zero_wlog_ent :: fsl_rt_wlog_ent where
  "zero_wlog_ent = \<lparr>we_bit_addr = 0, we_val = 0, we_bits = 0\<rparr>"

definition fsl_wlog_init :: fsl_rt_wlog where
  "fsl_wlog_init = \<lparr>wl_write = replicate IO_MAX_ACCESS zero_wlog_ent, wl_idx = - 1\<rparr>"

definition fsl_wlog_start :: "fsl_rt_wlog \<Rightarrow> fsl_rt_wlog option" where
  "fsl_wlog_start wl = do { assert_c (wl_idx wl = - 1); Some (wl\<lparr>wl_idx := 0\<rparr>) }"

definition fsl_wlog_stop :: "fsl_rt_wlog \<Rightarrow> fsl_rt_wlog option" where
  "fsl_wlog_stop wl = do { assert_c (wl_idx wl = 0); Some (wl\<lparr>wl_idx := - 1\<rparr>) }"

text \<open>\<open>we_bits\<close> is an \<open>uint8_t\<close>.\<close>

definition fsl_wlog_add :: "fsl_rt_wlog \<Rightarrow> nat \<Rightarrow> 64 word \<Rightarrow> nat \<Rightarrow> fsl_rt_wlog option" where
  "fsl_wlog_add wl off val len = do {
     assert_c (wl_idx wl \<ge> 0);
     assert_c (wl_idx wl \<noteq> int IO_MAX_ACCESS);
     ws \<leftarrow> upd_at (wl_write wl) (nat (wl_idx wl)) \<lparr>we_bit_addr = off, we_val = val, we_bits = len mod 256\<rparr>;
     Some (wl\<lparr>wl_write := ws, wl_idx := wl_idx wl + 1\<rparr>)
   }"

text \<open>
  \<open>fsl_wlog_commit\<close> calls \<open>fsl_io_write\<close>, which each I/O back end provides; it is the argument \<open>wr\<close>.
\<close>

fun wlog_commit_loop :: "(nat \<Rightarrow> 64 word \<Rightarrow> nat \<Rightarrow> env \<Rightarrow> env option) \<Rightarrow> fsl_rt_wlog_ent list \<Rightarrow> env \<Rightarrow> env option" where
  "wlog_commit_loop wr [] e = Some e"
| "wlog_commit_loop wr (we # wes) e = do {
     e \<leftarrow> wr (we_bit_addr we) (we_val we) (we_bits we) e;
     wlog_commit_loop wr wes e
   }"

definition fsl_wlog_commit ::
  "(nat \<Rightarrow> 64 word \<Rightarrow> nat \<Rightarrow> env \<Rightarrow> env option) \<Rightarrow> fsl_rt_wlog \<Rightarrow> env \<Rightarrow> (fsl_rt_wlog \<times> env) option" where
  "fsl_wlog_commit wr wl e = do {
     assert_c (wl_idx wl \<ge> 0);
     assert_c (nat (wl_idx wl) \<le> length (wl_write wl));
     e \<leftarrow> wlog_commit_loop wr (take (nat (wl_idx wl)) (wl_write wl)) e;
     Some (wl\<lparr>wl_idx := 0\<rparr>, e)
   }"

definition fsl_wlog_copy :: "fsl_rt_wlog \<Rightarrow> fsl_rt_wlog" where
  "fsl_wlog_copy src = src"

definition writeVal :: "nat \<Rightarrow> nat \<Rightarrow> 64 word \<Rightarrow> env \<Rightarrow> env option" where
  "writeVal loc sz val e = do {
     wl \<leftarrow> fsl_wlog_add (io_wlog e) loc val sz;
     Some (e\<lparr>io_wlog := wl\<rparr>)
   }"

definition fsl_io_steal_wlog :: "env \<Rightarrow> fsl_rt_wlog \<times> env" where
  "fsl_io_steal_wlog e = (fsl_wlog_copy (io_wlog e), e\<lparr>io_wlog := fsl_wlog_init\<rparr>)"

definition fsl_io_abort_wlog :: "env \<Rightarrow> env" where
  "fsl_io_abort_wlog e = e\<lparr>io_wlog := fsl_wlog_init\<rparr>"

definition fsl_io_size :: "env \<Rightarrow> nat" where
  "fsl_io_size e = u64 (io_blksize e * io_blk_c e)"

text \<open>The macros \<open>FSL_WRITE_START\<close>, \<open>FSL_WRITE_COMPLETE\<close> and \<open>FSL_WRITE_DROP\<close> of \<open>log.h\<close>.\<close>

definition FSL_WRITE_START :: "env \<Rightarrow> env option" where
  "FSL_WRITE_START e = do { wl \<leftarrow> fsl_wlog_start (io_wlog e); Some (e\<lparr>io_wlog := wl\<rparr>) }"

definition FSL_WRITE_COMPLETE :: "(nat \<Rightarrow> 64 word \<Rightarrow> nat \<Rightarrow> env \<Rightarrow> env option) \<Rightarrow> env \<Rightarrow> env option" where
  "FSL_WRITE_COMPLETE wr e = do {
     (wl, e) \<leftarrow> fsl_wlog_commit wr (io_wlog e) e;
     wl \<leftarrow> fsl_wlog_stop wl;
     Some (e\<lparr>io_wlog := wl\<rparr>)
   }"

definition FSL_WRITE_DROP :: "env \<Rightarrow> env" where
  "FSL_WRITE_DROP e = e\<lparr>io_wlog := fsl_wlog_init\<rparr>"

section \<open>Properties of the read log\<close>

fun rlog_records :: "nat list \<Rightarrow> env \<Rightarrow> env option" where
  "rlog_records [] e = Some e"
| "rlog_records (a # as) e = do { e \<leftarrow> run_cb (Some CbRlog) a e; rlog_records as e }"

text \<open>The log holds the distinct words of a set of addresses.\<close>

definition rlog_holds :: "nat set \<Rightarrow> env \<Rightarrow> bool" where
  "rlog_holds A e \<longleftrightarrow> (let log = io_rlog e; n = nat (log_accessed_idx log) in
     log_next_cb log = None \<and> 0 \<le> log_accessed_idx log \<and> length (log_accessed log) = IO_MAX_ACCESS \<and> n \<le> IO_MAX_ACCESS \<and>
     distinct (take n (log_accessed log)) \<and> set (take n (log_accessed log)) = addr2log ` A)"

lemma rlog_holds_card: "rlog_holds A e \<Longrightarrow> nat (log_accessed_idx (io_rlog e)) = card (addr2log ` A)"
  by (metis (no_types, lifting) distinct_card length_take min.absorb2 rlog_holds_def)

lemma rlog_record_spec:
  assumes h: "rlog_holds A e" and room: "card (addr2log ` A) < IO_MAX_ACCESS"
  shows "\<exists>e'. run_cb (Some CbRlog) a e = Some e' \<and> rlog_holds (insert a A) e'"
proof -
  define log n where "log = io_rlog e" and "n = nat (log_accessed_idx log)"
  have l: "log_next_cb log = None" "0 \<le> log_accessed_idx log" "length (log_accessed log) = IO_MAX_ACCESS"
      "distinct (take n (log_accessed log))" "set (take n (log_accessed log)) = addr2log ` A" "n < IO_MAX_ACCESS"
    using h room rlog_holds_card [OF h] by (simp_all add: rlog_holds_def log_def n_def Let_def)
  have idx: "log_accessed_idx log \<noteq> IO_IDX_STOPPED" "log_accessed_idx log < int IO_MAX_ACCESS"
    using l(2,6) by (auto simp: IO_IDX_STOPPED_def n_def)
  show ?thesis
  proof (cases "addr2log a \<in> addr2log ` A")
    case True
    then have "fsl_rlog_contains e a" using l(5) by (simp add: fsl_rlog_contains_def Let_def log_def n_def)
    moreover have "addr2log ` insert a A = addr2log ` A" using True by auto
    ultimately show ?thesis
      using h idx l(1) by (subst run_cb.simps) (simp add: fsl_rlog_record_def Let_def log_def [symmetric] rlog_holds_def)
  next
    case False
    then have new: "\<not> fsl_rlog_contains e a" using l(5) by (simp add: fsl_rlog_contains_def Let_def log_def n_def)
    let ?acc = "(log_accessed log)[n := addr2log a]"
    let ?e' = "e\<lparr>io_rlog := log\<lparr>log_accessed := ?acc, log_accessed_idx := log_accessed_idx log + 1\<rparr>\<rparr>"
    have "fsl_rlog_record a e = Some ?e'"
      using new idx l by (simp add: fsl_rlog_record_def Let_def log_def [symmetric] n_def [symmetric])
    then have call: "run_cb (Some CbRlog) a e = Some ?e'" using l(1) by (subst run_cb.simps) simp
    have tk: "take (Suc n) ?acc = take n (log_accessed log) @ [addr2log a]"
      using l(3,6) by (simp add: take_Suc_conv_app_nth)
    have "nat (log_accessed_idx log + 1) = Suc n" using l(2) by (simp add: n_def)
    then have "rlog_holds (insert a A) ?e'"
      using l tk False by (simp add: rlog_holds_def Let_def)
    with call show ?thesis by blast
  qed
qed



text \<open>
  \<open>fsl_rlog_start\<close> does not remember the callback it replaces: whatever was hooked to all cache
  accesses before, after a start and a stop of the read log nothing is hooked there.
\<close>

theorem rlog_start_stop_loses_hook:
  assumes "log_accessed_idx (io_rlog e) = IO_IDX_STOPPED" and "log_next_cb (io_rlog e) = None"
    and "io_cb e IO_CB_CACHE_ANY = Some cb"
  shows "\<exists>e1 e2. fsl_rlog_start e = Some e1 \<and> fsl_rlog_stop e1 = Some e2 \<and> io_cb e2 IO_CB_CACHE_ANY = None"
  using assms
  by (simp add: fsl_rlog_start_def fsl_rlog_stop_def fsl_io_hook_def fsl_io_unhook_def IO_IDX_STOPPED_def)

theorem rlog_start_stop_loses_hook_witness:
  "\<exists>e1 e2. fsl_rlog_start (blank_env\<lparr>io_cb := (\<lambda>_. Some CbIdentity)\<rparr>) = Some e1 \<and> fsl_rlog_stop e1 = Some e2 \<and>
     io_cb e2 IO_CB_CACHE_ANY = None"
  by (rule rlog_start_stop_loses_hook) (simp_all add: blank_env_def IO_IDX_STOPPED_def)

text \<open>
  A hit counter passes the number of the 32 byte sector to the callback hooked before it, not the
  bit address: a temporal trace below a hit counter records sectors.
\<close>

theorem hits_forwards_sector:
  assumes log: "ev_log (hits_log e ev) = Some log" "bit_addr div 256 < length log"
    and prev: "ev_cb_prev (hits_log e ev) = Some (CbTemporal ev)"
    and buf: "length (cl_buf (temporal_log e ev)) = LOG_BUF_ENTS" "cl_buf_idx (temporal_log e ev) + 1 < LOG_BUF_ENTS"
    and cl: "cl_cb_prev (temporal_log e ev) = Some CbIdentity"
  shows "\<exists>e'. run_cb (Some (CbHits ev)) bit_addr e = Some e' \<and>
    cl_buf (temporal_log e' ev) ! cl_buf_idx (temporal_log e ev) = bit_addr div 256"
proof -
  have sec: "bit_addr div 8 div HIT_BYTE_GRANULARITY = bit_addr div 256"
    using div_mult2_eq [of bit_addr 8 32] by (simp add: HIT_BYTE_GRANULARITY_def)
  let ?log = "log[bit_addr div 256 := u64 (log ! (bit_addr div 256) + 1)]"
  let ?eh = "e\<lparr>hits_log := (hits_log e)(ev := (hits_log e ev)\<lparr>ev_log := Some ?log\<rparr>)\<rparr>"
  have rec: "fsl_hits_record ev bit_addr e = Some (bit_addr div 256, ?eh)"
    using log by (simp add: fsl_hits_record_def sec Let_def)
  let ?cl = "temporal_log e ev"
  let ?ct = "?cl\<lparr>cl_buf := (cl_buf ?cl)[cl_buf_idx ?cl := bit_addr div 256], cl_buf_idx := cl_buf_idx ?cl + 1\<rparr>"
  have upd: "log_update ?cl (bit_addr div 256) = Some ?ct" using buf by (simp add: log_update_def)
  have "run_cb (Some (CbHits ev)) bit_addr e = run_cb (Some (CbTemporal ev)) (bit_addr div 256) ?eh"
    by (subst run_cb.simps) (simp add: rec prev)
  also have "\<dots> = run_cb (Some CbIdentity) (bit_addr div 256) (?eh\<lparr>temporal_log := (temporal_log e)(ev := ?ct)\<rparr>)"
    by (subst run_cb.simps) (simp add: upd cl)
  also have "\<dots> = Some (?eh\<lparr>temporal_log := (temporal_log e)(ev := ?ct)\<rparr>)"
    by (subst run_cb.simps) simp
  finally show ?thesis using buf by simp
qed

definition demo_hits_env :: env where
  "demo_hits_env = blank_env
     \<lparr>hits_log := (\<lambda>_. \<lparr>ev_log = Some (replicate 8 0), ev_fname = None, ev_cb_prev = Some (CbTemporal EvHit)\<rparr>),
      temporal_log := (\<lambda>ev. (temporal_log blank_env ev)\<lparr>cl_cb_prev := Some CbIdentity\<rparr>)\<rparr>"

theorem hits_forwards_sector_witness:
  "\<exists>e'. run_cb (Some (CbHits EvHit)) 1000 demo_hits_env = Some e' \<and>
    cl_buf (temporal_log e' EvHit) ! cl_buf_idx (temporal_log demo_hits_env EvHit) = 1000 div 256"
  by (rule hits_forwards_sector [where log = "replicate 8 0"]) (simp_all add: demo_hits_env_def blank_env_def LOG_BUF_ENTS_def)

end
