(* ===== verification/IoCache.thy ===== *)
theory IoCache
  imports RtLog
begin

text \<open>
  The block cache of the \<open>pread\<close> back end (\<open>rt-pread/cache.c\<close>): 512 direct mapped lines of 32 bytes.

  A pointer to the data of a line is the index of its slot. The wide loads of \<open>fsl_io_cache_get\<close> take
  their bytes from the line followed by the unconstrained \<open>io_slop\<close>. The backing file never returns a
  short read except at its end. An \<open>int\<close> width that is negative leads to a failed assertion or to a
  shift by a negative count, so it has no result.
\<close>

section \<open>Bytes, words and the bits of the disk\<close>

text \<open>A little-endian load.\<close>

primrec load_le :: "byte list \<Rightarrow> 64 word" where
  "load_le [] = 0"
| "load_le (b # bs) = ucast b OR push_bit 8 (load_le bs)"

definition pread64 :: "byte list \<Rightarrow> nat \<Rightarrow> nat \<Rightarrow> byte list" where
  "pread64 d off n = take n (drop off d)"

definition pwrite64 :: "byte list \<Rightarrow> nat \<Rightarrow> byte list \<Rightarrow> byte list" where
  "pwrite64 d off bs = (if bs = [] then d
     else take off (d @ replicate (off - length d) 0) @ bs @ drop (off + length bs) d)"

definition disk_bit :: "byte list \<Rightarrow> nat \<Rightarrow> bool" where
  "disk_bit d i \<longleftrightarrow> i div 8 < length d \<and> bit (d ! (i div 8)) (i mod 8)"

text \<open>The \<open>n\<close> bits from bit \<open>off\<close> on, least significant first: what a read means in little-endian mode.\<close>

definition disk_bits :: "byte list \<Rightarrow> nat \<Rightarrow> nat \<Rightarrow> 64 word" where
  "disk_bits d off n = horner_sum of_bool 2 (map (disk_bit d) [off..<off + n])"

section \<open>Operations\<close>

definition fsl_io_cache_init :: fsl_io_cache where
  "fsl_io_cache_init = \<lparr>ioc_misses = 0, ioc_hits = 0,
     ioc_ents = (\<lambda>i. \<lparr>ce_addr = ones64, ce_misses = 0, ce_hits = 0, ce_data = replicate FSL_IO_CACHE_BYTES 0\<rparr>)\<rparr>"

definition fsl_io_cache_find :: "fsl_io_cache \<Rightarrow> nat \<Rightarrow> nat option \<times> fsl_io_cache" where
  "fsl_io_cache_find ioc cache_line = (let
     i = cache_line mod FSL_IO_CACHE_ENTS;
     ce = ioc_ents ioc i
   in if ce_addr ce = cache_line
      then (Some i, ioc\<lparr>ioc_hits := u64 (ioc_hits ioc + 1),
                        ioc_ents := (ioc_ents ioc)(i := ce\<lparr>ce_hits := u64 (ce_hits ce + 1)\<rparr>)\<rparr>)
      else (None, ioc\<lparr>ioc_misses := u64 (ioc_misses ioc + 1),
                      ioc_ents := (ioc_ents ioc)(i := ce\<lparr>ce_misses := u64 (ce_misses ce + 1)\<rparr>)\<rparr>))"

definition fsl_io_cache_evict :: "nat \<Rightarrow> nat" where
  "fsl_io_cache_evict cache_line = cache_line mod FSL_IO_CACHE_ENTS"

definition fsl_io_cache_put :: "nat \<Rightarrow> nat rt" where
  "fsl_io_cache_put cache_line e = do {
     let i = fsl_io_cache_evict cache_line;
     let data = pread64 (disk e) (cache_line * FSL_IO_CACHE_BYTES) FSL_IO_CACHE_BYTES;
     assert_c (length data = FSL_IO_CACHE_BYTES);
     let ioc = iop_cache e;
     let ce = (ioc_ents ioc i)\<lparr>ce_addr := cache_line, ce_data := data\<rparr>;
     Some (i, e\<lparr>iop_cache := ioc\<lparr>ioc_ents := (ioc_ents ioc)(i := ce)\<rparr>\<rparr>)
   }"

definition fsl_io_cache_hitmiss :: "nat \<Rightarrow> nat rt" where
  "fsl_io_cache_hitmiss bit_off e = do {
     let line_begin = bit_off div FSL_IO_CACHE_BITS;
     let (found, ioc) = fsl_io_cache_find (iop_cache e) line_begin;
     let e = e\<lparr>iop_cache := ioc\<rparr>;
     case found of
       None \<Rightarrow> do {
         let e = stats_inc FSL_STAT_IOCACHE_MISS e;
         (i, e) \<leftarrow> fsl_io_cache_put line_begin e;
         e \<leftarrow> call_io_cb IO_CB_CACHE_MISS bit_off e;
         Some (i, e)
       }
     | Some i \<Rightarrow> do {
         let e = stats_inc FSL_STAT_IOCACHE_HIT e;
         e \<leftarrow> call_io_cb IO_CB_CACHE_HIT bit_off e;
         Some (i, e)
       }
   }"

text \<open>The loop over \<open>join_buf\<close>, from the most significant byte down.\<close>

fun cache_join :: "byte list \<Rightarrow> nat \<Rightarrow> 64 word \<Rightarrow> 64 word option" where
  "cache_join buf 0 ret = Some ret"
| "cache_join buf (Suc i) ret = do { x \<leftarrow> get_at buf i; cache_join buf i (push_bit 8 ret + ucast x) }"

definition fsl_io_cache_get_unaligned :: "nat \<Rightarrow> nat \<Rightarrow> 64 word rt" where
  "fsl_io_cache_get_unaligned bit_off num_bits e = do {
     let line_begin = bit_off div FSL_IO_CACHE_BITS;
     let line_end = u64 (bit_off + num_bits + ones64) div FSL_IO_CACHE_BITS;
     assert_c (line_begin + 1 = line_end);
     (c0, e) \<leftarrow> fsl_io_cache_hitmiss bit_off e;
     (c1, e) \<leftarrow> fsl_io_cache_hitmiss (u64 (bit_off + FSL_IO_CACHE_BITS)) e;
     assert_c (bit_off mod 8 = 0);
     let cache0_off = bit_off div 8 - line_begin * FSL_IO_CACHE_BYTES;
     let cache0_len = FSL_IO_CACHE_BYTES - cache0_off;
     assert_c (cache0_len \<le> (num_bits + 7) div 8);
     let cache1_len = (num_bits + 7) div 8 - cache0_len;
     let join_buf = take cache0_len (drop cache0_off (ce_data (ioc_ents (iop_cache e) c0)))
                  @ take cache1_len (ce_data (ioc_ents (iop_cache e) c1));
     assert_c (cache0_len + cache1_len \<le> 8);
     ret \<leftarrow> cache_join join_buf (num_bits div 8) 0;
     Some (ret, e)
   }"

text \<open>The \<open>switch\<close> on the number of bytes, given the bytes from the read position on.\<close>

definition cache_load :: "byte list \<Rightarrow> nat \<Rightarrow> 64 word option" where
  "cache_load p n =
     (if n \<le> 1 then Some (load_le (take 1 p))
      else if n = 2 then Some (load_le (take 2 p))
      else if n = 3 then Some (load_le (take 4 p) AND 0xffffff)
      else if n = 4 then Some (load_le (take 4 p))
      else if n = 5 then Some (load_le (take 8 p) AND 0xffffffffff)
      else if n = 6 then Some (load_le (take 8 p) AND 0xfffffffffffff)
      else if n = 7 then Some (load_le (take 8 p) AND 0xfffffffffffffff)
      else if n = 8 then Some (load_le (take 8 p))
      else None)"

definition fsl_io_cache_get :: "nat \<Rightarrow> nat \<Rightarrow> 64 word rt" where
  "fsl_io_cache_get bit_off num_bits e = do {
     let num_bits = u32 num_bits;
     assert_c (num_bits < 2 ^ 31);
     let line_begin = bit_off div FSL_IO_CACHE_BITS;
     let line_end = u64 (bit_off + num_bits + ones64) div FSL_IO_CACHE_BITS;
     if line_begin \<noteq> line_end then fsl_io_cache_get_unaligned bit_off num_bits e
     else do {
       (c, e) \<leftarrow> fsl_io_cache_hitmiss bit_off e;
       assert_c (bit_off mod 8 = 0);
       let p = drop ((bit_off div 8) mod FSL_IO_CACHE_BYTES) (ce_data (ioc_ents (iop_cache e) c) @ io_slop e);
       ret \<leftarrow> cache_load p ((num_bits + 7) div 8);
       let ret = drop_bit (bit_off mod 8) ret;
       Some (if num_bits < 64 then ret AND mask num_bits else ret, e)
     }
   }"

definition drop_line :: "nat \<Rightarrow> env \<Rightarrow> env" where
  "drop_line cur_line e = (let
     ioc = iop_cache e;
     i = cur_line mod FSL_IO_CACHE_ENTS
   in if ce_addr (ioc_ents ioc i) = cur_line
      then (stats_inc FSL_STAT_IOCACHE_DROP e)
             \<lparr>iop_cache := ioc\<lparr>ioc_ents := (ioc_ents ioc)(i := (ioc_ents ioc i)\<lparr>ce_addr := ones64\<rparr>)\<rparr>\<rparr>
      else e)"

function drop_lines :: "nat \<Rightarrow> nat \<Rightarrow> env \<Rightarrow> env" where
  "drop_lines cur_line last_line e =
     (if cur_line \<le> last_line then drop_lines (Suc cur_line) last_line (drop_line cur_line e) else e)"
  by pat_completeness auto
termination
  by (relation "measure (\<lambda>(cur_line, last_line, e). Suc last_line - cur_line)") auto

declare drop_lines.simps [simp del]

definition fsl_io_cache_drop_bytes :: "nat \<Rightarrow> nat \<Rightarrow> env \<Rightarrow> env" where
  "fsl_io_cache_drop_bytes byte_off num_bytes e =
     drop_lines (byte_off div FSL_IO_CACHE_BYTES)
       (u64 (byte_off + num_bytes + FSL_IO_CACHE_BYTES - 1) div FSL_IO_CACHE_BYTES) e"

section \<open>Bits of loads\<close>

lemma bit_load_le:
  "bit (load_le bs) k \<longleftrightarrow> k < 64 \<and> k div 8 < length bs \<and> bit (bs ! (k div 8)) (k mod 8)"
proof (induction bs arbitrary: k)
  case (Cons b bs)
  show ?case
  proof (cases "k < 8")
    case True
    then show ?thesis by (simp add: bit_or_iff bit_push_bit_iff bit_ucast_iff)
  next
    case False
    then obtain j where j: "k = 8 + j" using le_Suc_ex not_less by blast
    moreover have "(8 + j) div 8 = Suc (j div 8)" by simp
    ultimately show ?thesis
      using Cons [of j] by (auto simp: bit_or_iff bit_push_bit_iff bit_ucast_iff byte_bit_ge8)
  qed
qed simp

lemma bit_disk_bits: "bit (disk_bits d off n) k \<longleftrightarrow> k < 64 \<and> k < n \<and> disk_bit d (off + k)"
  by (auto simp: disk_bits_def bit_horner_sum_bit_word_iff)

lemma disk_bit_byte: "i < 8 \<Longrightarrow> disk_bit d (8 * k + i) \<longleftrightarrow> k < length d \<and> bit (d ! k) i"
  by (simp add: disk_bit_def)

section \<open>Coherence of the cache with the disk\<close>

text \<open>
  A line is either dropped (its address is \<open>~0\<close>) or holds the bytes that the disk has at its address.
\<close>

definition line_ok :: "byte list \<Rightarrow> nat \<Rightarrow> fsl_io_cache_ent \<Rightarrow> bool" where
  "line_ok d i ce \<longleftrightarrow> ce_addr ce = ones64 \<or>
     ce_addr ce mod FSL_IO_CACHE_ENTS = i \<and> ce_data ce = pread64 d (ce_addr ce * FSL_IO_CACHE_BYTES) FSL_IO_CACHE_BYTES \<and>
     (ce_addr ce + 1) * FSL_IO_CACHE_BYTES \<le> length d"

definition cache_ok :: "env \<Rightarrow> bool" where
  "cache_ok e \<longleftrightarrow> (\<forall>i < FSL_IO_CACHE_ENTS. line_ok (disk e) i (ioc_ents (iop_cache e) i))"

text \<open>Two states that differ at most in what a read may change.\<close>

definition io_same :: "env \<Rightarrow> env \<Rightarrow> bool" where
  "io_same e e' \<longleftrightarrow> e'\<lparr>iop_cache := iop_cache e, fctx_stat := fctx_stat e, io_rlog := io_rlog e,
     hits_log := hits_log e, temporal_log := temporal_log e\<rparr> = e"

definition no_hooks :: "env \<Rightarrow> bool" where
  "no_hooks e \<longleftrightarrow> io_cb e = (\<lambda>_. None)"

text \<open>The state in which the theorems on the \<open>pread\<close> back end run.\<close>

definition io_ok :: "env \<Rightarrow> bool" where
  "io_ok e \<longleftrightarrow> cache_ok e \<and> no_hooks e \<and> length (disk e) < 2 ^ 60"

lemma io_same_refl [simp]: "io_same e e"
  by (simp add: io_same_def)

lemma io_same_trans [trans]:
  assumes "io_same e0 e1" and "io_same e1 e2"
  shows "io_same e0 e2"
  using assms by (cases e0; cases e1; cases e2) (simp add: io_same_def)

lemma io_same_sel:
  assumes "io_same e e'"
  shows "disk e' = disk e" "io_cb e' = io_cb e" "io_slop e' = io_slop e" "fsl_mode e' = fsl_mode e"
    "bdev_bytes e' = bdev_bytes e" "h_ti e' = h_ti e" "h_rtm e' = h_rtm e" "h_next e' = h_next e"
    "io_wlog e' = io_wlog e" "fctx_except e' = fctx_except e" "memotab e' = memotab e"
    "io_blksize e' = io_blksize e" "io_blk_c e' = io_blk_c e" "fctx_failed_assert e' = fctx_failed_assert e"
  using assms by (cases e; cases e'; simp add: io_same_def)+

lemma io_same_stats [simp]: "io_same e (stats_add s n e)" "io_same e (stats_inc s e)"
  by (simp_all add: io_same_def stats_inc_def stats_add_def)

lemma io_same_cache [simp]: "io_same e (e\<lparr>iop_cache := c\<rparr>)"
  by (simp add: io_same_def)

lemma io_ok_stats [simp]: "io_ok (stats_add s n e) = io_ok e" "io_ok (stats_inc s e) = io_ok e"
  by (simp_all add: io_ok_def cache_ok_def no_hooks_def stats_inc_def stats_add_def)

lemma call_io_cb_quiet: "no_hooks e \<Longrightarrow> call_io_cb t off e = Some e"
  by (simp add: call_io_cb_def no_hooks_def)

lemma length_pread64 [simp]: "off + n \<le> length d \<Longrightarrow> length (pread64 d off n) = n"
  by (simp add: pread64_def)

lemma nth_pread64 [simp]: "off + n \<le> length d \<Longrightarrow> i < n \<Longrightarrow> pread64 d off n ! i = d ! (off + i)"
  by (simp add: pread64_def)

text \<open>What \<open>fsl_io_cache_find\<close> changes besides counters.\<close>

lemma cache_find_ents:
  assumes "fsl_io_cache_find ioc line = (found, ioc')"
  shows "ce_addr (ioc_ents ioc' j) = ce_addr (ioc_ents ioc j)" "ce_data (ioc_ents ioc' j) = ce_data (ioc_ents ioc j)"
    "found = (if ce_addr (ioc_ents ioc (line mod FSL_IO_CACHE_ENTS)) = line then Some (line mod FSL_IO_CACHE_ENTS) else None)"
  using assms by (auto simp: fsl_io_cache_find_def Let_def split: if_splits)

lemma fsl_io_cache_hitmiss_spec:
  assumes ok: "io_ok e" and line: "line = off div FSL_IO_CACHE_BITS" "(line + 1) * FSL_IO_CACHE_BYTES \<le> length (disk e)"
  shows "\<exists>e'. fsl_io_cache_hitmiss off e = Some (line mod FSL_IO_CACHE_ENTS, e') \<and> io_same e e' \<and> io_ok e' \<and>
     ce_data (ioc_ents (iop_cache e') (line mod FSL_IO_CACHE_ENTS)) = pread64 (disk e) (line * FSL_IO_CACHE_BYTES) FSL_IO_CACHE_BYTES \<and>
     (\<forall>j. j \<noteq> line mod FSL_IO_CACHE_ENTS \<longrightarrow> ce_data (ioc_ents (iop_cache e') j) = ce_data (ioc_ents (iop_cache e) j))"
proof -
  let ?i = "line mod FSL_IO_CACHE_ENTS"
  obtain found ioc where f: "fsl_io_cache_find (iop_cache e) line = (found, ioc)" by fastforce
  note ents = cache_find_ents [OF f]
  have quiet: "no_hooks e" and cok: "cache_ok e" and len: "length (disk e) < 2 ^ 60"
    using ok by (simp_all add: io_ok_def)
  have neq: "line \<noteq> ones64" using line(2) len by (simp add: FSL_IO_CACHE_BYTES_def ones64_def)
  have i: "?i < FSL_IO_CACHE_ENTS" by (simp add: FSL_IO_CACHE_ENTS_def)
  have cok': "cache_ok (e\<lparr>iop_cache := ioc\<rparr>)"
    using cok by (simp add: cache_ok_def line_ok_def ents)
  show ?thesis
  proof (cases "ce_addr (ioc_ents (iop_cache e) ?i) = line")
    case True
    let ?e = "stats_inc FSL_STAT_IOCACHE_HIT (e\<lparr>iop_cache := ioc\<rparr>)"
    have "line_ok (disk e) ?i (ioc_ents (iop_cache e) ?i)" using cok i by (simp add: cache_ok_def)
    then have "ce_data (ioc_ents ioc ?i) = pread64 (disk e) (line * FSL_IO_CACHE_BYTES) FSL_IO_CACHE_BYTES"
      using True neq by (simp add: line_ok_def ents)
    moreover have "no_hooks ?e" using quiet by (simp add: no_hooks_def stats_inc_def stats_add_def)
    moreover have "io_ok ?e" unfolding io_ok_stats using cok' quiet len by (simp add: io_ok_def no_hooks_def)
    moreover have "io_same e ?e" by (rule io_same_trans [OF io_same_cache io_same_stats(2)])
    ultimately show ?thesis using f True ents line(1)
      by (intro exI [of _ ?e])
         (simp add: fsl_io_cache_hitmiss_def call_io_cb_quiet stats_inc_def stats_add_def)
  next
    case False
    let ?d = "pread64 (disk e) (line * FSL_IO_CACHE_BYTES) FSL_IO_CACHE_BYTES"
    let ?ce = "(ioc_ents ioc ?i)\<lparr>ce_addr := line, ce_data := ?d\<rparr>"
    let ?c = "ioc\<lparr>ioc_ents := (ioc_ents ioc)(?i := ?ce)\<rparr>"
    let ?em = "stats_inc FSL_STAT_IOCACHE_MISS (e\<lparr>iop_cache := ioc\<rparr>)"
    let ?e = "?em\<lparr>iop_cache := ?c\<rparr>"
    have e0: "disk ?em = disk e" "iop_cache ?em = ioc" "io_cb ?em = io_cb e" by (simp_all add: stats_inc_def stats_add_def)
    have dl: "length ?d = FSL_IO_CACHE_BYTES" using line(2) by simp
    have "line_ok (disk e) ?i ?ce" using line(2) by (simp add: line_ok_def)
    then have "cache_ok ?e" using cok' e0 by (simp add: cache_ok_def)
    moreover have nh: "no_hooks ?e" using quiet e0 by (simp add: no_hooks_def)
    ultimately have "io_ok ?e" using len e0 by (simp add: io_ok_def)
    moreover have "io_same e ?e"
      by (rule io_same_trans [OF io_same_trans [OF io_same_cache io_same_stats(2)] io_same_cache])
    moreover have put: "fsl_io_cache_put line ?em = Some (?i, ?e)"
      using dl e0 by (simp add: fsl_io_cache_put_def fsl_io_cache_evict_def Let_def)
    have "found = None" using ents(3) False by simp
    then have "fsl_io_cache_hitmiss off e = Some (?i, ?e)"
      by (simp add: fsl_io_cache_hitmiss_def line(1) [symmetric] f put call_io_cb_quiet [OF nh])
    moreover have "ce_data (ioc_ents (iop_cache ?e) j) = ce_data (ioc_ents (iop_cache e) j)" if "j \<noteq> ?i" for j
      using that ents(2) by simp
    ultimately show ?thesis by (intro exI [of _ ?e]) simp
  qed
qed

section \<open>Reads\<close>

lemma cache_join_spec:
  "i \<le> length buf \<Longrightarrow> cache_join buf i ret = Some (push_bit (8 * i) ret OR load_le (take i buf))"
proof (induction i arbitrary: ret)
  case (Suc i)
  let ?x = "ucast (buf ! i) :: 64 word"
  have "push_bit 8 ret + ?x = push_bit 8 ret OR ?x"
    by (rule disjunctive_add_eq_or, rule bit_eqI) (auto simp: bit_simps byte_bit_ge8)
  moreover have "push_bit (8 * i) (push_bit 8 ret OR ?x) OR load_le (take i buf) =
      push_bit (8 * Suc i) ret OR load_le (take (Suc i) buf)" (is "?l = ?r")
  proof (rule bit_word_eqI)
    fix k :: nat
    assume "k < LENGTH(64)"
    consider "k < 8 * i" | "8 * i \<le> k" "k < 8 * i + 8" | "8 * i + 8 \<le> k" by linarith
    then show "bit ?l k \<longleftrightarrow> bit ?r k"
    proof cases
      case 1
      then show ?thesis using Suc.prems by (auto simp: bit_or_iff bit_push_bit_iff bit_load_le)
    next
      case 2
      then obtain j where "k = 8 * i + j" "j < 8" by (metis le_Suc_ex nat_add_left_cancel_less)
      then show ?thesis using Suc.prems \<open>k < LENGTH(64)\<close>
        by (auto simp: bit_or_iff bit_push_bit_iff bit_load_le bit_ucast_iff)
    next
      case 3
      then have "i < k div 8" "k - 8 * i - 8 = k - (8 + 8 * i)" "\<not> bit (buf ! i) (k - 8 * i)"
        by (auto simp: byte_bit_ge8)
      then show ?thesis using Suc.prems 3
        by (auto simp: bit_or_iff bit_push_bit_iff bit_load_le bit_ucast_iff)
    qed
  qed
  ultimately show ?case using Suc by simp
qed simp

lemma cache_masks:
  "(0xffffff :: 64 word) = mask 24" "(0xffffffffff :: 64 word) = mask 40"
  "(0xfffffffffffff :: 64 word) = mask 52" "(0xfffffffffffffff :: 64 word) = mask 60"
  by (simp_all add: mask_eq_exp_minus_1)

lemma cache_load_spec:
  assumes "0 < n" and "n \<le> 8"
  shows "\<exists>v. cache_load p n = Some v \<and>
    (\<forall>k < 8 * n. bit v k \<longleftrightarrow> k div 8 < length p \<and> bit (p ! (k div 8)) (k mod 8))"
proof -
  have bits: "bit (load_le (take m p)) k \<longleftrightarrow> k div 8 < length p \<and> bit (p ! (k div 8)) (k mod 8)"
    if "k < 8 * n" "n \<le> m" for m k
  proof -
    have "k div 8 < m" "k < 64" using that assms(2) by linarith+
    then show ?thesis by (auto simp: bit_load_le)
  qed
  from assms consider "n = 1" | "n = 2" | "n = 3" | "n = 4" | "n = 5" | "n = 6" | "n = 7" | "n = 8" by linarith
  then show ?thesis
    by cases (use bits in \<open>simp_all add: cache_load_def cache_masks bit_and_iff bit_mask_iff\<close>)
qed

lemmas io_consts = FSL_IO_CACHE_BITS_def FSL_IO_CACHE_BYTES_def

lemma pread_line_bit:
  assumes "(line + 1) * 32 \<le> length d" and "j < 32"
  shows "bit (pread64 d (line * 32) 32 ! j) i \<longleftrightarrow> bit (d ! (32 * line + j)) i"
  using assms by (simp add: mult.commute)

lemma line_arith:
  fixes b n line :: nat
  assumes "line = 8 * b div 256" and "0 < n"
  shows "32 * line + b mod 32 = b" "line = b div 32"
    "(8 * b + n - 1) div 256 = line \<longleftrightarrow> b mod 32 + (n + 7) div 8 \<le> 32"
    "(8 * b + n - 1) div 256 = line \<Longrightarrow> 8 * b + n \<le> 256 * line + 256"
    "n \<le> 64 \<Longrightarrow> (8 * b + n - 1) div 256 \<noteq> line \<Longrightarrow> (8 * b + n - 1) div 256 = line + 1"
proof -
  show l: "line = b div 32" using assms(1) div_mult2_eq [of "8 * b" 8 32] by simp
  then show b: "32 * line + b mod 32 = b" by simp
  define r where "r = b mod 32"
  have r: "r < 32" by (simp add: r_def)
  have "8 * b + n - 1 = (8 * r + n - 1) + line * 256" using b assms(2) by (simp add: r_def)
  then have q: "(8 * b + n - 1) div 256 = line + (8 * r + n - 1) div 256" by simp
  then show eq: "(8 * b + n - 1) div 256 = line \<longleftrightarrow> b mod 32 + (n + 7) div 8 \<le> 32"
    using assms(2) unfolding r_def [symmetric] by linarith
  show "8 * b + n \<le> 256 * line + 256" if "(8 * b + n - 1) div 256 = line"
  proof -
    have "b mod 32 + (n + 7) div 8 \<le> 32" using that eq by blast
    moreover have "n \<le> 8 * ((n + 7) div 8)" by linarith
    ultimately show ?thesis using b unfolding r_def [symmetric] by linarith
  qed
  show "(8 * b + n - 1) div 256 = line + 1" if "n \<le> 64" "(8 * b + n - 1) div 256 \<noteq> line"
    using q that r by linarith
qed

lemma fsl_io_cache_get_line:
  assumes ok: "io_ok e" and al: "off = 8 * b" and n: "0 < n" "n \<le> 64"
    and line: "line = off div 256" "(off + n - 1) div 256 = line" "(line + 1) * 32 \<le> length (disk e)"
  shows "\<exists>e'. fsl_io_cache_get off n e = Some (disk_bits (disk e) off n, e') \<and> io_same e e' \<and> io_ok e'"
proof -
  let ?d = "disk e" and ?m = "(n + 7) div 8" and ?o = "b mod 32"
  have len: "length ?d < 2 ^ 60" using ok by (simp add: io_ok_def)
  note ar = line_arith [OF line(1) [unfolded al] n(1)]
  have b: "32 * line + ?o = b" by (rule ar(1))
  have fit: "?o + ?m \<le> 32" using ar(3) line(2) al by blast
  have "off + n \<le> 8 * length ?d" using ar(4) [OF line(2) [unfolded al]] line(3) al by simp
  then have wrap: "u64 (off + n + ones64) = off + n - 1"
    using len n by (intro u64_add_ones) simp_all
  obtain e' where e': "fsl_io_cache_hitmiss off e = Some (line mod FSL_IO_CACHE_ENTS, e')" "io_same e e'" "io_ok e'"
      "ce_data (ioc_ents (iop_cache e') (line mod FSL_IO_CACHE_ENTS)) = pread64 ?d (line * 32) 32"
    using fsl_io_cache_hitmiss_spec [OF ok, of line off] line by (auto simp: io_consts)
  let ?p = "drop ?o (pread64 ?d (line * 32) 32 @ io_slop e')"
  have m: "0 < ?m" "?m \<le> 8" using n by linarith+
  obtain v where v: "cache_load ?p ?m = Some v"
      "\<And>k. k < 8 * ?m \<Longrightarrow> bit v k \<longleftrightarrow> k div 8 < length ?p \<and> bit (?p ! (k div 8)) (k mod 8)"
    using cache_load_spec [OF m, of ?p] by blast
  have bits: "bit v k \<longleftrightarrow> disk_bit ?d (off + k)" if "k < n" for k
  proof -
    have k: "k < 8 * ?m" "k div 8 < ?m" using that by linarith+
    then have "?p ! (k div 8) = ?d ! (b + k div 8)" "k div 8 < length ?p" "b + k div 8 < length ?d"
      using fit line(3) b by (auto simp: nth_append mult.commute add.assoc [symmetric])
    moreover have "(off + k) div 8 = b + k div 8" "(off + k) mod 8 = k mod 8" using al by simp_all
    ultimately show ?thesis using v(2) [OF k(1)] by (simp add: disk_bit_def)
  qed
  have "(if n < 64 then v AND mask n else v) = disk_bits ?d off n"
    using n bits by (intro bit_word_eqI) (auto simp: bit_disk_bits bit_and_iff bit_mask_iff)
  moreover have "u32 n = n" using n by (simp add: u32_id)
  moreover have "off div 8 mod 32 = ?o" using al by simp
  ultimately have "fsl_io_cache_get off n e = Some (disk_bits ?d off n, e')"
    using e'(1,4) v(1) line(1,2) wrap al n by (simp add: fsl_io_cache_get_def io_consts Let_def)
  with e' show ?thesis by blast
qed

text \<open>
  A read that straddles two lines returns only its whole bytes: the loop of
  \<open>fsl_io_cache_get_unaligned\<close> runs over \<open>num_bits / 8\<close> bytes.
\<close>

lemma fsl_io_cache_get_straddle:
  assumes ok: "io_ok e" and al: "off = 8 * b" and n: "0 < n" "m = (n + 7) div 8" "n \<le> 64"
    and line: "line = off div 256" "(off + n - 1) div 256 = line + 1" "(line + 2) * 32 \<le> length (disk e)"
  shows "\<exists>e'. fsl_io_cache_get off n e = Some (disk_bits (disk e) off (8 * (n div 8)), e') \<and> io_same e e' \<and> io_ok e'"
proof -
  let ?d = "disk e" and ?o = "b mod 32" and ?s = "\<lambda>l. l mod FSL_IO_CACHE_ENTS"
  note ar = line_arith [OF line(1) [unfolded al] n(1)]
  have len: "length ?d < 2 ^ 60" using ok by (simp add: io_ok_def)
  have o: "?o < 32" "?o = b - line * 32" using ar(1) by simp_all
  have over: "32 < ?o + m" using ar(3) line(2) al n(2) by simp
  have "(line + 2) * 32 = 32 * line + 64" by simp
  then have bm: "b + 32 < length ?d" using ar(1) o(1) line(3) by linarith
  then have offs: "off < 2 ^ 63" using len al by simp
  have wrap: "u64 (off + n + ones64) = off + n - 1" using offs n by (intro u64_add_ones) simp_all
  have wrap2: "u64 (off + 256) = off + 256" using offs by (intro u64_id) simp
  obtain e1 where e1: "fsl_io_cache_hitmiss off e = Some (?s line, e1)" "io_same e e1" "io_ok e1"
      "ce_data (ioc_ents (iop_cache e1) (?s line)) = pread64 ?d (line * 32) 32"
    using fsl_io_cache_hitmiss_spec [OF ok, of line off] line by (auto simp: io_consts)
  have d1: "disk e1 = ?d" using e1(2) by (rule io_same_sel)
  have next_line: "line + 1 = (off + 256) div FSL_IO_CACHE_BITS" using line(1) by (simp add: io_consts)
  have inside: "(line + 1 + 1) * FSL_IO_CACHE_BYTES \<le> length (disk e1)" using line(3) d1 by (simp add: io_consts)
  obtain e2 where e2: "fsl_io_cache_hitmiss (off + 256) e1 = Some (?s (line + 1), e2)" "io_same e1 e2" "io_ok e2"
      "ce_data (ioc_ents (iop_cache e2) (?s (line + 1))) = pread64 ?d ((line + 1) * 32) 32"
      "\<forall>j. j \<noteq> ?s (line + 1) \<longrightarrow> ce_data (ioc_ents (iop_cache e2) j) = ce_data (ioc_ents (iop_cache e1) j)"
    using fsl_io_cache_hitmiss_spec [OF e1(3) next_line inside] unfolding d1 FSL_IO_CACHE_BYTES_def by blast
  have "?s line \<noteq> ?s (line + 1)" by (simp add: FSL_IO_CACHE_ENTS_def mod_Suc)
  then have c0: "ce_data (ioc_ents (iop_cache e2) (?s line)) = pread64 ?d (line * 32) 32"
    using e2(5) e1(4) by simp
  define buf where "buf = take (32 - ?o) (drop ?o (pread64 ?d (line * 32) 32)) @
    take (m - (32 - ?o)) (pread64 ?d ((line + 1) * 32) 32)"
  have m8: "m \<le> 8" "n div 8 \<le> m" using n by linarith+
  have lb: "length buf = m" using over m8 line(3) o by (simp add: buf_def)
  have nb: "buf ! j = ?d ! (b + j)" if "j < m" for j
    using that over m8 line(3) o ar(1) by (auto simp: buf_def nth_append ac_simps)
  have "load_le (take (n div 8) buf) = disk_bits ?d off (8 * (n div 8))"
  proof (rule bit_word_eqI)
    fix k assume "k < LENGTH(64)"
    moreover have "(off + k) div 8 = b + k div 8" "(off + k) mod 8 = k mod 8" using al by simp_all
    moreover have "k div 8 < n div 8 \<longleftrightarrow> k < 8 * (n div 8)" by linarith
    moreover have "b + m \<le> length ?d" using bm m8 by simp
    ultimately show "bit (load_le (take (n div 8) buf)) k \<longleftrightarrow> bit (disk_bits ?d off (8 * (n div 8))) k"
      using nb [of "k div 8"] m8(2) by (auto simp: bit_load_le bit_disk_bits disk_bit_def lb)
  qed
  then have "cache_join buf (n div 8) 0 = Some (disk_bits ?d off (8 * (n div 8)))"
    using cache_join_spec [of "n div 8" buf 0] lb m8 by simp
  moreover have facts: "off div (32 * 8) = line" "u64 (off + n + ones64) div (32 * 8) = line + 1"
      "u64 (off + 32 * 8) = off + 256" "off mod 8 = 0" "off div 8 - line * 32 = ?o" "(n + 7) div 8 = m"
    using line(1,2) wrap wrap2 al o(2) n(2) by simp_all
  moreover have "32 - ?o \<le> m" "32 - ?o + (m - (32 - ?o)) \<le> 8" using over m8 by linarith+
  ultimately have "fsl_io_cache_get_unaligned off n e = Some (disk_bits ?d off (8 * (n div 8)), e2)"
    unfolding fsl_io_cache_get_unaligned_def io_consts Let_def facts
    by (simp add: e1(1) e2(1) e2(4) [simplified] c0 buf_def [symmetric, simplified])
  moreover have "u32 n = n" "n < 2 ^ 31" using n by (simp_all add: u32_id)
  ultimately have "fsl_io_cache_get off n e = Some (disk_bits ?d off (8 * (n div 8)), e2)"
    unfolding fsl_io_cache_get_def io_consts Let_def by (simp add: facts(1,2) [simplified])
  with e2 e1 show ?thesis by (blast intro: io_same_trans)
qed

text \<open>A byte aligned read is exact when it has whole bytes or stays within one cache line.\<close>

lemma fsl_io_cache_get_spec:
  assumes ok: "io_ok e" and al: "off mod 8 = 0" and n: "0 < n" "n \<le> 64"
    and whole: "n mod 8 = 0 \<or> off div 256 = (off + n - 1) div 256"
    and inside: "((off + n - 1) div 256 + 1) * 32 \<le> length (disk e)"
  shows "\<exists>e'. fsl_io_cache_get off n e = Some (disk_bits (disk e) off n, e') \<and> io_same e e' \<and> io_ok e'"
proof -
  obtain b where b: "off = 8 * b" using al by auto
  show ?thesis
  proof (cases "off div 256 = (off + n - 1) div 256")
    case True
    then show ?thesis using fsl_io_cache_get_line [OF ok b n refl] inside by simp
  next
    case False
    then obtain m where m: "n = 8 * m" using whole by auto
    have "(off + n - 1) div 256 = off div 256 + 1"
      using line_arith(5) [OF refl n(1,2), of b] False b by simp
    moreover have "8 * (n div 8) = n" using m by simp
    ultimately show ?thesis using fsl_io_cache_get_straddle [OF ok b n(1) refl n(2) refl] inside by simp
  qed
qed

section \<open>Writes and the cache\<close>

lemma length_pwrite64: "bs \<noteq> [] \<Longrightarrow> length (pwrite64 d off bs) = max (length d) (off + length bs)"
  by (auto simp: pwrite64_def max_def)

lemma length_pwrite64_ge: "length d \<le> length (pwrite64 d off bs)"
  by (cases "bs = []") (simp add: pwrite64_def, simp add: length_pwrite64)

lemma length_pwrite64_in: "off + length bs \<le> length d \<Longrightarrow> length (pwrite64 d off bs) = length d"
  by (simp add: pwrite64_def)

lemma nth_pwrite64_ge:
  "bs \<noteq> [] \<Longrightarrow> pwrite64 d off bs ! (off + i) = (if i < length bs then bs ! i else drop (off + length bs) d ! (i - length bs))"
proof -
  let ?p = "take off (d @ replicate (off - length d) 0)"
  assume "bs \<noteq> []"
  then have "pwrite64 d off bs = ?p @ bs @ drop (off + length bs) d" by (simp add: pwrite64_def)
  moreover have "length ?p = off" by (simp add: min_def)
  ultimately show ?thesis
    using nth_append_length_plus [of ?p "bs @ drop (off + length bs) d" i] by (simp only: nth_append [of bs])
qed

lemma nth_pwrite64_in: "i < length bs \<Longrightarrow> pwrite64 d off bs ! (off + i) = bs ! i"
  by (subst nth_pwrite64_ge) auto

lemma nth_pwrite64_out:
  assumes "i < length d" and "i < off \<or> off + length bs \<le> i"
  shows "pwrite64 d off bs ! i = d ! i"
proof (cases "i < off")
  case True
  with assms show ?thesis by (simp add: pwrite64_def nth_append)
next
  case False
  with assms obtain j where "i = off + (length bs + j)" by (metis le_Suc_ex add.assoc)
  then show ?thesis
  proof (cases "bs = []")
    case False
    then show ?thesis
      using \<open>i = off + (length bs + j)\<close> assms(1) nth_pwrite64_ge [OF False, of d off "length bs + j"]
      by (simp add: add.assoc)
  qed (simp add: pwrite64_def)
qed

lemma pread64_pwrite64_out:
  assumes "a + n \<le> length d" and "a + n \<le> off \<or> off + length bs \<le> a"
  shows "pread64 (pwrite64 d off bs) a n = pread64 d a n"
proof (rule nth_equalityI)
  have le: "a + n \<le> length (pwrite64 d off bs)" using assms(1) length_pwrite64_ge le_trans by blast
  then show "length (pread64 (pwrite64 d off bs) a n) = length (pread64 d a n)" using assms(1) by simp
  fix i assume "i < length (pread64 (pwrite64 d off bs) a n)"
  with le have "i < n" by simp
  moreover from this have "a + i < off \<or> off + length bs \<le> a + i" using assms(2) by linarith
  ultimately show "pread64 (pwrite64 d off bs) a n ! i = pread64 d a n ! i"
    using assms le by (simp add: nth_pwrite64_out)
qed

text \<open>The loop of \<open>fsl_io_cache_drop_bytes\<close> drops the lines of an interval and leaves the others alone.\<close>

lemma drop_lines_spec:
  "io_same e (drop_lines cur last_line e) \<and>
   (\<forall>i. ioc_ents (iop_cache (drop_lines cur last_line e)) i = ioc_ents (iop_cache e) i \<or>
        ce_addr (ioc_ents (iop_cache (drop_lines cur last_line e)) i) = ones64) \<and>
   (\<forall>i. let a = ce_addr (ioc_ents (iop_cache e) i) in cur \<le> a \<and> a \<le> last_line \<and> a mod FSL_IO_CACHE_ENTS = i \<longrightarrow>
        ce_addr (ioc_ents (iop_cache (drop_lines cur last_line e)) i) = ones64)"
proof (induction cur last_line e rule: drop_lines.induct)
  case (1 cur last_line e)
  show ?case
  proof (cases "cur \<le> last_line")
    case False
    then show ?thesis by (subst (1 2 3 4) drop_lines.simps) (simp add: Let_def)
  next
    case True
    let ?f = "drop_line cur e"
    have unf: "drop_lines cur last_line e = drop_lines (Suc cur) last_line ?f"
      using True by (subst drop_lines.simps) simp
    have same: "io_same e ?f"
      using io_same_trans [OF io_same_stats(2) io_same_cache] by (auto simp: drop_line_def Let_def)
    have ents: "ioc_ents (iop_cache ?f) i = ioc_ents (iop_cache e) i \<or> ce_addr (ioc_ents (iop_cache ?f) i) = ones64" for i
      by (simp add: drop_line_def Let_def)
    have hit: "ce_addr (ioc_ents (iop_cache ?f) i) = ones64"
      if "ce_addr (ioc_ents (iop_cache e) i) = cur" "cur mod FSL_IO_CACHE_ENTS = i" for i
      using that by (auto simp: drop_line_def Let_def)
    note IH = "1.IH" [OF True]
    have ents': "ioc_ents (iop_cache (drop_lines (Suc cur) last_line ?f)) i = ioc_ents (iop_cache e) i \<or>
        ce_addr (ioc_ents (iop_cache (drop_lines (Suc cur) last_line ?f)) i) = ones64" for i
      using IH ents [of i] by metis
    have "ce_addr (ioc_ents (iop_cache (drop_lines (Suc cur) last_line ?f)) i) = ones64"
      if a: "a = ce_addr (ioc_ents (iop_cache e) i)" "cur \<le> a" "a \<le> last_line" "a mod FSL_IO_CACHE_ENTS = i" for a i
    proof (cases "a = cur \<or> ce_addr (ioc_ents (iop_cache ?f) i) = ones64")
      case True
      then show ?thesis using IH hit [of i] a by metis
    next
      case False
      then show ?thesis using IH ents [of i] a by (auto simp: Let_def)
    qed
    then show ?thesis unfolding unf using IH same ents' by (auto simp: Let_def intro: io_same_trans)
  qed
qed

text \<open>
  Writing bytes behind the cache's back and then dropping the lines that hold them keeps the cache
  coherent.
\<close>

lemma drop_bytes_coherent:
  assumes ok: "io_ok e" and n: "length bs \<le> n" and bound: "off + n < 2 ^ 61" and ne: "bs \<noteq> []"
    and len: "off + length bs \<le> length (disk e)"
    and e': "e' = fsl_io_cache_drop_bytes off n (e\<lparr>disk := pwrite64 (disk e) off bs\<rparr>)"
  shows "io_same (e\<lparr>disk := pwrite64 (disk e) off bs\<rparr>) e'" and "io_ok e'"
proof -
  let ?d = "pwrite64 (disk e) off bs" and ?l = "(off + n + 31) div 32"
  let ?ew = "e\<lparr>disk := ?d\<rparr>"
  have e'': "e' = drop_lines (off div 32) ?l ?ew"
    using bound by (simp add: e' fsl_io_cache_drop_bytes_def io_consts u64_id add.commute)
  note spec = drop_lines_spec [of ?ew "off div 32" ?l, folded e'']
  show same: "io_same ?ew e'" using spec by blast
  have "line_ok ?d i (ioc_ents (iop_cache e') i)" if i: "i < FSL_IO_CACHE_ENTS" for i
  proof (cases "ce_addr (ioc_ents (iop_cache e') i) = ones64")
    case False
    let ?a = "ce_addr (ioc_ents (iop_cache e) i)"
    have eq: "ioc_ents (iop_cache e') i = ioc_ents (iop_cache e) i" using spec False by auto
    have old: "line_ok (disk e) i (ioc_ents (iop_cache e) i)" using ok i by (simp add: io_ok_def cache_ok_def)
    then have a: "?a mod FSL_IO_CACHE_ENTS = i" "?a * 32 + 32 \<le> length (disk e)"
        "ce_data (ioc_ents (iop_cache e) i) = pread64 (disk e) (?a * 32) 32"
      using False eq by (auto simp: line_ok_def io_consts)
    have "\<not> (off div 32 \<le> ?a \<and> ?a \<le> ?l)" using spec False a(1) by (auto simp: Let_def)
    then have "?a * 32 + 32 \<le> off \<or> off + length bs \<le> ?a * 32" using n by linarith
    then have "pread64 ?d (?a * 32) 32 = pread64 (disk e) (?a * 32) 32"
      using a(2) by (intro pread64_pwrite64_out)
    moreover have "?a * 32 + 32 \<le> length ?d" using a(2) length_pwrite64_ge le_trans by blast
    ultimately show ?thesis using a by (simp add: line_ok_def eq io_consts)
  qed (simp add: line_ok_def)
  then have "cache_ok e'" using io_same_sel(1) [OF same] by (simp add: cache_ok_def)
  moreover have "length (disk e') < 2 ^ 60"
    using ok len io_same_sel(1) [OF same] by (simp add: io_ok_def length_pwrite64_in)
  ultimately show "io_ok e'" using ok io_same_sel(2) [OF same] by (simp add: io_ok_def no_hooks_def)
qed

end
