(* ===== verification/Io.thy ===== *)
theory Io
  imports IoCache
begin

text \<open>
  The part of the I/O layer that both back ends share (\<open>io.c\<close>): reads that do not start on a byte
  boundary, byte swapping, and running write packets.

  \<open>io.c\<close> calls the \<open>__getLocalPhys\<close> of the back end it is linked with, which is the argument \<open>phys\<close> of
  the definitions here. The locale \<open>phys_reader\<close> states what a back end promises about byte aligned
  reads of whole bytes; the correctness of misaligned reads is proved from it once. A shift by 64 or
  more is undefined in C and has no result.
\<close>

section \<open>Misaligned reads\<close>

definition getLocalPhysMisalign :: "(nat \<Rightarrow> nat \<Rightarrow> 64 word rt) \<Rightarrow> nat \<Rightarrow> nat \<Rightarrow> 64 word rt" where
  "getLocalPhysMisalign phys bit_off num_bits e = do {
     let bits_left = 8 - bit_off mod 8;
     let bits_left = (if bits_left > num_bits then num_bits else bits_left);
     let bytes_full = (num_bits - bits_left) div 8;
     let bits_right = num_bits - (8 * bytes_full + bits_left);
     assert_c (bits_left > 0 \<and> bits_left < 8);
     (ret, e) \<leftarrow> phys (8 * (bit_off div 8)) 8 e;
     let ret = drop_bit (bit_off mod 8) ret;
     (ret, e) \<leftarrow> (if bytes_full \<noteq> 0 then do {
         (v, e) \<leftarrow> phys (u64 (8 * (1 + bit_off div 8))) (8 * bytes_full) e;
         Some (ret OR push_bit bits_left v, e)
       } else Some (ret, e));
     assert_c (num_bits < 64);
     let ret = ret AND mask num_bits;
     if bits_right \<noteq> 0 then do {
       (v, e) \<leftarrow> phys (u64 (8 * (1 + bit_off div 8 + bytes_full))) 8 e;
       let v = v AND mask bits_right;
       Some (ret OR push_bit (bits_left + 8 * bytes_full) v, e)
     } else Some (ret, e)
   }"

text \<open>
  In \<open>__getLocalPhysMisalignSwp\<close> the unsigned difference \<open>num_bits - (bits_left + bits_right)\<close> wraps when
  the bits end inside the byte they start in; \<open>bytes_full\<close> is then -1 and the third assertion fails.
\<close>

definition getLocalPhysMisalignSwp :: "(nat \<Rightarrow> nat \<Rightarrow> 64 word rt) \<Rightarrow> nat \<Rightarrow> nat \<Rightarrow> 64 word rt" where
  "getLocalPhysMisalignSwp phys bit_off num_bits e = do {
     let bits_left = 8 - bit_off mod 8;
     let bits_left = (if bits_left > num_bits then num_bits else bits_left);
     let bits_right = u64 (bit_off + num_bits) mod 8;
     assert_c (bits_left + bits_right \<le> num_bits);
     let bytes_full = (num_bits - (bits_left + bits_right)) div 8;
     assert_c (bits_left > 0 \<and> bits_left < 8);
     assert_c (bits_left + bits_right + 8 * bytes_full = num_bits);
     (ret, e) \<leftarrow> phys (8 * (bit_off div 8)) 8 e;
     let ret = ret AND 0xff;
     let ret = ret AND mask bits_left;
     assert_c (num_bits < 64);
     let ret = push_bit (num_bits - bits_left) ret;
     (ret, e) \<leftarrow> (if bytes_full \<noteq> 0 then do {
         (v, e) \<leftarrow> phys (u64 (8 * (1 + bit_off div 8))) (8 * bytes_full) e;
         Some (ret OR push_bit bits_right v, e)
       } else Some (ret, e));
     (ret, e) \<leftarrow> (if bits_right \<noteq> 0 then do {
         (v, e) \<leftarrow> phys (u64 (8 * (1 + bit_off div 8 + bytes_full))) 8 e;
         let v = drop_bit (8 - bits_right) v;
         Some (ret OR v, e)
       } else Some (ret, e));
     Some (ret AND mask num_bits, e)
   }"

section \<open>Byte order\<close>

text \<open>\<open>bswap_16\<close>, \<open>bswap_32\<close> and \<open>bswap_64\<close> of the C library: the low bytes in reverse order.\<close>

definition word_bytes :: "nat \<Rightarrow> 64 word \<Rightarrow> byte list" where
  "word_bytes n v = map (\<lambda>i. ucast (drop_bit (8 * i) v)) [0..<n]"

definition bswap :: "nat \<Rightarrow> 64 word \<Rightarrow> 64 word" where
  "bswap n v = load_le (rev (word_bytes n v))"

definition swapBytes :: "64 word \<Rightarrow> nat \<Rightarrow> 64 word option" where
  "swapBytes v num_bytes =
     (if num_bytes = 1 then Some v
      else if num_bytes = 2 then Some (bswap 2 v)
      else if num_bytes = 4 then Some (bswap 4 v)
      else if num_bytes = 8 then Some (bswap 8 v)
      else if num_bytes = 5 then Some (
        drop_bit (4 * 8) (v AND 0xff00000000) OR
        drop_bit (2 * 8) (v AND 0x00ff000000) OR
        (v AND 0x0000ff0000) OR
        push_bit (2 * 8) (v AND 0x000000ff00) OR
        push_bit (4 * 8) (v AND 0x00000000ff))
      else if num_bytes = 6 then Some (
        drop_bit (5 * 8) (v AND 0xff0000000000) OR
        drop_bit (3 * 8) (v AND 0x00ff00000000) OR
        drop_bit (1 * 8) (v AND 0x0000ff000000) OR
        push_bit (1 * 8) (v AND 0x000000ff0000) OR
        push_bit (3 * 8) (v AND 0x00000000ff00) OR
        push_bit (5 * 8) (v AND 0x0000000000ff))
      else None)"

section \<open>Write packets\<close>

text \<open>
  \<open>fsl_io_do_wpkt\<close> runs the functions of a packet and then the packets it calls, depth first. One
  function covers the packet and the loop over its calls.
\<close>

datatype wpkt_job = WpktRun nat "nat list" | WpktCalls "fsl_rtt_wpkt2wpkt list" "nat list"

fun run_wpkt_funcs :: "(nat list \<Rightarrow> unit rt) list \<Rightarrow> nat list \<Rightarrow> env \<Rightarrow> env option" where
  "run_wpkt_funcs [] params e = Some e"
| "run_wpkt_funcs (f # fs) params e = do { (_, e) \<leftarrow> f params e; run_wpkt_funcs fs params e }"

partial_function (option) do_wpkt_job :: "fsl_tables \<Rightarrow> wpkt_job \<Rightarrow> env \<Rightarrow> env option" where
  "do_wpkt_job T job e = (case job of
     WpktRun w params \<Rightarrow> do {
       wpkt \<leftarrow> get_at (fsl_wpkts T) w;
       assert_c (wpkt_next wpkt = None);
       assert_c (wpkt_blks wpkt = None);
       e \<leftarrow> run_wpkt_funcs (wpkt_funcs wpkt) params e;
       do_wpkt_job T (WpktCalls (wpkt_calls wpkt) params) e
     }
   | WpktCalls [] params \<Rightarrow> Some e
   | WpktCalls (w2w # rest) params \<Rightarrow> do {
       (go, e) \<leftarrow> w2w_cond_f w2w params e;
       if \<not> go then do_wpkt_job T (WpktCalls rest params) e
       else do {
         (new_params, e) \<leftarrow> w2w_params_f w2w params e;
         e \<leftarrow> do_wpkt_job T (WpktRun (w2w_wpkt w2w) new_params) e;
         do_wpkt_job T (WpktCalls rest params) e
       }
     })"

definition fsl_io_do_wpkt :: "fsl_tables \<Rightarrow> nat \<Rightarrow> nat list \<Rightarrow> env \<Rightarrow> env option" where
  "fsl_io_do_wpkt T wpkt params e = do_wpkt_job T (WpktRun wpkt params) e"

text \<open>
  \<open>fsl_io_dump_pending\<close> prints every pending write with the value the disk has at that place; the
  result is the printed rows.
\<close>

fun dump_pending_loop ::
  "(nat \<Rightarrow> nat \<Rightarrow> 64 word rt) \<Rightarrow> fsl_rt_wlog_ent list \<Rightarrow> (nat \<times> nat \<times> 64 word \<times> 64 word) list rt" where
  "dump_pending_loop phys [] e = Some ([], e)"
| "dump_pending_loop phys (we # wes) e = do {
     (cur_v, e) \<leftarrow> phys (we_bit_addr we) (we_bits we) e;
     (rows, e) \<leftarrow> dump_pending_loop phys wes e;
     Some ((we_bit_addr we, we_bits we, we_val we, cur_v) # rows, e)
   }"

definition fsl_io_dump_pending ::
  "(nat \<Rightarrow> nat \<Rightarrow> 64 word rt) \<Rightarrow> (nat \<times> nat \<times> 64 word \<times> 64 word) list rt" where
  "fsl_io_dump_pending phys e = dump_pending_loop phys (take (nat (wl_idx (io_wlog e))) (wl_write (io_wlog e))) e"

section \<open>Back ends that read whole bytes correctly read misaligned bits correctly\<close>

lemma disk_bits_0 [simp]: "disk_bits d off 0 = 0"
  by (simp add: disk_bits_def)

text \<open>Joining the left bits, the full bytes and the right bits.\<close>

lemma misalign_join:
  assumes r: "0 < r" "r < 8" and n: "n = 8 - r + 8 * f + t" "t < 8" "n < 64"
  shows "((drop_bit r (disk_bits d (8 * b) 8) OR push_bit (8 - r) (disk_bits d (8 * (b + 1)) (8 * f))) AND mask n)
      OR push_bit (8 - r + 8 * f) (disk_bits d (8 * (b + 1 + f)) 8 AND mask t)
    = disk_bits d (8 * b + r) n" (is "?v = _")
proof (rule bit_word_eqI)
  fix k assume k: "k < LENGTH(64)"
  consider "k < 8 - r" | j where "k = 8 - r + j" "j < 8 * f" | j where "k = 8 - r + 8 * f + j" "j < t" | "n \<le> k"
    by (metis add.assoc le_Suc_ex n(1) nat_add_left_cancel_less not_le)
  then show "bit ?v k \<longleftrightarrow> bit (disk_bits d (8 * b + r) n) k"
  proof cases
    case 1
    then have "8 * b + (r + k) = 8 * b + r + k" "r + k < 8" "k < n" "\<not> 8 - r + 8 * f \<le> k" "\<not> 8 - r \<le> k"
      using n r by linarith+
    then show ?thesis using k by (simp add: bit_simps bit_disk_bits add.assoc)
  next
    case 2
    then have eq: "8 + 8 * b + j = 8 * b + r + k" using r by simp
    from 2 have "\<not> r + k < 8" "k < n" "\<not> 8 - r + 8 * f \<le> k" "k - (8 - r) = j" "8 - r \<le> k" "j < 64"
      using n r k by (simp_all)
    then show ?thesis using 2(2) k by (simp add: bit_simps bit_disk_bits eq)
  next
    case 3
    then have eq: "8 + (8 * b + 8 * f) + j = 8 * b + r + k" using r by simp
    from 3 have "\<not> r + k < 8" "k < n" "k - (8 - r + 8 * f) = j" "8 - r + 8 * f \<le> k"
        "\<not> k - (8 - r) < 8 * f" "j < 8" "j < 64"
      using n r k by (simp_all)
    then show ?thesis using 3(2) k by (simp add: bit_simps bit_disk_bits eq)
  next
    case 4
    then have "\<not> k < n" "\<not> k - (8 - r + 8 * f) < t" using n by linarith+
    then show ?thesis using k by (simp add: bit_simps bit_disk_bits)
  qed
qed

lemma misalign_inner:
  assumes "r + n \<le> 8" and "n < 64"
  shows "drop_bit r (disk_bits d (8 * b) 8) AND mask n = disk_bits d (8 * b + r) n"
  using assms by (intro bit_word_eqI) (auto simp: bit_simps bit_disk_bits add.assoc)

locale phys_reader =
  fixes rd :: "nat \<Rightarrow> nat \<Rightarrow> 64 word rt"
    and I :: "env \<Rightarrow> bool"
    and lim :: "nat \<Rightarrow> nat"
  assumes rd_bytes: "I e \<Longrightarrow> 0 < m \<Longrightarrow> m \<le> 8 \<Longrightarrow> b + m \<le> lim (length (disk e)) \<Longrightarrow>
      \<exists>e'. rd (8 * b) (8 * m) e = Some (disk_bits (disk e) (8 * b) (8 * m), e') \<and> io_same e e' \<and> I e'"
    and lim_small: "I e \<Longrightarrow> lim (length (disk e)) < 2 ^ 60"
begin

lemma rd_misaligned_inner:
  assumes I: "I e" and r: "0 < r" "r + n < 8" and n: "0 < n" and inside: "b + 1 \<le> lim (length (disk e))"
  shows "\<exists>e'. getLocalPhysMisalign rd (8 * b + r) n e = Some (disk_bits (disk e) (8 * b + r) n, e') \<and> io_same e e' \<and> I e'"
proof -
  obtain e1 where e1: "rd (8 * b) 8 e = Some (disk_bits (disk e) (8 * b) 8, e1)" "io_same e e1" "I e1"
    using rd_bytes [OF I, of 1 b] inside by auto
  have "drop_bit r (disk_bits (disk e) (8 * b) 8) AND mask n = disk_bits (disk e) (8 * b + r) n"
    using r by (intro misalign_inner) simp_all
  then have "getLocalPhysMisalign rd (8 * b + r) n e = Some (disk_bits (disk e) (8 * b + r) n, e1)"
    using r n by (simp add: getLocalPhysMisalign_def Let_def e1(1))
  with e1 show ?thesis by blast
qed

lemma rd_misaligned_across:
  assumes I: "I e" and r: "0 < r" "r < 8" and n: "n = 8 - r + 8 * f + t" "t < 8" "n < 64"
    and inside: "b + 1 + f + (if t = 0 then 0 else 1) \<le> lim (length (disk e))"
  shows "\<exists>e'. getLocalPhysMisalign rd (8 * b + r) n e = Some (disk_bits (disk e) (8 * b + r) n, e') \<and> io_same e e' \<and> I e'"
proof -
  let ?d = "disk e"
  have f7: "f \<le> 7" using n r by linarith
  have w: "u64 (8 * (1 + b)) = 8 * (b + 1)" "u64 (8 * (1 + b + f)) = 8 * (b + 1 + f)"
    using inside lim_small [OF I] by (simp_all add: u64_id split: if_splits)
  obtain e1 where e1: "rd (8 * b) 8 e = Some (disk_bits ?d (8 * b) 8, e1)" "io_same e e1" "I e1"
    using rd_bytes [OF I, of 1 b] inside by auto
  have d1: "disk e1 = ?d" using e1(2) by (rule io_same_sel)
  let ?v = "drop_bit r (disk_bits ?d (8 * b) 8) OR push_bit (8 - r) (disk_bits ?d (8 * (b + 1)) (8 * f))"
  obtain e2 where e2: "(if f \<noteq> 0 then do {
         (v, e) \<leftarrow> rd (u64 (8 * (1 + b))) (8 * f) e1;
         Some (drop_bit r (disk_bits ?d (8 * b) 8) OR push_bit (8 - r) v, e)
       } else Some (drop_bit r (disk_bits ?d (8 * b) 8), e1)) = Some (?v, e2)" "io_same e1 e2" "I e2"
  proof (cases "f = 0")
    case False
    then show thesis using rd_bytes [OF e1(3), of f "b + 1"] that inside f7 d1 w(1) by auto
  qed (use that e1 in auto)
  have d2: "disk e2 = ?d" using io_same_sel(1) [OF e2(2)] d1 by simp
  let ?w = "(?v AND mask n) OR push_bit (8 - r + 8 * f) (disk_bits ?d (8 * (b + 1 + f)) 8 AND mask t)"
  obtain e3 where e3: "(if t \<noteq> 0 then do {
         (v, e) \<leftarrow> rd (u64 (8 * (1 + b + f))) 8 e2;
         Some ((?v AND mask n) OR push_bit (8 - r + 8 * f) (v AND mask t), e)
       } else Some (?v AND mask n, e2)) = Some (?w, e3)" "io_same e2 e3" "I e3"
  proof (cases "t = 0")
    case False
    then show thesis using rd_bytes [OF e2(3), of 1 "b + 1 + f"] that inside d2 w(2) by auto
  qed (use that e2 in auto)
  have nums: "(8 * b + r) mod 8 = r" "(8 * b + r) div 8 = b" "(if 8 - r > n then n else 8 - r) = 8 - r"
      "(n - (8 - r)) div 8 = f" "n - (8 * f + (8 - r)) = t"
    using r n by simp_all
  have asserts: "assert_c (0 < 8 - r \<and> 8 - r < 8) = Some ()" "assert_c (n < 64) = Some ()"
    using r n by simp_all
  have "getLocalPhysMisalign rd (8 * b + r) n e = Some (?w, e3)"
    unfolding getLocalPhysMisalign_def Let_def nums asserts bind.bind_lunit e1(1) prod.case e2(1) e3(1) by (rule refl)
  also have "?w = disk_bits ?d (8 * b + r) n" by (rule misalign_join [OF r n])
  finally show ?thesis using e1 e2 e3 io_same_trans by blast
qed

theorem rd_misaligned:
  assumes I: "I e" and off: "off mod 8 \<noteq> 0" and n: "0 < n" "n < 64"
    and inside: "(off + n + 7) div 8 \<le> lim (length (disk e))"
  shows "\<exists>e'. getLocalPhysMisalign rd off n e = Some (disk_bits (disk e) off n, e') \<and> io_same e e' \<and> I e'"
proof -
  define b r where "b = off div 8" and "r = off mod 8"
  have off': "off = 8 * b + r" and r: "0 < r" "r < 8" using off by (simp_all add: b_def r_def)
  show ?thesis
  proof (cases "r + n < 8")
    case True
    then show ?thesis using rd_misaligned_inner [OF I r(1) True n(1), of b] inside n off' by auto
  next
    case False
    define f t where "f = (n - (8 - r)) div 8" and "t = (n - (8 - r)) mod 8"
    have nt: "n = 8 - r + 8 * f + t" "t < 8" using False r by (simp_all add: f_def t_def)
    moreover have "b + 1 + f + (if t = 0 then 0 else 1) \<le> (off + n + 7) div 8"
      using nt r off' by (cases "t = 0") simp_all
    ultimately show ?thesis using rd_misaligned_across [OF I r nt n(2), of b] inside off' by simp
  qed
qed

end

section \<open>Byte order: proofs\<close>

lemma swap_masks:
  "(0xff00000000 :: 64 word) = push_bit 32 (mask 8)" "(0x00ff000000 :: 64 word) = push_bit 24 (mask 8)"
  "(0x0000ff0000 :: 64 word) = push_bit 16 (mask 8)" "(0x000000ff00 :: 64 word) = push_bit 8 (mask 8)"
  "(0xff :: 64 word) = mask 8" "(0xff0000000000 :: 64 word) = push_bit 40 (mask 8)"
  by (simp_all add: mask_eq_exp_minus_1 push_bit_eq_mult)

lemma bit_bswap:
  "bit (bswap n v) k \<longleftrightarrow> k < 64 \<and> k div 8 < n \<and> bit v (8 * (n - 1 - k div 8) + k mod 8)"
  by (auto simp: bswap_def bit_load_le word_bytes_def rev_nth bit_simps add.commute)

lemma and_byte_mask: "(v :: 64 word) AND push_bit b (mask 8) = push_bit b (take_bit 8 (drop_bit b v))"
  by (rule bit_word_eqI) (auto simp: bit_simps)

lemma and_byte_mask_0: "(v :: 64 word) AND mask 8 = take_bit 8 v"
  by (simp add: take_bit_eq_mask)

lemma drop_push_byte: "a \<le> b \<Longrightarrow> b < 56 \<Longrightarrow> drop_bit a (push_bit b (take_bit 8 w)) = push_bit (b - a) (take_bit 8 (w :: 64 word))"
  by (rule bit_word_eqI) (auto simp: bit_simps add.commute)

lemma ucast_byte: "ucast (ucast w :: byte) = take_bit 8 (w :: 64 word)"
  by (rule bit_word_eqI) (auto simp: bit_simps)

lemma word_bytes_unfold:
  "word_bytes 5 v = map (\<lambda>i. ucast (drop_bit (8 * i) v)) [0, 1, 2, 3, 4]"
  "word_bytes 6 v = map (\<lambda>i. ucast (drop_bit (8 * i) v)) [0, 1, 2, 3, 4, 5]"
  by (simp_all add: word_bytes_def upt_rec)

lemma swapBytes_5: "swapBytes v 5 = Some (bswap 5 v)"
  unfolding swapBytes_def swap_masks and_byte_mask and_byte_mask_0
  by (simp add: drop_push_byte bswap_def word_bytes_unfold ucast_byte push_bit_or ac_simps)

lemma swapBytes_6: "swapBytes v 6 = Some (bswap 6 v)"
  unfolding swapBytes_def swap_masks and_byte_mask and_byte_mask_0
  by (simp add: drop_push_byte bswap_def word_bytes_unfold ucast_byte push_bit_or ac_simps)

lemma bswap_bswap: "n \<le> 8 \<Longrightarrow> bswap n (bswap n v) = take_bit (8 * n) v"
proof (rule bit_word_eqI)
  fix k assume n: "n \<le> 8" and "k < LENGTH(64)"
  then have k: "k < 64" by simp
  define q i where "q = k div 8" and "i = k mod 8"
  have qi: "k = 8 * q + i" "i < 8" by (simp_all add: q_def i_def)
  show "bit (bswap n (bswap n v)) k \<longleftrightarrow> bit (take_bit (8 * n) v) k"
  proof (cases "q < n")
    case True
    then have "8 * (n - 1 - q) + i < 64" "n - 1 - q < n" "n - 1 - (n - 1 - q) = q" "k < 8 * n" using n qi by linarith+
    with True qi k show ?thesis by (simp add: bit_bswap bit_take_bit_iff)
  next
    case False
    then show ?thesis using qi by (simp add: bit_bswap bit_take_bit_iff)
  qed
qed

text \<open>
  \<open>__swapBytes\<close> reverses the order of the low bytes for the widths it supports (1, 2, 4, 5, 6 and 8
  bytes) and swapping twice gives the value back; for every other width, 3 and 7 bytes included, it
  aborts.
\<close>

theorem swapBytes_reverses:
  assumes "n \<in> {1, 2, 4, 5, 6, 8}" and "take_bit (8 * n) v = v"
  shows "swapBytes v n = Some (bswap n v) \<and> swapBytes (bswap n v) n = Some v \<and>
    rev (word_bytes n (bswap n v)) = word_bytes n v \<and> (\<forall>m. m \<notin> {1, 2, 4, 5, 6, 8} \<longrightarrow> swapBytes v m = None)"
proof -
  have one: "bswap 1 w = w" if "take_bit 8 w = w" for w
    using that by (simp add: bswap_def word_bytes_def ucast_byte)
  have same: "swapBytes w n = Some (bswap n w)" if "take_bit (8 * n) w = w" for w
    using assms(1) that swapBytes_5 swapBytes_6 one by (auto simp: swapBytes_def)
  have n8: "n \<le> 8" using assms(1) by auto
  have twice: "bswap n (bswap n v) = v" using bswap_bswap [OF n8, of v] assms(2) by simp
  have low: "take_bit (8 * n) (bswap n v) = bswap n v"
    by (rule bit_word_eqI) (auto simp: bit_take_bit_iff bit_bswap)
  have "rev (word_bytes n (bswap n v)) = word_bytes n v"
  proof (rule nth_equalityI)
    fix j assume "j < length (rev (word_bytes n (bswap n v)))"
    then have j: "j < n" by (simp add: word_bytes_def)
    have "bit (ucast (drop_bit (8 * (n - Suc j)) (bswap n v)) :: byte) i \<longleftrightarrow> bit (ucast (drop_bit (8 * j) v) :: byte) i"
      if "i < 8" for i
    proof -
      have "8 * (n - Suc j) + i < 64" using that j n8 by linarith
      then show ?thesis using that j by (simp add: bit_simps bit_bswap)
    qed
    then have "(ucast (drop_bit (8 * (n - Suc j)) (bswap n v)) :: byte) = ucast (drop_bit (8 * j) v)"
      by (intro bit_word_eqI) simp
    then show "rev (word_bytes n (bswap n v)) ! j = word_bytes n v ! j"
      using j by (simp add: word_bytes_def rev_nth)
  qed (simp add: word_bytes_def)
  then show ?thesis using same [OF assms(2)] same [OF low] twice by (auto simp: swapBytes_def)
qed

theorem swapBytes_reverses_witness:
  "swapBytes 0x0102030405 5 = Some (bswap 5 0x0102030405) \<and> swapBytes (bswap 5 0x0102030405) 5 = Some 0x0102030405 \<and>
    rev (word_bytes 5 (bswap 5 0x0102030405)) = word_bytes 5 0x0102030405 \<and>
    swapBytes 0x0102030405 3 = None"
  using swapBytes_reverses [of 5 "0x0102030405"] by simp

text \<open>
  In big-endian mode a field that starts inside a byte and ends before the end of the same byte
  cannot be read: \<open>__getLocalPhysMisalignSwp\<close> fails its assertion for every back end and every state.
\<close>

theorem misalign_swp_inner_aborts:
  assumes "bit_off mod 8 \<noteq> 0" and "bit_off mod 8 + num_bits < 8" and "bit_off + num_bits < 2 ^ 64"
  shows "getLocalPhysMisalignSwp phys bit_off num_bits e = None"
proof (cases "num_bits = 0")
  case False
  have "(bit_off + num_bits) mod 8 = bit_off mod 8 + num_bits" using assms(2) mod_add_left_eq [of bit_off 8 num_bits] by simp
  moreover have "8 - bit_off mod 8 > num_bits" using assms(2) by simp
  ultimately show ?thesis
    using assms False by (simp add: getLocalPhysMisalignSwp_def u64_id Let_def)
qed (simp add: getLocalPhysMisalignSwp_def Let_def)

theorem misalign_swp_inner_aborts_witness:
  "\<forall>phys e. getLocalPhysMisalignSwp phys 802 3 e = None"
  by (intro allI, rule misalign_swp_inner_aborts) simp_all

end
