(* ===== verification/IoPread.thy ===== *)
theory IoPread
  imports Io
begin

text \<open>
  The \<open>pread\<close> back end (\<open>rt-pread/io.c\<close>) on a little-endian host: reads go through the block cache,
  writes go to the file and drop the cache lines they touch.

  \<open>__getLocalPhys\<close> and the two misaligned readers of \<open>io.c\<close> are mutually recursive, but the misaligned
  readers only ask for byte aligned offsets. \<open>getLocalPhys_aligned\<close> is the branch those calls take;
  \<open>getLocalPhys_unfold\<close> proves the recursion equation of the source.
\<close>

section \<open>Operations\<close>

definition getLocalPhys_aligned :: "nat \<Rightarrow> nat \<Rightarrow> 64 word rt" where
  "getLocalPhys_aligned bit_off num_bits e = do {
     let e = stats_inc FSL_STAT_PHYSACCESS e;
     (ret, e) \<leftarrow> fsl_io_cache_get bit_off num_bits e;
     ret \<leftarrow> (if num_bits mod 8 = 0 \<and> fsl_mode e = FSL_MODE_BIGENDIAN
             then swapBytes ret (num_bits div 8) else Some ret);
     e \<leftarrow> call_io_cb IO_CB_CACHE_ANY bit_off e;
     Some (ret, e)
   }"

definition getLocalPhys :: "nat \<Rightarrow> nat \<Rightarrow> 64 word rt" where
  "getLocalPhys bit_off num_bits e =
     (if bit_off mod 8 \<noteq> 0 then do {
        let e = stats_inc FSL_STAT_PHYSACCESS e;
        if fsl_mode e = FSL_MODE_BIGENDIAN
        then getLocalPhysMisalignSwp getLocalPhys_aligned bit_off num_bits e
        else getLocalPhysMisalign getLocalPhys_aligned bit_off num_bits e
      } else getLocalPhys_aligned bit_off num_bits e)"

text \<open>
  What the operating system says about the backing file: \<open>stat\<close> (the block size and whether it is a
  block device), whether \<open>open\<close> succeeds, and the number of 512 byte sectors of a block device.
\<close>

record os_file =
  os_stat :: "(nat \<times> bool) option"
  os_open :: bool
  os_blkgetsize :: "nat option"

text \<open>The result tells whether a \<open>fsl_rt_io\<close> was returned. \<open>memset\<close> clears the callbacks and the logs.\<close>

definition fsl_io_alloc :: "os_file \<Rightarrow> env \<Rightarrow> bool \<times> env" where
  "fsl_io_alloc os e = (case os_stat os of
     None \<Rightarrow> (False, e)
   | Some (st_blksize, is_blk) \<Rightarrow>
       if \<not> os_open os then (False, e)
       else let blksize = u32 st_blksize;
         bytes = (if is_blk then map_option (\<lambda>n. u64 (n * 512)) (os_blkgetsize os) else Some (length (disk e)))
       in case bytes of
         None \<Rightarrow> (False, e)
       | Some bytes \<Rightarrow>
           if blksize = 0 then (False, e)
           else (True, fsl_rlog_init (e\<lparr>io_cb := (\<lambda>_. None),
             io_rlog := \<lparr>log_accessed = replicate IO_MAX_ACCESS 0, log_accessed_idx = 0, log_next_cb = None\<rparr>,
             io_wlog := fsl_wlog_init, io_blksize := blksize, io_blk_c := bytes div blksize,
             iop_cache := fsl_io_cache_init\<rparr>)))"

definition fsl_io_read_bytes :: "nat \<Rightarrow> nat \<Rightarrow> byte list rt" where
  "fsl_io_read_bytes byte_c off e = do {
     let e = stats_add FSL_STAT_BITS_READ (u32 (byte_c * 8)) e;
     let buf = pread64 (disk e) off byte_c;
     assert_c (\<not> length buf < byte_c);
     Some (buf, e)
   }"

definition fsl_io_write_bit :: "nat \<Rightarrow> 64 word \<Rightarrow> nat \<Rightarrow> env \<Rightarrow> env option" where
  "fsl_io_write_bit bit_off val num_bits e = do {
     assert_c (num_bits < 8);
     let bit_left = bit_off mod 8;
     (out_v, e) \<leftarrow> fsl_io_cache_get (bit_off - bit_left) 8 e;
     let val = val AND mask num_bits;
     let out_v = out_v AND NOT (push_bit bit_left (mask num_bits));
     let out_v = out_v OR push_bit bit_left val;
     let e = e\<lparr>disk := pwrite64 (disk e) (bit_off div 8) [ucast out_v]\<rparr>;
     Some (fsl_io_cache_drop_bytes (bit_off div 8) 1 e)
   }"

definition fsl_io_write :: "nat \<Rightarrow> 64 word \<Rightarrow> nat \<Rightarrow> env \<Rightarrow> env option" where
  "fsl_io_write bit_off val num_bits e = do {
     let e = stats_inc FSL_STAT_WRITES e;
     let e = stats_add FSL_STAT_BITS_WRITTEN num_bits e;
     e \<leftarrow> call_io_cb IO_CB_WRITE bit_off e;
     if num_bits = 1 then fsl_io_write_bit bit_off val num_bits e
     else do {
       assert_c (bit_off mod 8 = 0);
       assert_c (num_bits mod 8 = 0);
       assert_c (num_bits \<le> 64);
       let buf = word_bytes (num_bits div 8) val;
       let e = e\<lparr>disk := pwrite64 (disk e) (bit_off div 8) buf\<rparr>;
       Some (fsl_io_cache_drop_bytes (bit_off div 8) (1 + (num_bits + 7) div 8) e)
     }
   }"

definition fsl_io_write_bytes :: "byte list \<Rightarrow> nat \<Rightarrow> nat \<Rightarrow> env \<Rightarrow> env option" where
  "fsl_io_write_bytes buf byte_c off e = do {
     let e = stats_inc FSL_STAT_WRITES e;
     let e = stats_add FSL_STAT_BITS_WRITTEN (u32 (byte_c * 8)) e;
     e \<leftarrow> call_io_cb IO_CB_WRITE (u64 (off * 8)) e;
     assert_c (byte_c \<le> length buf);
     let e = e\<lparr>disk := pwrite64 (disk e) off (take byte_c buf)\<rparr>;
     Some (fsl_io_cache_drop_bytes off byte_c e)
   }"

section \<open>The recursion of the source\<close>

lemma getLocalPhys_aligned_eq: "bit_off mod 8 = 0 \<Longrightarrow> getLocalPhys_aligned bit_off = getLocalPhys bit_off"
  by (intro ext) (simp add: getLocalPhys_def)

lemma u64_mult8: "u64 (8 * x) mod 8 = 0"
proof -
  have "(8 :: nat) dvd 2 ^ 64" by (rule dvdI [of _ _ "2 ^ 61"]) simp
  then show ?thesis by (simp add: u64_def mod_mod_cancel)
qed

lemma getLocalPhysMisalign_cong:
  assumes "\<And>b. rd (u64 (8 * b)) = rd' (u64 (8 * b))" and "\<And>b. rd (8 * b) = rd' (8 * b)"
  shows "getLocalPhysMisalign rd = getLocalPhysMisalign rd'" "getLocalPhysMisalignSwp rd = getLocalPhysMisalignSwp rd'"
  unfolding getLocalPhysMisalign_def getLocalPhysMisalignSwp_def assms by (rule refl)+

lemma getLocalPhys_unfold:
  "getLocalPhys bit_off num_bits e =
     (if bit_off mod 8 \<noteq> 0 then
        (let e = stats_inc FSL_STAT_PHYSACCESS e in
         if fsl_mode e = FSL_MODE_BIGENDIAN then getLocalPhysMisalignSwp getLocalPhys bit_off num_bits e
         else getLocalPhysMisalign getLocalPhys bit_off num_bits e)
      else getLocalPhys_aligned bit_off num_bits e)"
proof -
  have "getLocalPhys_aligned (u64 (8 * b)) = getLocalPhys (u64 (8 * b))" "getLocalPhys_aligned (8 * b) = getLocalPhys (8 * b)" for b
    by (simp_all add: getLocalPhys_aligned_eq u64_mult8)
  then show ?thesis
    using getLocalPhysMisalign_cong [of getLocalPhys_aligned getLocalPhys] by (simp add: getLocalPhys_def Let_def)
qed

section \<open>Reads\<close>

text \<open>The bytes that lie in a complete cache line of the disk.\<close>

definition line_bytes :: "nat \<Rightarrow> nat" where
  "line_bytes n = n div 32 * 32"

definition io_ok_le :: "env \<Rightarrow> bool" where
  "io_ok_le e \<longleftrightarrow> io_ok e \<and> fsl_mode e \<noteq> FSL_MODE_BIGENDIAN"

lemma io_ok_quiet: "io_ok e \<Longrightarrow> call_io_cb t off e = Some e"
  by (simp add: io_ok_def call_io_cb_quiet)

lemma line_bytes_inside:
  assumes "0 < n" and "(off + n + 7) div 8 \<le> line_bytes len"
  shows "((off + n - 1) div 256 + 1) * 32 \<le> len"
proof -
  define q where "q = len div 32"
  have "(off + n + 7) div 8 \<le> 32 * q" using assms(2) by (simp add: line_bytes_def q_def mult.commute)
  then have "off + n - 1 < 256 * q" using assms(1) by linarith
  then have "(off + n - 1) div 256 + 1 \<le> q" using less_mult_imp_div_less [of "off + n - 1" q 256] by (simp add: mult.commute)
  then have "((off + n - 1) div 256 + 1) * 32 \<le> q * 32" by (rule mult_le_mono1)
  also have "\<dots> \<le> len" by (simp add: q_def)
  finally show ?thesis .
qed

lemma getLocalPhys_aligned_cache:
  assumes "io_ok e" and mode: "fsl_mode e \<noteq> FSL_MODE_BIGENDIAN"
    and get: "\<And>e0. io_ok e0 \<Longrightarrow> disk e0 = disk e \<Longrightarrow>
      \<exists>e'. fsl_io_cache_get off n e0 = Some (v, e') \<and> io_same e0 e' \<and> io_ok e'"
  shows "\<exists>e'. getLocalPhys_aligned off n e = Some (v, e') \<and> io_same e e' \<and> io_ok e'"
proof -
  let ?es = "stats_inc FSL_STAT_PHYSACCESS e"
  obtain e' where e': "fsl_io_cache_get off n ?es = Some (v, e')" "io_same ?es e'" "io_ok e'"
    using get [of ?es] assms(1) by auto
  have same: "io_same e e'" using e'(2) io_same_stats(2) io_same_trans by blast
  then have "fsl_mode e' \<noteq> FSL_MODE_BIGENDIAN" using mode io_same_sel(4) by metis
  with e' same show ?thesis by (auto simp: getLocalPhys_aligned_def io_ok_quiet)
qed

lemma getLocalPhys_aligned_spec:
  assumes "io_ok_le e" and "off mod 8 = 0" and n: "0 < n" "n \<le> 64"
    and "n mod 8 = 0 \<or> off div 256 = (off + n - 1) div 256"
    and "(off + n + 7) div 8 \<le> line_bytes (length (disk e))"
  shows "\<exists>e'. getLocalPhys_aligned off n e = Some (disk_bits (disk e) off n, e') \<and> io_same e e' \<and> io_ok_le e'"
proof -
  have "\<exists>e'. getLocalPhys_aligned off n e = Some (disk_bits (disk e) off n, e') \<and> io_same e e' \<and> io_ok e'"
  proof (rule getLocalPhys_aligned_cache)
    fix e0 assume "io_ok e0" "disk e0 = disk e"
    then show "\<exists>e'. fsl_io_cache_get off n e0 = Some (disk_bits (disk e) off n, e') \<and> io_same e0 e' \<and> io_ok e'"
      using fsl_io_cache_get_spec [of e0 off n] assms line_bytes_inside [OF n(1) assms(6)] by simp
  qed (use assms(1) in \<open>simp_all add: io_ok_le_def\<close>)
  then show ?thesis using assms(1) io_same_sel(4) by (fastforce simp: io_ok_le_def)
qed

interpretation pread: phys_reader getLocalPhys_aligned io_ok_le line_bytes
proof
  fix e b m
  assume "io_ok_le e" "0 < m" "m \<le> 8" "b + m \<le> line_bytes (length (disk e))"
  then show "\<exists>e'. getLocalPhys_aligned (8 * b) (8 * m) e = Some (disk_bits (disk e) (8 * b) (8 * m), e') \<and>
      io_same e e' \<and> io_ok_le e'"
    by (intro getLocalPhys_aligned_spec) simp_all
next
  fix e assume "io_ok_le e"
  then have "length (disk e) < 2 ^ 60" by (simp add: io_ok_le_def io_ok_def)
  moreover have "line_bytes (length (disk e)) \<le> length (disk e)" by (simp add: line_bytes_def)
  ultimately show "line_bytes (length (disk e)) < 2 ^ 60" by (rule le_less_trans [rotated])
qed

lemma getLocalPhys_le:
  assumes ok: "io_ok e" and mode: "fsl_mode e \<noteq> FSL_MODE_BIGENDIAN" and n: "0 < n" "n \<le> 64"
    and mis: "off mod 8 \<noteq> 0 \<longrightarrow> n < 64"
    and al: "off mod 8 = 0 \<longrightarrow> n mod 8 = 0 \<or> off div 256 = (off + n - 1) div 256"
    and inside: "(off + n + 7) div 8 \<le> line_bytes (length (disk e))"
  shows "\<exists>e'. getLocalPhys off n e = Some (disk_bits (disk e) off n, e') \<and> io_same e e' \<and> io_ok e'"
proof (cases "off mod 8 = 0")
  case True
  have "io_ok_le e" using ok mode by (simp add: io_ok_le_def)
  from getLocalPhys_aligned_spec [OF this True n _ inside] show ?thesis
    using True al by (auto simp: getLocalPhys_def io_ok_le_def)
next
  case False
  let ?es = "stats_inc FSL_STAT_PHYSACCESS e"
  have es: "io_ok_le ?es" "disk ?es = disk e" "fsl_mode ?es = fsl_mode e"
    using ok mode by (simp_all add: io_ok_le_def)
  obtain e' where "getLocalPhysMisalign getLocalPhys_aligned off n ?es = Some (disk_bits (disk e) off n, e')"
      "io_same ?es e'" "io_ok_le e'"
    using pread.rd_misaligned [OF es(1) False n(1)] mis False inside es(2) by auto
  then show ?thesis
    using False mode es(3) io_same_trans [OF io_same_stats(2)] by (auto simp: getLocalPhys_def io_ok_le_def)
qed

text \<open>
  C4: reads of the \<open>pread\<close> back end are exact in little-endian mode. With a coherent cache and no
  hooks, \<open>__getLocalPhys\<close> of up to 64 bits inside the complete cache lines of the disk returns exactly
  those bits, least significant first, keeps the cache coherent and changes nothing but the cache and
  the statistics. Excluded are only a misaligned read of all 64 bits (an undefined shift) and a byte
  aligned read of a fractional number of bytes that crosses a cache line.
\<close>

theorem getLocalPhys_reads_disk:
  assumes ok: "io_ok e" and mode: "fsl_mode e \<noteq> FSL_MODE_BIGENDIAN" and n: "0 < n" "n \<le> 64"
    and mis: "off mod 8 \<noteq> 0 \<longrightarrow> n < 64"
    and al: "off mod 8 = 0 \<longrightarrow> n mod 8 = 0 \<or> off div 256 = (off + n - 1) div 256"
    and inside: "(off + n + 7) div 8 \<le> line_bytes (length (disk e))"
  shows "\<exists>e'. getLocalPhys off n e = Some (disk_bits (disk e) off n, e') \<and> io_same e e' \<and> io_ok e'"
  by (rule getLocalPhys_le [OF assms])

text \<open>A disk of 64 bytes with the contents 0, 1, 2, ...\<close>

definition demo_env :: env where
  "demo_env = blank_env\<lparr>disk := map of_nat [0..<64], bdev_bytes := 64\<rparr>"

lemma demo_env_ok: "io_ok demo_env" "fsl_mode demo_env \<noteq> FSL_MODE_BIGENDIAN" "length (disk demo_env) = 64"
  by (simp_all add: demo_env_def blank_env_def io_ok_def cache_ok_def line_ok_def no_hooks_def
      FSL_MODE_BIGENDIAN_def FSL_MODE_LITTLEENDIAN_def)

theorem getLocalPhys_reads_disk_witness:
  "\<exists>e'. getLocalPhys 251 13 demo_env = Some (disk_bits (disk demo_env) 251 13, e') \<and> io_same demo_env e' \<and> io_ok e'"
  by (rule getLocalPhys_reads_disk) (simp_all add: demo_env_ok line_bytes_def)

text \<open>
  A byte aligned read of a fractional number of bytes that crosses a cache line loses its last
  bits: the value is that of the whole bytes alone, so the top \<open>n mod 8\<close> bits of the field read as zero.
\<close>

theorem getLocalPhys_straddle_truncates:
  assumes ok: "io_ok e" and mode: "fsl_mode e \<noteq> FSL_MODE_BIGENDIAN" and n: "0 < n" "n \<le> 64" "n mod 8 \<noteq> 0"
    and off: "off mod 8 = 0" "off div 256 \<noteq> (off + n - 1) div 256"
    and inside: "(off + n + 7) div 8 \<le> line_bytes (length (disk e))"
  shows "\<exists>e'. getLocalPhys off n e = Some (disk_bits (disk e) off (8 * (n div 8)), e') \<and> io_same e e' \<and> io_ok e'"
proof -
  obtain b where b: "off = 8 * b" using off(1) by auto
  have next_line: "(off + n - 1) div 256 = off div 256 + 1"
    using line_arith(5) [OF refl n(1,2), of b] off(2) b by simp
  have "\<exists>e'. getLocalPhys_aligned off n e = Some (disk_bits (disk e) off (8 * (n div 8)), e') \<and> io_same e e' \<and> io_ok e'"
  proof (rule getLocalPhys_aligned_cache [OF ok mode])
    fix e0 assume "io_ok e0" "disk e0 = disk e"
    then show "\<exists>e'. fsl_io_cache_get off n e0 = Some (disk_bits (disk e) off (8 * (n div 8)), e') \<and> io_same e0 e' \<and> io_ok e'"
      using fsl_io_cache_get_straddle [of e0 off b n, OF _ b n(1) refl n(2) refl next_line]
        line_bytes_inside [OF n(1) inside] next_line by simp
  qed
  with off(1) show ?thesis by (simp add: getLocalPhys_def)
qed

theorem getLocalPhys_straddle_truncates_witness:
  "\<exists>e'. getLocalPhys 248 12 demo_env = Some (disk_bits (disk demo_env) 248 (8 * (12 div 8)), e') \<and>
     io_same demo_env e' \<and> io_ok e'"
  by (rule getLocalPhys_straddle_truncates) (simp_all add: demo_env_ok line_bytes_def)

section \<open>Writes\<close>

text \<open>What a write of \<open>n\<close> bits of \<open>v\<close> at bit \<open>off\<close> should do to the bits of the disk.\<close>

definition put_bits :: "nat \<Rightarrow> 64 word \<Rightarrow> nat \<Rightarrow> (nat \<Rightarrow> bool) \<Rightarrow> nat \<Rightarrow> bool" where
  "put_bits off v n f i = (if off \<le> i \<and> i < off + n then bit v (i - off) else f i)"

text \<open>The writes the back end supports: a single bit, or whole bytes at a byte boundary.\<close>

definition write_ok :: "byte list \<Rightarrow> nat \<Rightarrow> nat \<Rightarrow> bool" where
  "write_ok d off n \<longleftrightarrow> (n = 1 \<or> off mod 8 = 0 \<and> n mod 8 = 0 \<and> 0 < n \<and> n \<le> 64) \<and>
     (off + n + 7) div 8 \<le> line_bytes (length d)"

lemma disk_bit_pwrite64:
  assumes "b + length bs \<le> length d"
  shows "disk_bit (pwrite64 d b bs) i \<longleftrightarrow>
    (if b \<le> i div 8 \<and> i div 8 < b + length bs then bit (bs ! (i div 8 - b)) (i mod 8) else disk_bit d i)"
proof (cases "b \<le> i div 8 \<and> i div 8 < b + length bs")
  case True
  then have "pwrite64 d b bs ! (i div 8) = bs ! (i div 8 - b)" using nth_pwrite64_in [of "i div 8 - b" bs d b] by auto
  with True assms show ?thesis by (simp add: disk_bit_def length_pwrite64_in)
next
  case False
  then show ?thesis
    using assms nth_pwrite64_out [of "i div 8" d b bs]
    by (auto simp: disk_bit_def length_pwrite64_in not_less)
qed

lemma nth_word_bytes: "j < m \<Longrightarrow> i < 8 \<Longrightarrow> bit (word_bytes m v ! j) i \<longleftrightarrow> bit v (8 * j + i)"
  by (simp add: word_bytes_def bit_simps)

lemma length_word_bytes [simp]: "length (word_bytes m v) = m"
  by (simp add: word_bytes_def)

lemma write_bytes_bits:
  assumes "b + m \<le> length d"
  shows "disk_bit (pwrite64 d b (word_bytes m v)) = put_bits (8 * b) v (8 * m) (disk_bit d)"
proof
  fix i :: nat
  define q r where "q = i div 8" and "r = i mod 8"
  have i: "i = 8 * q + r" "r < 8" by (simp_all add: q_def r_def)
  have rng: "b \<le> q \<and> q < b + m \<longleftrightarrow> 8 * b \<le> i \<and> i < 8 * b + 8 * m" using i by auto
  have "8 * (q - b) + r = i - 8 * b" if "b \<le> q" using that i by (simp add: diff_mult_distrib2)
  then have bitq: "b \<le> q \<Longrightarrow> q < b + m \<Longrightarrow> bit (word_bytes m v ! (q - b)) r = bit v (i - 8 * b)"
    using i(2) nth_word_bytes [of "q - b" m r v] by simp
  have "disk_bit (pwrite64 d b (word_bytes m v)) i \<longleftrightarrow>
      (if b \<le> q \<and> q < b + m then bit (word_bytes m v ! (q - b)) r else disk_bit d i)"
    using disk_bit_pwrite64 [of b "word_bytes m v" d i] assms by (simp add: q_def r_def)
  also have "\<dots> = put_bits (8 * b) v (8 * m) (disk_bit d) i"
    using bitq unfolding put_bits_def rng [symmetric] by simp
  finally show "disk_bit (pwrite64 d b (word_bytes m v)) i = put_bits (8 * b) v (8 * m) (disk_bit d) i" .
qed

lemma write_bit_bits:
  assumes "b < length d" and "r < 8"
    and "w = (disk_bits d (8 * b) 8 AND NOT (push_bit r (mask 1))) OR push_bit r (v AND mask 1)"
  shows "disk_bit (pwrite64 d b [ucast w]) = put_bits (8 * b + r) v 1 (disk_bit d)"
proof
  fix i :: nat
  define q j where "q = i div 8" and "j = i mod 8"
  have i: "i = 8 * q + j" "j < 8" by (simp_all add: q_def j_def)
  have "disk_bit (pwrite64 d b [ucast w]) i \<longleftrightarrow> (if q = b then bit (ucast w :: byte) j else disk_bit d i)"
    using disk_bit_pwrite64 [of b "[ucast w]" d i] assms(1) by (auto simp: q_def j_def)
  also have "\<dots> \<longleftrightarrow> put_bits (8 * b + r) v 1 (disk_bit d) i"
    using i assms by (auto simp: put_bits_def bit_simps bit_disk_bits)
  finally show "disk_bit (pwrite64 d b [ucast w]) i = put_bits (8 * b + r) v 1 (disk_bit d) i" .
qed

lemma write_ok_bytes:
  assumes "write_ok d off n"
  shows "(off + n + 7) div 8 \<le> length d" "off div 8 < length d"
proof -
  have "line_bytes (length d) \<le> length d" by (simp add: line_bytes_def)
  then show le: "(off + n + 7) div 8 \<le> length d" using assms by (simp add: write_ok_def)
  have "0 < n" using assms by (auto simp: write_ok_def)
  then show "off div 8 < length d" using le by linarith
qed

text \<open>The frame of a write: besides the disk only what a read may change.\<close>

definition wrote :: "nat \<Rightarrow> 64 word \<Rightarrow> nat \<Rightarrow> env \<Rightarrow> env \<Rightarrow> bool" where
  "wrote off v n e e' \<longleftrightarrow> disk_bit (disk e') = put_bits off v n (disk_bit (disk e)) \<and>
     length (disk e') = length (disk e) \<and> io_same (e\<lparr>disk := disk e'\<rparr>) e' \<and> io_ok e'"

lemma io_same_put_disk: "io_same e0 e1 \<Longrightarrow> io_same (e0\<lparr>disk := d\<rparr>) (e1\<lparr>disk := d\<rparr>)"
  by (cases e0; cases e1) (simp add: io_same_def)

lemma pwrite_drop_spec:
  assumes ok: "io_ok e1" and same: "io_same e e1" and bs: "bs \<noteq> []" "length bs \<le> n"
    and bound: "b + length bs \<le> length (disk e)" "n \<le> 100"
    and bits: "disk_bit (pwrite64 (disk e) b bs) = put_bits off v k (disk_bit (disk e))"
    and e': "e' = fsl_io_cache_drop_bytes b n (e1\<lparr>disk := pwrite64 (disk e1) b bs\<rparr>)"
  shows "wrote off v k e e'"
proof -
  have d: "disk e1 = disk e" using same by (rule io_same_sel)
  have "length (disk e) < 2 ^ 60" using ok d by (simp add: io_ok_def)
  moreover have "b < length (disk e)" using bound(1) bs(1) by (cases bs) simp_all
  ultimately have "b + n < 2 ^ 60 + 100" using bound(2) by linarith
  have lt: "b + n < 2 ^ 61" using \<open>b + n < 2 ^ 60 + 100\<close> by simp
  note co = drop_bytes_coherent [OF ok bs(2) lt bs(1) _ e', unfolded d, OF bound(1)]
  have d': "disk e' = pwrite64 (disk e) b bs" using io_same_sel(1) [OF co(1)] by simp
  moreover have "io_same (e\<lparr>disk := disk e'\<rparr>) e'"
    using io_same_trans [OF io_same_put_disk [OF same] co(1)] d' by simp
  ultimately show ?thesis
    using co(2) bits bound(1) by (simp add: wrote_def length_pwrite64_in)
qed

lemma fsl_io_write_bit_spec:
  assumes ok: "io_ok e" and wok: "write_ok (disk e) off 1"
  shows "\<exists>e'. fsl_io_write_bit off v 1 e = Some e' \<and> wrote off v 1 e e'"
proof -
  define b r where "b = off div 8" and "r = off mod 8"
  have off: "off = 8 * b + r" "r < 8" "off - off mod 8 = 8 * b" by (simp_all add: b_def r_def minus_mod_eq_mult_div)
  have inside: "((8 * b + 8 - 1) div 256 + 1) * 32 \<le> length (disk e)"
    using line_bytes_inside [of 8 "8 * b" "length (disk e)"] wok off(1,2) by (simp add: write_ok_def)
  obtain e1 where e1: "fsl_io_cache_get (8 * b) 8 e = Some (disk_bits (disk e) (8 * b) 8, e1)" "io_same e e1" "io_ok e1"
    using fsl_io_cache_get_spec [OF ok, of "8 * b" 8] inside by auto
  define w where "w = (disk_bits (disk e) (8 * b) 8 AND NOT (push_bit r (mask 1))) OR push_bit r (v AND mask 1)"
  let ?e' = "fsl_io_cache_drop_bytes b 1 (e1\<lparr>disk := pwrite64 (disk e1) b [ucast w]\<rparr>)"
  have call: "fsl_io_write_bit off v 1 e = Some ?e'"
    unfolding fsl_io_write_bit_def Let_def off(3) unfolding r_def [symmetric] b_def [symmetric]
    by (simp add: e1(1) w_def)
  have b: "b < length (disk e)" using write_ok_bytes(2) [OF wok] by (simp add: b_def)
  have "disk_bit (pwrite64 (disk e) b [ucast w]) = put_bits (8 * b + r) v 1 (disk_bit (disk e))"
    by (rule write_bit_bits [OF b off(2) w_def])
  then have "wrote off v 1 e ?e'"
    using pwrite_drop_spec [OF e1(3,2), of "[ucast w]" 1 b off v 1 ?e'] b off(1) by simp
  with call show ?thesis by blast
qed

lemma fsl_io_write_spec:
  assumes ok: "io_ok e" and wok: "write_ok (disk e) off n"
  shows "\<exists>e'. fsl_io_write off v n e = Some e' \<and> wrote off v n e e'"
proof -
  let ?es = "stats_add FSL_STAT_BITS_WRITTEN n (stats_inc FSL_STAT_WRITES e)"
  have es: "io_ok ?es" "disk ?es = disk e" "io_same e ?es"
    using ok io_same_trans [OF io_same_stats(2) io_same_stats(1)] by simp_all
  have frame: "wrote off v n e e'" if "wrote off v n ?es e'" for e'
    using that io_same_trans [OF io_same_put_disk [OF es(3)]] by (auto simp: wrote_def)
  show ?thesis
  proof (cases "n = 1")
    case True
    then show ?thesis
      using fsl_io_write_bit_spec [OF es(1), of off v] wok frame
        io_ok_quiet [OF es(1), of IO_CB_WRITE off]
      by (auto simp: fsl_io_write_def simp del: One_nat_def)
  next
    case False
    then have w: "off mod 8 = 0" "n mod 8 = 0" "0 < n" "n \<le> 64" using wok by (auto simp: write_ok_def)
    define b m where "b = off div 8" and "m = n div 8"
    have off: "off = 8 * b" and n: "n = 8 * m" "0 < m" "m \<le> 8" using w by (auto simp: b_def m_def)
    have bm: "b + m \<le> length (disk e)" using write_ok_bytes(1) [OF wok] off n by simp
    let ?e' = "fsl_io_cache_drop_bytes b (1 + (n + 7) div 8) (?es\<lparr>disk := pwrite64 (disk ?es) b (word_bytes m v)\<rparr>)"
    have call: "fsl_io_write off v n e = Some ?e'"
      using False w by (simp add: fsl_io_write_def io_ok_quiet [OF es(1)] b_def m_def)
    have "word_bytes m v \<noteq> []" using n by (simp add: word_bytes_def)
    then have "wrote off v n ?es ?e'"
      using pwrite_drop_spec [OF es(1) io_same_refl, of "word_bytes m v" "1 + (n + 7) div 8" b off v n ?e']
        write_bytes_bits [OF bm] bm n off by simp
    with call frame show ?thesis by blast
  qed
qed

text \<open>
  C16: writes are exact. A supported write (one bit anywhere, or 1 to 8 whole bytes at a byte
  boundary, inside the complete cache lines) terminates, replaces exactly the addressed bits of the
  disk by the bits of the value and no other, keeps the length of the disk, leaves the cache coherent
  with the new disk, and changes nothing else but the cache and the statistics.
\<close>

theorem fsl_io_write_exact:
  assumes "io_ok e" and "write_ok (disk e) off n"
  shows "\<exists>e'. fsl_io_write off v n e = Some e' \<and>
    (\<forall>i. disk_bit (disk e') i \<longleftrightarrow> (if off \<le> i \<and> i < off + n then bit v (i - off) else disk_bit (disk e) i)) \<and>
    length (disk e') = length (disk e) \<and> io_same (e\<lparr>disk := disk e'\<rparr>) e' \<and> io_ok e'"
  using fsl_io_write_spec [OF assms, of v] by (auto simp: wrote_def put_bits_def)

theorem fsl_io_write_exact_witness:
  "\<exists>e'. fsl_io_write 24 0xabcd 16 demo_env = Some e' \<and>
    (\<forall>i. disk_bit (disk e') i \<longleftrightarrow> (if 24 \<le> i \<and> i < 24 + 16 then bit (0xabcd :: 64 word) (i - 24) else disk_bit (disk demo_env) i)) \<and>
    length (disk e') = length (disk demo_env) \<and> io_same (demo_env\<lparr>disk := disk e'\<rparr>) e' \<and> io_ok e'"
  by (rule fsl_io_write_exact) (simp_all add: demo_env_ok write_ok_def line_bytes_def)

lemma disk_bits_put:
  assumes "disk_bit d = put_bits off v n f" and "n \<le> 64"
  shows "disk_bits d off n = take_bit n v"
  using assms by (intro bit_word_eqI) (auto simp: bit_disk_bits put_bits_def bit_take_bit_iff)



section \<open>Big-endian file systems\<close>

definition swap_widths :: "nat set" where
  "swap_widths = {1, 2, 4, 5, 6, 8}"

lemma swapBytes_width:
  assumes "m \<in> swap_widths" and "take_bit (8 * m) w = w"
  shows "swapBytes w m = Some (bswap m w)"
proof -
  have "bswap 1 w = w" if "take_bit 8 w = w"
    using that by (simp add: bswap_def word_bytes_def ucast_byte)
  then show ?thesis using assms swapBytes_5 swapBytes_6 by (auto simp: swapBytes_def swap_widths_def)
qed

lemma getLocalPhys_be:
  assumes ok: "io_ok e" and mode: "fsl_mode e = FSL_MODE_BIGENDIAN" and m: "m \<in> swap_widths"
    and inside: "b + m \<le> line_bytes (length (disk e))"
  shows "\<exists>e'. getLocalPhys (8 * b) (8 * m) e = Some (bswap m (disk_bits (disk e) (8 * b) (8 * m)), e') \<and> io_same e e' \<and> io_ok e'"
proof -
  let ?es = "stats_inc FSL_STAT_PHYSACCESS e" and ?v = "disk_bits (disk e) (8 * b) (8 * m)"
  have m8: "0 < 8 * m" "8 * m \<le> 64" using m by (auto simp: swap_widths_def)
  have ins: "((8 * b + 8 * m - 1) div 256 + 1) * 32 \<le> length (disk e)"
    using line_bytes_inside [OF m8(1), of "8 * b"] inside by simp
  have es: "io_ok ?es" "disk ?es = disk e" using ok by simp_all
  obtain e' where e': "fsl_io_cache_get (8 * b) (8 * m) ?es = Some (?v, e')" "io_same ?es e'" "io_ok e'"
    using fsl_io_cache_get_spec [OF es(1) _ m8, of "8 * b"] ins es(2) by auto
  have same: "io_same e e'" using e'(2) io_same_stats(2) io_same_trans by blast
  have "take_bit (8 * m) ?v = ?v" by (rule bit_word_eqI) (auto simp: bit_take_bit_iff bit_disk_bits)
  then have "swapBytes ?v m = Some (bswap m ?v)" by (rule swapBytes_width [OF m])
  then have "getLocalPhys (8 * b) (8 * m) e = Some (bswap m ?v, e')"
    using e' io_same_sel(4) [OF same] mode by (simp add: getLocalPhys_def getLocalPhys_aligned_def io_ok_quiet)
  with same e'(3) show ?thesis by blast
qed

text \<open>
  C33: in big-endian mode a byte aligned read of 1, 2, 4, 5, 6 or 8 bytes returns the bytes of the disk
  with the first byte most significant.
\<close>

theorem getLocalPhys_bigendian:
  assumes "io_ok e" and "fsl_mode e = FSL_MODE_BIGENDIAN" and "m \<in> {1, 2, 4, 5, 6, 8}"
    and "b + m \<le> line_bytes (length (disk e))"
  shows "\<exists>e'. getLocalPhys (8 * b) (8 * m) e = Some (load_le (rev (take m (drop b (disk e)))), e') \<and>
    io_same e e' \<and> io_ok e'"
proof -
  have len: "b + m \<le> length (disk e)" "m \<le> 8"
    using assms(3,4) by (auto simp: line_bytes_def intro: le_trans [OF _ div_times_less_eq_dividend])
  have "word_bytes m (disk_bits (disk e) (8 * b) (8 * m)) ! j = take m (drop b (disk e)) ! j" if "j < m" for j
  proof (rule bit_word_eqI)
    fix i assume "i < LENGTH(8)"
    then have i: "i < 8" by simp
    then have "8 * j + i < 64" using that len(2) by linarith
    moreover have "8 * b + (8 * j + i) = 8 * (b + j) + i" by simp
    ultimately show "bit (word_bytes m (disk_bits (disk e) (8 * b) (8 * m)) ! j) i \<longleftrightarrow> bit (take m (drop b (disk e)) ! j) i"
      using i that len disk_bit_byte [OF i, of "disk e" "b + j"]
      by (simp add: nth_word_bytes bit_disk_bits add.assoc)
  qed
  then have "word_bytes m (disk_bits (disk e) (8 * b) (8 * m)) = take m (drop b (disk e))"
    using len by (intro nth_equalityI) simp_all
  then show ?thesis
    using getLocalPhys_be [OF assms(1,2), of m b] assms(3,4) by (simp add: swap_widths_def bswap_def)
qed

theorem getLocalPhys_bigendian_witness:
  "\<exists>e'. getLocalPhys (8 * 30) (8 * 4) (demo_env\<lparr>fsl_mode := FSL_MODE_BIGENDIAN\<rparr>) =
      Some (load_le (rev (take 4 (drop 30 (disk (demo_env\<lparr>fsl_mode := FSL_MODE_BIGENDIAN\<rparr>))))), e') \<and>
    io_same (demo_env\<lparr>fsl_mode := FSL_MODE_BIGENDIAN\<rparr>) e' \<and> io_ok e'"
  by (rule getLocalPhys_bigendian)
     (use demo_env_ok in \<open>simp_all add: io_ok_def cache_ok_def no_hooks_def line_bytes_def\<close>)

text \<open>
  C37: in big-endian mode writes do not swap: a value written to a supported width and read back comes
  back with its bytes reversed.
\<close>

theorem bigendian_write_read_reverses:
  assumes ok: "io_ok e" and mode: "fsl_mode e = FSL_MODE_BIGENDIAN" and m: "m \<in> {1, 2, 4, 5, 6, 8}"
    and inside: "b + m \<le> line_bytes (length (disk e))"
  shows "\<exists>e1 e2. fsl_io_write (8 * b) v (8 * m) e = Some e1 \<and>
     getLocalPhys (8 * b) (8 * m) e1 = Some (bswap m (take_bit (8 * m) v), e2)"
proof -
  have m8: "0 < m" "m \<le> 8" using m by auto
  then have "write_ok (disk e) (8 * b) (8 * m)" using inside by (simp add: write_ok_def)
  then obtain e1 where e1: "fsl_io_write (8 * b) v (8 * m) e = Some e1" "wrote (8 * b) v (8 * m) e e1"
    using fsl_io_write_spec [OF ok] by blast
  have f1: "io_ok e1" "length (disk e1) = length (disk e)" "fsl_mode e1 = FSL_MODE_BIGENDIAN"
    using e1(2) mode io_same_sel(4) [of "e\<lparr>disk := disk e1\<rparr>" e1] by (auto simp: wrote_def)
  have "disk_bits (disk e1) (8 * b) (8 * m) = take_bit (8 * m) v"
    using e1(2) m8 disk_bits_put [of "disk e1" "8 * b" v "8 * m"] by (simp add: wrote_def)
  then show ?thesis
    using e1(1) getLocalPhys_be [OF f1(1,3), of m b] m inside f1(2) by (auto simp: swap_widths_def)
qed

theorem bigendian_write_read_reverses_witness:
  "\<exists>e1 e2. fsl_io_write (8 * 10) 0x1234 (8 * 2) (demo_env\<lparr>fsl_mode := FSL_MODE_BIGENDIAN\<rparr>) = Some e1 \<and>
     getLocalPhys (8 * 10) (8 * 2) e1 = Some (bswap 2 (take_bit (8 * 2) 0x1234), e2)"
  by (rule bigendian_write_read_reverses)
     (use demo_env_ok in \<open>simp_all add: io_ok_def cache_ok_def no_hooks_def line_bytes_def\<close>)

section \<open>Committing the write log\<close>

definition wlog_pending :: "fsl_rt_wlog \<Rightarrow> fsl_rt_wlog_ent list" where
  "wlog_pending wl = take (nat (wl_idx wl)) (wl_write wl)"

text \<open>Writes applied one after the other, so the last write of a bit wins.\<close>

definition apply_writes :: "fsl_rt_wlog_ent list \<Rightarrow> (nat \<Rightarrow> bool) \<Rightarrow> nat \<Rightarrow> bool" where
  "apply_writes ws f = foldl (\<lambda>f we. put_bits (we_bit_addr we) (we_val we) (we_bits we) f) f ws"

lemma wlog_commit_loop_spec:
  assumes "io_ok e" and "\<forall>we \<in> set ws. write_ok (disk e) (we_bit_addr we) (we_bits we)"
  shows "\<exists>e'. wlog_commit_loop fsl_io_write ws e = Some e' \<and> disk_bit (disk e') = apply_writes ws (disk_bit (disk e)) \<and>
    length (disk e') = length (disk e) \<and> io_same (e\<lparr>disk := disk e'\<rparr>) e' \<and> io_ok e'"
  using assms
proof (induction ws arbitrary: e)
  case (Cons we ws)
  obtain e1 where e1: "fsl_io_write (we_bit_addr we) (we_val we) (we_bits we) e = Some e1"
      "wrote (we_bit_addr we) (we_val we) (we_bits we) e e1"
    using fsl_io_write_spec [of e "we_bit_addr we" "we_bits we"] Cons.prems by auto
  have e1': "io_ok e1" "length (disk e1) = length (disk e)" "io_same (e\<lparr>disk := disk e1\<rparr>) e1"
    using e1(2) by (simp_all add: wrote_def)
  then obtain e' where e': "wlog_commit_loop fsl_io_write ws e1 = Some e'"
      "disk_bit (disk e') = apply_writes ws (disk_bit (disk e1))" "length (disk e') = length (disk e1)"
      "io_same (e1\<lparr>disk := disk e'\<rparr>) e'" "io_ok e'"
    using Cons.IH [of e1] Cons.prems(2) by (auto simp: write_ok_def)
  have "io_same (e\<lparr>disk := disk e'\<rparr>) e'"
    using io_same_trans [OF io_same_put_disk [OF e1'(3), of "disk e'"]] e'(4) by simp
  with e1 e' e1' show ?case by (auto simp: apply_writes_def wrote_def)
qed (simp add: apply_writes_def io_same_def)

text \<open>
  C13: \<open>FSL_WRITE_COMPLETE\<close> commits the pending writes: when every entry of a started log is a supported
  write, all of them reach the disk in the order they were added (the last write of a bit wins), every
  other bit is untouched, the cache is coherent afterwards and the log is stopped and can be started
  again.
\<close>

theorem write_complete_applies_log:
  assumes "io_ok e" and "0 \<le> wl_idx (io_wlog e)" and "nat (wl_idx (io_wlog e)) \<le> length (wl_write (io_wlog e))"
    and "\<forall>we \<in> set (wlog_pending (io_wlog e)). write_ok (disk e) (we_bit_addr we) (we_bits we)"
  shows "\<exists>e'. FSL_WRITE_COMPLETE fsl_io_write e = Some e' \<and>
    disk_bit (disk e') = apply_writes (wlog_pending (io_wlog e)) (disk_bit (disk e)) \<and>
    length (disk e') = length (disk e) \<and> io_ok e' \<and> FSL_WRITE_START e' \<noteq> None"
proof -
  obtain e1 where e1: "wlog_commit_loop fsl_io_write (wlog_pending (io_wlog e)) e = Some e1"
      "disk_bit (disk e1) = apply_writes (wlog_pending (io_wlog e)) (disk_bit (disk e))" "length (disk e1) = length (disk e)"
      "io_ok e1"
    using wlog_commit_loop_spec [OF assms(1,4)] by blast
  let ?e' = "e1\<lparr>io_wlog := (io_wlog e)\<lparr>wl_idx := - 1\<rparr>\<rparr>"
  have "FSL_WRITE_COMPLETE fsl_io_write e = Some ?e'"
    using e1(1) assms(2,3) by (simp add: FSL_WRITE_COMPLETE_def fsl_wlog_commit_def fsl_wlog_stop_def wlog_pending_def)
  moreover have "io_ok ?e'" using e1(4) by (simp add: io_ok_def cache_ok_def no_hooks_def)
  ultimately show ?thesis using e1 by (auto simp: FSL_WRITE_START_def fsl_wlog_start_def)
qed

definition demo_log_env :: env where
  "demo_log_env = demo_env\<lparr>io_wlog := \<lparr>wl_write = [\<lparr>we_bit_addr = 16, we_val = 0x1234, we_bits = 16\<rparr>,
     \<lparr>we_bit_addr = 19, we_val = 0, we_bits = 1\<rparr>] @ replicate 62 zero_wlog_ent, wl_idx = 2\<rparr>\<rparr>"

theorem write_complete_applies_log_witness:
  "\<exists>e'. FSL_WRITE_COMPLETE fsl_io_write demo_log_env = Some e' \<and>
    disk_bit (disk e') = apply_writes (wlog_pending (io_wlog demo_log_env)) (disk_bit (disk demo_log_env)) \<and>
    length (disk e') = length (disk demo_log_env) \<and> io_ok e' \<and> FSL_WRITE_START e' \<noteq> None"
  by (rule write_complete_applies_log)
     (use demo_env_ok in \<open>simp_all add: demo_log_env_def io_ok_def cache_ok_def no_hooks_def wlog_pending_def write_ok_def line_bytes_def\<close>)

end
