(* ===== verification/IoMmap.thy ===== *)
theory IoMmap
  imports IoPread
begin

text \<open>
  The \<open>mmap\<close> back end (\<open>rt-mmap/io.c\<close>) on a little-endian host. The mapping covers the complete 4096 byte
  blocks of the file; an access outside it faults. The names carry the prefix \<open>mm_\<close> because the two back
  ends define the same C symbols and a program is linked with one of them.
\<close>

section \<open>Operations\<close>

definition mm_len :: "env \<Rightarrow> nat" where
  "mm_len e = io_blk_c e * 4096"

definition mm_load :: "env \<Rightarrow> nat \<Rightarrow> nat \<Rightarrow> byte list option" where
  "mm_load e off n = (if off + n \<le> mm_len e \<and> off + n \<le> length (disk e) then Some (pread64 (disk e) off n) else None)"

definition mm_store :: "nat \<Rightarrow> byte list \<Rightarrow> env \<Rightarrow> env option" where
  "mm_store off bs e = (if off + length bs \<le> mm_len e \<and> off + length bs \<le> length (disk e)
     then Some (e\<lparr>disk := pwrite64 (disk e) off bs\<rparr>) else None)"

definition mm_getLocalPhys_aligned :: "nat \<Rightarrow> nat \<Rightarrow> 64 word rt" where
  "mm_getLocalPhys_aligned bit_off num_bits e = do {
     let e = stats_inc FSL_STAT_PHYSACCESS e;
     bs \<leftarrow> mm_load e (bit_off div 8) 8;
     let ret = load_le bs;
     let ret = (if num_bits < 64 then ret AND mask num_bits else ret);
     ret \<leftarrow> (if fsl_mode e = FSL_MODE_BIGENDIAN then swapBytes ret (num_bits div 8) else Some ret);
     e \<leftarrow> call_io_cb IO_CB_CACHE_ANY bit_off e;
     Some (ret, e)
   }"

definition mm_getLocalPhys :: "nat \<Rightarrow> nat \<Rightarrow> 64 word rt" where
  "mm_getLocalPhys bit_off num_bits e =
     (if bit_off mod 8 \<noteq> 0 then do {
        let e = stats_inc FSL_STAT_PHYSACCESS e;
        if fsl_mode e = FSL_MODE_BIGENDIAN
        then getLocalPhysMisalignSwp mm_getLocalPhys_aligned bit_off num_bits e
        else getLocalPhysMisalign mm_getLocalPhys_aligned bit_off num_bits e
      } else mm_getLocalPhys_aligned bit_off num_bits e)"

definition mm_fsl_io_alloc :: "os_file \<Rightarrow> env \<Rightarrow> bool \<times> env" where
  "mm_fsl_io_alloc os e = (case os_stat os of
     None \<Rightarrow> (False, e)
   | Some (st_blksize, is_blk) \<Rightarrow>
       if \<not> os_open os then (False, e)
       else let
         bytes = (if is_blk then map_option (\<lambda>n. u64 (n * 512)) (os_blkgetsize os) else Some (length (disk e)))
       in case bytes of
         None \<Rightarrow> (False, e)
       | Some bytes \<Rightarrow> (True, fsl_rlog_init (e\<lparr>io_cb := (\<lambda>_. None),
             io_rlog := \<lparr>log_accessed = replicate IO_MAX_ACCESS 0, log_accessed_idx = 0, log_next_cb = None\<rparr>,
             io_wlog := fsl_wlog_init, io_blksize := 4096, io_blk_c := bytes div 4096\<rparr>)))"

definition mm_fsl_io_read_bytes :: "nat \<Rightarrow> nat \<Rightarrow> byte list rt" where
  "mm_fsl_io_read_bytes byte_c off e = do {
     let e = stats_add FSL_STAT_BITS_READ (u32 (byte_c * 8)) e;
     buf \<leftarrow> mm_load e off byte_c;
     Some (buf, e)
   }"

definition mm_fsl_io_write_bit :: "nat \<Rightarrow> 64 word \<Rightarrow> nat \<Rightarrow> env \<Rightarrow> env option" where
  "mm_fsl_io_write_bit bit_off val num_bits e = do {
     assert_c (num_bits < 8);
     let bit_left = bit_off mod 8;
     bs \<leftarrow> mm_load e (bit_off div 8) 1;
     let out_v = load_le bs;
     let val = val AND mask num_bits;
     let out_v = out_v AND NOT (push_bit bit_left (mask num_bits));
     let out_v = out_v OR push_bit bit_left val;
     mm_store (bit_off div 8) [ucast out_v] e
   }"

definition mm_fsl_io_write :: "nat \<Rightarrow> 64 word \<Rightarrow> nat \<Rightarrow> env \<Rightarrow> env option" where
  "mm_fsl_io_write bit_off val num_bits e = do {
     let e = stats_inc FSL_STAT_WRITES e;
     let e = stats_add FSL_STAT_BITS_WRITTEN num_bits e;
     e \<leftarrow> call_io_cb IO_CB_WRITE bit_off e;
     if num_bits = 1 then mm_fsl_io_write_bit bit_off val num_bits e
     else do {
       assert_c (bit_off mod 8 = 0);
       assert_c (num_bits mod 8 = 0);
       assert_c (num_bits \<le> 64);
       mm_store (bit_off div 8) (word_bytes (num_bits div 8) val) e
     }
   }"

definition mm_fsl_io_write_bytes :: "byte list \<Rightarrow> nat \<Rightarrow> nat \<Rightarrow> env \<Rightarrow> env option" where
  "mm_fsl_io_write_bytes buf byte_c off e = do {
     let e = stats_inc FSL_STAT_WRITES e;
     let e = stats_add FSL_STAT_BITS_WRITTEN (u32 (byte_c * 8)) e;
     e \<leftarrow> call_io_cb IO_CB_WRITE (u64 (off * 8)) e;
     assert_c (byte_c \<le> length buf);
     mm_store off (take byte_c buf) e
   }"

section \<open>Reads\<close>

text \<open>
  The mapped part of the disk, less the last eight bytes: every read loads a whole 64 bit word, so a
  read that starts in the last seven bytes of the mapping faults.
\<close>

definition mm_lim :: "nat \<Rightarrow> nat" where
  "mm_lim n = n div 4096 * 4096 - 8"

definition mm_ok :: "env \<Rightarrow> bool" where
  "mm_ok e \<longleftrightarrow> no_hooks e \<and> length (disk e) < 2 ^ 60 \<and> mm_len e = length (disk e) div 4096 * 4096"

definition mm_ok_le :: "env \<Rightarrow> bool" where
  "mm_ok_le e \<longleftrightarrow> mm_ok e \<and> fsl_mode e \<noteq> FSL_MODE_BIGENDIAN"

lemma mm_ok_stats [simp]: "mm_ok (stats_add s n e) = mm_ok e" "mm_ok (stats_inc s e) = mm_ok e"
  by (simp_all add: mm_ok_def no_hooks_def mm_len_def)

lemma mm_load_disk: "mm_ok e \<Longrightarrow> b + 8 \<le> length (disk e) div 4096 * 4096 \<Longrightarrow> mm_load e b 8 = Some (pread64 (disk e) b 8)"
  using div_times_less_eq_dividend [of "length (disk e)" 4096] by (simp add: mm_load_def mm_ok_def)

lemma load_le_pread: "b + 8 \<le> length d \<Longrightarrow> load_le (pread64 d b 8) = disk_bits d (8 * b) 64"
proof (rule bit_word_eqI)
  fix k assume b: "b + 8 \<le> length d" and "k < LENGTH(64)"
  then have k: "k < 64" "k div 8 < 8" by simp_all
  have "(8 * b + k) div 8 = b + k div 8" "(8 * b + k) mod 8 = k mod 8" by simp_all
  then show "bit (load_le (pread64 d b 8)) k \<longleftrightarrow> bit (disk_bits d (8 * b) 64) k"
    using b k by (auto simp: bit_load_le bit_disk_bits disk_bit_def)
qed

lemma disk_bits_mask: "n \<le> 64 \<Longrightarrow> (if n < 64 then disk_bits d off 64 AND mask n else disk_bits d off 64) = disk_bits d off n"
  by (intro bit_word_eqI) (auto simp: bit_and_iff bit_mask_iff bit_disk_bits)

lemma mm_aligned_spec:
  assumes ok: "mm_ok_le e" and n: "n \<le> 64" and inside: "b + 8 \<le> length (disk e) div 4096 * 4096"
  shows "mm_getLocalPhys_aligned (8 * b) n e = Some (disk_bits (disk e) (8 * b) n, stats_inc FSL_STAT_PHYSACCESS e)"
proof -
  let ?es = "stats_inc FSL_STAT_PHYSACCESS e"
  have ld: "mm_load ?es b 8 = Some (pread64 (disk e) b 8)" using mm_load_disk [of ?es b] ok inside by (simp add: mm_ok_le_def)
  have "b + 8 \<le> length (disk e)" using inside div_times_less_eq_dividend [of "length (disk e)" 4096] by linarith
  then have "load_le (pread64 (disk e) b 8) = disk_bits (disk e) (8 * b) 64" by (rule load_le_pread)
  moreover have "call_io_cb IO_CB_CACHE_ANY (8 * b) ?es = Some ?es"
    using ok by (intro call_io_cb_quiet) (simp add: mm_ok_le_def mm_ok_def no_hooks_def)
  ultimately show ?thesis
    using ok ld disk_bits_mask [OF n, of "disk e" "8 * b"] by (auto simp: mm_getLocalPhys_aligned_def mm_ok_le_def Let_def split: if_splits)
qed

interpretation mmap: phys_reader mm_getLocalPhys_aligned mm_ok_le mm_lim
proof
  fix e b m
  assume a: "mm_ok_le e" "0 < m" "m \<le> 8" "b + m \<le> mm_lim (length (disk e))"
  then have "b + 8 \<le> length (disk e) div 4096 * 4096" by (simp add: mm_lim_def)
  moreover have "mm_ok_le (stats_inc FSL_STAT_PHYSACCESS e)" using a(1) by (simp add: mm_ok_le_def)
  ultimately show "\<exists>e'. mm_getLocalPhys_aligned (8 * b) (8 * m) e = Some (disk_bits (disk e) (8 * b) (8 * m), e') \<and>
      io_same e e' \<and> mm_ok_le e'"
    using mm_aligned_spec [OF a(1), of "8 * m" b] a(3) by simp
next
  fix e assume "mm_ok_le e"
  then have "length (disk e) < 2 ^ 60" by (simp add: mm_ok_le_def mm_ok_def)
  moreover have "mm_lim (length (disk e)) \<le> length (disk e)"
    using div_times_less_eq_dividend [of "length (disk e)" 4096] by (simp add: mm_lim_def)
  ultimately show "mm_lim (length (disk e)) < 2 ^ 60" by (rule le_less_trans [rotated])
qed

lemma mm_getLocalPhys_le:
  assumes ok: "mm_ok e" and mode: "fsl_mode e \<noteq> FSL_MODE_BIGENDIAN" and n: "0 < n" "n \<le> 64"
    and mis: "off mod 8 \<noteq> 0 \<longrightarrow> n < 64" and inside: "(off + n + 7) div 8 \<le> mm_lim (length (disk e))"
  shows "\<exists>e'. mm_getLocalPhys off n e = Some (disk_bits (disk e) off n, e') \<and> io_same e e' \<and> mm_ok e'"
proof (cases "off mod 8 = 0")
  case True
  then obtain b where b: "off = 8 * b" by auto
  have "b + 8 \<le> length (disk e) div 4096 * 4096" using inside n b by (simp add: mm_lim_def)
  then show ?thesis using mm_aligned_spec [of e n b] ok mode n(2) b by (simp add: mm_getLocalPhys_def mm_ok_le_def)
next
  case False
  let ?es = "stats_inc FSL_STAT_PHYSACCESS e"
  have es: "mm_ok_le ?es" "disk ?es = disk e" using ok mode by (simp_all add: mm_ok_le_def)
  obtain e' where "getLocalPhysMisalign mm_getLocalPhys_aligned off n ?es = Some (disk_bits (disk e) off n, e')"
      "io_same ?es e'" "mm_ok_le e'"
    using mmap.rd_misaligned [OF es(1) False n(1)] mis False inside es(2) by auto
  then show ?thesis
    using False mode io_same_trans [OF io_same_stats(2)] by (auto simp: mm_getLocalPhys_def mm_ok_le_def)
qed

text \<open>
  C15: the two back ends agree. In little-endian mode a read that both support returns the same value
  through the block cache and through the mapping, and neither changes the disk.
\<close>

theorem backends_agree:
  assumes "io_ok e" and "mm_ok e" and "fsl_mode e \<noteq> FSL_MODE_BIGENDIAN" and "0 < n" and "n \<le> 64"
    and "off mod 8 \<noteq> 0 \<longrightarrow> n < 64"
    and "off mod 8 = 0 \<longrightarrow> n mod 8 = 0 \<or> off div 256 = (off + n - 1) div 256"
    and "(off + n + 7) div 8 \<le> mm_lim (length (disk e))"
  shows "\<exists>v e1 e2. getLocalPhys off n e = Some (v, e1) \<and> mm_getLocalPhys off n e = Some (v, e2) \<and>
    disk e1 = disk e \<and> disk e2 = disk e"
proof -
  have "mm_lim (length (disk e)) \<le> line_bytes (length (disk e))"
  proof -
    have "length (disk e) div 4096 * 128 \<le> length (disk e) div 32" by linarith
    then show ?thesis by (simp add: mm_lim_def line_bytes_def)
  qed
  then show ?thesis
    using getLocalPhys_le [of e n off] mm_getLocalPhys_le [of e n off] assms io_same_sel(1) by fastforce
qed

definition demo_mm_env :: env where
  "demo_mm_env = blank_env\<lparr>disk := replicate 4096 7, bdev_bytes := 4096, io_blk_c := 1\<rparr>"

theorem backends_agree_witness:
  "\<exists>v e1 e2. getLocalPhys 251 13 demo_mm_env = Some (v, e1) \<and> mm_getLocalPhys 251 13 demo_mm_env = Some (v, e2) \<and>
    disk e1 = disk demo_mm_env \<and> disk e2 = disk demo_mm_env"
  by (rule backends_agree)
     (simp_all add: demo_mm_env_def blank_env_def io_ok_def cache_ok_def line_ok_def no_hooks_def mm_ok_def mm_len_def
       mm_lim_def FSL_MODE_BIGENDIAN_def FSL_MODE_LITTLEENDIAN_def)

text \<open>
  The two back ends differ in big-endian mode. A byte aligned bit-field of fewer than eight bits
  can be read through the block cache, but the \<open>mmap\<close> back end asks \<open>__swapBytes\<close> for zero bytes and
  aborts.
\<close>

theorem mmap_bigendian_bitfield_aborts:
  assumes "mm_ok e" and "fsl_mode e = FSL_MODE_BIGENDIAN" and "n < 8" and "off mod 8 = 0"
  shows "mm_getLocalPhys off n e = None"
  using assms
  by (cases "mm_load (stats_inc FSL_STAT_PHYSACCESS e) (off div 8) 8")
     (simp_all add: mm_getLocalPhys_def mm_getLocalPhys_aligned_def swapBytes_def Let_def)

theorem mmap_bigendian_bitfield_aborts_witness:
  "mm_getLocalPhys 16 4 (demo_mm_env\<lparr>fsl_mode := FSL_MODE_BIGENDIAN\<rparr>) = None"
  by (rule mmap_bigendian_bitfield_aborts)
     (simp_all add: demo_mm_env_def blank_env_def no_hooks_def mm_ok_def mm_len_def)

section \<open>Writes\<close>

text \<open>
  A write through the mapping has the same effect on the disk as a write through the file: it
  terminates for every supported write inside the mapping and replaces exactly the addressed bits.
\<close>

theorem mm_fsl_io_write_exact:
  assumes ok: "mm_ok e" and wok: "write_ok (disk e) off n" and inside: "(off + n + 7) div 8 \<le> mm_lim (length (disk e))"
  shows "\<exists>e'. mm_fsl_io_write off v n e = Some e' \<and>
    (\<forall>i. disk_bit (disk e') i \<longleftrightarrow> (if off \<le> i \<and> i < off + n then bit v (i - off) else disk_bit (disk e) i)) \<and>
    length (disk e') = length (disk e) \<and> mm_ok e'"
proof -
  let ?es = "stats_add FSL_STAT_BITS_WRITTEN n (stats_inc FSL_STAT_WRITES e)"
  define b where "b = off div 8"
  have quiet: "call_io_cb IO_CB_WRITE off ?es = Some ?es"
    using ok by (intro call_io_cb_quiet) (simp add: mm_ok_def no_hooks_def)
  have mml: "mm_lim (length (disk e)) + 8 \<le> mm_len e" "mm_len e \<le> length (disk e)"
    using ok inside wok div_times_less_eq_dividend [of "length (disk e)" 4096]
    by (auto simp: mm_ok_def mm_lim_def write_ok_def)
  have store: "mm_store b bs ?es = Some (?es\<lparr>disk := pwrite64 (disk e) b bs\<rparr>)" if "b + length bs \<le> mm_lim (length (disk e))" for bs
    using that mml by (simp add: mm_store_def mm_len_def)
  have fin: "\<exists>e'. mm_fsl_io_write off v n e = Some e' \<and> disk_bit (disk e') = put_bits off v n (disk_bit (disk e)) \<and>
      length (disk e') = length (disk e) \<and> mm_ok e'"
    if "mm_fsl_io_write off v n e = mm_store b bs ?es" "b + length bs \<le> mm_lim (length (disk e))"
      "disk_bit (pwrite64 (disk e) b bs) = put_bits off v n (disk_bit (disk e))" for bs
    using that store [OF that(2)] ok mml by (simp add: length_pwrite64_in mm_ok_def no_hooks_def mm_len_def)
  have "\<exists>e'. mm_fsl_io_write off v n e = Some e' \<and> disk_bit (disk e') = put_bits off v n (disk_bit (disk e)) \<and>
      length (disk e') = length (disk e) \<and> mm_ok e'"
  proof (cases "n = 1")
    case True
    define r where "r = off mod 8"
    have off: "off = 8 * b + r" "r < 8" by (simp_all add: b_def r_def)
    have b1: "b + 1 \<le> mm_lim (length (disk e))" using inside True off by simp
    let ?w = "(disk_bits (disk e) (8 * b) 8 AND NOT (push_bit r (mask 1))) OR push_bit r (v AND mask 1)"
    have bl: "b < length (disk e)" using b1 mml by simp
    have "load_le (pread64 (disk e) b 1) = disk_bits (disk e) (8 * b) 8"
      using bl by (intro bit_word_eqI) (auto simp: bit_load_le bit_disk_bits disk_bit_def pread64_def)
    moreover have "mm_load ?es b 1 = Some (pread64 (disk e) b 1)" using b1 mml by (simp add: mm_load_def mm_len_def)
    ultimately have "mm_fsl_io_write off v n e = mm_store b [ucast ?w] ?es"
      using True quiet by (simp add: mm_fsl_io_write_def mm_fsl_io_write_bit_def Let_def b_def r_def del: One_nat_def)
    moreover have "disk_bit (pwrite64 (disk e) b [ucast ?w]) = put_bits off v n (disk_bit (disk e))"
      using write_bit_bits [OF bl off(2) refl] off(1) True by simp
    ultimately show ?thesis using fin [of "[ucast ?w]"] b1 by simp
  next
    case False
    then obtain m where n: "off = 8 * b" "n = 8 * m" "m \<le> 8" "0 < m" using wok by (auto simp: write_ok_def b_def)
    have bm: "b + m \<le> mm_lim (length (disk e))" using inside n by simp
    then have "disk_bit (pwrite64 (disk e) b (word_bytes m v)) = put_bits off v n (disk_bit (disk e))"
      using write_bytes_bits [of b m "disk e" v] n mml by simp
    moreover have "mm_fsl_io_write off v n e = mm_store b (word_bytes m v) ?es"
      using False quiet n by (simp add: mm_fsl_io_write_def Let_def)
    ultimately show ?thesis using fin [of "word_bytes m v"] bm by simp
  qed
  then show ?thesis by (auto simp: put_bits_def)
qed

theorem mm_fsl_io_write_exact_witness:
  "\<exists>e'. mm_fsl_io_write 24 0xabcd 16 demo_mm_env = Some e' \<and>
    (\<forall>i. disk_bit (disk e') i \<longleftrightarrow> (if 24 \<le> i \<and> i < 24 + 16 then bit (0xabcd :: 64 word) (i - 24) else disk_bit (disk demo_mm_env) i)) \<and>
    length (disk e') = length (disk demo_mm_env) \<and> mm_ok e'"
  by (rule mm_fsl_io_write_exact)
     (simp_all add: demo_mm_env_def blank_env_def no_hooks_def mm_ok_def mm_len_def mm_lim_def write_ok_def line_bytes_def)

end
