(* ===== verification/Lookup.thy ===== *)
theory Lookup
  imports RtTypes
begin

text \<open>
  Lookup of fields, pointers and virtual types by name (\<open>lookup.c\<close>). The \<open>tt\<close> argument is the number of a
  type of the tables, the result a pointer into the tables or \<open>NULL\<close>.
\<close>

definition first_idx :: "('a \<Rightarrow> bool) \<Rightarrow> 'a list \<Rightarrow> nat option" where
  "first_idx P xs = find (\<lambda>i. P (xs ! i)) [0..<length xs]"

definition fsl_lookup_field :: "fsl_tables \<Rightarrow> nat \<Rightarrow> string \<Rightarrow> field_ref option option" where
  "fsl_lookup_field T n fname = do {
     tt \<leftarrow> tt_by_num T n;
     Some (map_option (\<lambda>i. (TabField, n, i)) (first_idx (\<lambda>tf. fname = tf_fieldname tf) (tt_field_table tt)))
   }"

definition fsl_lookup_points :: "fsl_tables \<Rightarrow> nat \<Rightarrow> string \<Rightarrow> (nat \<times> nat) option option" where
  "fsl_lookup_points T n fname = do {
     tt \<leftarrow> tt_by_num T n;
     Some (map_option (\<lambda>i. (n, i)) (first_idx (\<lambda>pt. pt_name pt = Some fname) (tt_pointsto tt)))
   }"

definition fsl_lookup_virt :: "fsl_tables \<Rightarrow> nat \<Rightarrow> string \<Rightarrow> (nat \<times> nat) option option" where
  "fsl_lookup_virt T n fname = do {
     tt \<leftarrow> tt_by_num T n;
     Some (map_option (\<lambda>i. (n, i)) (first_idx (\<lambda>vt. vt_name vt = Some fname) (tt_virt tt)))
   }"

definition fsl_lookup_has :: "fsl_tables \<Rightarrow> nat \<Rightarrow> string \<Rightarrow> bool option" where
  "fsl_lookup_has T n fname = do {
     f \<leftarrow> fsl_lookup_field T n fname;
     if f \<noteq> None then Some True
     else do {
       p \<leftarrow> fsl_lookup_points T n fname;
       if p \<noteq> None then Some True
       else do {
         v \<leftarrow> fsl_lookup_virt T n fname;
         Some (v \<noteq> None)
       }
     }
   }"

lemma first_idx_Some:
  "first_idx P xs = Some i \<longleftrightarrow> i < length xs \<and> P (xs ! i) \<and> (\<forall>j < i. \<not> P (xs ! j))"
  by (auto simp: first_idx_def find_Some_iff)

lemma first_idx_None: "first_idx P xs = None \<longleftrightarrow> (\<forall>x \<in> set xs. \<not> P x)"
  by (simp add: first_idx_def find_None_iff all_set_conv_all_nth)

end
