(* ===== verification/Virt.thy ===== *)
theory Virt
  imports Lookup
begin

text \<open>
  Virtual address spaces (\<open>virt.c\<close>): a mapping turns a bit offset inside a virtual type into a bit offset
  on the disk by asking the generated iterator for the place of the source element it falls into. Eight
  translations are cached.

  \<^item> A mapping lives in \<open>h_rtm\<close>. \<open>rtm_clo\<close> is the closure embedded in the parent \<open>type_info\<close>, so it is
    the address of that \<open>type_info\<close>. Memory that \<open>fsl_alloc\<close> returns is filled with zeros here; every
    field is written before it is read.
  \<^item> \<open>fsl_virt_free\<close>, \<open>fsl_virt_unref\<close> and \<open>fsl_virt_unref_all\<close> call each other; \<open>virt_drop\<close> is one function
    over the three calls. Reading an object that has been freed has no result.
\<close>

section \<open>Translation cache\<close>

text \<open>
  The index parameter is an \<open>int\<close>: it is truncated to 32 bits, sign-extended when it is compared with
  \<open>vc_idx\<close> or passed on, and a negative remainder is an index outside the array.
\<close>

definition sext32 :: "nat \<Rightarrow> nat" where
  "sext32 n = (if u32 n < 2 ^ 31 then u32 n else u32 n + (2 ^ 64 - 2 ^ 32))"

definition virtc_slot :: "nat \<Rightarrow> nat option" where
  "virtc_slot idx = (if u32 idx < 2 ^ 31 \<or> u32 idx mod VIRT_CACHE_ENTS = 0
     then Some (u32 idx mod VIRT_CACHE_ENTS) else None)"

definition fsl_virt_cache_update :: "nat \<Rightarrow> nat \<Rightarrow> fsl_rt_mapping \<Rightarrow> fsl_rt_mapping option" where
  "fsl_virt_cache_update idx v rtm = do {
     i \<leftarrow> virtc_slot idx;
     Some (rtm\<lparr>rtm_cache := (rtm_cache rtm)(i := \<lparr>vc_idx = sext32 idx, vc_off = v\<rparr>)\<rparr>)
   }"

definition fsl_virt_cache_find :: "nat \<Rightarrow> fsl_rt_mapping \<Rightarrow> nat option" where
  "fsl_virt_cache_find idx rtm = do {
     i \<leftarrow> virtc_slot idx;
     let vc = rtm_cache rtm i;
     Some (if vc_idx vc \<noteq> sext32 idx then ones64 else vc_off vc)
   }"

definition fsl_virt_init_cache :: "fsl_rt_mapping \<Rightarrow> fsl_rt_mapping" where
  "fsl_virt_init_cache rtm = rtm\<lparr>rtm_cache :=
     (\<lambda>i. if i < VIRT_CACHE_ENTS then (rtm_cache rtm i)\<lparr>vc_idx := i + 1\<rparr> else rtm_cache rtm i)\<rparr>"

section \<open>Translation\<close>

definition fsl_virt_src_types :: "fsl_rt_mapping \<Rightarrow> nat" where
  "fsl_virt_src_types rtm = u64 (u64 (rtm_cached_maxidx rtm + 2 ^ 64 - rtm_cached_minidx rtm) + 1)"

definition fsl_virt_total_bits :: "fsl_rt_mapping \<Rightarrow> nat" where
  "fsl_virt_total_bits rtm = u64 (rtm_cached_srcsz rtm * fsl_virt_src_types rtm)"

definition fsl_virt_xlate_miss :: "fsl_tables \<Rightarrow> fsl_rt_mapping \<Rightarrow> nat \<Rightarrow> nat rt" where
  "fsl_virt_xlate_miss T rtm idx e = do {
     vt \<leftarrow> virt_by_ref T (rtm_virt rtm);
     ti \<leftarrow> ti_at e (rtm_clo rtm);
     ((base, params, xlate), e) \<leftarrow> it_range (vt_iter vt) (ti_clo ti) (sext32 idx) e;
     Some (base, e)
   }"

definition fsl_virt_xlate_rtm :: "fsl_tables \<Rightarrow> addr option \<Rightarrow> nat \<Rightarrow> nat rt" where
  "fsl_virt_xlate_rtm T rtmp bit_off e = do {
     a \<leftarrow> rtmp;
     rtm \<leftarrow> rtm_at e a;
     assert_c (bit_off mod 8 = 0);
     let total_bits = fsl_virt_total_bits rtm;
     if bit_off \<ge> total_bits \<and> ex_in_unsafe_op (fctx_except e)
     then Some (ones64, e\<lparr>fctx_except := (fctx_except e)\<lparr>ex_err_unsafe_op := 1\<rparr>\<rparr>)
     else do {
       assert_c (bit_off < total_bits);
       assert_c (rtm_cached_srcsz rtm \<noteq> 0);
       let idx = u64 (bit_off div rtm_cached_srcsz rtm + rtm_cached_minidx rtm);
       found \<leftarrow> fsl_virt_cache_find idx rtm;
       (base, e) \<leftarrow> (if found = ones64 then do {
           (base, e) \<leftarrow> fsl_virt_xlate_miss T rtm idx e;
           rtm \<leftarrow> rtm_at e a;
           rtm \<leftarrow> fsl_virt_cache_update idx base rtm;
           Some (base, put_rtm a rtm e)
         } else Some (found, stats_inc FSL_STAT_XLATE_HIT e));
       let off = bit_off mod rtm_cached_srcsz rtm;
       assert_c (u64 (base + off) \<noteq> 0);
       let e = stats_inc FSL_STAT_XLATE_CALL e;
       Some (u64 (base + off), e)
     }
   }"

definition fsl_virt_xlate :: "fsl_tables \<Rightarrow> fsl_rt_closure \<Rightarrow> nat \<Rightarrow> nat rt" where
  "fsl_virt_xlate T clo bit_off e = fsl_virt_xlate_rtm T (clo_xlate clo) bit_off e"

definition set_unsafe :: "bool \<Rightarrow> env \<Rightarrow> env" where
  "set_unsafe b e = e\<lparr>fctx_except := (fctx_except e)\<lparr>ex_in_unsafe_op := b\<rparr>\<rparr>"

definition set_unsafe_err :: "int \<Rightarrow> env \<Rightarrow> env" where
  "set_unsafe_err n e = e\<lparr>fctx_except := (fctx_except e)\<lparr>ex_err_unsafe_op := n\<rparr>\<rparr>"

definition fsl_virt_xlate_safe :: "fsl_tables \<Rightarrow> fsl_rt_closure \<Rightarrow> nat \<Rightarrow> nat rt" where
  "fsl_virt_xlate_safe T clo bit_voff e = do {
     assert_c (\<not> ex_in_unsafe_op (fctx_except e));
     let e = set_unsafe True (set_unsafe_err 0 e);
     (ret, e) \<leftarrow> fsl_virt_xlate T clo bit_voff e;
     let e = set_unsafe False e;
     if ex_err_unsafe_op (fctx_except e) \<noteq> 0 then Some (OFFSET_INVALID, set_unsafe_err 0 e)
     else Some (ret, e)
   }"

definition toPhys :: "fsl_tables \<Rightarrow> fsl_rt_closure \<Rightarrow> nat \<Rightarrow> nat rt" where
  "toPhys T clo off e = (if clo_xlate clo = None then Some (off, e) else fsl_virt_xlate T clo off e)"

section \<open>Reference counts\<close>

definition fsl_virt_ref :: "fsl_rt_closure \<Rightarrow> addr option rt" where
  "fsl_virt_ref clo e = (case clo_xlate clo of
     None \<Rightarrow> Some (None, e)
   | Some a \<Rightarrow> do {
       rtm \<leftarrow> rtm_at e a;
       Some (Some a, put_rtm a (rtm\<lparr>rtm_ref_c := u64 (rtm_ref_c rtm + 1)\<rparr>) e)
     })"

text \<open>The argument is the address of the \<open>type_info\<close> whose closure is passed.\<close>

partial_function (option) fsl_virt_ref_all :: "addr \<Rightarrow> env \<Rightarrow> env option" where
  "fsl_virt_ref_all p e = do {
     ti \<leftarrow> ti_at e p;
     case ti_xlate ti of
       None \<Rightarrow> Some e
     | Some a \<Rightarrow> do {
         (_, e) \<leftarrow> fsl_virt_ref (ti_clo ti) e;
         rtm \<leftarrow> rtm_at e a;
         fsl_virt_ref_all (rtm_clo rtm) e
       }
   }"

datatype virt_call = VUnrefAll addr | VUnref "addr option" | VFree addr

partial_function (option) virt_drop :: "virt_call \<Rightarrow> env \<Rightarrow> env option" where
  "virt_drop call e = (case call of
     VUnrefAll p \<Rightarrow> do {
       ti \<leftarrow> ti_at e p;
       case ti_xlate ti of
         None \<Rightarrow> Some e
       | Some a \<Rightarrow> do {
           e \<leftarrow> virt_drop (VUnref (Some a)) e;
           rtm \<leftarrow> rtm_at e a;
           virt_drop (VUnrefAll (rtm_clo rtm)) e
         }
     }
   | VFree a \<Rightarrow> do {
       rtm \<leftarrow> rtm_at e a;
       assert_c (rtm_ref_c rtm = 1);
       e \<leftarrow> virt_drop (VUnrefAll (rtm_clo rtm)) e;
       Some (free_rtm a e)
     }
   | VUnref None \<Rightarrow> Some e
   | VUnref (Some a) \<Rightarrow> do {
       rtm \<leftarrow> rtm_at e a;
       if rtm_ref_c rtm = 1 then virt_drop (VFree a) e
       else Some (put_rtm a (rtm\<lparr>rtm_ref_c := u64 (rtm_ref_c rtm + ones64)\<rparr>) e)
     })"

definition fsl_virt_unref_all :: "addr \<Rightarrow> env \<Rightarrow> env option" where
  "fsl_virt_unref_all p e = virt_drop (VUnrefAll p) e"

definition fsl_virt_free :: "addr \<Rightarrow> env \<Rightarrow> env option" where
  "fsl_virt_free a e = virt_drop (VFree a) e"

definition fsl_virt_unref :: "fsl_rt_closure \<Rightarrow> env \<Rightarrow> env option" where
  "fsl_virt_unref clo e = virt_drop (VUnref (clo_xlate clo)) e"

section \<open>Allocation\<close>

text \<open>The loop that checks that all source elements have the same size.\<close>

partial_function (option) virt_verify_loop ::
  "fsl_rt_iter \<Rightarrow> fsl_rtt_type \<Rightarrow> fsl_rt_closure \<Rightarrow> nat \<Rightarrow> nat \<Rightarrow> nat \<Rightarrow> env \<Rightarrow> env option" where
  "virt_verify_loop it tt clo srcsz idx maxidx e =
     (if idx \<le> maxidx then do {
        ((cur_off, params, xlate), e) \<leftarrow> it_range it clo idx e;
        (cur_sz, e) \<leftarrow> tt_size tt \<lparr>clo_offset = cur_off, clo_params = params, clo_xlate = clo_xlate clo\<rparr> e;
        assert_c (cur_sz = srcsz);
        virt_verify_loop it tt clo srcsz (u64 (idx + 1)) maxidx e
      } else Some e)"

definition fsl_virt_load_cache :: "fsl_tables \<Rightarrow> addr \<Rightarrow> bool rt" where
  "fsl_virt_load_cache T a e = do {
     rtm \<leftarrow> rtm_at e a;
     vt \<leftarrow> virt_by_ref T (rtm_virt rtm);
     ti \<leftarrow> ti_at e (rtm_clo rtm);
     let clo = ti_clo ti;
     (minidx, e) \<leftarrow> it_min (vt_iter vt) clo e;
     let rtm = rtm\<lparr>rtm_cached_minidx := minidx\<rparr>;
     let e = put_rtm a rtm e;
     if minidx = ones64 then Some (False, e)
     else do {
       (maxidx, e) \<leftarrow> it_max (vt_iter vt) clo e;
       let rtm = rtm\<lparr>rtm_cached_maxidx := maxidx\<rparr>;
       let e = put_rtm a rtm e;
       if minidx > maxidx then Some (False, e)
       else do {
         tt_vsrc \<leftarrow> tt_by_num T (it_type_dst (vt_iter vt));
         ((first_type_off, params, xlate), e) \<leftarrow> it_range (vt_iter vt) clo minidx e;
         (srcsz, e) \<leftarrow> tt_size tt_vsrc \<lparr>clo_offset = first_type_off, clo_params = params, clo_xlate = clo_xlate clo\<rparr> e;
         let rtm = rtm\<lparr>rtm_cached_srcsz := srcsz\<rparr>;
         let e = put_rtm a rtm e;
         assert_c (srcsz > 0);
         e \<leftarrow> virt_verify_loop (vt_iter vt) tt_vsrc clo srcsz (u64 (minidx + 1)) maxidx e;
         Some (True, e)
       }
     }
   }"

definition zero_virtc_ent :: fsl_virtc_ent where
  "zero_virtc_ent = \<lparr>vc_idx = 0, vc_off = 0\<rparr>"

definition fsl_virt_alloc :: "fsl_tables \<Rightarrow> addr \<Rightarrow> nat \<times> nat \<Rightarrow> addr option rt" where
  "fsl_virt_alloc T parent vt e = do {
     let a = h_next e;
     let rtm = \<lparr>rtm_clo = parent, rtm_virt = vt, rtm_ref_c = 0, rtm_cached_minidx = 0, rtm_cached_maxidx = 0,
                rtm_cached_srcsz = 0, rtm_cache = (\<lambda>_. zero_virtc_ent)\<rparr>;
     let e = put_rtm a rtm (e\<lparr>h_next := a + 1\<rparr>);
     e \<leftarrow> fsl_virt_ref_all parent e;
     let e = put_rtm a (rtm\<lparr>rtm_ref_c := 1\<rparr>) e;
     (ok, e) \<leftarrow> fsl_virt_load_cache T a e;
     (ret, e) \<leftarrow> (if \<not> ok then do {
         e \<leftarrow> fsl_virt_free a e;
         Some (None, e)
       } else do {
         rtm \<leftarrow> rtm_at e a;
         let e = put_rtm a (fsl_virt_init_cache rtm) e;
         ti \<leftarrow> ti_at e parent;
         if ti_xlate ti \<noteq> None then do {
           (p1, e) \<leftarrow> fsl_virt_xlate T (ti_clo ti) 0 e;
           (p2, e) \<leftarrow> fsl_virt_xlate_rtm T (Some a) 0 e;
           if p1 = p2 then do {
             e \<leftarrow> fsl_virt_free a e;
             Some (None, e)
           } else Some (Some a, e)
         } else Some (Some a, e)
       });
     Some (ret, stats_inc FSL_STAT_XLATE_ALLOC e)
   }"

section \<open>Indexing a virtual type\<close>

definition fsl_virt_nth_verify_bounds :: "addr \<Rightarrow> fsl_rtt_type \<Rightarrow> nat \<Rightarrow> bool rt" where
  "fsl_virt_nth_verify_bounds a tt cur_off e = do {
     assert_c (\<not> ex_in_unsafe_op (fctx_except e));
     let e = set_unsafe True (set_unsafe_err 0 e);
     (cur_size, e) \<leftarrow> tt_size tt \<lparr>clo_offset = cur_off, clo_params = [], clo_xlate = Some a\<rparr> e;
     let e = set_unsafe False e;
     if ex_err_unsafe_op (fctx_except e) \<noteq> 0 then Some (False, set_unsafe_err 0 e)
     else do {
       rtm \<leftarrow> rtm_at e a;
       Some (\<not> u64 (cur_size + cur_off) > fsl_virt_total_bits rtm, e)
     }
   }"

text \<open>\<open>Inl\<close> is the early \<open>goto done\<close> with its value, \<open>Inr\<close> the value after the loop.\<close>

function virt_nth_loop :: "addr \<Rightarrow> fsl_rtt_type \<Rightarrow> nat \<Rightarrow> nat \<Rightarrow> nat \<Rightarrow> (nat + nat) rt" where
  "virt_nth_loop a tt i target_idx cur_off e =
     (if i < target_idx then do {
        (cur_size, e) \<leftarrow> tt_size tt \<lparr>clo_offset = cur_off, clo_params = [], clo_xlate = Some a\<rparr> e;
        rtm \<leftarrow> rtm_at e a;
        let cur_off = u64 (cur_off + cur_size);
        if cur_off \<ge> fsl_virt_total_bits rtm then Some (Inl OFFSET_INVALID, e)
        else if cur_size = 0 then Some (Inl OFFSET_EOF, e)
        else virt_nth_loop a tt (Suc i) target_idx cur_off e
      } else Some (Inr cur_off, e))"
  by pat_completeness auto
termination
  by (relation "measure (\<lambda>(a, tt, i, target_idx, cur_off, e). target_idx - i)") auto

declare virt_nth_loop.simps [simp del]

text \<open>\<open>total_bits\<close> and \<open>cur_off\<close> of the source hold the same value throughout.\<close>

definition fsl_virt_get_nth :: "fsl_tables \<Rightarrow> addr \<Rightarrow> nat \<Rightarrow> nat rt" where
  "fsl_virt_get_nth T a target_idx e = do {
     rtm \<leftarrow> rtm_at e a;
     if target_idx = 0 then Some (0, e)
     else do {
       vt \<leftarrow> virt_by_ref T (rtm_virt rtm);
       tt \<leftarrow> tt_by_num T (vt_type_virttype vt);
       (r, e) \<leftarrow> virt_nth_loop a tt 0 target_idx 0 e;
       case r of
         Inl bad \<Rightarrow> Some (bad, e)
       | Inr total_bits \<Rightarrow> do {
           (ok, e) \<leftarrow> fsl_virt_nth_verify_bounds a tt total_bits e;
           Some (if ok then total_bits else OFFSET_EOF, e)
         }
     }
   }"

section \<open>Translation is exact\<close>

text \<open>
  The translation cache agrees with a function \<open>rng\<close> that says where each source element lies.
\<close>

definition virtc_ok :: "(nat \<Rightarrow> nat) \<Rightarrow> fsl_rt_mapping \<Rightarrow> bool" where
  "virtc_ok rng rtm \<longleftrightarrow> (\<forall>i < VIRT_CACHE_ENTS. let vc = rtm_cache rtm i in
     vc_idx vc mod VIRT_CACHE_ENTS = i \<longrightarrow> vc_off vc = rng (vc_idx vc))"

text \<open>
  A mapping at address \<open>a\<close> of the elements \<open>mn\<close> to \<open>mx\<close>, each of \<open>sz\<close> bits, under the closure of the
  \<open>type_info\<close> at \<open>p\<close>.
\<close>

record vspace =
  vs_a :: addr
  vs_p :: addr
  vs_clo :: fsl_rt_closure
  vs_vt :: "nat \<times> nat"
  vs_mn :: nat
  vs_mx :: nat
  vs_sz :: nat
  vs_rng :: "nat \<Rightarrow> nat"

definition vspace_ok :: "vspace \<Rightarrow> bool" where
  "vspace_ok V \<longleftrightarrow> 0 < vs_sz V \<and> vs_mn V \<le> vs_mx V \<and> vs_mx V < 2 ^ 31 \<and>
     vs_sz V * (vs_mx V - vs_mn V + 1) < 2 ^ 64 \<and>
     (\<forall>i. vs_mn V \<le> i \<and> i \<le> vs_mx V \<longrightarrow> 0 < vs_rng V i \<and> vs_rng V i + vs_sz V < 2 ^ 64)"

definition vs_mapped :: "vspace \<Rightarrow> env \<Rightarrow> bool" where
  "vs_mapped V e \<longleftrightarrow> (\<exists>rtm ti. rtm_at e (vs_a V) = Some rtm \<and> ti_at e (vs_p V) = Some ti \<and> ti_clo ti = vs_clo V \<and>
     rtm_clo rtm = vs_p V \<and> rtm_virt rtm = vs_vt V \<and> rtm_cached_minidx rtm = vs_mn V \<and>
     rtm_cached_maxidx rtm = vs_mx V \<and> rtm_cached_srcsz rtm = vs_sz V \<and> virtc_ok (vs_rng V) rtm)"

text \<open>
  What the generated iterator has to do in states satisfying \<open>Q\<close>: find every element, and touch neither
  this mapping nor its parent. \<open>Q\<close> may not depend on the translation cache, the statistics or the
  exception flags.
\<close>

definition vs_iter_ok :: "fsl_tables \<Rightarrow> vspace \<Rightarrow> (env \<Rightarrow> bool) \<Rightarrow> bool" where
  "vs_iter_ok T V Q \<longleftrightarrow> (\<exists>vt. virt_by_ref T (vs_vt V) = Some vt \<and>
     (\<forall>e i. Q e \<and> vs_mn V \<le> i \<and> i \<le> vs_mx V \<longrightarrow>
        (\<exists>ps x e'. it_range (vt_iter vt) (vs_clo V) i e = Some ((vs_rng V i, ps, x), e') \<and> Q e' \<and>
           rtm_at e' (vs_a V) = rtm_at e (vs_a V) \<and> ti_at e' (vs_p V) = ti_at e (vs_p V) \<and> fctx_except e' = fctx_except e))) \<and>
     (\<forall>e a r s x. Q e \<longrightarrow> Q (put_rtm a r e) \<and> Q (stats_inc s e) \<and> Q (e\<lparr>fctx_except := x\<rparr>))"

definition vs_total :: "vspace \<Rightarrow> nat" where
  "vs_total V = vs_sz V * (vs_mx V - vs_mn V + 1)"

definition vs_phys :: "vspace \<Rightarrow> nat \<Rightarrow> nat" where
  "vs_phys V off = vs_rng V (vs_mn V + off div vs_sz V) + off mod vs_sz V"

lemma vs_idx:
  assumes "vspace_ok V" and "off < vs_total V"
  shows "vs_mn V \<le> vs_mn V + off div vs_sz V" "vs_mn V + off div vs_sz V \<le> vs_mx V"
proof -
  have "off div vs_sz V < vs_mx V - vs_mn V + 1"
    using assms by (intro less_mult_imp_div_less) (simp add: vs_total_def mult.commute)
  then show "vs_mn V + off div vs_sz V \<le> vs_mx V" using assms(1) by (auto simp: vspace_ok_def)
qed simp

lemma total_bits_vs:
  assumes "vspace_ok V" and "rtm_cached_minidx rtm = vs_mn V" "rtm_cached_maxidx rtm = vs_mx V" "rtm_cached_srcsz rtm = vs_sz V"
  shows "fsl_virt_total_bits rtm = vs_total V"
proof -
  have m: "vs_mn V \<le> vs_mx V" "vs_mx V < 2 ^ 31" using assms(1) by (simp_all add: vspace_ok_def)
  then have "vs_mx V + 2 ^ 64 - vs_mn V = (vs_mx V - vs_mn V) + 2 ^ 64" by simp
  then have "u64 (vs_mx V + 2 ^ 64 - vs_mn V) = (vs_mx V - vs_mn V) mod 2 ^ 64" by (simp only: u64_def mod_add_self2)
  also have "\<dots> = vs_mx V - vs_mn V" using m by simp
  finally have "fsl_virt_src_types rtm = vs_mx V - vs_mn V + 1"
    using m assms by (simp only: fsl_virt_src_types_def) (simp add: u64_id)
  then show ?thesis using assms by (simp add: fsl_virt_total_bits_def vs_total_def u64_id vspace_ok_def)
qed

lemma sext32_small: "n < 2 ^ 31 \<Longrightarrow> sext32 n = n" "n < 2 ^ 31 \<Longrightarrow> virtc_slot n = Some (n mod VIRT_CACHE_ENTS)"
  by (simp_all add: sext32_def virtc_slot_def u32_id)

lemma virt_cache_find_ok:
  assumes "virtc_ok rng rtm" and "n < 2 ^ 31"
  shows "\<exists>r. fsl_virt_cache_find n rtm = Some r \<and> (r = ones64 \<or> r = rng n)"
proof -
  have "n mod VIRT_CACHE_ENTS < VIRT_CACHE_ENTS" by (simp add: VIRT_CACHE_ENTS_def)
  then show ?thesis using assms by (auto simp: fsl_virt_cache_find_def sext32_small virtc_ok_def Let_def)
qed

lemma virt_cache_update_ok:
  assumes "virtc_ok rng rtm" and "n < 2 ^ 31"
  shows "\<exists>rtm'. fsl_virt_cache_update n (rng n) rtm = Some rtm' \<and> virtc_ok rng rtm' \<and>
     (\<exists>c. rtm' = rtm\<lparr>rtm_cache := c\<rparr>)"
  using assms by (auto simp: fsl_virt_cache_update_def sext32_small virtc_ok_def Let_def)

lemma virt_xlate_base:
  assumes V: "vspace_ok V" and it: "vs_iter_ok T V Q" and e: "Q e" "rtm_at e (vs_a V) = Some rtm" "vs_mapped V e"
    and i: "vs_mn V \<le> i" "i \<le> vs_mx V"
    and found: "fsl_virt_cache_find i rtm = Some found"
  shows "\<exists>e'. (if found = ones64 then do {
           (base, e) \<leftarrow> fsl_virt_xlate_miss T rtm i e;
           rtm \<leftarrow> rtm_at e (vs_a V);
           rtm \<leftarrow> fsl_virt_cache_update i base rtm;
           Some (base, put_rtm (vs_a V) rtm e)
         } else Some (found, stats_inc FSL_STAT_XLATE_HIT e)) = Some (vs_rng V i, e') \<and>
     Q e' \<and> vs_mapped V e' \<and> fctx_except e' = fctx_except e"
proof -
  have i31: "i < 2 ^ 31" using V i(2) by (simp add: vspace_ok_def)
  obtain ti where m: "ti_at e (vs_p V) = Some ti" "ti_clo ti = vs_clo V" "rtm_clo rtm = vs_p V" "rtm_virt rtm = vs_vt V"
      "rtm_cached_minidx rtm = vs_mn V" "rtm_cached_maxidx rtm = vs_mx V" "rtm_cached_srcsz rtm = vs_sz V" "virtc_ok (vs_rng V) rtm"
    using e(2,3) by (auto simp: vs_mapped_def)
  show ?thesis
  proof (cases "found = ones64")
    case False
    then have "found = vs_rng V i" using virt_cache_find_ok [OF m(8) i31] found by simp
    with False e it show ?thesis by (auto simp: vs_iter_ok_def vs_mapped_def ti_at_def rtm_at_def)
  next
    case True
    obtain vt ps x e1 where r: "virt_by_ref T (vs_vt V) = Some vt"
        "it_range (vt_iter vt) (vs_clo V) i e = Some ((vs_rng V i, ps, x), e1)" "Q e1"
        "rtm_at e1 (vs_a V) = Some rtm" "ti_at e1 (vs_p V) = Some ti" "fctx_except e1 = fctx_except e"
      using it e(1,2) i m(1) unfolding vs_iter_ok_def by metis
    obtain rtm' c where u: "fsl_virt_cache_update i (vs_rng V i) rtm = Some rtm'" "virtc_ok (vs_rng V) rtm'" "rtm' = rtm\<lparr>rtm_cache := c\<rparr>"
      using virt_cache_update_ok [OF m(8) i31] by blast
    have "fsl_virt_xlate_miss T rtm i e = Some (vs_rng V i, e1)"
      using r m i31 by (simp add: fsl_virt_xlate_miss_def sext32_small)
    moreover have "vs_mapped V (put_rtm (vs_a V) rtm' e1)"
      using m r u by (simp add: vs_mapped_def put_rtm_def rtm_at_def ti_at_def)
    moreover have "Q (put_rtm (vs_a V) rtm' e1)" using it r(3) by (simp add: vs_iter_ok_def)
    ultimately show ?thesis using True r u by (simp add: put_rtm_def)
  qed
qed

lemma virt_xlate_rtm_spec:
  assumes V: "vspace_ok V" and it: "vs_iter_ok T V Q" and e: "Q e" "vs_mapped V e"
    and off: "off mod 8 = 0" "off < vs_total V"
  shows "\<exists>e'. fsl_virt_xlate_rtm T (Some (vs_a V)) off e = Some (vs_phys V off, e') \<and> Q e' \<and> vs_mapped V e' \<and>
    fctx_except e' = fctx_except e"
proof -
  obtain rtm where m: "rtm_at e (vs_a V) = Some rtm" "rtm_cached_minidx rtm = vs_mn V" "rtm_cached_maxidx rtm = vs_mx V"
      "rtm_cached_srcsz rtm = vs_sz V" "virtc_ok (vs_rng V) rtm"
    using e(2) by (auto simp: vs_mapped_def)
  let ?i = "vs_mn V + off div vs_sz V"
  note idx = vs_idx [OF V off(2)]
  have i31: "?i < 2 ^ 31" "0 < vs_sz V" using V idx(2) by (simp_all add: vspace_ok_def)
  then have wi: "u64 (off div vs_sz V + vs_mn V) = ?i" by (simp add: u64_id add.commute)
  have rng: "0 < vs_rng V ?i" "vs_rng V ?i + vs_sz V < 2 ^ 64" using V idx by (auto simp: vspace_ok_def)
  have "off mod vs_sz V < vs_sz V" using i31(2) by simp
  then have wp: "u64 (vs_rng V ?i + off mod vs_sz V) = vs_phys V off" "vs_phys V off \<noteq> 0"
    using rng by (auto simp: vs_phys_def u64_id)
  obtain found where f: "fsl_virt_cache_find ?i rtm = Some found" using virt_cache_find_ok [OF m(5) i31(1)] by blast
  obtain e1 where e1: "(if found = ones64 then do {
           (base, e) \<leftarrow> fsl_virt_xlate_miss T rtm ?i e;
           rtm \<leftarrow> rtm_at e (vs_a V);
           rtm \<leftarrow> fsl_virt_cache_update ?i base rtm;
           Some (base, put_rtm (vs_a V) rtm e)
         } else Some (found, stats_inc FSL_STAT_XLATE_HIT e)) = Some (vs_rng V ?i, e1)"
      "Q e1" "vs_mapped V e1" "fctx_except e1 = fctx_except e"
    using virt_xlate_base [OF V it e(1) m(1) e(2) idx f] by blast
  have ge: "(off \<ge> vs_total V) = False" "assert_c (off < vs_total V) = Some ()" "assert_c (vs_sz V \<noteq> 0) = Some ()"
      "assert_c (off mod 8 = 0) = Some ()" "assert_c (vs_phys V off \<noteq> 0) = Some ()"
    using off i31(2) wp(2) by simp_all
  have "fsl_virt_xlate_rtm T (Some (vs_a V)) off e = Some (vs_phys V off, stats_inc FSL_STAT_XLATE_CALL e1)"
    unfolding fsl_virt_xlate_rtm_def bind.bind_lunit m total_bits_vs [OF V m(2,3,4)] Let_def ge wi f e1(1) prod.case wp(1)
    by simp
  moreover have "vs_mapped V (stats_inc FSL_STAT_XLATE_CALL e1)"
    using e1(3) by (simp add: vs_mapped_def rtm_at_def ti_at_def)
  ultimately show ?thesis using e1 it by (simp add: vs_iter_ok_def)
qed

lemma virt_xlate_rtm_outside:
  assumes V: "vspace_ok V" and e: "vs_mapped V e" and off: "off mod 8 = 0" "vs_total V \<le> off"
  shows "fsl_virt_xlate_rtm T (Some (vs_a V)) off e =
    (if ex_in_unsafe_op (fctx_except e) then Some (ones64, set_unsafe_err 1 e) else None)"
proof -
  obtain rtm where m: "rtm_at e (vs_a V) = Some rtm" "rtm_cached_minidx rtm = vs_mn V" "rtm_cached_maxidx rtm = vs_mx V"
      "rtm_cached_srcsz rtm = vs_sz V"
    using e by (auto simp: vs_mapped_def)
  show ?thesis
    using off by (simp add: fsl_virt_xlate_rtm_def m total_bits_vs [OF V m(2,3,4)] Let_def set_unsafe_err_def)
qed

text \<open>
  C6: virtual addresses are translated exactly, whatever the eight entry cache holds: for a byte aligned
  offset inside the address space the result is the place of the element the offset falls into plus the
  offset inside it, the cache stays consistent with the iterator, and an offset outside aborts.
\<close>

theorem virt_xlate_exact:
  assumes "vspace_ok V" and "vs_iter_ok T V Q" and "Q e" and "vs_mapped V e"
    and "clo_xlate clo = Some (vs_a V)" and "off mod 8 = 0" and "\<not> ex_in_unsafe_op (fctx_except e)"
  shows "(off < vs_total V \<longrightarrow> (\<exists>e'. fsl_virt_xlate T clo off e = Some (vs_phys V off, e') \<and> Q e' \<and> vs_mapped V e')) \<and>
    (vs_total V \<le> off \<longrightarrow> fsl_virt_xlate T clo off e = None)"
  using virt_xlate_rtm_spec [OF assms(1-4,6)] virt_xlate_rtm_outside [OF assms(1,4,6)] assms(5,7)
  by (auto simp: fsl_virt_xlate_def)

lemma vs_mapped_except [simp]: "vs_mapped V (set_unsafe b e) = vs_mapped V e" "vs_mapped V (set_unsafe_err n e) = vs_mapped V e"
  by (simp_all add: vs_mapped_def set_unsafe_def set_unsafe_err_def rtm_at_def ti_at_def)

text \<open>
  \<open>fsl_virt_xlate_safe\<close> never aborts on a byte aligned offset: inside the address space it returns
  the physical offset, outside it returns \<open>OFFSET_INVALID\<close>, and either way the exception flags are clear
  afterwards.
\<close>

theorem virt_xlate_safe_total:
  assumes V: "vspace_ok V" and it: "vs_iter_ok T V Q" and e: "Q e" "vs_mapped V e"
    and clo: "clo_xlate clo = Some (vs_a V)" and off: "off mod 8 = 0" and ex: "\<not> ex_in_unsafe_op (fctx_except e)"
  shows "\<exists>e'. fsl_virt_xlate_safe T clo off e = Some (if off < vs_total V then vs_phys V off else OFFSET_INVALID, e') \<and>
    Q e' \<and> vs_mapped V e' \<and> fctx_except e' = \<lparr>ex_in_unsafe_op = False, ex_err_unsafe_op = 0\<rparr>"
proof -
  let ?eu = "set_unsafe True (set_unsafe_err 0 e)"
  have Q: "Q (set_unsafe b e)" "Q (set_unsafe_err n e)" if "Q e" for b n e
    using it that unfolding vs_iter_ok_def set_unsafe_def set_unsafe_err_def by blast+
  have eu: "Q ?eu" "vs_mapped V ?eu" using e Q by simp_all
  have fl: "fctx_except ?eu = \<lparr>ex_in_unsafe_op = True, ex_err_unsafe_op = 0\<rparr>" by (simp add: set_unsafe_def set_unsafe_err_def)
  show ?thesis
  proof (cases "off < vs_total V")
    case True
    obtain e1 where e1: "fsl_virt_xlate_rtm T (Some (vs_a V)) off ?eu = Some (vs_phys V off, e1)" "Q e1" "vs_mapped V e1"
        "fctx_except e1 = fctx_except ?eu"
      using virt_xlate_rtm_spec [OF V it eu off True] by blast
    have "ex_err_unsafe_op (fctx_except (set_unsafe False e1)) = 0" "fctx_except (set_unsafe False e1) = \<lparr>ex_in_unsafe_op = False, ex_err_unsafe_op = 0\<rparr>"
      using e1(4) fl by (simp_all add: set_unsafe_def)
    then show ?thesis using True ex clo e1 Q by (simp add: fsl_virt_xlate_safe_def fsl_virt_xlate_def Let_def)
  next
    case False
    have x: "fsl_virt_xlate_rtm T (Some (vs_a V)) off ?eu = Some (ones64, set_unsafe_err 1 ?eu)"
      using virt_xlate_rtm_outside [OF V eu(2) off] False fl by simp
    let ?e' = "set_unsafe_err 0 (set_unsafe False (set_unsafe_err 1 ?eu))"
    have "fsl_virt_xlate_safe T clo off e = Some (OFFSET_INVALID, ?e')"
      using ex clo x by (simp add: fsl_virt_xlate_safe_def fsl_virt_xlate_def Let_def)
        (simp add: set_unsafe_def set_unsafe_err_def)
    moreover have "Q ?e'" using eu Q by simp
    moreover have "fctx_except ?e' = \<lparr>ex_in_unsafe_op = False, ex_err_unsafe_op = 0\<rparr>" by (simp add: set_unsafe_def set_unsafe_err_def)
    ultimately show ?thesis using False e by simp
  qed
qed

text \<open>
  A reference to a live mapping that is taken and dropped again leaves the heap as it was.
\<close>

theorem virt_ref_unref:
  assumes "clo_xlate clo = Some a" and "rtm_at e a = Some rtm" and "0 < rtm_ref_c rtm" and "rtm_ref_c rtm < ones64"
  shows "\<exists>e1. fsl_virt_ref clo e = Some (Some a, e1) \<and> fsl_virt_unref clo e1 = Some e"
proof -
  have lt: "rtm_ref_c rtm < 2 ^ 64 - 1" using assms(4) by (simp add: ones64_def)
  then have r: "u64 (rtm_ref_c rtm + 1) = rtm_ref_c rtm + 1" "u64 (rtm_ref_c rtm + 1 + ones64) = rtm_ref_c rtm"
    using u64_add_ones [of "rtm_ref_c rtm + 1"] by (simp_all add: u64_id)
  let ?e1 = "put_rtm a (rtm\<lparr>rtm_ref_c := rtm_ref_c rtm + 1\<rparr>) e"
  have "fsl_virt_ref clo e = Some (Some a, ?e1)" using assms r(1) by (simp add: fsl_virt_ref_def)
  moreover have "rtm_at ?e1 a = Some (rtm\<lparr>rtm_ref_c := rtm_ref_c rtm + 1\<rparr>)" by (simp add: rtm_at_def put_rtm_def)
  moreover have "put_rtm a rtm ?e1 = e"
    using assms(2) by (cases e) (simp add: put_rtm_def rtm_at_def fun_upd_idem)
  ultimately show ?thesis
    using assms(1,3) r(2) by (subst (1) fsl_virt_unref_def, subst virt_drop.simps) simp
qed

section \<open>Indexing is exact\<close>

text \<open>Where the \<open>n\<close>th element starts when the element at virtual offset \<open>x\<close> has \<open>sz x\<close> bits.\<close>

fun elem_pos :: "(nat \<Rightarrow> nat) \<Rightarrow> nat \<Rightarrow> nat" where
  "elem_pos sz 0 = 0"
| "elem_pos sz (Suc n) = elem_pos sz n + sz (elem_pos sz n)"

lemma elem_pos_mono: "i \<le> n \<Longrightarrow> elem_pos sz i \<le> elem_pos sz n"
  by (induction n) (auto simp: le_Suc_eq)

text \<open>
  The size function of the element type can be evaluated in states satisfying \<open>Q\<close> everywhere inside the
  address space of the mapping at \<open>a\<close>, which it leaves alone.
\<close>

definition elem_size_ok :: "addr \<Rightarrow> fsl_rt_mapping \<Rightarrow> fsl_rtt_type \<Rightarrow> (nat \<Rightarrow> nat) \<Rightarrow> (env \<Rightarrow> bool) \<Rightarrow> bool" where
  "elem_size_ok a rtm tt sz Q \<longleftrightarrow> fsl_virt_total_bits rtm < 2 ^ 62 \<and> (\<forall>x. 0 < sz x \<and> sz x < 2 ^ 62) \<and>
     (\<forall>e x. Q e \<longrightarrow> Q (set_unsafe x e)) \<and> (\<forall>e x. Q e \<longrightarrow> Q (set_unsafe_err x e)) \<and>
     (\<forall>e. Q e \<longrightarrow> rtm_at e a = Some rtm) \<and>
     (\<forall>e x. Q e \<and> x < fsl_virt_total_bits rtm \<longrightarrow>
       (\<exists>e'. tt_size tt \<lparr>clo_offset = x, clo_params = [], clo_xlate = Some a\<rparr> e = Some (sz x, e') \<and> Q e' \<and>
          fctx_except e' = fctx_except e))"

lemma virt_nth_loop_spec:
  assumes ok: "elem_size_ok a rtm tt sz Q" and "Q e" "i \<le> n" "elem_pos sz i < fsl_virt_total_bits rtm"
  shows "\<exists>r e'. virt_nth_loop a tt i n (elem_pos sz i) e = Some (r, e') \<and> Q e' \<and> fctx_except e' = fctx_except e \<and>
    r = (if elem_pos sz n < fsl_virt_total_bits rtm then Inr (elem_pos sz n) else Inl OFFSET_INVALID)"
  using assms(2-4)
proof (induction "n - i" arbitrary: i e)
  case 0
  then have "i = n" by simp
  then show ?case using 0 by (subst virt_nth_loop.simps) simp
next
  case (Suc d)
  let ?t = "fsl_virt_total_bits rtm" and ?x = "elem_pos sz i"
  have i: "i < n" using Suc.hyps(2) by simp
  obtain e1 where e1: "tt_size tt \<lparr>clo_offset = ?x, clo_params = [], clo_xlate = Some a\<rparr> e = Some (sz ?x, e1)" "Q e1"
      "fctx_except e1 = fctx_except e"
    using ok Suc.prems unfolding elem_size_ok_def by blast
  have rtm: "rtm_at e1 a = Some rtm" and sz: "0 < sz ?x" "sz ?x < 2 ^ 62" "?t < 2 ^ 62" using ok e1(2) by (auto simp: elem_size_ok_def)
  then have w: "u64 (?x + sz ?x) = elem_pos sz (Suc i)" using Suc.prems(3) by (simp add: u64_id)
  show ?case
  proof (cases "elem_pos sz (Suc i) < ?t")
    case True
    then have "virt_nth_loop a tt i n ?x e = virt_nth_loop a tt (Suc i) n (elem_pos sz (Suc i)) e1"
      using i e1(1) rtm sz w by (subst virt_nth_loop.simps) (simp add: Let_def)
    then show ?thesis using Suc.hyps(1) [of "Suc i" e1] Suc.hyps(2) True e1 i by auto
  next
    case False
    then have "virt_nth_loop a tt i n ?x e = Some (Inl OFFSET_INVALID, e1)"
      using i e1(1) rtm sz w by (subst virt_nth_loop.simps) (simp add: Let_def)
    moreover have "\<not> elem_pos sz n < ?t" using False elem_pos_mono [of "Suc i" n sz] i by linarith
    ultimately show ?thesis using e1 by simp
  qed
qed

text \<open>
  Indexing a virtual type is exact and safe: when the element sizes can be computed inside the
  address space, \<open>fsl_virt_get_nth\<close> returns the start of the element, the sum of the sizes of the
  elements before it, if the element fits into the address space, and a bad offset otherwise. It never
  aborts.
\<close>

theorem virt_get_nth_exact:
  assumes ok: "elem_size_ok a rtm tt sz Q" and Q: "Q e" and ex: "\<not> ex_in_unsafe_op (fctx_except e)"
    and vt: "virt_by_ref T (rtm_virt rtm) = Some vt" "tt_by_num T (vt_type_virttype vt) = Some tt"
    and n: "0 < n" and tot: "0 < fsl_virt_total_bits rtm"
  shows "\<exists>v e'. fsl_virt_get_nth T a n e = Some (v, e') \<and> Q e' \<and>
    (if elem_pos sz n + sz (elem_pos sz n) \<le> fsl_virt_total_bits rtm then v = elem_pos sz n else offset_is_bad v)"
proof -
  let ?t = "fsl_virt_total_bits rtm" and ?x = "elem_pos sz n"
  have rtm: "rtm_at e a = Some rtm" if "Q e" for e using ok that by (simp add: elem_size_ok_def)
  have sz: "0 < sz ?x" "sz ?x < 2 ^ 62" "?t < 2 ^ 62" using ok by (auto simp: elem_size_ok_def)
  obtain e1 where e1: "virt_nth_loop a tt 0 n 0 e = Some (if ?x < ?t then Inr ?x else Inl OFFSET_INVALID, e1)" "Q e1"
      "fctx_except e1 = fctx_except e"
    using virt_nth_loop_spec [OF ok Q, of 0 n] tot by auto
  have call: "fsl_virt_get_nth T a n e = (if ?x < ?t then do {
       (ok, e) \<leftarrow> fsl_virt_nth_verify_bounds a tt ?x e1;
       Some (if ok then ?x else OFFSET_EOF, e) } else Some (OFFSET_INVALID, e1))"
    using rtm [OF Q] n vt e1(1) by (simp add: fsl_virt_get_nth_def)
  show ?thesis
  proof (cases "?x < ?t")
    case False
    then show ?thesis using call e1(2) sz by (simp add: offset_is_bad_def OFFSET_INVALID_def OFFSET_EOF_def)
  next
    case True
    let ?eu = "set_unsafe True (set_unsafe_err 0 e1)"
    have "Q ?eu" using ok e1(2) by (simp add: elem_size_ok_def)
    then obtain e2 where e2: "tt_size tt \<lparr>clo_offset = ?x, clo_params = [], clo_xlate = Some a\<rparr> ?eu = Some (sz ?x, e2)" "Q e2"
        "fctx_except e2 = fctx_except ?eu"
      using ok True unfolding elem_size_ok_def by blast
    have "Q (set_unsafe False e2)" using ok e2(2) by (simp add: elem_size_ok_def)
    moreover from this have "rtm_at (set_unsafe False e2) a = Some rtm" by (rule rtm)
    moreover have "ex_err_unsafe_op (fctx_except (set_unsafe False e2)) = 0"
      using e2(3) by (simp add: set_unsafe_def set_unsafe_err_def)
    moreover have "u64 (sz ?x + ?x) = ?x + sz ?x" using True sz by (simp add: u64_id add.commute)
    ultimately show ?thesis
      using call True ex e1 e2(1) by (auto simp: fsl_virt_nth_verify_bounds_def Let_def offset_is_bad_def)
  qed
qed

section \<open>A concrete address space\<close>

text \<open>Elements 2 to 5 of 512 bits each, element \<open>i\<close> at bit \<open>8000 + 4096 * i\<close>; the virtual type has 64 bits.\<close>

definition demo_vt :: fsl_rtt_virt where
  "demo_vt = \<lparr>vt_type_virttype = 0, vt_iter = \<lparr>it_type_dst = 0,
     it_range = (\<lambda>c i e. Some ((8000 + 4096 * i, [], None), e)), it_min = (\<lambda>c e. Some (2, e)), it_max = (\<lambda>c e. Some (5, e))\<rparr>,
     vt_name = None\<rparr>"

definition demo_tt :: fsl_rtt_type where
  "demo_tt = \<lparr>tt_name = ''demo'', tt_param_c = 0, tt_size = (\<lambda>c e. Some (64, e)), tt_fieldstrong = [],
     tt_fieldall_thunkoff = [], tt_fieldtypes_thunkoff = [], tt_field_table = [], tt_pointsto = [], tt_assert = [],
     tt_virt = [demo_vt], tt_reloc = [], tt_repair = []\<rparr>"

definition demo_T :: fsl_tables where
  "demo_T = \<lparr>fsl_rt_table = [demo_tt], fsl_wpkts = [], fsl_rt_origin_typenum = 0, fsl_memotab_funcs = []\<rparr>"

definition demo_clo :: fsl_rt_closure where
  "demo_clo = \<lparr>clo_offset = 0, clo_params = [], clo_xlate = None\<rparr>"

definition demo_ti :: type_info where
  "demo_ti = \<lparr>ti_td = \<lparr>td_typenum = 0, td_clo = demo_clo\<rparr>, ti_prev = None, ti_ref_c = 1, ti_print_name = None,
     ti_print_idxval = 0, ti_field = None, ti_virt = None, ti_points = None, ti_iter = None, ti_flag = 0, ti_depth = 0\<rparr>"

definition demo_rtm :: fsl_rt_mapping where
  "demo_rtm = fsl_virt_init_cache \<lparr>rtm_clo = 0, rtm_virt = (0, 0), rtm_ref_c = 1, rtm_cached_minidx = 2,
     rtm_cached_maxidx = 5, rtm_cached_srcsz = 512, rtm_cache = (\<lambda>_. zero_virtc_ent)\<rparr>"

definition demo_virt_env :: env where
  "demo_virt_env = put_ti 0 demo_ti (put_rtm 1 demo_rtm (blank_env\<lparr>h_next := 2\<rparr>))"

definition demo_V :: vspace where
  "demo_V = \<lparr>vs_a = 1, vs_p = 0, vs_clo = demo_clo, vs_vt = (0, 0), vs_mn = 2, vs_mx = 5, vs_sz = 512,
     vs_rng = (\<lambda>i. 8000 + 4096 * i)\<rparr>"

lemma demo_V_ok: "vspace_ok demo_V" "vs_iter_ok demo_T demo_V (\<lambda>_. True)" "vs_mapped demo_V demo_virt_env"
    "\<not> ex_in_unsafe_op (fctx_except demo_virt_env)"
proof -
  show "vspace_ok demo_V" by (auto simp: vspace_ok_def demo_V_def)
  show "vs_iter_ok demo_T demo_V (\<lambda>_. True)"
    by (simp add: vs_iter_ok_def demo_T_def demo_V_def tt_by_num_def demo_tt_def demo_vt_def)
  have "Suc i \<noteq> i mod 8" "Suc i mod 8 \<noteq> i" if "i < 8" for i :: nat
    using that by (auto simp: mod_Suc)
  then show "vs_mapped demo_V demo_virt_env"
    by (simp add: vs_mapped_def demo_V_def demo_virt_env_def put_ti_def put_rtm_def ti_at_def rtm_at_def demo_ti_def
        ti_clo_def demo_rtm_def fsl_virt_init_cache_def virtc_ok_def VIRT_CACHE_ENTS_def Let_def)
  show "\<not> ex_in_unsafe_op (fctx_except demo_virt_env)"
    by (simp add: demo_virt_env_def put_ti_def put_rtm_def blank_env_def)
qed

theorem virt_xlate_exact_witness:
  "(\<exists>e'. fsl_virt_xlate demo_T (demo_clo\<lparr>clo_xlate := Some 1\<rparr>) 520 demo_virt_env =
      Some (vs_phys demo_V 520, e') \<and> True \<and> vs_mapped demo_V e') \<and>
   fsl_virt_xlate demo_T (demo_clo\<lparr>clo_xlate := Some 1\<rparr>) 4096 demo_virt_env = None"
proof -
  have t: "520 < vs_total demo_V" "vs_total demo_V \<le> 4096" by (simp_all add: demo_V_def vs_total_def)
  note x = virt_xlate_exact [OF demo_V_ok(1,2) TrueI demo_V_ok(3) _ _ demo_V_ok(4), where clo = "demo_clo\<lparr>clo_xlate := Some 1\<rparr>"]
  show ?thesis
    using x [of 520] x [of 4096] t by (simp add: demo_V_def)
qed

theorem virt_xlate_safe_total_witness:
  "\<exists>e'. fsl_virt_xlate_safe demo_T (demo_clo\<lparr>clo_xlate := Some 1\<rparr>) 4096 demo_virt_env =
      Some (if 4096 < vs_total demo_V then vs_phys demo_V 4096 else OFFSET_INVALID, e') \<and>
    True \<and> vs_mapped demo_V e' \<and> fctx_except e' = \<lparr>ex_in_unsafe_op = False, ex_err_unsafe_op = 0\<rparr>"
  by (rule virt_xlate_safe_total [OF demo_V_ok(1,2) TrueI demo_V_ok(3) _ _ demo_V_ok(4)]) (simp_all add: demo_V_def)

theorem virt_ref_unref_witness:
  "\<exists>e1. fsl_virt_ref (demo_clo\<lparr>clo_xlate := Some 1\<rparr>) demo_virt_env = Some (Some 1, e1) \<and>
     fsl_virt_unref (demo_clo\<lparr>clo_xlate := Some 1\<rparr>) e1 = Some demo_virt_env"
  by (rule virt_ref_unref [where rtm = demo_rtm])
     (simp_all add: demo_virt_env_def put_ti_def put_rtm_def rtm_at_def demo_rtm_def fsl_virt_init_cache_def ones64_def)

lemma demo_elem_size: "elem_size_ok 1 demo_rtm demo_tt (\<lambda>_. 64) (\<lambda>e. rtm_at e 1 = Some demo_rtm)"
  by (simp add: elem_size_ok_def fsl_virt_total_bits_def fsl_virt_src_types_def demo_rtm_def fsl_virt_init_cache_def
      u64_def set_unsafe_def set_unsafe_err_def rtm_at_def demo_tt_def)

theorem virt_get_nth_exact_witness:
  "\<exists>v e'. fsl_virt_get_nth demo_T 1 3 demo_virt_env = Some (v, e') \<and> rtm_at e' 1 = Some demo_rtm \<and>
    (if elem_pos (\<lambda>_. 64) 3 + 64 \<le> fsl_virt_total_bits demo_rtm then v = elem_pos (\<lambda>_. 64) 3 else offset_is_bad v)"
  by (rule virt_get_nth_exact [OF demo_elem_size _ demo_V_ok(4), where vt = demo_vt])
     (simp_all add: demo_virt_env_def put_ti_def put_rtm_def rtm_at_def demo_rtm_def fsl_virt_init_cache_def demo_T_def
       tt_by_num_def demo_tt_def demo_vt_def fsl_virt_total_bits_def fsl_virt_src_types_def u64_def)

end
