(* ===== verification/RtCore.thy ===== *)
theory RtCore
  imports IoPread Virt
begin

text \<open>
  The entry points of the runtime that generated code calls (\<open>runtime.c\<close>, and \<open>__getLocalArray\<close> of
  \<open>io.c\<close>): reading a field through an address space, the size of an array, memoised values.

  \<open>phys\<close> is the \<open>__getLocalPhys\<close> of the back end. The words of a memoised closure are its offset, a
  pointer to the parameters that follow it (here the index they start at), the address space and the
  parameters.
\<close>

section \<open>Reading\<close>

definition getLocal :: "(nat \<Rightarrow> nat \<Rightarrow> 64 word rt) \<Rightarrow> fsl_tables \<Rightarrow> fsl_rt_closure \<Rightarrow> nat \<Rightarrow> nat \<Rightarrow> 64 word rt" where
  "getLocal phys T clo bit_off num_bits e = do {
     assert_c (num_bits \<le> 64);
     assert_c (num_bits > 0);
     let e = stats_inc FSL_STAT_ACCESS e;
     let e = stats_add FSL_STAT_BITS_READ num_bits e;
     (bit_off, e) \<leftarrow> (if clo_xlate clo \<noteq> None then do {
         let bit_off_old = bit_off;
         (bit_off, e) \<leftarrow> fsl_virt_xlate T clo bit_off_old e;
         let bit_off_next = u64 (bit_off_old + 8 * ((num_bits - 1) div 8));
         (bit_off_last, e) \<leftarrow> fsl_virt_xlate T clo bit_off_next e;
         assert_c (u64 (bit_off + 8 * ((num_bits - 1) div 8)) = bit_off_last);
         Some (bit_off, e)
       } else Some (bit_off, e));
     (ret, e) \<leftarrow> phys bit_off num_bits e;
     assert_c (num_bits = 1 \<longrightarrow> ret < 2);
     Some (ret, e)
   }"

definition getLocalArray ::
  "(nat \<Rightarrow> nat \<Rightarrow> 64 word rt) \<Rightarrow> fsl_tables \<Rightarrow> fsl_rt_closure \<Rightarrow> nat \<Rightarrow> nat \<Rightarrow> nat \<Rightarrow> nat \<Rightarrow> 64 word rt" where
  "getLocalArray phys T clo idx bits_in_type base_offset bits_in_array e = do {
     assert_c (bits_in_type \<le> 64);
     let array_off = u64 (bits_in_type * idx);
     assert_c (\<not> array_off > bits_in_array);
     let real_off = u64 (base_offset + u64 (bits_in_type * idx));
     getLocal phys T clo real_off bits_in_type e
   }"

section \<open>Array sizes\<close>

text \<open>The loop of \<open>__computeArrayBits\<close>; \<open>i\<close> is an \<open>unsigned int\<close>, so more than \<open>2 ^ 32\<close> elements never end.\<close>

partial_function (option) array_bits_loop ::
  "fsl_rtt_field \<Rightarrow> fsl_rtt_type \<Rightarrow> fsl_rt_closure \<Rightarrow> nat \<Rightarrow> nat \<Rightarrow> fsl_rt_closure \<Rightarrow> nat \<Rightarrow> nat rt" where
  "array_bits_loop tf elem_tt clo_parent i num_elems cur_clo total_bits e =
     (if i < num_elems then do {
        (cur_size, e) \<leftarrow> tt_size elem_tt cur_clo e;
        let total_bits = u64 (total_bits + cur_size);
        let cur_clo = cur_clo\<lparr>clo_offset := u64 (clo_offset cur_clo + cur_size)\<rparr>;
        (cur_clo, e) \<leftarrow> (if i \<noteq> num_elems - 1 then do {
            (params, e) \<leftarrow> tf_params tf clo_parent (u32 (i + 1)) e;
            Some (cur_clo\<lparr>clo_params := params\<rparr>, e)
          } else Some (cur_clo, e));
        array_bits_loop tf elem_tt clo_parent (u32 (i + 1)) num_elems cur_clo total_bits e
      } else Some (total_bits, e))"

definition computeArrayBits :: "fsl_tables \<Rightarrow> nat \<Rightarrow> fsl_rt_closure \<Rightarrow> nat \<Rightarrow> nat \<Rightarrow> nat rt" where
  "computeArrayBits T typenum_parent clo_parent field_idx num_elems e = do {
     assert_c (typenum_parent < length (fsl_rt_table T));
     parent_tt \<leftarrow> tt_by_num T typenum_parent;
     assert_c (field_idx < length (tt_field_table parent_tt));
     tf \<leftarrow> get_at (tt_field_table parent_tt) field_idx;
     assert_c (field_idx = tf_fieldnum tf);
     assert_c (tf_typenum tf < length (fsl_rt_table T));
     elem_tt \<leftarrow> tt_by_num T (tf_typenum tf);
     (off, e) \<leftarrow> tf_fieldbitoff tf clo_parent e;
     (params, e) \<leftarrow> tf_params tf clo_parent 0 e;
     let cur_clo = \<lparr>clo_offset = off, clo_params = params, clo_xlate = clo_xlate clo_parent\<rparr>;
     (total_bits, e) \<leftarrow> array_bits_loop tf elem_tt clo_parent 0 num_elems cur_clo 0 e;
     let e = stats_inc FSL_STAT_COMPUTEARRAYBITS e;
     let e = stats_add FSL_STAT_COMPUTEARRAYBITS_LOOPS num_elems e;
     Some (total_bits, e)
   }"

section \<open>Environment, memo table, numbers\<close>

definition fsl_vars_from_env :: "env \<Rightarrow> env" where
  "fsl_vars_from_env e = e\<lparr>bdev_bytes := fsl_io_size e\<rparr>"

fun store_words :: "nat list \<Rightarrow> nat \<Rightarrow> nat list \<Rightarrow> nat list option" where
  "store_words tab i [] = Some tab"
| "store_words tab i (w # ws) = do { tab \<leftarrow> upd_at tab i w; store_words tab (i + 1) ws }"

definition fsl_do_memo :: "fsl_memo \<Rightarrow> env \<Rightarrow> env option" where
  "fsl_do_memo m e = (if m_typenum m = TYPENUM_INVALID then do {
       (v, e) \<leftarrow> m_fprim m e;
       tab \<leftarrow> upd_at (memotab e) (m_tabidx m) v;
       Some (e\<lparr>memotab := tab\<rparr>)
     } else do {
       tab \<leftarrow> upd_at (memotab e) (m_tabidx m + 1) (m_tabidx m + 3);
       let e = e\<lparr>memotab := tab\<rparr>;
       (ws, e) \<leftarrow> m_ftype m e;
       case ws of
         off # xlate # params \<Rightarrow> do {
           tab \<leftarrow> upd_at (memotab e) (m_tabidx m) off;
           tab \<leftarrow> upd_at tab (m_tabidx m + 2) xlate;
           tab \<leftarrow> store_words tab (m_tabidx m + 3) params;
           Some (e\<lparr>memotab := tab\<rparr>)
         }
       | _ \<Rightarrow> None
     })"

fun load_memo_loop :: "fsl_memo list \<Rightarrow> env \<Rightarrow> env option" where
  "load_memo_loop [] e = Some e"
| "load_memo_loop (m # ms) e = do { e \<leftarrow> fsl_do_memo m e; load_memo_loop ms e }"

definition fsl_load_memo :: "fsl_tables \<Rightarrow> env \<Rightarrow> env option" where
  "fsl_load_memo T e = load_memo_loop (fsl_memotab_funcs T) e"

fun fsl_is_int :: "string \<Rightarrow> bool" where
  "fsl_is_int [] = True"
| "fsl_is_int (c # s) = (if of_char c < (48 :: nat) \<or> of_char c > (57 :: nat) then False else fsl_is_int s)"

definition fsl_rt_uninit :: "(env \<Rightarrow> (int \<times> env) option) option \<Rightarrow> int rt" where
  "fsl_rt_uninit exit_f e = (case exit_f of
     None \<Rightarrow> Some (0, e)
   | Some f \<Rightarrow> do {
       (ret, e) \<leftarrow> f e;
       if ret \<noteq> 0 then Some (ret, e) else Some (0, e)
     })"

section \<open>Array sizes are sums\<close>

lemma array_bits_loop_spec:
  assumes size: "\<And>i e. P e \<Longrightarrow> i < n \<Longrightarrow> \<exists>e'. tt_size elem_tt
        \<lparr>clo_offset = base + sum_list (map sz [0..<i]), clo_params = par i, clo_xlate = clo_xlate clo\<rparr> e = Some (sz i, e') \<and> P e'"
    and params: "\<And>i e. P e \<Longrightarrow> i < n \<Longrightarrow> \<exists>e'. tf_params tf clo i e = Some (par i, e') \<and> P e'"
    and n: "n < 2 ^ 32" and fits: "base + sum_list (map sz [0..<n]) < 2 ^ 64"
    and e: "P e" and i: "i \<le> n"
    and cur: "i < n \<Longrightarrow> cur = \<lparr>clo_offset = base + sum_list (map sz [0..<i]), clo_params = par i, clo_xlate = clo_xlate clo\<rparr>"
  shows "\<exists>e'. array_bits_loop tf elem_tt clo i n cur (sum_list (map sz [0..<i])) e = Some (sum_list (map sz [0..<n]), e') \<and> P e'"
  using e i cur
proof (induction "n - i" arbitrary: i e cur)
  case 0
  then have "i = n" by simp
  with 0 show ?case by (subst array_bits_loop.simps) simp
next
  case (Suc d)
  let ?s = "\<lambda>k. sum_list (map sz [0..<k])"
  have i: "i < n" using Suc.hyps(2) by simp
  obtain e1 where e1: "tt_size elem_tt cur e = Some (sz i, e1)" "P e1" using size [OF Suc.prems(1) i] Suc.prems(3) i by auto
  have s: "?s (Suc i) = ?s i + sz i" by simp
  have "[0..<n] = [0..<Suc i] @ [Suc i..<n]" using i upt_add_eq_append [of 0 "Suc i" "n - Suc i"] by simp
  then have "?s (Suc i) \<le> ?s n" by (metis map_append sum_list_append le_add1)
  then have w: "u64 (?s i + sz i) = ?s (Suc i)" "u64 (base + ?s i + sz i) = base + ?s (Suc i)"
    using fits s by (simp_all add: u64_id)
  have wi: "u32 (i + 1) = Suc i" using i n by (simp add: u32_id)
  let ?cur = "cur\<lparr>clo_offset := base + ?s (Suc i)\<rparr>"
  have c: "clo_offset cur = base + ?s i" "clo_xlate cur = clo_xlate clo" using Suc.prems(3) i by simp_all
  obtain cur' e2 where e2: "(if i \<noteq> n - 1 then do {
            (params, e) \<leftarrow> tf_params tf clo (u32 (i + 1)) e1;
            Some (?cur\<lparr>clo_params := params\<rparr>, e)
          } else Some (?cur, e1)) = Some (cur', e2)" "P e2"
      "Suc i < n \<Longrightarrow> cur' = \<lparr>clo_offset = base + ?s (Suc i), clo_params = par (Suc i), clo_xlate = clo_xlate clo\<rparr>"
  proof (cases "Suc i < n")
    case True
    obtain e2 where e2: "tf_params tf clo (Suc i) e1 = Some (par (Suc i), e2)" "P e2" using params [OF e1(2) True] by blast
    have "?cur\<lparr>clo_params := par (Suc i)\<rparr> = \<lparr>clo_offset = base + ?s (Suc i), clo_params = par (Suc i), clo_xlate = clo_xlate clo\<rparr>"
      using c(2) by (cases cur) simp
    moreover have "i \<noteq> n - 1" using True by simp
    ultimately show thesis
      using that [of "?cur\<lparr>clo_params := par (Suc i)\<rparr>" e2] e2 unfolding wi by simp
  next
    case False
    then have "i = n - 1" using i by simp
    then show thesis using that e1(2) False by simp
  qed
  have "array_bits_loop tf elem_tt clo i n cur (?s i) e = array_bits_loop tf elem_tt clo (Suc i) n cur' (?s (Suc i)) e2"
    by (subst array_bits_loop.simps)
       (simp only: i if_True e1(1) bind.bind_lunit prod.case Let_def w c e2(1) [unfolded wi] wi)
  then show ?case using Suc.hyps(1) [of "Suc i" e2 cur'] Suc.hyps(2) e2 i by simp
qed

text \<open>
  C38: \<open>__computeArrayBits\<close> adds up the sizes of the elements: when the size of element \<open>i\<close> at its place
  (the start of the field plus the sizes of the elements before it, with the parameters for \<open>i\<close>) is
  \<open>sz i\<close>, the result is the sum of all \<open>sz i\<close>, provided the array ends below \<open>2 ^ 64\<close>.
\<close>

theorem computeArrayBits_sum:
  assumes tab: "tt_by_num T tn = Some ptt" "fi < length (tt_field_table ptt)" "tf = tt_field_table ptt ! fi" "tf_fieldnum tf = fi"
      "tt_by_num T (tf_typenum tf) = Some elem_tt"
    and off: "\<And>e. P e \<Longrightarrow> \<exists>e'. tf_fieldbitoff tf clo e = Some (base, e') \<and> P e'"
    and params: "\<And>i e. P e \<Longrightarrow> i \<le> n \<Longrightarrow> \<exists>e'. tf_params tf clo i e = Some (par i, e') \<and> P e'"
    and size: "\<And>i e. P e \<Longrightarrow> i < n \<Longrightarrow> \<exists>e'. tt_size elem_tt
        \<lparr>clo_offset = base + sum_list (map sz [0..<i]), clo_params = par i, clo_xlate = clo_xlate clo\<rparr> e = Some (sz i, e') \<and> P e'"
    and n: "n < 2 ^ 32" and fits: "base + sum_list (map sz [0..<n]) < 2 ^ 64"
    and e: "P e" and stable: "\<And>s k e. P e \<Longrightarrow> P (stats_add s k e)"
  shows "\<exists>e'. computeArrayBits T tn clo fi n e = Some (sum_list (map sz [0..<n]), e') \<and> P e'"
proof -
  have len: "tn < length (fsl_rt_table T)" "tf_typenum tf < length (fsl_rt_table T)"
    using tab(1,5) by (simp_all add: tt_by_num_def get_at_eq_Some)
  obtain e1 where e1: "tf_fieldbitoff tf clo e = Some (base, e1)" "P e1" using off [OF e] by blast
  obtain e2 where e2: "tf_params tf clo 0 e1 = Some (par 0, e2)" "P e2" using params [OF e1(2)] by blast
  let ?c = "\<lparr>clo_offset = base, clo_params = par 0, clo_xlate = clo_xlate clo\<rparr>"
  have params': "\<And>i e. P e \<Longrightarrow> i < n \<Longrightarrow> \<exists>e'. tf_params tf clo i e = Some (par i, e') \<and> P e'"
    using params by simp
  obtain e3 where e3: "array_bits_loop tf elem_tt clo 0 n ?c 0 e2 = Some (sum_list (map sz [0..<n]), e3)" "P e3"
    using array_bits_loop_spec [where P = P and i = 0 and cur = ?c and e = e2 and par = par and base = base and sz = sz,
        OF size params' n fits e2(2)] by auto
  show ?thesis
    using len tab e1(1) e2(1) e3 stable by (auto simp: computeArrayBits_def Let_def stats_inc_def)
qed

definition demo_array_tf :: fsl_rtt_field where
  "demo_array_tf = \<lparr>tf_fieldname = ''xs'', tf_typenum = 0, tf_flags = 0, tf_fieldbitoff = (\<lambda>c e. Some (100, e)),
     tf_elemcount = (\<lambda>c e. Some (3, e)), tf_typesize = (\<lambda>c e. None), tf_cond = None,
     tf_params = (\<lambda>c i e. Some ([i], e)), tf_fieldnum = 0\<rparr>"

text \<open>An element with parameter \<open>i\<close> has \<open>i + 8\<close> bits.\<close>

definition demo_array_tt :: fsl_rtt_type where
  "demo_array_tt = demo_tt\<lparr>tt_size := (\<lambda>c e. Some (hd (clo_params c) + 8, e)), tt_field_table := [demo_array_tf]\<rparr>"

definition demo_array_T :: fsl_tables where
  "demo_array_T = demo_T\<lparr>fsl_rt_table := [demo_array_tt]\<rparr>"

theorem computeArrayBits_sum_witness:
  "\<exists>e'. computeArrayBits demo_array_T 0 demo_clo 0 3 blank_env = Some (sum_list (map (\<lambda>i. i + 8) [0..<3]), e') \<and> True"
  by (rule computeArrayBits_sum [where ptt = demo_array_tt and tf = demo_array_tf and elem_tt = demo_array_tt
        and base = 100 and par = "\<lambda>i. [i]" and P = "\<lambda>_. True"])
     (simp_all add: demo_array_T_def demo_T_def tt_by_num_def demo_array_tt_def demo_array_tf_def upt_rec)

section \<open>Reads through an address space\<close>

lemma disk_bits_1: "disk_bits d off 1 < 2"
  by (simp add: disk_bits_def)


text \<open>The address space of the virtual type theory on a disk that covers it.\<close>

definition demo_read_env :: env where
  "demo_read_env = demo_virt_env\<lparr>disk := replicate 4096 7\<rparr>"

definition demo_read_inv :: "env \<Rightarrow> bool" where
  "demo_read_inv e \<longleftrightarrow> io_ok e \<and> disk e = replicate 4096 7 \<and> fsl_mode e \<noteq> FSL_MODE_BIGENDIAN"

lemma demo_read_iter: "vs_iter_ok demo_T demo_V demo_read_inv"
proof -
  have "demo_read_inv (put_rtm a r e) = demo_read_inv e" "demo_read_inv (e\<lparr>fctx_except := x\<rparr>) = demo_read_inv e"
    "demo_read_inv (stats_inc s e) = demo_read_inv e" for a r e x s
    by (simp_all add: demo_read_inv_def put_rtm_def io_ok_def cache_ok_def no_hooks_def)
  then show ?thesis
    by (simp add: vs_iter_ok_def demo_T_def demo_V_def tt_by_num_def demo_tt_def demo_vt_def)
qed


text \<open>
  An array element outside an address space is read at base plus index times width, and an index
  whose start lies beyond the array aborts.
\<close>

theorem getLocalArray_indexes:
  assumes ok: "io_ok e" and mode: "fsl_mode e \<noteq> FSL_MODE_BIGENDIAN" and clo: "clo_xlate clo = None"
    and w: "w \<in> {8, 16, 24, 32, 40, 48, 56, 64}" and bound: "w * idx < 2 ^ 64" "base + w * idx < 2 ^ 64" and al: "base mod 8 = 0"
    and inside: "(base + w * idx + w + 7) div 8 \<le> line_bytes (length (disk e))"
  shows "(w * idx \<le> bits \<longrightarrow> (\<exists>e'. getLocalArray getLocalPhys T clo idx w base bits e = Some (disk_bits (disk e) (base + w * idx) w, e'))) \<and>
    (bits < w * idx \<longrightarrow> getLocalArray getLocalPhys T clo idx w base bits e = None)"
proof (intro conjI impI)
  have w8: "0 < w" "w \<le> 64" "w mod 8 = 0" "w \<noteq> 1" using w by auto
  have wr: "u64 (w * idx) = w * idx" "u64 (base + w * idx) = base + w * idx" using bound by (simp_all add: u64_id)
  let ?es = "stats_add FSL_STAT_BITS_READ w (stats_inc FSL_STAT_ACCESS e)"
  have "(base + w * idx) mod 8 = 0" using al w8(3) by (metis add_0 mod_add_eq mod_mult_eq mult_0 mod_0)
  then obtain e' where e': "getLocalPhys (base + w * idx) w ?es = Some (disk_bits (disk e) (base + w * idx) w, e')"
    using getLocalPhys_le [of ?es w "base + w * idx"] ok mode w8 inside by auto
  show "\<exists>e'. getLocalArray getLocalPhys T clo idx w base bits e = Some (disk_bits (disk e) (base + w * idx) w, e')" if "w * idx \<le> bits"
    using that w8 clo e' by (simp add: getLocalArray_def getLocal_def Let_def wr)
  show "getLocalArray getLocalPhys T clo idx w base bits e = None" if "bits < w * idx"
    using that w8 by (simp add: getLocalArray_def Let_def wr)
qed

theorem getLocalArray_indexes_witness:
  "(\<exists>e'. getLocalArray getLocalPhys demo_T demo_clo 3 16 80 160 demo_env = Some (disk_bits (disk demo_env) (80 + 16 * 3) 16, e')) \<and>
    getLocalArray getLocalPhys demo_T demo_clo 3 16 80 32 demo_env = None"
  using getLocalArray_indexes [of demo_env demo_clo 16 3 80 160 demo_T] getLocalArray_indexes [of demo_env demo_clo 16 3 80 32 demo_T]
  by (simp add: demo_env_ok demo_clo_def line_bytes_def)

end
