(* ===== verification/TypeInfo.thy ===== *)
theory TypeInfo
  imports RtCore
begin

text \<open>
  Type instances (\<open>type_info.c\<close>): reference counted objects that say which type lies where, chained to
  the instance they were reached from; creating one follows a field, a pointer, an iterator or a
  virtual type and checks for loops and for the assertions of the type.

  \<^item> A \<open>struct type_info *\<close> is an address in \<open>h_ti\<close>; \<open>NULL\<close> results are \<open>None\<close> inside an \<open>option\<close>. A
    \<open>struct type_desc\<close> on the stack is a value.
  \<^item> The \<open>NULL\<close> parameter buffer of a type without parameters is the empty list.
  \<^item> The parameters that \<open>it_range\<close> computes are written to an array on the stack that has as many
    entries as the type of the parent has parameters; writing more is a run without a result.
  \<^item> An error code that is written through a pointer is returned next to the result.
  \<^item> \<open>typeinfo_lookup_follow_idx_all\<close> and the functions that search by name call each other, but a name is
    always looked up with \<open>accept_names = false\<close>; \<open>lookup_follow_gen\<close> has the search as an argument.
\<close>

section \<open>Error codes and flags\<close>

definition TI_INVALID_IDXVAL :: nat where
  "TI_INVALID_IDXVAL = ones64"

definition TI_FL_FROMNAME :: nat where
  "TI_FL_FROMNAME = 1"

definition TI_ERR_OK :: int where "TI_ERR_OK = 0"
definition TI_ERR_BADVIRT :: int where "TI_ERR_BADVIRT = - 1"
definition TI_ERR_BADIDX :: int where "TI_ERR_BADIDX = - 2"
definition TI_ERR_BADALLOC :: int where "TI_ERR_BADALLOC = - 3"
definition TI_ERR_BADVERIFY :: int where "TI_ERR_BADVERIFY = - 4"
definition TI_ERR_EOF :: int where "TI_ERR_EOF = - 5"

definition upd_ti :: "addr \<Rightarrow> (type_info \<Rightarrow> type_info) \<Rightarrow> env \<Rightarrow> env option" where
  "upd_ti a f e = do { ti \<leftarrow> ti_at e a; Some (put_ti a (f ti) e) }"

section \<open>Reference counts\<close>

definition typeinfo_ref :: "addr \<Rightarrow> env \<Rightarrow> env option" where
  "typeinfo_ref a e = upd_ti a (\<lambda>ti. ti\<lparr>ti_ref_c := u32 (ti_ref_c ti + 1)\<rparr>) e"

definition typeinfo_unref :: "addr \<Rightarrow> nat rt" where
  "typeinfo_unref a e = do {
     ti \<leftarrow> ti_at e a;
     assert_c (ti_ref_c ti > 0);
     let ti = ti\<lparr>ti_ref_c := ti_ref_c ti - 1\<rparr>;
     Some (ti_ref_c ti, put_ti a ti e)
   }"

partial_function (option) typeinfo_free :: "addr \<Rightarrow> env \<Rightarrow> env option" where
  "typeinfo_free a e = do {
     (refs, e) \<leftarrow> typeinfo_unref a e;
     if refs \<noteq> 0 then Some e
     else do {
       ti \<leftarrow> ti_at e a;
       e \<leftarrow> (if ti_xlate ti \<noteq> None then do {
           e \<leftarrow> fsl_virt_unref (ti_clo ti) e;
           upd_ti a (set_ti_xlate None) e
         } else Some e);
       ti \<leftarrow> ti_at e a;
       e \<leftarrow> (case ti_prev ti of None \<Rightarrow> Some e | Some p \<Rightarrow> typeinfo_free p e);
       Some (free_ti a e)
     }
   }"

section \<open>Offsets and sizes\<close>

definition ti_phys_offset :: "fsl_tables \<Rightarrow> type_info \<Rightarrow> nat rt" where
  "ti_phys_offset T ti e = (let voff = ti_offset ti in
     if ti_xlate ti = None then Some (voff, e) else fsl_virt_xlate T (ti_clo ti) voff e)"

definition ti_size :: "fsl_tables \<Rightarrow> type_info \<Rightarrow> nat rt" where
  "ti_size T ti e = (if ti_typenum ti = TYPENUM_INVALID then do {
       f \<leftarrow> ti_field ti;
       assert_c (ti_prev ti \<noteq> None);
       tf \<leftarrow> field_by_ref T f;
       tf_typesize tf None e
     } else do {
       tt \<leftarrow> tt_by_num T (ti_typenum ti);
       tt_size tt (ti_clo ti) e
     })"

text \<open>Neither \<open>FIELD_FL_CONSTSIZE\<close> nor \<open>FIELD_FL_FIXED\<close>, and a user type.\<close>

definition tf_variable :: "fsl_rtt_field \<Rightarrow> bool" where
  "tf_variable tf \<longleftrightarrow> tf_typenum tf \<noteq> TYPENUM_INVALID \<and>
     and (tf_flags tf) FIELD_FL_CONSTSIZE = 0 \<and> and (tf_flags tf) FIELD_FL_FIXED = 0"

definition ti_field_size :: "fsl_tables \<Rightarrow> type_info \<Rightarrow> fsl_rtt_field \<Rightarrow> (nat \<times> nat) rt" where
  "ti_field_size T ti tf e = do {
     (num_elems, e) \<leftarrow> tf_elemcount tf (ti_clo ti) e;
     if num_elems > 1 \<and> tf_variable tf then do {
       (field_sz, e) \<leftarrow> computeArrayBits T (ti_typenum ti) (ti_clo ti) (tf_fieldnum tf) num_elems e;
       Some ((field_sz, num_elems), e)
     } else do {
       (field_sz, e) \<leftarrow> tf_typesize tf (Some (ti_clo ti)) e;
       Some ((u64 (field_sz * num_elems), num_elems), e)
     }
   }"

definition ti_field_off :: "fsl_tables \<Rightarrow> type_info \<Rightarrow> fsl_rtt_field \<Rightarrow> nat \<Rightarrow> nat rt" where
  "ti_field_off T ti tf idx e = do {
     let idx = u32 idx;
     (field_sz, e) \<leftarrow> (if idx > 0 \<and> tf_variable tf then
         computeArrayBits T (ti_typenum ti) (ti_clo ti) (tf_fieldnum tf) idx e
       else if idx > 0 then do {
         (sz, e) \<leftarrow> tf_typesize tf (Some (ti_clo ti)) e;
         Some (u64 (sz * idx), e)
       } else Some (0, e));
     (off, e) \<leftarrow> tf_fieldbitoff tf (ti_clo ti) e;
     Some (u64 (field_sz + off), e)
   }"

section \<open>Verification\<close>

partial_function (option) ti_has_loop_from :: "fsl_tables \<Rightarrow> nat \<Rightarrow> nat \<Rightarrow> addr option \<Rightarrow> bool rt" where
  "ti_has_loop_from T top_poff top_typenum cur e = (case cur of
     None \<Rightarrow> Some (False, e)
   | Some a \<Rightarrow> do {
       ti \<leftarrow> ti_at e a;
       (poff, e) \<leftarrow> ti_phys_offset T ti e;
       if poff = top_poff \<and> ti_typenum ti = top_typenum then Some (True, e)
       else ti_has_loop_from T top_poff top_typenum (ti_prev ti) e
     })"

definition ti_has_loop :: "fsl_tables \<Rightarrow> addr \<Rightarrow> bool rt" where
  "ti_has_loop T chain e = do {
     ti \<leftarrow> ti_at e chain;
     if ti_prev ti = None then Some (False, e)
     else do {
       (top_poff, e) \<leftarrow> ti_phys_offset T ti e;
       ti_has_loop_from T top_poff (ti_typenum ti) (ti_prev ti) e
     }
   }"

fun verify_asserts_loop :: "fsl_rt_closure \<Rightarrow> fsl_rtt_assert list \<Rightarrow> bool rt" where
  "verify_asserts_loop clo [] e = Some (True, e)"
| "verify_asserts_loop clo (as # rest) e = do {
     (ok, e) \<leftarrow> as_assertf as clo e;
     if \<not> ok then Some (False, e\<lparr>fctx_failed_assert := as_name as\<rparr>)
     else verify_asserts_loop clo rest e
   }"

definition typeinfo_verify_asserts :: "fsl_tables \<Rightarrow> addr \<Rightarrow> bool rt" where
  "typeinfo_verify_asserts T a e = do {
     ti \<leftarrow> ti_at e a;
     if ti_typenum ti = TYPENUM_INVALID then Some (True, e)
     else do {
       tt \<leftarrow> tt_by_num T (ti_typenum ti);
       verify_asserts_loop (ti_clo ti) (tt_assert tt) e
     }
   }"

definition typeinfo_verify :: "fsl_tables \<Rightarrow> addr \<Rightarrow> bool rt" where
  "typeinfo_verify T a e = do {
     (loop, e) \<leftarrow> ti_has_loop T a e;
     if loop then Some (False, e)
     else do {
       (ok, e) \<leftarrow> typeinfo_verify_asserts T a e;
       Some (ok, e)
     }
   }"

section \<open>Allocation\<close>

definition typeinfo_alloc_generic :: "fsl_tables \<Rightarrow> type_desc \<Rightarrow> addr option \<Rightarrow> addr option rt" where
  "typeinfo_alloc_generic T td prev e = do {
     let e = stats_inc FSL_STAT_TYPEINFO_ALLOC e;
     let off = clo_offset (td_clo td);
     if \<not> offset_in_range e off then Some (None, e)
     else do {
       let a = h_next e;
       params \<leftarrow> (if td_typenum td = TYPENUM_INVALID then Some []
         else do {
           tt \<leftarrow> tt_by_num T (td_typenum td);
           if tt_param_c tt = 0 then Some []
           else do {
             assert_c (tt_param_c tt \<le> length (clo_params (td_clo td)));
             Some (take (tt_param_c tt) (clo_params (td_clo td)))
           }
         });
       depth \<leftarrow> (case prev of None \<Rightarrow> Some 0 | Some p \<Rightarrow> do { tip \<leftarrow> ti_at e p; Some (u32 (ti_depth tip + 1)) });
       (xlate, e) \<leftarrow> fsl_virt_ref (td_clo td) e;
       let ti = \<lparr>ti_td = \<lparr>td_typenum = td_typenum td, td_clo = \<lparr>clo_offset = off, clo_params = params, clo_xlate = xlate\<rparr>\<rparr>,
                 ti_prev = prev, ti_ref_c = 0, ti_print_name = None, ti_print_idxval = 0, ti_field = None, ti_virt = None,
                 ti_points = None, ti_iter = None, ti_flag = 0, ti_depth = depth\<rparr>;
       let e = put_ti a ti (e\<lparr>h_next := a + 1\<rparr>);
       e \<leftarrow> typeinfo_ref a e;
       e \<leftarrow> (case prev of None \<Rightarrow> Some e | Some p \<Rightarrow> typeinfo_ref p e);
       Some (Some a, e)
     }
   }"

text \<open>The common end of the allocating functions: verify, and free what does not verify.\<close>

definition verify_or_free :: "fsl_tables \<Rightarrow> addr \<Rightarrow> addr option rt" where
  "verify_or_free T a e = do {
     (ok, e) \<leftarrow> typeinfo_verify T a e;
     if \<not> ok then do {
       e \<leftarrow> typeinfo_free a e;
       Some (None, e)
     } else Some (Some a, e)
   }"

definition typeinfo_alloc_pointsto :: "fsl_tables \<Rightarrow> type_desc \<Rightarrow> nat \<times> nat \<Rightarrow> nat \<Rightarrow> addr \<Rightarrow> addr option rt" where
  "typeinfo_alloc_pointsto T td ptr elem prev e = do {
     (ret, e) \<leftarrow> typeinfo_alloc_generic T td (Some prev) e;
     case ret of
       None \<Rightarrow> Some (None, e)
     | Some a \<Rightarrow> do {
         pt \<leftarrow> points_by_ref T ptr;
         let name = (case pt_name pt of None \<Rightarrow> ''points-to'' | Some n \<Rightarrow> n);
         e \<leftarrow> upd_ti a (\<lambda>ti. ti\<lparr>ti_points := Some ptr, ti_print_name := Some name, ti_print_idxval := u32 elem,
                              ti_iter := Some (IterPointsto (fst ptr) (snd ptr))\<rparr>) e;
         verify_or_free T a e
       }
   }"

definition typeinfo_alloc_iter :: "fsl_tables \<Rightarrow> type_desc \<Rightarrow> iter_ref \<Rightarrow> nat \<Rightarrow> addr \<Rightarrow> addr option rt" where
  "typeinfo_alloc_iter T td itr elem prev e = do {
     (ret, e) \<leftarrow> typeinfo_alloc_generic T td (Some prev) e;
     case ret of
       None \<Rightarrow> Some (None, e)
     | Some a \<Rightarrow> do {
         e \<leftarrow> upd_ti a (\<lambda>ti. ti\<lparr>ti_print_name := Some ''iter'', ti_print_idxval := u32 elem, ti_iter := Some itr\<rparr>) e;
         verify_or_free T a e
       }
   }"

definition typeinfo_alloc_by_field :: "fsl_tables \<Rightarrow> type_desc \<Rightarrow> field_ref option \<Rightarrow> addr option \<Rightarrow> addr option rt" where
  "typeinfo_alloc_by_field T td fref prev e = do {
     (ret, e) \<leftarrow> typeinfo_alloc_generic T td prev e;
     case ret of
       None \<Rightarrow> Some (None, e)
     | Some a \<Rightarrow> do {
         name \<leftarrow> (case fref of None \<Rightarrow> Some ''disk'' | Some f \<Rightarrow> map_option tf_fieldname (field_by_ref T f));
         e \<leftarrow> upd_ti a (\<lambda>ti. ti\<lparr>ti_field := fref, ti_print_name := Some name, ti_print_idxval := TI_INVALID_IDXVAL\<rparr>) e;
         e \<leftarrow> (case prev of
             None \<Rightarrow> Some e
           | Some p \<Rightarrow> do {
               tip \<leftarrow> ti_at e p;
               if ti_xlate tip \<noteq> None then do {
                 (x, e) \<leftarrow> fsl_virt_ref (ti_clo tip) e;
                 upd_ti a (set_ti_xlate x) e
               } else Some e
             });
         verify_or_free T a e
       }
   }"

definition typeinfo_alloc_origin :: "fsl_tables \<Rightarrow> addr option rt" where
  "typeinfo_alloc_origin T e = typeinfo_alloc_by_field T
     \<lparr>td_typenum = fsl_rt_origin_typenum T, td_clo = \<lparr>clo_offset = 0, clo_params = [], clo_xlate = None\<rparr>\<rparr> None None e"

section \<open>Virtual types\<close>

text \<open>The part of \<open>typeinfo_alloc_virt_idx\<close> after the place of the instance is known.\<close>

definition alloc_virt_finish :: "fsl_tables \<Rightarrow> nat \<times> nat \<Rightarrow> addr \<Rightarrow> nat \<Rightarrow> addr \<Rightarrow> addr \<Rightarrow> (addr option \<times> int) rt" where
  "alloc_virt_finish T vtr prev idx rtm a e = do {
     vt \<leftarrow> virt_by_ref T vtr;
     ti \<leftarrow> ti_at e a;
     e \<leftarrow> fsl_virt_unref (ti_clo ti) e;
     assert_c (ti_xlate ti \<noteq> None);
     let name = (case vt_name vt of None \<Rightarrow> ''virt'' | Some n \<Rightarrow> n);
     e \<leftarrow> upd_ti a (\<lambda>ti. ti\<lparr>ti_virt := Some vtr, ti_print_name := Some name, ti_print_idxval := idx,
                          ti_iter := Some (IterVirt (fst vtr) (snd vtr))\<rparr>) e;
     (ok, e) \<leftarrow> typeinfo_verify T a e;
     if \<not> ok then do {
       e \<leftarrow> typeinfo_free a e;
       Some ((None, TI_ERR_BADVERIFY), e)
     } else do {
       ti \<leftarrow> ti_at e a;
       (poff, e) \<leftarrow> ti_phys_offset T ti e;
       assert_c (offset_in_range e poff);
       Some ((Some a, TI_ERR_OK), e)
     }
   }"

definition typeinfo_alloc_virt_idx :: "fsl_tables \<Rightarrow> nat \<times> nat \<Rightarrow> addr \<Rightarrow> nat \<Rightarrow> (addr option \<times> int) rt" where
  "typeinfo_alloc_virt_idx T vtr prev idx e = do {
     let idx = u32 idx;
     vt \<leftarrow> virt_by_ref T vtr;
     vtt \<leftarrow> tt_by_num T (vt_type_virttype vt);
     assert_c (tt_param_c vtt = 0);
     (rtmp, e) \<leftarrow> fsl_virt_alloc T prev vtr e;
     case rtmp of
       None \<Rightarrow> Some ((None, TI_ERR_BADVIRT), e)
     | Some rtm \<Rightarrow> do {
         let clo = \<lparr>clo_offset = 0, clo_params = [], clo_xlate = Some rtm\<rparr>;
         (off, e) \<leftarrow> (if idx \<noteq> 0 then fsl_virt_get_nth T rtm idx e else Some (0, e));
         assert_c (idx \<noteq> 0 \<longrightarrow> off \<noteq> 0);
         if idx \<noteq> 0 \<and> offset_is_bad off then do {
           e \<leftarrow> fsl_virt_free rtm e;
           Some ((None, TI_ERR_BADIDX), e)
         } else do {
           let clo = clo\<lparr>clo_offset := off\<rparr>;
           (poff, e) \<leftarrow> fsl_virt_xlate_safe T clo off e;
           if \<not> offset_in_range e poff then do {
             e \<leftarrow> fsl_virt_free rtm e;
             Some ((None, TI_ERR_OK), e)
           } else do {
             (ret, e) \<leftarrow> typeinfo_alloc_generic T \<lparr>td_typenum = vt_type_virttype vt, td_clo = clo\<rparr> (Some prev) e;
             case ret of
               None \<Rightarrow> do {
                 e \<leftarrow> fsl_virt_free rtm e;
                 Some ((None, TI_ERR_BADALLOC), e)
               }
             | Some a \<Rightarrow> alloc_virt_finish T vtr prev idx rtm a e
           }
         }
       }
   }"

definition typeinfo_virt_next :: "fsl_tables \<Rightarrow> addr \<Rightarrow> (addr option \<times> int option) rt" where
  "typeinfo_virt_next T a e = do {
     ti \<leftarrow> ti_at e a;
     rtm \<leftarrow> ti_xlate ti;
     assert_c (ti_virt ti \<noteq> None);
     let new_idx = u64 (ti_print_idxval ti + 1);
     e \<leftarrow> upd_ti a (\<lambda>ti. ti\<lparr>ti_print_idxval := new_idx\<rparr>) e;
     (new_off, e) \<leftarrow> fsl_virt_get_nth T rtm (u32 new_idx) e;
     assert_c (new_off \<noteq> 0);
     if offset_is_bad new_off then do {
       let err = (if new_off = OFFSET_INVALID then TI_ERR_BADIDX else TI_ERR_EOF);
       e \<leftarrow> typeinfo_free a e;
       Some ((None, Some err), e)
     } else do {
       e \<leftarrow> upd_ti a (set_ti_offset new_off) e;
       Some ((Some a, None), e)
     }
   }"

section \<open>Following\<close>

definition typeinfo_follow_field_off_idx :: "fsl_tables \<Rightarrow> addr \<Rightarrow> field_ref \<Rightarrow> nat \<Rightarrow> nat \<Rightarrow> addr option rt" where
  "typeinfo_follow_field_off_idx T p fref off idx e = do {
     tip \<leftarrow> ti_at e p;
     tf \<leftarrow> field_by_ref T fref;
     (params, e) \<leftarrow> tf_params tf (ti_clo tip) idx e;
     typeinfo_alloc_by_field T
       \<lparr>td_typenum = tf_typenum tf, td_clo = \<lparr>clo_offset = off, clo_params = params, clo_xlate = None\<rparr>\<rparr> (Some fref) (Some p) e
   }"

definition typeinfo_follow_field_idx :: "fsl_tables \<Rightarrow> addr \<Rightarrow> field_ref \<Rightarrow> nat \<Rightarrow> addr option rt" where
  "typeinfo_follow_field_idx T p fref idx e = do {
     tip \<leftarrow> ti_at e p;
     tf \<leftarrow> field_by_ref T fref;
     (off, e) \<leftarrow> ti_field_off T tip tf idx e;
     typeinfo_follow_field_off_idx T p fref off idx e
   }"

definition typeinfo_follow_field :: "fsl_tables \<Rightarrow> addr \<Rightarrow> field_ref \<Rightarrow> addr option rt" where
  "typeinfo_follow_field T p fref e = do {
     tip \<leftarrow> ti_at e p;
     tf \<leftarrow> field_by_ref T fref;
     (present, e) \<leftarrow> (case tf_cond tf of None \<Rightarrow> Some (True, e) | Some c \<Rightarrow> c (ti_clo tip) e);
     if \<not> present then Some (None, e)
     else do {
       (off, e) \<leftarrow> tf_fieldbitoff tf (ti_clo tip) e;
       typeinfo_follow_field_off_idx T p fref off 0 e
     }
   }"

definition typeinfo_follow_pointsto :: "fsl_tables \<Rightarrow> addr \<Rightarrow> nat \<times> nat \<Rightarrow> nat \<Rightarrow> addr option rt" where
  "typeinfo_follow_pointsto T p ptr idx e = do {
     tip \<leftarrow> ti_at e p;
     pt \<leftarrow> points_by_ref T ptr;
     ptt \<leftarrow> tt_by_num T (ti_typenum tip);
     (ok, e) \<leftarrow> iter_is_ok (pt_iter pt) (ti_clo tip) e;
     if \<not> ok then Some (None, e)
     else do {
       ((off, params, xlate), e) \<leftarrow> it_range (pt_iter pt) (ti_clo tip) idx e;
       assert_c (length params \<le> tt_param_c ptt);
       assert_c (\<not> offset_is_bad off);
       typeinfo_alloc_pointsto T
         \<lparr>td_typenum = it_type_dst (pt_iter pt), td_clo = \<lparr>clo_offset = off, clo_params = params, clo_xlate = xlate\<rparr>\<rparr> ptr (u32 idx) p e
     }
   }"

definition typeinfo_follow_iter :: "fsl_tables \<Rightarrow> addr \<Rightarrow> iter_ref \<Rightarrow> nat \<Rightarrow> addr option rt" where
  "typeinfo_follow_iter T p itr idx e = do {
     tip \<leftarrow> ti_at e p;
     it \<leftarrow> iter_by_ref T itr;
     ptt \<leftarrow> tt_by_num T (ti_typenum tip);
     ((off, params, xlate), e) \<leftarrow> it_range it (ti_clo tip) idx e;
     assert_c (length params \<le> tt_param_c ptt);
     assert_c (\<not> offset_is_bad off);
     typeinfo_alloc_iter T
       \<lparr>td_typenum = it_type_dst it, td_clo = \<lparr>clo_offset = off, clo_params = params, clo_xlate = xlate\<rparr>\<rparr> itr (u32 idx) p e
   }"

section \<open>Copying\<close>

definition typeinfo_to_buf :: "fsl_tables \<Rightarrow> type_info \<Rightarrow> nat \<Rightarrow> byte list rt" where
  "typeinfo_to_buf T src bytes e = do {
     (sz, e) \<leftarrow> ti_size T src e;
     let src_sz = u64 (sz + 7) div 8;
     let copy_bytes = u32 (if src_sz < bytes then src_sz else bytes);
     (off, e) \<leftarrow> ti_phys_offset T src e;
     fsl_io_read_bytes copy_bytes (off div 8) e
   }"

definition COPY_BUF_SZ :: nat where
  "COPY_BUF_SZ = 4096"

partial_function (option) phys_copy_loop :: "nat \<Rightarrow> nat \<Rightarrow> nat \<Rightarrow> nat \<Rightarrow> env \<Rightarrow> env option" where
  "phys_copy_loop src_base dst_base src_sz xfer_total e =
     (if xfer_total < src_sz then do {
        let to_xfer = u32 (src_sz - xfer_total);
        let to_xfer = (if to_xfer > COPY_BUF_SZ then COPY_BUF_SZ else to_xfer);
        (buf, e) \<leftarrow> fsl_io_read_bytes to_xfer (u64 (xfer_total + src_base)) e;
        e \<leftarrow> fsl_io_write_bytes buf to_xfer (u64 (xfer_total + dst_base)) e;
        phys_copy_loop src_base dst_base src_sz (u32 (xfer_total + to_xfer)) e
      } else Some e)"

definition typeinfo_phys_copy :: "fsl_tables \<Rightarrow> type_info \<Rightarrow> type_info \<Rightarrow> env \<Rightarrow> env option" where
  "typeinfo_phys_copy T dst src e = do {
     (src_sz, e) \<leftarrow> ti_size T src e;
     (dst_sz, e) \<leftarrow> ti_size T dst e;
     assert_c (src_sz = dst_sz);
     assert_c (src_sz mod 8 = 0);
     assert_c (ti_xlate dst = None);
     assert_c (ti_xlate src = None);
     assert_c (ti_offset src mod 8 = 0);
     assert_c (ti_offset dst mod 8 = 0);
     phys_copy_loop (ti_offset src div 8) (ti_offset dst div 8) (src_sz div 8) 0 e
   }"

section \<open>Names\<close>

definition lookup_follow_gen ::
  "(addr \<Rightarrow> string \<Rightarrow> addr option rt) \<Rightarrow> fsl_tables \<Rightarrow> addr \<Rightarrow> string \<Rightarrow> nat \<Rightarrow> bool \<Rightarrow> addr option rt" where
  "lookup_follow_gen follow_name T p fieldname idx accept_names e = do {
     tip \<leftarrow> ti_at e p;
     let n = ti_typenum tip;
     f \<leftarrow> fsl_lookup_field T n fieldname;
     case f of
       Some fref \<Rightarrow> do {
         tf \<leftarrow> field_by_ref T fref;
         if tf_typenum tf = TYPENUM_INVALID then Some (None, e)
         else do {
           (present, e) \<leftarrow> (case tf_cond tf of None \<Rightarrow> Some (True, e) | Some c \<Rightarrow> c (ti_clo tip) e);
           if \<not> present then Some (None, e) else typeinfo_follow_field_idx T p fref idx e
         }
       }
     | None \<Rightarrow> do {
         pt \<leftarrow> fsl_lookup_points T n fieldname;
         case pt of
           Some ptr \<Rightarrow> do {
             ptx \<leftarrow> points_by_ref T ptr;
             (mn, e) \<leftarrow> it_min (pt_iter ptx) (ti_clo tip) e;
             typeinfo_follow_pointsto T p ptr (u64 (idx + mn)) e
           }
         | None \<Rightarrow> do {
             vt \<leftarrow> fsl_lookup_virt T n fieldname;
             case vt of
               Some vtr \<Rightarrow> do {
                 ((ret, err), e) \<leftarrow> typeinfo_alloc_virt_idx T vtr p idx e;
                 Some (ret, e)
               }
             | None \<Rightarrow> if \<not> accept_names then Some (None, e) else follow_name p fieldname e
           }
       }
   }"

definition typeinfo_lookup_follow_direct :: "fsl_tables \<Rightarrow> addr \<Rightarrow> string \<Rightarrow> addr option rt" where
  "typeinfo_lookup_follow_direct T p fieldname e = lookup_follow_gen (\<lambda>_ _ _. None) T p fieldname 0 False e"

text \<open>The C string in a buffer that was filled with \<open>bs\<close> and terminated.\<close>

definition cstring :: "byte list \<Rightarrow> string" where
  "cstring bs = map (\<lambda>b. char_of (unat b)) (takeWhile (\<lambda>b. b \<noteq> 0) bs)"

definition typeinfo_getname :: "fsl_tables \<Rightarrow> addr option \<Rightarrow> nat \<Rightarrow> string option rt" where
  "typeinfo_getname T tip len e = (case tip of
     None \<Rightarrow> Some (None, e)
   | Some a \<Rightarrow> do {
       (name_ti, e) \<leftarrow> typeinfo_lookup_follow_direct T a ''name'' e;
       case name_ti of
         None \<Rightarrow> Some (None, e)
       | Some na \<Rightarrow> do {
           nti \<leftarrow> ti_at e na;
           (buf, e) \<leftarrow> typeinfo_to_buf T nti (len - 1) e;
           e \<leftarrow> typeinfo_free na e;
           Some (Some (cstring buf), e)
         }
     })"

text \<open>The three searches for an element with a given name. Each visits the elements in order.\<close>

partial_function (option) follow_name_tf_loop :: "fsl_tables \<Rightarrow> addr \<Rightarrow> field_ref \<Rightarrow> string \<Rightarrow> nat \<Rightarrow> nat \<Rightarrow> addr option rt" where
  "follow_name_tf_loop T p fref name idx max_idx e =
     (if idx \<le> max_idx then do {
        (ret, e) \<leftarrow> typeinfo_follow_field_idx T p fref idx e;
        case ret of
          None \<Rightarrow> follow_name_tf_loop T p fref name (u64 (idx + 1)) max_idx e
        | Some a \<Rightarrow> do {
            (nm, e) \<leftarrow> typeinfo_getname T (Some a) 255 e;
            if nm \<noteq> Some name then do {
              e \<leftarrow> typeinfo_free a e;
              follow_name_tf_loop T p fref name (u64 (idx + 1)) max_idx e
            } else Some (Some a, e)
          }
      } else Some (None, e))"

definition typeinfo_follow_name_tf :: "fsl_tables \<Rightarrow> addr \<Rightarrow> field_ref \<Rightarrow> string \<Rightarrow> addr option rt" where
  "typeinfo_follow_name_tf T p fref name e = do {
     tip \<leftarrow> ti_at e p;
     tf \<leftarrow> field_by_ref T fref;
     if tf_typenum tf = TYPENUM_INVALID then Some (None, e)
     else do {
       has \<leftarrow> fsl_lookup_has T (tf_typenum tf) ''name'';
       if \<not> has then Some (None, e)
       else do {
         (max_idx, e) \<leftarrow> tf_elemcount tf (ti_clo tip) e;
         follow_name_tf_loop T p fref name 0 max_idx e
       }
     }
   }"

partial_function (option) follow_name_pt_loop :: "fsl_tables \<Rightarrow> addr \<Rightarrow> nat \<times> nat \<Rightarrow> string \<Rightarrow> nat \<Rightarrow> nat \<Rightarrow> addr option rt" where
  "follow_name_pt_loop T p ptr name idx max_idx e =
     (if idx \<le> max_idx then do {
        (ret, e) \<leftarrow> typeinfo_follow_pointsto T p ptr idx e;
        case ret of
          None \<Rightarrow> follow_name_pt_loop T p ptr name (u64 (idx + 1)) max_idx e
        | Some a \<Rightarrow> do {
            (nm, e) \<leftarrow> typeinfo_getname T (Some a) 255 e;
            if nm \<noteq> Some name then do {
              e \<leftarrow> typeinfo_free a e;
              follow_name_pt_loop T p ptr name (u64 (idx + 1)) max_idx e
            } else Some (Some a, e)
          }
      } else Some (None, e))"

definition typeinfo_follow_name_pt :: "fsl_tables \<Rightarrow> addr \<Rightarrow> nat \<times> nat \<Rightarrow> string \<Rightarrow> addr option rt" where
  "typeinfo_follow_name_pt T p ptr name e = do {
     tip \<leftarrow> ti_at e p;
     pt \<leftarrow> points_by_ref T ptr;
     has \<leftarrow> fsl_lookup_has T (it_type_dst (pt_iter pt)) ''name'';
     if \<not> has then Some (None, e)
     else do {
       (idx, e) \<leftarrow> it_min (pt_iter pt) (ti_clo tip) e;
       if idx = ones64 then Some (None, e)
       else do {
         (max_idx, e) \<leftarrow> it_max (pt_iter pt) (ti_clo tip) e;
         follow_name_pt_loop T p ptr name idx max_idx e
       }
     }
   }"

partial_function (option) follow_name_vt_loop :: "fsl_tables \<Rightarrow> addr \<Rightarrow> nat \<times> nat \<Rightarrow> string \<Rightarrow> nat \<Rightarrow> int \<Rightarrow> addr option rt" where
  "follow_name_vt_loop T p vtr name idx err e =
     (if err = TI_ERR_OK \<or> err = TI_ERR_BADVERIFY then do {
        ((ret, err), e) \<leftarrow> typeinfo_alloc_virt_idx T vtr p idx e;
        case ret of
          None \<Rightarrow> follow_name_vt_loop T p vtr name (u64 (idx + 1)) err e
        | Some a \<Rightarrow> do {
            (nm, e) \<leftarrow> typeinfo_getname T (Some a) 255 e;
            if nm \<noteq> Some name then do {
              e \<leftarrow> typeinfo_free a e;
              follow_name_vt_loop T p vtr name (u64 (idx + 1)) err e
            } else Some (Some a, e)
          }
      } else Some (None, e))"

definition typeinfo_follow_name_vt :: "fsl_tables \<Rightarrow> addr \<Rightarrow> nat \<times> nat \<Rightarrow> string \<Rightarrow> addr option rt" where
  "typeinfo_follow_name_vt T p vtr name e = do {
     tip \<leftarrow> ti_at e p;
     vt \<leftarrow> virt_by_ref T vtr;
     has \<leftarrow> fsl_lookup_has T (vt_type_virttype vt) ''name'';
     if \<not> has then Some (None, e)
     else do {
       (idx, e) \<leftarrow> it_min (vt_iter vt) (ti_clo tip) e;
       if idx = ones64 then Some (None, e)
       else follow_name_vt_loop T p vtr name idx 0 e
     }
   }"

text \<open>\<open>if (ret != NULL) ret->ti_flag |= TI_FL_FROMNAME\<close>\<close>

definition mark_from_name :: "addr option \<Rightarrow> addr option rt" where
  "mark_from_name ret e = (case ret of
     None \<Rightarrow> Some (None, e)
   | Some a \<Rightarrow> do {
       e \<leftarrow> upd_ti a (\<lambda>ti. ti\<lparr>ti_flag := or (ti_flag ti) TI_FL_FROMNAME\<rparr>) e;
       Some (Some a, e)
     })"

definition typeinfo_follow_name :: "fsl_tables \<Rightarrow> addr \<Rightarrow> string \<Rightarrow> addr option rt" where
  "typeinfo_follow_name T a name e = do {
     ti \<leftarrow> ti_at e a;
     case ti_prev ti of
       None \<Rightarrow> Some (None, e)
     | Some p \<Rightarrow> do {
         (ret, e) \<leftarrow> (case ti_points ti of
             Some ptr \<Rightarrow> typeinfo_follow_name_pt T p ptr name e
           | None \<Rightarrow> (case ti_virt ti of
                 Some vtr \<Rightarrow> typeinfo_follow_name_vt T p vtr name e
               | None \<Rightarrow> Some (None, e)));
         mark_from_name ret e
       }
   }"

definition typeinfo_lookup_follow_idx_all :: "fsl_tables \<Rightarrow> addr \<Rightarrow> string \<Rightarrow> nat \<Rightarrow> bool \<Rightarrow> addr option rt" where
  "typeinfo_lookup_follow_idx_all T p fieldname idx accept_names e =
     lookup_follow_gen (typeinfo_follow_name T) T p fieldname idx accept_names e"

definition typeinfo_follow_into_name :: "fsl_tables \<Rightarrow> addr \<Rightarrow> string \<Rightarrow> string \<Rightarrow> addr option rt" where
  "typeinfo_follow_into_name T a fieldname name e = do {
     ti \<leftarrow> ti_at e a;
     let n = ti_typenum ti;
     f \<leftarrow> fsl_lookup_field T n fieldname;
     (ret, e) \<leftarrow> (case f of
         Some fref \<Rightarrow> typeinfo_follow_name_tf T a fref name e
       | None \<Rightarrow> do {
           pt \<leftarrow> fsl_lookup_points T n fieldname;
           case pt of
             Some ptr \<Rightarrow> typeinfo_follow_name_pt T a ptr name e
           | None \<Rightarrow> do {
               vt \<leftarrow> fsl_lookup_virt T n fieldname;
               case vt of
                 Some vtr \<Rightarrow> typeinfo_follow_name_vt T a vtr name e
               | None \<Rightarrow> Some (None, e)
             }
         });
     mark_from_name ret e
   }"

definition typeinfo_reindex :: "fsl_tables \<Rightarrow> addr option \<Rightarrow> nat \<Rightarrow> addr option rt" where
  "typeinfo_reindex T ap idx e = (case ap of
     None \<Rightarrow> Some (None, e)
   | Some a \<Rightarrow> do {
       ti \<leftarrow> ti_at e a;
       case ti_prev ti of
         None \<Rightarrow> Some (None, e)
       | Some p \<Rightarrow> do {
           tip \<leftarrow> ti_at e p;
           case ti_field ti of
             Some fref \<Rightarrow> do {
               tf \<leftarrow> field_by_ref T fref;
               (max_idx, e) \<leftarrow> tf_elemcount tf (ti_clo tip) e;
               if max_idx \<le> idx then Some (None, e) else typeinfo_follow_field_idx T p fref idx e
             }
           | None \<Rightarrow> (case ti_points ti of
                 Some ptr \<Rightarrow> do {
                   pt \<leftarrow> points_by_ref T ptr;
                   (mn, e) \<leftarrow> it_min (pt_iter pt) (ti_clo tip) e;
                   if mn = ones64 then Some (None, e) else typeinfo_follow_pointsto T p ptr (u64 (idx + mn)) e
                 }
               | None \<Rightarrow> (case ti_virt ti of
                     Some vtr \<Rightarrow> do {
                       ((ret, err), e) \<leftarrow> typeinfo_alloc_virt_idx T vtr p idx e;
                       Some (ret, e)
                     }
                   | None \<Rightarrow> Some (None, e)))
         }
     })"

end
