(* ===== verification/TiHeap.thy ===== *)
theory TiHeap
  imports TypeInfo
begin

text \<open>
  The heap of type instances: chains of parents, the loop check, and reference counting.

  \<^item> \<open>ti_path\<close> relates an instance to the list of its ancestors, as the pointers in the heap give it.
    \<open>ti_has_loop_exact\<close> is the loop check of \<open>type_info.c\<close> over that list.
  \<^item> \<open>ti_refs_ok\<close> is the invariant of the reference counts: every live instance is referenced, its count is
    the number of its children plus the references held outside the heap, and its parent is live.
    The instances are at physical offsets (no address space).
  \<^item> \<open>typeinfo_free\<close> first drops the parent's count and only then releases the object. The proof of
    the invariant therefore speaks of a heap without a set \<open>D\<close> of objects that are being released.
\<close>

lemma ti_at_put [simp]: "ti_at (put_ti a t e) x = (if x = a then Some t else ti_at e x)"
  by (simp add: put_ti_def ti_at_def)

section \<open>Chains of parents\<close>

fun ti_path :: "(addr \<Rightarrow> type_info option) \<Rightarrow> addr option \<Rightarrow> addr list \<Rightarrow> bool" where
  "ti_path H None xs \<longleftrightarrow> xs = []"
| "ti_path H (Some a) [] \<longleftrightarrow> False"
| "ti_path H (Some a) (x # xs) \<longleftrightarrow> x = a \<and> (\<exists>ti. H a = Some ti \<and> ti_path H (ti_prev ti) xs)"

definition typenum_at :: "(addr \<Rightarrow> type_info option) \<Rightarrow> addr \<Rightarrow> nat" where
  "typenum_at H x = (case H x of None \<Rightarrow> TYPENUM_INVALID | Some ti \<Rightarrow> ti_typenum ti)"

text \<open>
  \<open>phys_ok\<close>: in every state that satisfies \<open>Q\<close> (a translation may change the caches) the instances of the
  list have the physical offsets \<open>poff\<close>.
\<close>

definition phys_ok :: "fsl_tables \<Rightarrow> (addr \<Rightarrow> type_info option) \<Rightarrow> (env \<Rightarrow> bool) \<Rightarrow> (addr \<Rightarrow> nat) \<Rightarrow> addr list \<Rightarrow> bool" where
  "phys_ok T H Q poff xs \<longleftrightarrow> (\<forall>e. Q e \<longrightarrow> h_ti e = H) \<and>
     (\<forall>x \<in> set xs. \<forall>ti e. H x = Some ti \<longrightarrow> Q e \<longrightarrow> (\<exists>e'. ti_phys_offset T ti e = Some (poff x, e') \<and> Q e'))"

lemma ti_has_loop_from_spec:
  assumes "ti_path H cur xs" and "phys_ok T H Q poff xs" and "Q e"
  shows "\<exists>e'. ti_has_loop_from T p n cur e = Some (\<exists>x \<in> set xs. poff x = p \<and> typenum_at H x = n, e') \<and> Q e'"
  using assms
proof (induction xs arbitrary: cur e)
  case Nil
  then have "cur = None" by (cases cur) auto
  then show ?case using Nil.prems(3) by (subst ti_has_loop_from.simps) simp
next
  case (Cons x xs)
  from Cons.prems(1) obtain ti where cur: "cur = Some x" and ti: "H x = Some ti" and path: "ti_path H (ti_prev ti) xs"
    by (cases cur) auto
  have at: "ti_at e x = Some ti" using Cons.prems(2,3) ti by (simp add: phys_ok_def ti_at_def)
  obtain e1 where e1: "ti_phys_offset T ti e = Some (poff x, e1)" "Q e1"
    using Cons.prems(2,3) ti unfolding phys_ok_def by (meson list.set_intros(1))
  have "phys_ok T H Q poff xs" using Cons.prems(2) by (simp add: phys_ok_def)
  from Cons.IH [OF path this e1(2)] show ?case
    using e1(2) ti by (subst ti_has_loop_from.simps) (auto simp: cur at e1(1) typenum_at_def)
qed

lemma ti_has_loop_spec:
  assumes "ti_path H (Some a) (a # xs)" and "phys_ok T H Q poff (a # xs)" and "Q e"
  shows "\<exists>e'. ti_has_loop T a e = Some (\<exists>x \<in> set xs. poff x = poff a \<and> typenum_at H x = typenum_at H a, e') \<and> Q e'"
proof -
  obtain ti where ti: "H a = Some ti" and path: "ti_path H (ti_prev ti) xs" using assms(1) by auto
  have at: "ti_at e a = Some ti" using assms(2,3) ti by (simp add: phys_ok_def ti_at_def)
  obtain e1 where e1: "ti_phys_offset T ti e = Some (poff a, e1)" "Q e1"
    using assms(2,3) ti unfolding phys_ok_def by (meson list.set_intros(1))
  have "phys_ok T H Q poff xs" using assms(2) by (simp add: phys_ok_def)
  from ti_has_loop_from_spec [OF path this e1(2), of "poff a" "ti_typenum ti"]
  show ?thesis
    using assms(3) path ti by (cases "ti_prev ti") (auto simp: ti_has_loop_def at e1(1) typenum_at_def)
qed

section \<open>Verification of an instance\<close>

text \<open>
  \<open>asserts_ok\<close>: in every state that satisfies \<open>Q\<close> the generated assertions have the values \<open>holds\<close>.
\<close>

definition asserts_ok :: "fsl_rt_closure \<Rightarrow> (env \<Rightarrow> bool) \<Rightarrow> (fsl_rtt_assert \<Rightarrow> bool) \<Rightarrow> fsl_rtt_assert list \<Rightarrow> bool" where
  "asserts_ok clo Q holds as \<longleftrightarrow> (\<forall>a \<in> set as. \<forall>e. Q e \<longrightarrow> (\<exists>e'. as_assertf a clo e = Some (holds a, e') \<and> Q e')) \<and>
     (\<forall>e s. Q e \<longrightarrow> Q (e\<lparr>fctx_failed_assert := s\<rparr>))"

definition asserts_of :: "fsl_tables \<Rightarrow> nat \<Rightarrow> fsl_rtt_assert list" where
  "asserts_of T n = (if n = TYPENUM_INVALID then [] else tt_assert (fsl_rt_table T ! n))"

definition typenum_ok :: "fsl_tables \<Rightarrow> nat \<Rightarrow> bool" where
  "typenum_ok T n \<longleftrightarrow> n = TYPENUM_INVALID \<or> n < length (fsl_rt_table T)"

lemma verify_asserts_loop_spec:
  "asserts_ok clo Q holds as \<Longrightarrow> Q e \<Longrightarrow>
    \<exists>e'. verify_asserts_loop clo as e = Some (\<forall>a \<in> set as. holds a, e') \<and> Q e'"
proof (induction as arbitrary: e)
  case (Cons a as)
  obtain e1 where e1: "as_assertf a clo e = Some (holds a, e1)" "Q e1"
    using Cons.prems unfolding asserts_ok_def by (meson list.set_intros(1))
  have "asserts_ok clo Q holds as" using Cons.prems(1) by (simp add: asserts_ok_def)
  from Cons.IH [OF this e1(2)] show ?case
    using Cons.prems(1) e1 by (cases "holds a") (auto simp: asserts_ok_def)
qed simp

lemma typeinfo_verify_asserts_spec:
  assumes "ti_at e a = Some ti" and "typenum_ok T (ti_typenum ti)" and "Q e"
    and "asserts_ok (ti_clo ti) Q holds (asserts_of T (ti_typenum ti))"
  shows "\<exists>e'. typeinfo_verify_asserts T a e = Some (\<forall>as \<in> set (asserts_of T (ti_typenum ti)). holds as, e') \<and> Q e'"
  using verify_asserts_loop_spec [OF assms(4,3)] assms
  by (auto simp: typeinfo_verify_asserts_def asserts_of_def typenum_ok_def tt_by_num_def)

lemma typeinfo_verify_spec:
  assumes path: "ti_path H (Some a) (a # xs)" and phys: "phys_ok T H Q poff (a # xs)" and Q: "Q e"
    and ti: "H a = Some ti" and num: "typenum_ok T (ti_typenum ti)"
    and as: "asserts_ok (ti_clo ti) Q holds (asserts_of T (ti_typenum ti))"
  shows "\<exists>e'. typeinfo_verify T a e = Some
      ((poff a, typenum_at H a) \<notin> (\<lambda>x. (poff x, typenum_at H x)) ` set xs \<and> (\<forall>as \<in> set (asserts_of T (ti_typenum ti)). holds as), e') \<and> Q e'"
proof -
  obtain e1 where e1: "ti_has_loop T a e = Some (\<exists>x \<in> set xs. poff x = poff a \<and> typenum_at H x = typenum_at H a, e1)" "Q e1"
    using ti_has_loop_spec [OF path phys Q] by blast
  have at: "ti_at e1 a = Some ti" using phys e1(2) ti by (simp add: phys_ok_def ti_at_def)
  obtain e2 where e2: "typeinfo_verify_asserts T a e1 = Some (\<forall>as \<in> set (asserts_of T (ti_typenum ti)). holds as, e2)" "Q e2"
    using typeinfo_verify_asserts_spec [OF at num e1(2) as] by blast
  show ?thesis
  proof (cases "\<exists>x \<in> set xs. poff x = poff a \<and> typenum_at H x = typenum_at H a")
    case True
    then have "(poff a, typenum_at H a) \<in> (\<lambda>x. (poff x, typenum_at H x)) ` set xs" by (metis (mono_tags) image_eqI)
    then show ?thesis using True e1 by (simp add: typeinfo_verify_def)
  next
    case False
    then have "(poff a, typenum_at H a) \<notin> (\<lambda>x. (poff x, typenum_at H x)) ` set xs" by auto
    moreover have "ti_has_loop T a e = Some (False, e1)" using False e1(1) by auto
    ultimately show ?thesis using e2 by (simp add: typeinfo_verify_def)
  qed
qed

text \<open>
  C17: \<open>typeinfo_verify\<close> terminates on every chain of parents and accepts an instance exactly when no
  ancestor has the same type at the same physical offset and every assertion of its type holds.
\<close>

theorem typeinfo_verify_exact:
  assumes "ti_path H (Some a) (a # xs)" and "phys_ok T H Q poff (a # xs)" and "Q e"
    and "H a = Some ti" and "typenum_ok T (ti_typenum ti)"
    and "asserts_ok (ti_clo ti) Q holds (asserts_of T (ti_typenum ti))"
  shows "\<exists>e'. typeinfo_verify T a e = Some
      ((poff a, typenum_at H a) \<notin> (\<lambda>x. (poff x, typenum_at H x)) ` set xs \<and> (\<forall>as \<in> set (asserts_of T (ti_typenum ti)). holds as), e') \<and> Q e'"
  using assms by (rule typeinfo_verify_spec)

lemma keys_bound:
  assumes "distinct (map (\<lambda>x. (f x, g x)) xs)" and "\<And>x. x \<in> set xs \<Longrightarrow> f x < N" and "\<And>x. x \<in> set xs \<Longrightarrow> g x \<in> S" and "finite S"
  shows "length xs \<le> N * card S"
proof -
  have "length xs = card (set (map (\<lambda>x. (f x, g x)) xs))" using assms(1) by (metis distinct_card length_map)
  also have "\<dots> \<le> card ({..<N} \<times> S)"
    by (rule card_mono) (use assms in auto)
  finally show ?thesis by (simp add: card_cartesian_product)
qed

text \<open>
  C18: chains of accepted instances are bounded. When the ancestors of an accepted instance are pairwise
  different in physical offset and type, so is the extended chain, and its length is at most the number
  of bits of the device times the number of types (one more for primitive fields).
\<close>

theorem verified_chain_bounded:
  assumes path: "ti_path H (Some a) (a # xs)" and phys: "phys_ok T H Q poff (a # xs)" and Q: "Q e"
    and ti: "H a = Some ti" and num: "\<forall>x \<in> set (a # xs). typenum_ok T (typenum_at H x)"
    and as: "asserts_ok (ti_clo ti) Q holds (asserts_of T (ti_typenum ti))"
    and dist: "distinct (map (\<lambda>x. (poff x, typenum_at H x)) xs)"
    and range: "\<forall>x \<in> set (a # xs). offset_in_range e (poff x)"
    and ok: "typeinfo_verify T a e = Some (True, e')"
  shows "distinct (map (\<lambda>x. (poff x, typenum_at H x)) (a # xs)) \<and>
    length (a # xs) \<le> u64 (bdev_bytes e * 8) * (length (fsl_rt_table T) + 1)"
proof
  have "typenum_ok T (ti_typenum ti)" using num ti by (simp add: typenum_at_def)
  from typeinfo_verify_spec [OF path phys Q ti this as] ok
  show dist': "distinct (map (\<lambda>x. (poff x, typenum_at H x)) (a # xs))" using dist by auto
  let ?S = "insert TYPENUM_INVALID {..<length (fsl_rt_table T)}"
  have "length (a # xs) \<le> u64 (bdev_bytes e * 8) * card ?S"
    by (rule keys_bound [OF dist']) (use num range in \<open>auto simp: typenum_ok_def offset_in_range_def\<close>)
  also have "card ?S \<le> length (fsl_rt_table T) + 1" by (simp add: card_insert_if)
  finally show "length (a # xs) \<le> u64 (bdev_bytes e * 8) * (length (fsl_rt_table T) + 1)"
    by (simp add: mult_le_mono2)
qed

section \<open>Reference counts\<close>

definition children :: "(addr \<Rightarrow> type_info option) \<Rightarrow> addr \<Rightarrow> addr set" where
  "children H a = {x. \<exists>ti. H x = Some ti \<and> ti_prev ti = Some a}"

text \<open>\<open>ext a\<close> is the number of references to \<open>a\<close> that callers hold.\<close>

definition ti_refs_ok :: "(addr \<Rightarrow> nat) \<Rightarrow> (addr \<Rightarrow> type_info option) \<Rightarrow> addr \<Rightarrow> bool" where
  "ti_refs_ok ext H next \<longleftrightarrow> (\<forall>a ti. H a = Some ti \<longrightarrow> a < next \<and> ti_xlate ti = None \<and> 0 < ti_ref_c ti \<and>
       ti_ref_c ti = card (children H a) + ext a \<and> (\<forall>p. ti_prev ti = Some p \<longrightarrow> p < a \<and> H p \<noteq> None)) \<and>
     (\<forall>a. H a = None \<longrightarrow> ext a = 0)"

lemma ti_refs_okI:
  assumes "\<And>a ti. H a = Some ti \<Longrightarrow> a < next \<and> ti_xlate ti = None \<and> 0 < ti_ref_c ti" and "\<And>a. H a = None \<Longrightarrow> ext a = 0"
    and "\<And>a ti. H a = Some ti \<Longrightarrow> ti_ref_c ti = card (children H a) + ext a"
    and "\<And>a ti p. H a = Some ti \<Longrightarrow> ti_prev ti = Some p \<Longrightarrow> p < a \<and> H p \<noteq> None"
  shows "ti_refs_ok ext H next"
  using assms unfolding ti_refs_ok_def by blast

lemma ti_refs_okD:
  assumes "ti_refs_ok ext H next" and "H a = Some ti"
  shows "a < next" "ti_xlate ti = None" "0 < ti_ref_c ti" "ti_ref_c ti = card (children H a) + ext a"
    "ti_prev ti = Some p \<Longrightarrow> p < a \<and> H p \<noteq> None"
  using assms unfolding ti_refs_ok_def by blast+

lemma ti_refs_ok_dead: "ti_refs_ok ext H next \<Longrightarrow> H a = None \<Longrightarrow> ext a = 0"
  by (simp add: ti_refs_ok_def)

lemma children_finite: "ti_refs_ok ext H next \<Longrightarrow> finite (children H a)"
  by (rule finite_subset [of _ "{..<next}"]) (auto simp: children_def ti_refs_ok_def)

lemma children_put:
  assumes "H a = Some ti" and "ti_prev ti' = ti_prev ti"
  shows "children (H(a \<mapsto> ti')) x = children H x"
  using assms by (auto simp: children_def)

lemma children_remove: "children (H(a := None)) x = children H x - {a}"
  by (auto simp: children_def)

text \<open>Dropping a reference to an object that stays.\<close>

lemma refs_ok_dec:
  assumes ok: "ti_refs_ok ext H next" and a: "H a = Some ti" and ext: "0 < ext a" and c: "1 < ti_ref_c ti"
  shows "ti_refs_ok (ext(a := ext a - 1)) (H(a \<mapsto> ti\<lparr>ti_ref_c := ti_ref_c ti - 1\<rparr>)) next"
proof -
  have ch: "children (H(a \<mapsto> ti\<lparr>ti_ref_c := n\<rparr>)) x = children H x" for n x
    by (rule children_put) (simp_all add: a)
  note D = ti_refs_okD [OF ok]
  show ?thesis
  proof (rule ti_refs_okI, goal_cases)
    case (1 x t)
    then show ?case using D(1-3) [of x] D(1-3) [OF a] c by (cases "x = a") (auto simp: ti_xlate_def ti_clo_def)
  next
    case (2 x)
    then show ?case using ti_refs_ok_dead [OF ok, of x] by (auto split: if_splits)
  next
    case (3 x t)
    then show ?case using D(4) [of x t] D(4) [OF a] ext by (cases "x = a") (auto simp: ch)
  next
    case (4 x t p)
    then show ?case using D(5) [of x t p] D(5) [OF a, of p] by (cases "x = a") auto
  qed
qed

text \<open>Taking the last reference's object out of the heap: its parent loses a child and is held by the caller.\<close>

lemma refs_ok_remove:
  assumes ok: "ti_refs_ok ext H next" and a: "H a = Some ti" and ext: "0 < ext a" and c: "ti_ref_c ti = 1"
  shows "ti_refs_ok (case ti_prev ti of None \<Rightarrow> ext(a := 0) | Some p \<Rightarrow> ext(a := 0, p := ext p + 1)) (H(a := None)) next"
proof -
  have e1: "ext a = 1" and "card (children H a) = 0" using ti_refs_okD(4) [OF ok a] ext c by simp_all
  then have noc: "children H a = {}" using children_finite [OF ok] by simp
  then have np: "x \<noteq> a \<Longrightarrow> H x = Some t \<Longrightarrow> ti_prev t \<noteq> Some a" for x t by (auto simp: children_def)
  have self: "ti_prev ti \<noteq> Some a" using ti_refs_okD(5) [OF ok a] by blast
  have card: "card (children (H(a := None)) x) = card (children H x) - (if ti_prev ti = Some x then 1 else 0)" for x
  proof (cases "ti_prev ti = Some x")
    case True
    then have "a \<in> children H x" using a by (auto simp: children_def)
    then show ?thesis using True children_finite [OF ok] by (simp add: children_remove)
  next
    case False
    then have "a \<notin> children H x" using a by (auto simp: children_def)
    then show ?thesis using False by (simp add: children_remove)
  qed
  have pos: "0 < card (children H p)" if "ti_prev ti = Some p" for p
    using that a children_finite [OF ok, of p] by (auto simp: card_gt_0_iff children_def)
  note D = ti_refs_okD [OF ok]
  show ?thesis
  proof (rule ti_refs_okI, goal_cases)
    case (1 x t)
    then show ?case using D(1-3) [of x t] by (auto split: if_splits)
  next
    case (2 x)
    then show ?case using ti_refs_ok_dead [OF ok, of x] D(5) [OF a, of x] self by (auto split: option.splits if_splits)
  next
    case (3 x t)
    then show ?case using D(4) [of x t] pos [of x] self by (auto simp: card split: option.splits if_splits)
  next
    case (4 x t p)
    then show ?case using D(5) [of x t p] np [of x t] by (auto split: if_splits)
  qed
qed

text \<open>Objects that are being released (\<open>D\<close>) are still in the heap; the others satisfy the invariant.\<close>

definition heap_without :: "env \<Rightarrow> addr set \<Rightarrow> addr \<Rightarrow> type_info option" where
  "heap_without e D = (\<lambda>x. if x \<in> D then None else h_ti e x)"

text \<open>\<open>only_ti D\<close>: nothing but the heap of instances changed, and not the part \<open>D\<close> of it; no instance appeared, and
  only reference counts differ.\<close>

definition ti_core :: "type_info \<Rightarrow> type_info" where
  "ti_core ti = ti\<lparr>ti_ref_c := 0\<rparr>"

lemma ti_core_ref [simp]: "ti_core (ti\<lparr>ti_ref_c := n\<rparr>) = ti_core ti"
  by (simp add: ti_core_def)

definition only_ti :: "addr set \<Rightarrow> env \<Rightarrow> env \<Rightarrow> bool" where
  "only_ti D e e' \<longleftrightarrow> (\<exists>H. e' = e\<lparr>h_ti := H\<rparr>) \<and> (\<forall>x \<in> D. h_ti e' x = h_ti e x) \<and>
     (\<forall>x ti'. h_ti e' x = Some ti' \<longrightarrow> (\<exists>ti. h_ti e x = Some ti \<and> ti_core ti' = ti_core ti))"

lemma only_tiD: "only_ti D e e' \<Longrightarrow> x \<in> D \<Longrightarrow> h_ti e' x = h_ti e x"
  by (simp add: only_ti_def)

lemma only_ti_refl: "only_ti D e e"
  unfolding only_ti_def by (auto intro: exI [of _ "h_ti e"])

lemma only_ti_trans:
  assumes "only_ti D e e1" and "only_ti D' e1 e2" and "D \<subseteq> D'"
  shows "only_ti D e e2"
proof -
  have "\<exists>H. e2 = e\<lparr>h_ti := H\<rparr>" using assms(1,2) unfolding only_ti_def by force
  moreover have "h_ti e2 x = h_ti e x" if "x \<in> D" for x using that assms by (metis only_tiD subsetD)
  moreover have "\<exists>ti. h_ti e x = Some ti \<and> ti_core ti' = ti_core ti" if "h_ti e2 x = Some ti'" for x ti'
    using that assms(1,2) unfolding only_ti_def by metis
  ultimately show ?thesis by (simp add: only_ti_def)
qed

lemma typeinfo_free_refs:
  assumes "ti_refs_ok ext (heap_without e D) next" and "a \<notin> D" and "0 < ext a"
  shows "\<exists>e'. typeinfo_free a e = Some e' \<and> ti_refs_ok (ext(a := ext a - 1)) (heap_without e' D) next \<and> only_ti D e e'"
  using assms
proof (induction a arbitrary: ext e D rule: less_induct)
  case (less a)
  note ok = less.prems(1)
  have "heap_without e D a \<noteq> None" using ti_refs_ok_dead [OF ok] less.prems(3) by fastforce
  then obtain ti where Ha: "heap_without e D a = Some ti" by blast
  then have ti: "ti_at e a = Some ti" using less.prems(2) by (simp add: heap_without_def ti_at_def)
  let ?ti = "ti\<lparr>ti_ref_c := ti_ref_c ti - 1\<rparr>" and ?e = "put_ti a (ti\<lparr>ti_ref_c := ti_ref_c ti - 1\<rparr>) e"
  have un: "typeinfo_unref a e = Some (ti_ref_c ti - 1, ?e)"
    using ti ti_refs_okD(3) [OF ok Ha] by (simp add: typeinfo_unref_def)
  have xl: "ti_xlate ?ti = None" using ti_refs_okD(2) [OF ok Ha] by (simp add: ti_xlate_def ti_clo_def)
  have only: "only_ti D e ?e" using ti less.prems(2) by (auto simp: only_ti_def put_ti_def ti_at_def)
  show ?case
  proof (cases "ti_ref_c ti = 1")
    case False
    then have "1 < ti_ref_c ti" using ti_refs_okD(3) [OF ok Ha] by simp
    moreover have "heap_without ?e D = (heap_without e D)(a \<mapsto> ?ti)"
      using less.prems(2) by (auto simp: heap_without_def put_ti_def fun_eq_iff)
    ultimately have "ti_refs_ok (ext(a := ext a - 1)) (heap_without ?e D) next"
      using refs_ok_dec [OF ok Ha less.prems(3)] by metis
    then show ?thesis using only False ti_refs_okD(3) [OF ok Ha] by (subst typeinfo_free.simps) (simp add: un)
  next
    case True
    let ?D = "insert a D"
    let ?ext = "case ti_prev ti of None \<Rightarrow> ext(a := 0) | Some p \<Rightarrow> ext(a := 0, p := ext p + 1)"
    have hw: "heap_without ?e ?D = (heap_without e D)(a := None)"
      by (auto simp: heap_without_def put_ti_def fun_eq_iff)
    have ok': "ti_refs_ok ?ext (heap_without ?e ?D) next"
      using refs_ok_remove [OF ok Ha less.prems(3) True] by (simp only: hw)
    have ea: "ext(a := ext a - 1) = ext(a := 0)" using ti_refs_okD(4) [OF ok Ha] True less.prems(3) by simp
    obtain e1 where e1: "(case ti_prev ti of None \<Rightarrow> Some ?e | Some p \<Rightarrow> typeinfo_free p ?e) = Some e1"
      "ti_refs_ok (ext(a := 0)) (heap_without e1 ?D) next" "only_ti ?D ?e e1"
    proof (cases "ti_prev ti")
      case None
      then show thesis using that [of ?e] ok' only_ti_refl by simp
    next
      case (Some p)
      then have p: "p < a" "p \<notin> ?D" using ti_refs_okD(5) [OF ok Ha Some] by (auto simp: heap_without_def split: if_splits)
      have "0 < ?ext p" using Some by simp
      moreover have "?ext(p := ?ext p - 1) = ext(a := 0)" using Some p(1) by (auto simp: fun_eq_iff)
      ultimately show thesis using less.IH [OF p(1) ok' p(2)] Some that by fastforce
    qed
    have fin: "typeinfo_free a e = Some (free_ti a e1)"
      using True e1(1) xl by (subst typeinfo_free.simps) (simp add: un cong: option.case_cong)
    have "only_ti D e e1" using only_ti_trans [OF only e1(3)] by blast
    then have "only_ti D e (free_ti a e1)" using less.prems(2) by (auto simp: only_ti_def free_ti_def)
    moreover have "heap_without (free_ti a e1) D = heap_without e1 ?D"
      by (auto simp: heap_without_def free_ti_def fun_eq_iff)
    then have "ti_refs_ok (ext(a := ext a - 1)) (heap_without (free_ti a e1) D) next" using e1(2) by (simp only: ea)
    ultimately show ?thesis using fin by blast
  qed
qed


text \<open>
  Nothing leaks. A heap of instances with right counts to which no caller holds a reference is empty.
\<close>

theorem typeinfo_no_leak:
  assumes ok: "ti_refs_ok (\<lambda>_. 0) (h_ti e) next"
  shows "h_ti e = (\<lambda>_. None)"
proof (rule ccontr)
  assume "h_ti e \<noteq> (\<lambda>_. None)"
  then have "{x. h_ti e x \<noteq> None} \<noteq> {}" by (auto simp: fun_eq_iff)
  moreover have fin: "finite {x. h_ti e x \<noteq> None}"
    by (rule finite_subset [of _ "{..<next}"]) (use ti_refs_okD(1) [OF ok] in auto)
  ultimately have m: "Max {x. h_ti e x \<noteq> None} \<in> {x. h_ti e x \<noteq> None}" by (rule Max_in [rotated])
  let ?m = "Max {x. h_ti e x \<noteq> None}"
  obtain ti where ti: "h_ti e ?m = Some ti" using m by auto
  have "children (h_ti e) ?m = {}"
    using ti_refs_okD(5) [OF ok, where p = ?m] Max_ge [OF fin] by (fastforce simp: children_def)
  then show False using ti_refs_okD(3,4) [OF ok ti] by simp
qed

section \<open>Allocation keeps the counts\<close>

lemma refs_ok_add:
  assumes ok: "ti_refs_ok ext H next" and new: "ti_ref_c ti = 1" "ti_xlate ti = None"
    and prev: "\<And>p. ti_prev ti = Some p \<Longrightarrow> H p \<noteq> None"
  shows "ti_refs_ok (ext(next := 1))
    (\<lambda>x. if x = next then Some ti else if ti_prev ti = Some x then map_option (\<lambda>t. t\<lparr>ti_ref_c := ti_ref_c t + 1\<rparr>) (H x) else H x) (next + 1)"
    (is "ti_refs_ok ?ext ?H _")
proof -
  note D = ti_refs_okD [OF ok]
  have dead: "H next = None" using D(1) by (metis less_irrefl not_None_eq)
  have other: "\<exists>t'. H x = Some t' \<and> ti_core t = ti_core t' \<and> ti_ref_c t = ti_ref_c t' + (if ti_prev ti = Some x then 1 else 0)"
    if "?H x = Some t" "x \<noteq> next" for x t
    using that by (auto split: if_splits)
  have core: "ti_prev t = ti_prev t'" "ti_xlate t = ti_xlate t'" if "ti_core t = ti_core t'" for t t'
    using that by (auto simp: ti_core_def ti_xlate_def ti_clo_def dest: arg_cong [where f = ti_prev] arg_cong [where f = ti_td])
  have ch: "children ?H x = (if ti_prev ti = Some x then insert next (children H x) else children H x)" for x
    using dead by (auto simp: children_def split: if_splits)
  have "next \<notin> children H x" for x using dead by (simp add: children_def)
  then have card: "card (children ?H x) = card (children H x) + (if ti_prev ti = Some x then 1 else 0)" for x
    using children_finite [OF ok] by (simp add: ch)
  have noc: "children H next = {}" using D(5) dead by (fastforce simp: children_def)
  have nself: "ti_prev ti \<noteq> Some next" using prev dead by blast
  show ?thesis
  proof (rule ti_refs_okI, goal_cases)
    case (1 x t)
    show ?case
    proof (cases "x = next")
      case True
      then show ?thesis using 1 new by simp
    next
      case False
      then obtain t' where t': "H x = Some t'" "ti_core t = ti_core t'" "ti_ref_c t' \<le> ti_ref_c t" using other [OF 1] by force
      then show ?thesis using D(1-3) [OF t'(1)] core(2) [OF t'(2)] by simp
    qed
  next
    case (2 x)
    then show ?case using ti_refs_ok_dead [OF ok, of x] by (auto split: if_splits)
  next
    case (3 x t)
    then show ?case using other [of x t] D(4) [of x] new(1) noc nself by (cases "x = next") (auto simp: card split: if_splits)
  next
    case (4 x t p)
    show ?case
    proof (cases "x = next")
      case True
      then have "H p \<noteq> None" using 4 prev by simp
      then show ?thesis using True D(1) dead by (auto split: if_splits)
    next
      case False
      then obtain t' where "H x = Some t'" "ti_prev t' = Some p" using other [OF 4(1)] 4(2) core(1) by metis
      then show ?thesis using D(5) [of x t' p] dead by auto
    qed
  qed
qed

definition td_ok :: "fsl_tables \<Rightarrow> type_desc \<Rightarrow> bool" where
  "td_ok T td \<longleftrightarrow> typenum_ok T (td_typenum td) \<and> clo_xlate (td_clo td) = None \<and>
     (td_typenum td \<noteq> TYPENUM_INVALID \<longrightarrow> tt_param_c (fsl_rt_table T ! td_typenum td) \<le> length (clo_params (td_clo td)))"

text \<open>What a new instance is: its place, its parent, one more level, one reference.\<close>

definition fresh_ti :: "type_desc \<Rightarrow> addr option \<Rightarrow> env \<Rightarrow> type_info \<Rightarrow> bool" where
  "fresh_ti td prev e ti \<longleftrightarrow> ti_typenum ti = td_typenum td \<and> ti_offset ti = clo_offset (td_clo td) \<and> ti_xlate ti = None \<and>
     ti_prev ti = prev \<and> ti_ref_c ti = 1 \<and>
     ti_depth ti = (case prev of None \<Rightarrow> 0 | Some p \<Rightarrow> u32 (ti_depth (the (h_ti e p)) + 1))"

text \<open>The heap after an allocation: the new instance, and one more reference to its parent.\<close>

definition heap_add :: "addr \<Rightarrow> type_info \<Rightarrow> (addr \<Rightarrow> type_info option) \<Rightarrow> addr \<Rightarrow> type_info option" where
  "heap_add a ti H = (\<lambda>x. if x = a then Some ti
     else if ti_prev ti = Some x then map_option (\<lambda>t. t\<lparr>ti_ref_c := ti_ref_c t + 1\<rparr>) (H x) else H x)"

lemma typeinfo_alloc_generic_run:
  assumes td: "td_ok T td" and range: "offset_in_range e (clo_offset (td_clo td))" and dead: "h_ti e (h_next e) = None"
    and prev: "\<And>p. prev = Some p \<Longrightarrow> \<exists>tp. h_ti e p = Some tp \<and> ti_ref_c tp + 1 < 2 ^ 32"
  shows "\<exists>ti. typeinfo_alloc_generic T td prev e =
      Some (Some (h_next e), (stats_inc FSL_STAT_TYPEINFO_ALLOC e)\<lparr>h_ti := heap_add (h_next e) ti (h_ti e), h_next := h_next e + 1\<rparr>) \<and>
    fresh_ti td prev e ti"
proof -
  let ?a = "h_next e" and ?n = "td_typenum td"
  let ?par = "if ?n = TYPENUM_INVALID \<or> tt_param_c (fsl_rt_table T ! ?n) = 0 then [] else take (tt_param_c (fsl_rt_table T ! ?n)) (clo_params (td_clo td))"
  let ?depth = "case prev of None \<Rightarrow> 0 | Some p \<Rightarrow> u32 (ti_depth (the (h_ti e p)) + 1)"
  define ti where "ti = \<lparr>ti_td = \<lparr>td_typenum = ?n, td_clo = \<lparr>clo_offset = clo_offset (td_clo td), clo_params = ?par, clo_xlate = None\<rparr>\<rparr>,
                 ti_prev = prev, ti_ref_c = 1, ti_print_name = None, ti_print_idxval = 0, ti_field = None, ti_virt = None,
                 ti_points = None, ti_iter = None, ti_flag = 0, ti_depth = ?depth\<rparr>"
  let ?H = "\<lambda>x. if x = ?a then Some ti else if prev = Some x then map_option (\<lambda>t. t\<lparr>ti_ref_c := ti_ref_c t + 1\<rparr>) (h_ti e x) else h_ti e x"
  have "typeinfo_alloc_generic T td prev e = Some (Some ?a, (stats_inc FSL_STAT_TYPEINFO_ALLOC e)\<lparr>h_ti := ?H, h_next := ?a + 1\<rparr>)"
    using td range dead prev
    by (auto simp: typeinfo_alloc_generic_def Let_def td_ok_def typenum_ok_def tt_by_num_def fsl_virt_ref_def typeinfo_ref_def upd_ti_def
        ti_def offset_in_range_def put_ti_def ti_at_def u32_def fun_eq_iff split: option.splits)
  moreover have "ti_prev ti = prev" by (simp add: ti_def)
  then have "?H = heap_add ?a ti (h_ti e)" unfolding heap_add_def by auto
  moreover have "fresh_ti td prev e ti" by (simp add: fresh_ti_def ti_sel_defs ti_def)
  ultimately show ?thesis by metis
qed

lemma typeinfo_alloc_generic_ok:
  assumes ok: "ti_refs_ok ext (h_ti e) (h_next e)" and td: "td_ok T td"
    and range: "offset_in_range e (clo_offset (td_clo td))"
    and prev: "\<And>p. prev = Some p \<Longrightarrow> \<exists>tp. h_ti e p = Some tp \<and> ti_ref_c tp + 1 < 2 ^ 32"
  shows "\<exists>e' ti. typeinfo_alloc_generic T td prev e = Some (Some (h_next e), e') \<and> h_ti e' (h_next e) = Some ti \<and> fresh_ti td prev e ti \<and>
    h_next e' = h_next e + 1 \<and> ti_refs_ok (ext(h_next e := 1)) (h_ti e') (h_next e + 1)"
proof -
  have "h_ti e (h_next e) = None" using ti_refs_okD(1) [OF ok] by (metis less_irrefl not_None_eq)
  from typeinfo_alloc_generic_run [OF td range this prev] obtain ti where ti: "typeinfo_alloc_generic T td prev e =
      Some (Some (h_next e), (stats_inc FSL_STAT_TYPEINFO_ALLOC e)\<lparr>h_ti := heap_add (h_next e) ti (h_ti e), h_next := h_next e + 1\<rparr>)"
      "fresh_ti td prev e ti"
    by blast
  have "ti_refs_ok (ext(h_next e := 1)) (heap_add (h_next e) ti (h_ti e)) (h_next e + 1)"
    unfolding heap_add_def
  proof (rule refs_ok_add [OF ok])
    show "h_ti e p \<noteq> None" if "ti_prev ti = Some p" for p using prev [of p] ti(2) that by (auto simp: fresh_ti_def)
  qed (use ti(2) in \<open>simp_all add: fresh_ti_def\<close>)
  then show ?thesis using ti by (simp add: heap_add_def)
qed

text \<open>\<open>asserts_pure\<close>: the generated assertions return and do not touch the heap of instances.\<close>

definition asserts_pure :: "fsl_tables \<Rightarrow> nat \<Rightarrow> bool" where
  "asserts_pure T n \<longleftrightarrow> (\<forall>as \<in> set (asserts_of T n). \<forall>clo e.
     \<exists>b e'. as_assertf as clo e = Some (b, e') \<and> h_ti e' = h_ti e \<and> h_next e' = h_next e)"

lemma ti_path_exists:
  "ti_refs_ok ext H next \<Longrightarrow> H a \<noteq> None \<Longrightarrow> \<exists>xs. ti_path H (Some a) (a # xs)"
proof (induction a rule: less_induct)
  case (less a)
  then obtain ti where ti: "H a = Some ti" by auto
  show ?case
  proof (cases "ti_prev ti")
    case None
    then show ?thesis using ti by (intro exI [of _ "[]"]) simp
  next
    case (Some p)
    then have "p < a" "H p \<noteq> None" using ti_refs_okD(5) [OF less.prems(1) ti] by auto
    then obtain xs where "ti_path H (Some p) (p # xs)" using less by blast
    then show ?thesis using ti Some by (intro exI [of _ "p # xs"]) simp
  qed
qed

lemma ti_path_live: "ti_path H cur xs \<Longrightarrow> x \<in> set xs \<Longrightarrow> H x \<noteq> None"
  by (induction H cur xs rule: ti_path.induct) auto

lemma verify_asserts_loop_keeps:
  assumes "\<forall>as \<in> set ass. \<forall>clo e. \<exists>b e'. as_assertf as clo e = Some (b, e') \<and> h_ti e' = h_ti e \<and> h_next e' = h_next e"
  shows "\<exists>b e'. verify_asserts_loop clo ass e = Some (b, e') \<and> h_ti e' = h_ti e \<and> h_next e' = h_next e"
  using assms
proof (induction ass arbitrary: e)
  case (Cons as ass)
  obtain b e1 where e1: "as_assertf as clo e = Some (b, e1)" "h_ti e1 = h_ti e" "h_next e1 = h_next e"
    using Cons.prems by (meson list.set_intros(1))
  then show ?case using Cons.IH [of e1] Cons.prems by (cases b) auto
qed auto

lemma typeinfo_verify_keeps:
  assumes ok: "ti_refs_ok ext (h_ti e) next" and ti: "h_ti e a = Some ti"
    and num: "typenum_ok T (ti_typenum ti)" and pure: "asserts_pure T (ti_typenum ti)"
  shows "\<exists>b e'. typeinfo_verify T a e = Some (b, e') \<and> h_ti e' = h_ti e \<and> h_next e' = h_next e"
proof -
  let ?Q = "\<lambda>e'. h_ti e' = h_ti e \<and> h_next e' = h_next e"
  obtain xs where path: "ti_path (h_ti e) (Some a) (a # xs)" using ti_path_exists [OF ok] ti by blast
  have "phys_ok T (h_ti e) ?Q (\<lambda>x. ti_offset (the (h_ti e x))) (a # xs)"
    using ti_refs_okD(2) [OF ok] by (auto simp: phys_ok_def ti_phys_offset_def Let_def)
  then obtain b e1 where e1: "ti_has_loop T a e = Some (b, e1)" "?Q e1"
    using ti_has_loop_spec [OF path, of T ?Q] by blast
  obtain c e2 where e2: "typeinfo_verify_asserts T a e1 = Some (c, e2)" "?Q e2"
  proof (cases "ti_typenum ti = TYPENUM_INVALID")
    case True
    then show thesis using that [of True e1] e1(2) ti by (simp add: typeinfo_verify_asserts_def ti_at_def)
  next
    case False
    then show thesis
      using that verify_asserts_loop_keeps [of "asserts_of T (ti_typenum ti)" "ti_clo ti" e1] pure num e1(2) ti
      by (auto simp: typeinfo_verify_asserts_def ti_at_def asserts_pure_def asserts_of_def typenum_ok_def tt_by_num_def)
  qed
  show ?thesis using e1 e2 by (cases b) (auto simp: typeinfo_verify_def)
qed

lemma refs_ok_put:
  assumes ok: "ti_refs_ok ext H next" and a: "H a = Some ti"
    and same: "ti_prev ti' = ti_prev ti" "ti_ref_c ti' = ti_ref_c ti" "ti_xlate ti' = ti_xlate ti"
  shows "ti_refs_ok ext (H(a \<mapsto> ti')) next"
proof -
  have ch: "children (H(a \<mapsto> ti')) x = children H x" for x by (rule children_put) (simp_all add: a same)
  note D = ti_refs_okD [OF ok]
  show ?thesis
  proof (rule ti_refs_okI, goal_cases)
    case (4 x t p)
    then show ?case using D(5) [of x t p] D(5) [OF a, of p] same(1) by (cases "x = a") auto
  qed (use D(1-4) D(1-4) [OF a] ti_refs_ok_dead [OF ok] same in \<open>auto simp: ch split: if_splits\<close>)
qed

lemma verify_or_free_refs:
  assumes ok: "ti_refs_ok ext (h_ti e) (h_next e)" and ext: "ext a = 1" and ti: "h_ti e a = Some ti"
    and num: "typenum_ok T (ti_typenum ti)" and pure: "asserts_pure T (ti_typenum ti)"
  shows "\<exists>r e'. verify_or_free T a e = Some (r, e') \<and> h_next e' = h_next e \<and>
    (r = None \<and> ti_refs_ok (ext(a := 0)) (h_ti e') (h_next e') \<or> r = Some a \<and> ti_refs_ok ext (h_ti e') (h_next e') \<and> h_ti e' a = Some ti)"
proof -
  obtain b e1 where e1: "typeinfo_verify T a e = Some (b, e1)" "h_ti e1 = h_ti e" "h_next e1 = h_next e"
    using typeinfo_verify_keeps [OF ok ti num pure] by blast
  have "heap_without e' {} = h_ti e'" for e' by (simp add: heap_without_def)
  then obtain e2 where e2: "typeinfo_free a e1 = Some e2" "ti_refs_ok (ext(a := 0)) (h_ti e2) (h_next e)" "only_ti {} e1 e2"
    using typeinfo_free_refs [of ext e1 "{}" "h_next e" a] ok ext e1(2) by auto
  have "h_next e2 = h_next e" using e2(3) e1(3) by (auto simp: only_ti_def)
  then show ?thesis using e1 e2 ok ti by (cases b) (simp_all add: verify_or_free_def)
qed

lemma alloc_by_field_refs:
  assumes ok: "ti_refs_ok ext (h_ti e) (h_next e)" and td: "td_ok T td" and pure: "asserts_pure T (td_typenum td)"
    and prev: "\<And>p. prev = Some p \<Longrightarrow> \<exists>tp. h_ti e p = Some tp \<and> ti_ref_c tp + 1 < 2 ^ 32"
    and fref: "\<And>f. fref = Some f \<Longrightarrow> field_by_ref T f \<noteq> None"
  shows "\<exists>r e'. typeinfo_alloc_by_field T td fref prev e = Some (r, e') \<and>
    (case r of None \<Rightarrow> ti_refs_ok ext (h_ti e') (h_next e')
     | Some a \<Rightarrow> ti_refs_ok (ext(a := 1)) (h_ti e') (h_next e') \<and> h_ti e a = None \<and> offset_in_range e (clo_offset (td_clo td)) \<and>
         (\<exists>ti. h_ti e' a = Some ti \<and> fresh_ti td prev e ti \<and> ti_field ti = fref))"
proof (cases "offset_in_range e (clo_offset (td_clo td))")
  case False
  then show ?thesis
    using ok by (simp add: typeinfo_alloc_by_field_def typeinfo_alloc_generic_def offset_in_range_def Let_def)
next
  case True
  let ?a = "h_next e"
  have dead: "h_ti e ?a = None" using ti_refs_okD(1) [OF ok] by (metis less_irrefl not_None_eq)
  obtain e1 ti where e1: "typeinfo_alloc_generic T td prev e = Some (Some ?a, e1)" "h_ti e1 ?a = Some ti" "fresh_ti td prev e ti"
      "h_next e1 = ?a + 1" "ti_refs_ok (ext(?a := 1)) (h_ti e1) (?a + 1)"
    using typeinfo_alloc_generic_ok [OF ok td True prev] by blast
  obtain name where name: "(case fref of None \<Rightarrow> Some ''disk'' | Some f \<Rightarrow> map_option tf_fieldname (field_by_ref T f)) = Some name"
    using fref by (cases fref) auto
  let ?ti = "ti\<lparr>ti_field := fref, ti_print_name := Some name, ti_print_idxval := TI_INVALID_IDXVAL\<rparr>"
  let ?e = "put_ti ?a ?ti e1"
  have ok2: "ti_refs_ok (ext(?a := 1)) (h_ti ?e) (h_next ?e)"
    using refs_ok_put [OF e1(5) e1(2), of ?ti] e1(4) by (simp add: put_ti_def ti_xlate_def ti_clo_def)
  have at: "h_ti ?e ?a = Some ?ti" by (simp add: put_ti_def)
  have fr: "fresh_ti td prev e ?ti" using e1(3) by (simp add: fresh_ti_def ti_sel_defs)
  have pl: "\<exists>tp. ti_at ?e p = Some tp \<and> ti_xlate tp = None" if "prev = Some p" for p
    using ti_refs_okD(5) [OF ok2 at, of p] ti_refs_okD(2) [OF ok2, of p] fr that by (auto simp: fresh_ti_def ti_at_def)
  have run: "typeinfo_alloc_by_field T td fref prev e = verify_or_free T ?a ?e"
    using e1(1,2) name pl by (auto simp: typeinfo_alloc_by_field_def upd_ti_def ti_at_def split: option.splits)
  have "typenum_ok T (ti_typenum ?ti)" "asserts_pure T (ti_typenum ?ti)" using td pure fr by (auto simp: td_ok_def fresh_ti_def)
  from verify_or_free_refs [OF ok2 _ at this] obtain r e' where r: "verify_or_free T ?a ?e = Some (r, e')"
    "r = None \<and> ti_refs_ok ((ext(?a := 1))(?a := 0)) (h_ti e') (h_next e') \<or>
     r = Some ?a \<and> ti_refs_ok (ext(?a := 1)) (h_ti e') (h_next e') \<and> h_ti e' ?a = Some ?ti"
    by auto
  have "(ext(?a := 1))(?a := 0) = ext" using ti_refs_ok_dead [OF ok dead] by auto
  then show ?thesis using r run dead True fr by (auto split: option.splits)
qed


section \<open>A concrete heap\<close>

text \<open>An origin and an instance of the same type 64 bits into it, each held once from outside.\<close>

definition demo_child :: type_info where
  "demo_child = demo_ti\<lparr>ti_td := \<lparr>td_typenum = 0, td_clo = demo_clo\<lparr>clo_offset := 64\<rparr>\<rparr>, ti_prev := Some 0, ti_depth := 1\<rparr>"

definition demo_heap_env :: env where
  "demo_heap_env = blank_env\<lparr>bdev_bytes := 4096, h_ti := [0 \<mapsto> demo_ti\<lparr>ti_ref_c := 2\<rparr>, 1 \<mapsto> demo_child], h_next := 2\<rparr>"

definition demo_ext :: "addr \<Rightarrow> nat" where
  "demo_ext a = (if a < 2 then 1 else 0)"

lemma demo_heap_at:
  "h_ti demo_heap_env 0 = Some (demo_ti\<lparr>ti_ref_c := 2\<rparr>)" "h_ti demo_heap_env 1 = Some demo_child" "h_ti demo_heap_env (Suc 0) = Some demo_child"
  "h_ti demo_heap_env x = Some ti \<Longrightarrow> x = 0 \<and> ti = demo_ti\<lparr>ti_ref_c := 2\<rparr> \<or> x = 1 \<and> ti = demo_child" "h_next demo_heap_env = 2"
  by (auto simp: demo_heap_env_def split: if_splits)

lemma demo_heap_ok: "ti_refs_ok demo_ext (h_ti demo_heap_env) 2"
proof -
  have c: "children (h_ti demo_heap_env) 0 = {1}" "children (h_ti demo_heap_env) 1 = {}" "children (h_ti demo_heap_env) (Suc 0) = {}"
    by (auto simp: children_def demo_heap_env_def demo_ti_def demo_child_def split: if_splits)
  show ?thesis
  proof (rule ti_refs_okI)
    show "demo_ext a = 0" if "h_ti demo_heap_env a = None" for a
      using that demo_heap_at(1,2) by (cases "a = 0 \<or> a = 1") (auto simp: demo_ext_def)
  qed (auto dest!: demo_heap_at(4) simp: demo_heap_at c demo_ext_def demo_child_def demo_ti_def demo_clo_def ti_xlate_def ti_clo_def)
qed

lemma demo_path: "ti_path (h_ti demo_heap_env) (Some 1) [1, 0]"
  by (simp add: demo_heap_at demo_child_def demo_ti_def)

lemma demo_phys: "phys_ok demo_T (h_ti demo_heap_env) (\<lambda>e. h_ti e = h_ti demo_heap_env) (\<lambda>x. 64 * x) [1, 0]"
  by (simp add: phys_ok_def demo_heap_at demo_child_def demo_ti_def demo_clo_def ti_phys_offset_def ti_sel_defs)

lemma demo_nums: "typenum_at (h_ti demo_heap_env) 0 = 0" "typenum_at (h_ti demo_heap_env) (Suc 0) = 0"
    "ti_typenum demo_child = 0" "typenum_ok demo_T 0" "asserts_of demo_T 0 = []"
    "tt_param_c (fsl_rt_table demo_T ! 0) = 0"
  by (simp_all add: typenum_at_def demo_heap_at demo_child_def demo_ti_def ti_typenum_def typenum_ok_def demo_T_def asserts_of_def
      TYPENUM_INVALID_def ones32_def demo_tt_def)

theorem typeinfo_verify_exact_witness:
  "\<exists>e'. typeinfo_verify demo_T 1 demo_heap_env = Some (True, e') \<and> h_ti e' = h_ti demo_heap_env"
  using typeinfo_verify_exact [OF demo_path demo_phys refl demo_heap_at(2), where holds = "\<lambda>_. True"]
  by (simp add: demo_nums asserts_ok_def)

theorem verified_chain_bounded_witness:
  "distinct (map (\<lambda>x. (64 * x, typenum_at (h_ti demo_heap_env) x)) [1, 0]) \<and> length [1 :: nat, 0] \<le> u64 (bdev_bytes demo_heap_env * 8) * 2"
proof -
  obtain e' where "typeinfo_verify demo_T 1 demo_heap_env = Some (True, e')"
    using typeinfo_verify_spec [OF demo_path demo_phys refl demo_heap_at(2), where holds = "\<lambda>_. True"]
    by (auto simp: demo_nums asserts_ok_def)
  from verified_chain_bounded [OF demo_path demo_phys refl demo_heap_at(2) _ _ _ _ this, where holds = "\<lambda>_. True"]
  show ?thesis by (simp add: demo_nums asserts_ok_def offset_in_range_def demo_heap_env_def) (simp add: demo_T_def u64_def)
qed


theorem typeinfo_no_leak_witness: "h_ti blank_env = (\<lambda>_. None)"
  by (rule typeinfo_no_leak [of blank_env 0]) (simp add: ti_refs_ok_def blank_env_def)

definition demo_td :: type_desc where
  "demo_td = \<lparr>td_typenum = 0, td_clo = demo_clo\<lparr>clo_offset := 128\<rparr>\<rparr>"


end
