(* ===== verification/TiCopy.thy ===== *)
theory TiCopy
  imports TiHeap
begin

text \<open>
  Copying one instance over another (\<open>typeinfo_phys_copy\<close>) on the \<open>pread\<close> back end: the contents of the
  disk after every round of the loop, and the coherence of the block cache.
\<close>

section \<open>Copying\<close>

definition copied :: "byte list \<Rightarrow> nat \<Rightarrow> nat \<Rightarrow> nat \<Rightarrow> byte list" where
  "copied d S D n = map (\<lambda>j. if D \<le> j \<and> j < D + n then d ! (S + (j - D)) else d ! j) [0..<length d]"

lemma length_copied [simp]: "length (copied d S D n) = length d"
  by (simp add: copied_def)

lemma nth_copied: "j < length d \<Longrightarrow> copied d S D n ! j = (if D \<le> j \<and> j < D + n then d ! (S + (j - D)) else d ! j)"
  by (simp add: copied_def)

lemma copied_0 [simp]: "copied d S D 0 = d"
  by (rule nth_equalityI) (auto simp: nth_copied)

text \<open>One round: the source range ahead has not been overwritten when the copy moves down or the ranges are disjoint.\<close>

lemma copied_step:
  assumes "S + (k + m) \<le> length d" and "D + (k + m) \<le> length d" and "D \<le> S \<or> S + (k + m) \<le> D"
  shows "pwrite64 (copied d S D k) (D + k) (pread64 (copied d S D k) (S + k) m) = copied d S D (k + m)"
proof (rule nth_equalityI)
  let ?c = "copied d S D k" and ?bs = "pread64 (copied d S D k) (S + k) m"
  have lb: "length ?bs = m" using assms(1) by simp
  show "length (pwrite64 ?c (D + k) ?bs) = length (copied d S D (k + m))"
    using assms(2) lb by (simp add: length_pwrite64_in)
  fix j assume "j < length (pwrite64 ?c (D + k) ?bs)"
  then have j: "j < length d" using assms(2) lb by (simp add: length_pwrite64_in)
  show "pwrite64 ?c (D + k) ?bs ! j = copied d S D (k + m) ! j"
  proof (cases "D + k \<le> j \<and> j < D + k + m")
    case True
    then obtain i where i: "j = D + k + i" "i < m" by (metis le_Suc_ex nat_add_left_cancel_less)
    have "\<not> (D \<le> S + k + i \<and> S + k + i < D + k)" using assms(3) i(2) by linarith
    then have "?bs ! i = d ! (S + k + i)" using i(2) assms(1) by (auto simp: nth_copied)
    then have "pwrite64 ?c (D + k) ?bs ! j = d ! (S + k + i)" using i lb by (simp add: nth_pwrite64_in)
    then show ?thesis using i j by (simp add: nth_copied add.assoc)
  next
    case False
    then have "pwrite64 ?c (D + k) ?bs ! j = ?c ! j" using j lb by (intro nth_pwrite64_out) auto
    then show ?thesis using False j by (auto simp: nth_copied)
  qed
qed

definition wrote_disk :: "byte list \<Rightarrow> env \<Rightarrow> env \<Rightarrow> bool" where
  "wrote_disk d e e' \<longleftrightarrow> disk e' = d \<and> io_same (e\<lparr>disk := d\<rparr>) e' \<and> io_ok e'"

lemma fsl_io_write_bytes_spec:
  assumes ok: "io_ok e" and len: "off + length bs \<le> length (disk e)" and ne: "bs \<noteq> []"
  shows "\<exists>e'. fsl_io_write_bytes bs (length bs) off e = Some e' \<and> wrote_disk (pwrite64 (disk e) off bs) e e'"
proof -
  let ?es = "stats_add FSL_STAT_BITS_WRITTEN (u32 (length bs * 8)) (stats_inc FSL_STAT_WRITES e)"
  let ?e' = "fsl_io_cache_drop_bytes off (length bs) (?es\<lparr>disk := pwrite64 (disk ?es) off bs\<rparr>)"
  have oks: "io_ok ?es" using ok by simp
  have "off + length bs < 2 ^ 61" using ok len by (simp add: io_ok_def)
  note co = drop_bytes_coherent [OF oks order_refl this ne _ refl]
  have "io_same (e\<lparr>disk := pwrite64 (disk e) off bs\<rparr>) (?es\<lparr>disk := pwrite64 (disk e) off bs\<rparr>)"
    by (rule io_same_put_disk [OF io_same_trans [OF io_same_stats(2) io_same_stats(1)]])
  moreover have "io_same (?es\<lparr>disk := pwrite64 (disk e) off bs\<rparr>) ?e'" using co(1) len by simp
  ultimately have same: "io_same (e\<lparr>disk := pwrite64 (disk e) off bs\<rparr>) ?e'" by (rule io_same_trans)
  moreover have "io_ok ?e'" using co(2) len by simp
  moreover have "fsl_io_write_bytes bs (length bs) off e = Some ?e'"
    using io_ok_quiet [OF oks] by (simp add: fsl_io_write_bytes_def Let_def)
  moreover have "disk ?e' = pwrite64 (disk e) off bs" using io_same_sel(1) [OF same] by simp
  ultimately show ?thesis unfolding wrote_disk_def by blast
qed

lemma wrote_disk_trans:
  assumes "wrote_disk d e e1" and "wrote_disk d' e1 e2"
  shows "wrote_disk d' e e2"
proof -
  have "io_same (e\<lparr>disk := d'\<rparr>) (e1\<lparr>disk := d'\<rparr>)"
    using io_same_put_disk [of "e\<lparr>disk := d\<rparr>" e1 d'] assms(1) by (simp add: wrote_disk_def)
  then show ?thesis using assms(2) io_same_trans by (auto simp: wrote_disk_def)
qed

lemma wrote_disk_same: "io_ok e' \<Longrightarrow> io_same e e' \<Longrightarrow> wrote_disk (disk e) e e'"
  using io_same_sel(1) [of e e'] by (simp add: wrote_disk_def)

lemma phys_copy_loop_spec:
  assumes "io_ok e" and "disk e = copied d S D k" and "k \<le> n" and "n < 2 ^ 32"
    and "S + n \<le> length d" and "D + n \<le> length d" and "D \<le> S \<or> S + n \<le> D"
  shows "\<exists>e'. phys_copy_loop S D n k e = Some e' \<and> wrote_disk (copied d S D n) e e'"
  using assms
proof (induction "n - k" arbitrary: k e rule: less_induct)
  case less
  note ok = less.prems(1) and dsk = less.prems(2)
  have big: "length d < 2 ^ 60" using ok dsk by (simp add: io_ok_def)
  show ?case
  proof (cases "k < n")
    case False
    then have "wrote_disk (copied d S D n) e e" using wrote_disk_same [OF ok io_same_refl] dsk less.prems(3) by simp
    then show ?thesis using False by (subst phys_copy_loop.simps) simp
  next
    case True
    define m where "m = min (n - k) COPY_BUF_SZ"
    have m: "0 < m" "k + m \<le> n" using True by (auto simp: m_def COPY_BUF_SZ_def)
    have um: "u32 (n - k) = n - k" using less.prems(4) by (simp add: u32_id)
    have mm: "(if n - k > COPY_BUF_SZ then COPY_BUF_SZ else n - k) = m" by (simp add: m_def min_def)
    have addr: "u64 (k + S) = S + k" "u64 (k + D) = D + k" "u32 (k + m) = k + m"
      using less.prems(4-6) big m True by (auto intro!: u64_id u32_id simp: add.commute)
    let ?bs = "pread64 (copied d S D k) (S + k) m" and ?es = "stats_add FSL_STAT_BITS_READ (u32 (m * 8)) e"
    have lb: "length ?bs = m" using less.prems(5) m by simp
    have rd: "fsl_io_read_bytes m (S + k) e = Some (?bs, ?es)" using lb dsk by (simp add: fsl_io_read_bytes_def Let_def)
    have step: "pwrite64 (disk ?es) (D + k) ?bs = copied d S D (k + m)"
      using copied_step [of S k m d D] less.prems(5-7) m dsk by auto
    have "?bs \<noteq> []" using lb m by auto
    with fsl_io_write_bytes_spec [of ?es "D + k" ?bs] obtain e1
      where e1: "fsl_io_write_bytes ?bs m (D + k) ?es = Some e1" "wrote_disk (copied d S D (k + m)) ?es e1"
      using lb ok dsk less.prems(6) m step by auto
    have "n - (k + m) < n - k" using m by simp
    from less.hyps [OF this _ _ m(2) less.prems(4-7), of e1] e1(2) obtain e2
      where e2: "phys_copy_loop S D n (k + m) e1 = Some e2" "wrote_disk (copied d S D n) e1 e2"
      by (auto simp: wrote_disk_def)
    have "phys_copy_loop S D n k e = Some e2"
      using True by (subst phys_copy_loop.simps) (simp add: um mm addr rd e1(1) e2(1) Let_def)
    moreover have "wrote_disk (copied d S D n) e e2"
      using wrote_disk_trans [OF wrote_disk_same wrote_disk_trans [OF e1(2) e2(2)]] ok by simp
    ultimately show ?thesis by blast
  qed
qed

lemma typeinfo_phys_copy_spec:
  assumes ok: "io_ok e2" and same: "io_same e e2"
    and size: "ti_size T src e = Some (8 * n, e1)" "ti_size T dst e1 = Some (8 * n, e2)" and n: "n < 2 ^ 32"
    and phys: "ti_xlate src = None" "ti_xlate dst = None" and off: "ti_offset src = 8 * S" "ti_offset dst = 8 * D"
    and inside: "S + n \<le> length (disk e)" "D + n \<le> length (disk e)" and apart: "D \<le> S \<or> S + n \<le> D"
  shows "\<exists>e'. typeinfo_phys_copy T dst src e = Some e' \<and> wrote_disk (copied (disk e) S D n) e e'"
proof -
  have d: "disk e2 = disk e" using io_same_sel(1) [OF same] .
  obtain e' where e': "phys_copy_loop S D n 0 e2 = Some e'" "wrote_disk (copied (disk e) S D n) e2 e'"
    using phys_copy_loop_spec [OF ok, of "disk e" S D 0 n] n inside apart d by auto
  have "typeinfo_phys_copy T dst src e = Some e'"
    using e'(1) by (simp add: typeinfo_phys_copy_def size phys off)
  moreover have "wrote_disk (copied (disk e) S D n) e e'"
    using wrote_disk_trans [OF wrote_disk_same [OF ok same] e'(2)] .
  ultimately show ?thesis by blast
qed

text \<open>
  C19: \<open>typeinfo_phys_copy\<close> copies exactly the bytes of the source instance over the destination, in rounds of 4096
  bytes, and changes no other byte, when the ranges are disjoint or the destination starts at or before the
  source. The block cache stays coherent.
\<close>

theorem typeinfo_phys_copy_exact:
  assumes "io_ok e2" and "io_same e e2" and "ti_size T src e = Some (8 * n, e1)" "ti_size T dst e1 = Some (8 * n, e2)" and "n < 2 ^ 32"
    and "ti_xlate src = None" "ti_xlate dst = None" and "ti_offset src = 8 * S" "ti_offset dst = 8 * D"
    and "S + n \<le> length (disk e)" "D + n \<le> length (disk e)" and "D \<le> S \<or> S + n \<le> D"
  shows "\<exists>e'. typeinfo_phys_copy T dst src e = Some e' \<and> length (disk e') = length (disk e) \<and>
    (\<forall>j < length (disk e). disk e' ! j = (if D \<le> j \<and> j < D + n then disk e ! (S + (j - D)) else disk e ! j)) \<and>
    io_same (e\<lparr>disk := disk e'\<rparr>) e' \<and> io_ok e'"
  using typeinfo_phys_copy_spec [OF assms] by (auto simp: wrote_disk_def nth_copied)

theorem typeinfo_phys_copy_exact_witness:
  "\<exists>e'. typeinfo_phys_copy demo_T (set_ti_offset 128 demo_ti) demo_ti demo_env = Some e' \<and>
    disk e' ! 17 = disk demo_env ! 1 \<and> disk e' ! 24 = disk demo_env ! 24"
proof -
  have s: "ti_size demo_T demo_ti demo_env = Some (8 * 8, demo_env)" "ti_size demo_T (set_ti_offset 128 demo_ti) demo_env = Some (8 * 8, demo_env)"
    by (simp_all add: ti_size_def demo_ti_def ti_sel_defs TYPENUM_INVALID_def ones32_def tt_by_num_def demo_T_def demo_tt_def)
  show ?thesis
    using typeinfo_phys_copy_exact [OF demo_env_ok(1) io_same_refl s, of 0 16]
    by (force simp: demo_env_ok demo_ti_def demo_clo_def ti_sel_defs)
qed

end
