(* ===== verification/WritePkt.thy ===== *)
theory WritePkt
  imports TiCopy
begin

text \<open>
  Write packets (\<open>writepkt.c\<close>): a packet that repairs an instance, and the relocation of an instance, which
  allocates a place, copies the instance there, and then frees the old place and relinks the reference.

  \<^item> The functions of the packets are generated code. \<open>gen_ok\<close> says what is relied on: they read the disk
    and add writes to the write log, and a \<open>wpkt_gen\<close> gives the writes, conditions and parameters as
    functions of the disk.
  \<^item> \<open>wpkt_writes\<close> is the specification of a packet: the writes of its functions and of the packets it calls, in
    order, all computed from the same contents of the disk.
  \<^item> The array \<open>wpkt_params\<close> of \<open>wpkt_relocate\<close> has 16 entries; more parameters are a run without a result.
\<close>

section \<open>Operations\<close>

text \<open>\<open>wpi_params (clo, in, wpkt_params); fsl_io_do_wpkt (wpi_wpkt, wpkt_params)\<close>, with a buffer of \<open>cap\<close> entries.\<close>

definition wpkt_inst_run :: "fsl_tables \<Rightarrow> nat \<Rightarrow> fsl_rtt_wpkt_inst \<Rightarrow> fsl_rt_closure \<Rightarrow> nat list \<Rightarrow> env \<Rightarrow> env option" where
  "wpkt_inst_run T cap wpi clo params e = do {
     (wpkt_params, e) \<leftarrow> wpi_params wpi clo params e;
     assert_c (length wpkt_params \<le> cap);
     fsl_io_do_wpkt T (wpi_wpkt wpi) wpkt_params e
   }"

definition wpkt_do :: "fsl_tables \<Rightarrow> addr \<Rightarrow> fsl_rtt_wpkt_inst \<Rightarrow> env \<Rightarrow> env option" where
  "wpkt_do T a wpi e = do {
     wpkt \<leftarrow> get_at (fsl_wpkts T) (wpi_wpkt wpi);
     e \<leftarrow> FSL_WRITE_START e;
     ti \<leftarrow> ti_at e a;
     e \<leftarrow> wpkt_inst_run T (wpkt_param_c wpkt) wpi (ti_clo ti) [] e;
     FSL_WRITE_COMPLETE fsl_io_write e
   }"

definition wpkt_relocate :: "fsl_tables \<Rightarrow> addr \<Rightarrow> nat \<times> nat \<Rightarrow> addr \<Rightarrow> nat \<Rightarrow> nat \<Rightarrow> env \<Rightarrow> env option" where
  "wpkt_relocate T p relr sel sel_idx choice_idx e = do {
     tt \<leftarrow> tt_by_num T (fst relr);
     rel \<leftarrow> get_at (tt_reloc tt) (snd relr);
     (choice, e) \<leftarrow> typeinfo_follow_iter T p (IterChoice (fst relr) (snd relr)) choice_idx e;
     a \<leftarrow> choice;
     e \<leftarrow> FSL_WRITE_START e;
     ti \<leftarrow> ti_at e p;
     e \<leftarrow> wpkt_inst_run T 16 (rel_alloc rel) (ti_clo ti) [choice_idx] e;
     e \<leftarrow> FSL_WRITE_COMPLETE fsl_io_write e;
     dst \<leftarrow> ti_at e a;
     src \<leftarrow> ti_at e sel;
     e \<leftarrow> typeinfo_phys_copy T dst src e;
     e \<leftarrow> FSL_WRITE_START e;
     ti \<leftarrow> ti_at e p;
     e \<leftarrow> wpkt_inst_run T 16 (rel_replace rel) (ti_clo ti) [sel_idx] e;
     let (wlog_replace, e) = fsl_io_steal_wlog e;
     e \<leftarrow> FSL_WRITE_START e;
     ti \<leftarrow> ti_at e p;
     e \<leftarrow> wpkt_inst_run T 16 (rel_relink rel) (ti_clo ti) [sel_idx, choice_idx] e;
     e \<leftarrow> FSL_WRITE_COMPLETE fsl_io_write e;
     (_, e) \<leftarrow> fsl_wlog_commit fsl_io_write wlog_replace e;
     typeinfo_free a e
   }"

section \<open>What a packet writes\<close>

record wpkt_gen =
  gen_writes :: "(nat list \<Rightarrow> unit rt) \<Rightarrow> nat list \<Rightarrow> byte list \<Rightarrow> fsl_rt_wlog_ent list"
  gen_cond :: "fsl_rtt_wpkt2wpkt \<Rightarrow> nat list \<Rightarrow> byte list \<Rightarrow> bool"
  gen_params :: "fsl_rtt_wpkt2wpkt \<Rightarrow> nat list \<Rightarrow> byte list \<Rightarrow> nat list"

inductive wpkt_writes :: "fsl_tables \<Rightarrow> wpkt_gen \<Rightarrow> byte list \<Rightarrow> wpkt_job \<Rightarrow> fsl_rt_wlog_ent list \<Rightarrow> bool"
  for T G d where
  wr_run: "get_at (fsl_wpkts T) w = Some wpkt \<Longrightarrow> wpkt_next wpkt = None \<Longrightarrow> wpkt_blks wpkt = None \<Longrightarrow>
     wpkt_writes T G d (WpktCalls (wpkt_calls wpkt) params) ws \<Longrightarrow>
     wpkt_writes T G d (WpktRun w params) (concat (map (\<lambda>f. gen_writes G f params d) (wpkt_funcs wpkt)) @ ws)"
| wr_nil: "wpkt_writes T G d (WpktCalls [] params) []"
| wr_skip: "\<not> gen_cond G c params d \<Longrightarrow> wpkt_writes T G d (WpktCalls cs params) ws \<Longrightarrow>
     wpkt_writes T G d (WpktCalls (c # cs) params) ws"
| wr_call: "gen_cond G c params d \<Longrightarrow> wpkt_writes T G d (WpktRun (w2w_wpkt c) (gen_params G c params d)) ws1 \<Longrightarrow>
     wpkt_writes T G d (WpktCalls cs params) ws2 \<Longrightarrow>
     wpkt_writes T G d (WpktCalls (c # cs) params) (ws1 @ ws2)"

text \<open>The log has room for \<open>n\<close> more writes; \<open>logged ws\<close>: exactly the writes \<open>ws\<close> were added.\<close>

definition log_room :: "nat \<Rightarrow> env \<Rightarrow> bool" where
  "log_room n e \<longleftrightarrow> 0 \<le> wl_idx (io_wlog e) \<and> nat (wl_idx (io_wlog e)) + n \<le> IO_MAX_ACCESS \<and> length (wl_write (io_wlog e)) = IO_MAX_ACCESS"

definition logged :: "fsl_rt_wlog_ent list \<Rightarrow> env \<Rightarrow> env \<Rightarrow> bool" where
  "logged ws e e' \<longleftrightarrow> io_same (e\<lparr>io_wlog := io_wlog e'\<rparr>) e' \<and> io_ok e' \<and>
     wl_idx (io_wlog e') = wl_idx (io_wlog e) + int (length ws) \<and> length (wl_write (io_wlog e')) = length (wl_write (io_wlog e)) \<and>
     wlog_pending (io_wlog e') = wlog_pending (io_wlog e) @ ws"

definition reads_only :: "env \<Rightarrow> env \<Rightarrow> bool" where
  "reads_only e e' \<longleftrightarrow> io_same e e' \<and> io_ok e'"

definition gen_ok :: "fsl_tables \<Rightarrow> wpkt_gen \<Rightarrow> bool" where
  "gen_ok T G \<longleftrightarrow> (\<forall>wpkt \<in> set (fsl_wpkts T).
     (\<forall>f \<in> set (wpkt_funcs wpkt). \<forall>params e. io_ok e \<longrightarrow> log_room (length (gen_writes G f params (disk e))) e \<longrightarrow>
        (\<exists>e'. f params e = Some ((), e') \<and> logged (gen_writes G f params (disk e)) e e')) \<and>
     (\<forall>c \<in> set (wpkt_calls wpkt). \<forall>params e. io_ok e \<longrightarrow>
        (\<exists>e'. w2w_cond_f c params e = Some (gen_cond G c params (disk e), e') \<and> reads_only e e') \<and>
        (\<exists>e'. w2w_params_f c params e = Some (gen_params G c params (disk e), e') \<and> reads_only e e')))"

lemma logged_disk: "logged ws e e' \<Longrightarrow> disk e' = disk e"
  using io_same_sel(1) [of "e\<lparr>io_wlog := io_wlog e'\<rparr>" e'] by (simp add: logged_def)

lemma logged_ok: "logged ws e e' \<Longrightarrow> io_ok e'"
  by (simp add: logged_def)

lemma io_same_put_log: "io_same e e' \<Longrightarrow> io_same (e\<lparr>io_wlog := w\<rparr>) (e'\<lparr>io_wlog := w\<rparr>)"
  by (cases e; cases e') (simp add: io_same_def)

lemma logged_trans: "logged ws1 e e1 \<Longrightarrow> logged ws2 e1 e2 \<Longrightarrow> logged (ws1 @ ws2) e e2"
  using io_same_put_log [of "e\<lparr>io_wlog := io_wlog e1\<rparr>" e1 "io_wlog e2"] io_same_trans
  by (auto simp: logged_def)

lemma reads_only_logged: "reads_only e e' \<Longrightarrow> logged [] e e'"
  using io_same_sel(9) [of e e'] by (simp add: logged_def reads_only_def)

lemma log_room_after: "log_room (length ws1 + n) e \<Longrightarrow> logged ws1 e e1 \<Longrightarrow> log_room n e1"
  by (auto simp: log_room_def logged_def nat_add_distrib)

lemma log_room_less: "log_room n e \<Longrightarrow> m \<le> n \<Longrightarrow> log_room m e"
  by (auto simp: log_room_def)

lemma run_wpkt_funcs_logs:
  assumes "\<forall>f \<in> set fs. \<forall>params e. io_ok e \<longrightarrow> log_room (length (gen_writes G f params (disk e))) e \<longrightarrow>
      (\<exists>e'. f params e = Some ((), e') \<and> logged (gen_writes G f params (disk e)) e e')"
    and "io_ok e" and "log_room (length (concat (map (\<lambda>f. gen_writes G f params (disk e)) fs))) e"
  shows "\<exists>e'. run_wpkt_funcs fs params e = Some e' \<and> logged (concat (map (\<lambda>f. gen_writes G f params (disk e)) fs)) e e'"
  using assms
proof (induction fs arbitrary: e)
  case Nil
  then show ?case using reads_only_logged [of e e] by (simp add: reads_only_def)
next
  case (Cons f fs)
  let ?w = "gen_writes G f params (disk e)" and ?ws = "concat (map (\<lambda>f. gen_writes G f params (disk e)) fs)"
  have room: "log_room (length ?w + length ?ws) e" using Cons.prems(3) by (simp only: list.simps concat.simps length_append)
  obtain e1 where e1: "f params e = Some ((), e1)" "logged ?w e e1"
    using Cons.prems(1,2) log_room_less [OF room] by (metis le_add1 list.set_intros(1))
  have fs: "\<forall>f \<in> set fs. \<forall>params e. io_ok e \<longrightarrow> log_room (length (gen_writes G f params (disk e))) e \<longrightarrow>
      (\<exists>e'. f params e = Some ((), e') \<and> logged (gen_writes G f params (disk e)) e e')" using Cons.prems(1) by simp
  obtain e2 where "run_wpkt_funcs fs params e1 = Some e2" "logged ?ws e1 e2"
    using Cons.IH [OF fs logged_ok [OF e1(2)]] log_room_after [OF room e1(2)] logged_disk [OF e1(2)] by auto
  then show ?case using e1 logged_trans [OF e1(2)] by auto
qed

definition job_ok :: "fsl_tables \<Rightarrow> wpkt_job \<Rightarrow> bool" where
  "job_ok T job \<longleftrightarrow> (case job of WpktRun w params \<Rightarrow> True
     | WpktCalls cs params \<Rightarrow> \<forall>c \<in> set cs. \<exists>wpkt \<in> set (fsl_wpkts T). c \<in> set (wpkt_calls wpkt))"

lemma gen_ok_cond:
  assumes "gen_ok T G" and "job_ok T (WpktCalls (c # cs) params)" and "io_ok e"
  shows "\<exists>e'. w2w_cond_f c ps e = Some (gen_cond G c ps (disk e), e') \<and> reads_only e e'"
    and "\<exists>e'. w2w_params_f c ps e = Some (gen_params G c ps (disk e), e') \<and> reads_only e e'"
  using assms by (auto simp: gen_ok_def job_ok_def)

lemma do_wpkt_job_logs:
  assumes "wpkt_writes T G d job ws" and gen: "gen_ok T G" and "job_ok T job" and "io_ok e" and "disk e = d" and "log_room (length ws) e"
  shows "\<exists>e'. do_wpkt_job T job e = Some e' \<and> logged ws e e'"
  using assms(1,3-)
proof (induction arbitrary: e rule: wpkt_writes.induct)
  case (wr_run w wpkt params ws)
  let ?w = "concat (map (\<lambda>f. gen_writes G f params d) (wpkt_funcs wpkt))"
  have mem: "wpkt \<in> set (fsl_wpkts T)" using wr_run.hyps(1) by (auto simp: get_at_eq_Some)
  have room: "log_room (length ?w + length ws) e" using wr_run.prems(4) by simp
  obtain e1 where e1: "run_wpkt_funcs (wpkt_funcs wpkt) params e = Some e1" "logged ?w e e1"
    using run_wpkt_funcs_logs [of "wpkt_funcs wpkt" G e params] gen mem wr_run.prems(2,3) log_room_less [OF room] by (auto simp: gen_ok_def)
  have "job_ok T (WpktCalls (wpkt_calls wpkt) params)" using mem by (auto simp: job_ok_def)
  then obtain e2 where e2: "do_wpkt_job T (WpktCalls (wpkt_calls wpkt) params) e1 = Some e2" "logged ws e1 e2"
    using wr_run.IH [of e1] logged_ok [OF e1(2)] logged_disk [OF e1(2)] wr_run.prems(3) log_room_after [OF room e1(2)] by auto
  show ?case using wr_run.hyps e1 e2 logged_trans [OF e1(2) e2(2)] by (subst do_wpkt_job.simps) simp
next
  case (wr_nil params)
  then show ?case using reads_only_logged [of e e] by (subst do_wpkt_job.simps) (simp add: reads_only_def)
next
  case (wr_skip c params cs ws)
  obtain e1 where e1: "w2w_cond_f c params e = Some (False, e1)" "logged [] e e1"
    using gen_ok_cond(1) [OF gen wr_skip.prems(1,2), of params] wr_skip.hyps(1) wr_skip.prems(3) reads_only_logged by auto
  obtain e2 where "do_wpkt_job T (WpktCalls cs params) e1 = Some e2" "logged ws e1 e2"
    using wr_skip.IH [of e1] logged_ok [OF e1(2)] logged_disk [OF e1(2)] wr_skip.prems log_room_after [of "[]" "length ws", OF _ e1(2)]
    by (auto simp: job_ok_def)
  then show ?case using e1 logged_trans [OF e1(2)] by (subst do_wpkt_job.simps) auto
next
  case (wr_call c params ws1 cs ws2)
  obtain e1 where e1: "w2w_cond_f c params e = Some (True, e1)" "logged [] e e1"
    using gen_ok_cond(1) [OF gen wr_call.prems(1,2), of params] wr_call.hyps(1) wr_call.prems(3) reads_only_logged by auto
  obtain e2 where e2: "w2w_params_f c params e1 = Some (gen_params G c params d, e2)" "logged [] e1 e2"
    using gen_ok_cond(2) [OF gen wr_call.prems(1) logged_ok [OF e1(2)], of params] logged_disk [OF e1(2)] wr_call.prems(3) reads_only_logged by auto
  have e12: "logged [] e e2" using logged_trans [OF e1(2) e2(2)] by simp
  have room: "log_room (length ws1 + length ws2) e2" using log_room_after [of "[]", OF _ e12] wr_call.prems(4) by simp
  obtain e3 where e3: "do_wpkt_job T (WpktRun (w2w_wpkt c) (gen_params G c params d)) e2 = Some e3" "logged ws1 e2 e3"
    using wr_call.IH(1) [of e2] logged_ok [OF e12] logged_disk [OF e12] wr_call.prems(3) log_room_less [OF room] by (auto simp: job_ok_def)
  obtain e4 where e4: "do_wpkt_job T (WpktCalls cs params) e3 = Some e4" "logged ws2 e3 e4"
    using wr_call.IH(2) [of e3] logged_ok [OF e3(2)] logged_disk [OF e3(2)] logged_disk [OF e12] wr_call.prems(1,3) log_room_after [OF room e3(2)]
    by (auto simp: job_ok_def)
  have "logged (ws1 @ ws2) e e4" using logged_trans [OF e12 logged_trans [OF e3(2) e4(2)]] by simp
  then show ?case using e1(1) e2(1) e3(1) e4(1) by (subst do_wpkt_job.simps) simp
qed

section \<open>Disks after a list of writes\<close>

definition byte_of_bits :: "(nat \<Rightarrow> bool) \<Rightarrow> nat \<Rightarrow> byte" where
  "byte_of_bits f k = horner_sum of_bool 2 (map (\<lambda>i. f (8 * k + i)) [0..<8])"

definition write_all :: "fsl_rt_wlog_ent list \<Rightarrow> byte list \<Rightarrow> byte list" where
  "write_all ws d = map (byte_of_bits (apply_writes ws (disk_bit d))) [0..<length d]"

lemma write_all_unique:
  assumes "disk_bit d' = apply_writes ws (disk_bit d)" and "length d' = length d"
  shows "d' = write_all ws d"
proof (rule nth_equalityI)
  fix k assume k: "k < length d'"
  have "d' ! k = byte_of_bits (disk_bit d') k"
    by (rule bit_word_eqI) (use k in \<open>simp add: byte_of_bits_def bit_horner_sum_bit_word_iff disk_bit_byte\<close>)
  then show "d' ! k = write_all ws d ! k" using k assms by (simp add: write_all_def)
qed (simp add: write_all_def assms(2))

text \<open>The state differs at most in the disk, the write log and what reads may change.\<close>

definition io_upd :: "env \<Rightarrow> env \<Rightarrow> bool" where
  "io_upd e e' \<longleftrightarrow> io_same (e\<lparr>disk := disk e', io_wlog := io_wlog e'\<rparr>) e' \<and> io_ok e'"

lemma io_upd_trans:
  assumes "io_upd e e1" and "io_upd e1 e2"
  shows "io_upd e e2"
proof -
  have "io_same (e\<lparr>disk := disk e2, io_wlog := io_wlog e2\<rparr>) (e1\<lparr>disk := disk e2, io_wlog := io_wlog e2\<rparr>)"
    using io_same_put_log [OF io_same_put_disk [of "e\<lparr>disk := disk e1, io_wlog := io_wlog e1\<rparr>" e1 "disk e2"], of "io_wlog e2"] assms(1)
    by (simp add: io_upd_def)
  then show ?thesis using assms(2) io_same_trans by (auto simp: io_upd_def)
qed

lemma io_upd_heap: "io_upd e e' \<Longrightarrow> h_ti e' = h_ti e"
  using io_same_sel(6) [of "e\<lparr>disk := disk e', io_wlog := io_wlog e'\<rparr>" e'] by (simp add: io_upd_def)

lemma logged_upd: "logged ws e e' \<Longrightarrow> io_upd e e'"
  using logged_disk [of ws e e'] by (simp add: logged_def io_upd_def)

lemma wrote_upd: "wrote_disk d e e' \<Longrightarrow> io_upd e e'"
  using io_same_sel(9) [of "e\<lparr>disk := d\<rparr>" e'] by (simp add: wrote_disk_def io_upd_def)

lemma io_ok_log: "io_ok (e\<lparr>io_wlog := w\<rparr>) = io_ok e"
  by (simp add: io_ok_def cache_ok_def no_hooks_def)

lemma io_upd_log: "io_ok e \<Longrightarrow> io_upd e (e\<lparr>io_wlog := w\<rparr>)"
  by (simp add: io_upd_def io_ok_log)

definition writes_ok :: "byte list \<Rightarrow> fsl_rt_wlog_ent list \<Rightarrow> bool" where
  "writes_ok d ws \<longleftrightarrow> length ws \<le> IO_MAX_ACCESS \<and> (\<forall>we \<in> set ws. write_ok d (we_bit_addr we) (we_bits we))"

lemma wlog_commit_spec:
  assumes "io_ok e" and "writes_ok (disk e) (wlog_pending wl)" and "0 \<le> wl_idx wl" and "nat (wl_idx wl) \<le> length (wl_write wl)"
  shows "\<exists>e'. fsl_wlog_commit fsl_io_write wl e = Some (wl\<lparr>wl_idx := 0\<rparr>, e') \<and> disk e' = write_all (wlog_pending wl) (disk e) \<and>
    io_same (e\<lparr>disk := disk e'\<rparr>) e' \<and> io_ok e'"
proof -
  obtain e' where e': "wlog_commit_loop fsl_io_write (wlog_pending wl) e = Some e'" "disk_bit (disk e') = apply_writes (wlog_pending wl) (disk_bit (disk e))"
    "length (disk e') = length (disk e)" "io_same (e\<lparr>disk := disk e'\<rparr>) e'" "io_ok e'"
    using wlog_commit_loop_spec [of e "wlog_pending wl"] assms(1,2) by (auto simp: writes_ok_def)
  then show ?thesis using assms(3,4) write_all_unique [OF e'(2,3)] by (auto simp: fsl_wlog_commit_def wlog_pending_def)
qed

definition log_stopped :: "env \<Rightarrow> bool" where
  "log_stopped e \<longleftrightarrow> wl_idx (io_wlog e) = - 1 \<and> length (wl_write (io_wlog e)) = IO_MAX_ACCESS"

lemma write_start_spec:
  assumes "io_ok e" and "log_stopped e"
  shows "\<exists>e'. FSL_WRITE_START e = Some e' \<and> io_upd e e' \<and> disk e' = disk e \<and> wlog_pending (io_wlog e') = [] \<and>
    (\<forall>n \<le> IO_MAX_ACCESS. log_room n e')"
  using assms io_upd_log [OF assms(1)]
  by (simp add: FSL_WRITE_START_def fsl_wlog_start_def log_stopped_def log_room_def wlog_pending_def)

lemma write_complete_spec:
  assumes "io_ok e" and "writes_ok (disk e) (wlog_pending (io_wlog e))" and "log_room 0 e"
  shows "\<exists>e'. FSL_WRITE_COMPLETE fsl_io_write e = Some e' \<and> disk e' = write_all (wlog_pending (io_wlog e)) (disk e) \<and> io_upd e e' \<and> log_stopped e'"
proof -
  obtain e1 where e1: "fsl_wlog_commit fsl_io_write (io_wlog e) e = Some ((io_wlog e)\<lparr>wl_idx := 0\<rparr>, e1)"
    "disk e1 = write_all (wlog_pending (io_wlog e)) (disk e)" "wrote_disk (disk e1) e e1"
    using wlog_commit_spec [OF assms(1,2)] assms(3) by (auto simp: log_room_def wrote_disk_def)
  let ?e = "e1\<lparr>io_wlog := (io_wlog e)\<lparr>wl_idx := - 1\<rparr>\<rparr>"
  have "FSL_WRITE_COMPLETE fsl_io_write e = Some ?e" using e1(1) by (simp add: FSL_WRITE_COMPLETE_def fsl_wlog_stop_def)
  moreover have "io_upd e ?e" using io_upd_trans [OF wrote_upd [OF e1(3)] io_upd_log] e1(3) by (simp add: wrote_disk_def)
  ultimately show ?thesis using e1(2) assms(3) by (simp add: log_stopped_def log_room_def)
qed

section \<open>Transactions\<close>

text \<open>\<open>inst_ok\<close>: on the disk \<open>d\<close> a packet instance computes parameters that fit and its packet writes \<open>ws\<close>.\<close>

definition inst_ok :: "fsl_tables \<Rightarrow> wpkt_gen \<Rightarrow> nat \<Rightarrow> fsl_rtt_wpkt_inst \<Rightarrow> fsl_rt_closure \<Rightarrow> nat list \<Rightarrow> byte list \<Rightarrow> fsl_rt_wlog_ent list \<Rightarrow> bool" where
  "inst_ok T G cap wpi clo params d ws \<longleftrightarrow> writes_ok d ws \<and> (\<exists>ps. length ps \<le> cap \<and>
     (\<forall>e. io_ok e \<longrightarrow> disk e = d \<longrightarrow> (\<exists>e'. wpi_params wpi clo params e = Some (ps, e') \<and> reads_only e e')) \<and>
     wpkt_writes T G d (WpktRun (wpi_wpkt wpi) ps) ws)"

lemma wpkt_inst_run_logs:
  assumes gen: "gen_ok T G" and inst: "inst_ok T G cap wpi clo params (disk e) ws" and ok: "io_ok e" and room: "log_room (length ws) e"
  shows "\<exists>e'. wpkt_inst_run T cap wpi clo params e = Some e' \<and> logged ws e e'"
proof -
  obtain ps e1 where ps: "length ps \<le> cap" "wpi_params wpi clo params e = Some (ps, e1)" "logged [] e e1"
    "wpkt_writes T G (disk e) (WpktRun (wpi_wpkt wpi) ps) ws"
    using inst ok reads_only_logged unfolding inst_ok_def by blast
  have "job_ok T (WpktRun (wpi_wpkt wpi) ps)" by (simp add: job_ok_def)
  then obtain e2 where e2: "do_wpkt_job T (WpktRun (wpi_wpkt wpi) ps) e1 = Some e2" "logged ws e1 e2"
    using do_wpkt_job_logs [OF ps(4) gen _ logged_ok [OF ps(3)] logged_disk [OF ps(3)]] log_room_after [of "[]", OF _ ps(3)] room by auto
  then show ?thesis
    using ps(1,2) logged_trans [OF ps(3) e2(2)] by (simp add: wpkt_inst_run_def fsl_io_do_wpkt_def)
qed

text \<open>Between start and completion: the packet's writes are pending and the disk is untouched.\<close>

lemma wpkt_pending:
  assumes gen: "gen_ok T G" and inst: "inst_ok T G cap wpi clo params (disk e) ws" and ok: "io_ok e" and stop: "log_stopped e"
  shows "\<exists>e1 e2. FSL_WRITE_START e = Some e1 \<and> h_ti e1 = h_ti e \<and> wpkt_inst_run T cap wpi clo params e1 = Some e2 \<and>
    wlog_pending (io_wlog e2) = ws \<and> log_room 0 e2 \<and> disk e2 = disk e \<and> io_upd e e2"
proof -
  obtain e1 where e1: "FSL_WRITE_START e = Some e1" "io_upd e e1" "disk e1 = disk e" "wlog_pending (io_wlog e1) = []"
      "\<forall>n \<le> IO_MAX_ACCESS. log_room n e1"
    using write_start_spec [OF ok stop] by blast
  have "log_room (length ws) e1" using e1(5) inst by (simp add: inst_ok_def writes_ok_def)
  moreover have "io_ok e1" using e1(2) by (simp add: io_upd_def)
  ultimately obtain e2 where e2: "wpkt_inst_run T cap wpi clo params e1 = Some e2" "logged ws e1 e2"
    using wpkt_inst_run_logs [OF gen] inst e1(3) by metis
  have "log_room 0 e2" using log_room_after [of ws 0 e1 e2] \<open>log_room (length ws) e1\<close> e2(2) by simp
  moreover have "wlog_pending (io_wlog e2) = ws" using e2(2) e1(4) by (simp add: logged_def)
  ultimately show ?thesis
    using e1 e2 logged_disk [OF e2(2)] io_upd_trans [OF e1(2) logged_upd [OF e2(2)]] io_upd_heap [OF e1(2)] by metis
qed

lemma wpkt_txn:
  assumes "gen_ok T G" and inst: "inst_ok T G cap wpi clo params (disk e) ws" and "io_ok e" and "log_stopped e"
  shows "\<exists>e1 e2 e3. FSL_WRITE_START e = Some e1 \<and> h_ti e1 = h_ti e \<and> wpkt_inst_run T cap wpi clo params e1 = Some e2 \<and>
    FSL_WRITE_COMPLETE fsl_io_write e2 = Some e3 \<and> disk e3 = write_all ws (disk e) \<and> io_upd e e3 \<and> log_stopped e3"
proof -
  obtain e1 e2 where e2: "FSL_WRITE_START e = Some e1" "h_ti e1 = h_ti e" "wpkt_inst_run T cap wpi clo params e1 = Some e2"
    "wlog_pending (io_wlog e2) = ws" "log_room 0 e2" "disk e2 = disk e" "io_upd e e2"
    using wpkt_pending [OF assms] by blast
  have "writes_ok (disk e2) (wlog_pending (io_wlog e2))" using inst e2(4,6) by (simp add: inst_ok_def)
  then obtain e3 where "FSL_WRITE_COMPLETE fsl_io_write e2 = Some e3" "disk e3 = write_all ws (disk e)" "io_upd e2 e3" "log_stopped e3"
    using write_complete_spec [of e2] e2(4-7) by (auto simp: io_upd_def)
  then show ?thesis using e2 io_upd_trans by blast
qed

section \<open>Relocation\<close>

text \<open>The instance has \<open>n\<close> bytes in every state, and asking for its size only reads.\<close>

definition size_ok :: "fsl_tables \<Rightarrow> type_info \<Rightarrow> nat \<Rightarrow> bool" where
  "size_ok T ti n \<longleftrightarrow> (\<forall>e. io_ok e \<longrightarrow> (\<exists>e'. ti_size T ti e = Some (8 * n, e') \<and> reads_only e e'))"

text \<open>
  C1: \<open>wpkt_relocate\<close> runs its three packets in the order that makes relocation work. The allocation packet is committed
  first, then the selected instance is copied to the chosen place; the replace and relink packets are both
  computed from the disk as it is after the copy, and only then committed, relink before replace. The new
  instance's reference is released at the end.
\<close>

theorem wpkt_relocate_exact:
  assumes tab: "tt_by_num T (fst relr) = Some tt" "get_at (tt_reloc tt) (snd relr) = Some rel" and gen: "gen_ok T G"
    and follow: "typeinfo_follow_iter T p (IterChoice (fst relr) (snd relr)) ci e = Some (Some a, e0)"
    and e0: "io_ok e0" "log_stopped e0" and ti: "h_ti e0 p = Some ti" "h_ti e0 a = Some dst" "h_ti e0 sel = Some src"
    and refs: "ti_refs_ok ext (h_ti e0) next" "0 < ext a"
    and size: "size_ok T src n" "size_ok T dst n" and n: "n < 2 ^ 32"
    and phys: "ti_xlate src = None" "ti_xlate dst = None" "ti_offset src = 8 * S" "ti_offset dst = 8 * D"
    and inside: "S + n \<le> length (disk e0)" "D + n \<le> length (disk e0)" and apart: "D \<le> S \<or> S + n \<le> D"
    and alloc: "inst_ok T G 16 (rel_alloc rel) (ti_clo ti) [ci] (disk e0) wa"
    and d2: "d2 = copied (write_all wa (disk e0)) S D n"
    and replace: "inst_ok T G 16 (rel_replace rel) (ti_clo ti) [si] d2 wr"
    and relink: "inst_ok T G 16 (rel_relink rel) (ti_clo ti) [si, ci] d2 wl" and wr: "writes_ok (write_all wl d2) wr"
  shows "\<exists>e'. wpkt_relocate T p relr sel si ci e = Some e' \<and> disk e' = write_all wr (write_all wl d2) \<and>
    io_ok e' \<and> ti_refs_ok (ext(a := ext a - 1)) (h_ti e') next"
proof -
  obtain e1 e2 e3 where A: "FSL_WRITE_START e0 = Some e1" "h_ti e1 = h_ti e0" "wpkt_inst_run T 16 (rel_alloc rel) (ti_clo ti) [ci] e1 = Some e2"
    "FSL_WRITE_COMPLETE fsl_io_write e2 = Some e3" "disk e3 = write_all wa (disk e0)" "io_upd e0 e3" "log_stopped e3"
    using wpkt_txn [OF gen alloc e0] by blast
  have ok3: "io_ok e3" and h3: "h_ti e3 = h_ti e0" using A(6) io_upd_heap by (auto simp: io_upd_def)
  obtain s1 s2 where sz: "ti_size T src e3 = Some (8 * n, s1)" "ti_size T dst s1 = Some (8 * n, s2)" "io_same e3 s2" "io_ok s2"
    using size ok3 io_same_trans unfolding size_ok_def reads_only_def by metis
  have len: "length (disk e3) = length (disk e0)" using A(5) by (simp add: write_all_def)
  obtain e4 where C: "typeinfo_phys_copy T dst src e3 = Some e4" "wrote_disk d2 e3 e4"
    using typeinfo_phys_copy_spec [OF sz(4,3,1,2) n phys] inside apart A(5) d2 len by auto
  have ok4: "io_ok e4" "disk e4 = d2" "io_upd e3 e4" using C(2) wrote_upd by (auto simp: wrote_disk_def)
  then have stop4: "log_stopped e4" and h4: "h_ti e4 = h_ti e0"
    using io_same_sel(9) [of "e3\<lparr>disk := d2\<rparr>" e4] C(2) A(7) io_upd_heap [OF ok4(3)] h3 by (auto simp: wrote_disk_def log_stopped_def)
  obtain e5 e6 where R: "FSL_WRITE_START e4 = Some e5" "h_ti e5 = h_ti e4" "wpkt_inst_run T 16 (rel_replace rel) (ti_clo ti) [si] e5 = Some e6"
    "wlog_pending (io_wlog e6) = wr" "log_room 0 e6" "disk e6 = d2" "io_upd e4 e6"
    using wpkt_pending [OF gen _ ok4(1) stop4] replace ok4(2) by metis
  let ?w = "io_wlog e6" and ?e = "e6\<lparr>io_wlog := fsl_wlog_init\<rparr>"
  have ok6: "io_ok ?e" "log_stopped ?e" "h_ti ?e = h_ti e0" "disk ?e = d2"
    using R(6,7) io_upd_heap [OF R(7)] h4 by (auto simp: io_upd_def io_ok_log log_stopped_def fsl_wlog_init_def)
  obtain e7 e8 e9 where L: "FSL_WRITE_START ?e = Some e7" "h_ti e7 = h_ti ?e" "wpkt_inst_run T 16 (rel_relink rel) (ti_clo ti) [si, ci] e7 = Some e8"
    "FSL_WRITE_COMPLETE fsl_io_write e8 = Some e9" "disk e9 = write_all wl d2" "io_upd ?e e9" "log_stopped e9"
    using wpkt_txn [OF gen _ ok6(1,2)] relink ok6(4) by metis
  have ok9: "io_ok e9" "h_ti e9 = h_ti e0" using L(6) io_upd_heap [OF L(6)] ok6(3) by (auto simp: io_upd_def)
  have "writes_ok (disk e9) (wlog_pending ?w)" using wr R(4) L(5) by simp
  then obtain e10 where K: "fsl_wlog_commit fsl_io_write ?w e9 = Some (?w\<lparr>wl_idx := 0\<rparr>, e10)" "disk e10 = write_all wr (write_all wl d2)"
      "io_same (e9\<lparr>disk := disk e10\<rparr>) e10" "io_ok e10"
    using wlog_commit_spec [OF ok9(1), of ?w] R(4,5) L(5) by (auto simp: log_room_def)
  have h10: "h_ti e10 = h_ti e0" using io_same_sel(6) [OF K(3)] ok9(2) by simp
  obtain e' where F: "typeinfo_free a e10 = Some e'" "ti_refs_ok (ext(a := ext a - 1)) (h_ti e') next" "only_ti {} e10 e'"
    using typeinfo_free_refs [of ext e10 "{}" "next" a] refs h10 by (auto simp: heap_without_def)
  have "wpkt_relocate T p relr sel si ci e = Some e'"
    unfolding wpkt_relocate_def
    by (simp add: tab follow A(1,3,4) C(1) R(1,3) L(1,3,4) K(1) F(1) ti_at_def A(2) R(2) L(2) ti h3 h4 ok6(3) fsl_io_steal_wlog_def fsl_wlog_copy_def)
  moreover have "disk e' = disk e10" "io_ok e'" using F(3) K(4) by (auto simp: only_ti_def io_ok_def cache_ok_def no_hooks_def)
  ultimately show ?thesis using F(2) K(2) by auto
qed

section \<open>A concrete relocation\<close>

text \<open>
  A type with one relocation whose packets store their first parameter in byte 32. Instance 1 at byte 8 moves to
  choice 3 at byte 24.
\<close>

definition demo_store :: "nat list \<Rightarrow> unit rt" where
  "demo_store ps e = do { e \<leftarrow> writeVal 256 8 (of_nat (ps ! 0)) e; Some ((), e) }"

definition demo_inst :: fsl_rtt_wpkt_inst where
  "demo_inst = \<lparr>wpi_params = (\<lambda>clo params e. Some (params, e)), wpi_wpkt = 0\<rparr>"

definition demo_reloc :: fsl_rtt_reloc where
  "demo_reloc = \<lparr>rel_sel = vt_iter demo_vt,
     rel_choice = \<lparr>it_type_dst = 0, it_range = (\<lambda>c i e. Some ((64 * i, [], None), e)), it_min = (\<lambda>c e. Some (0, e)), it_max = (\<lambda>c e. Some (5, e))\<rparr>,
     rel_ccond = (\<lambda>c i e. Some (True, e)), rel_alloc = demo_inst, rel_replace = demo_inst, rel_relink = demo_inst, rel_name = None\<rparr>"

definition demo_wpkt :: fsl_rtt_wpkt where
  "demo_wpkt = \<lparr>wpkt_param_c = 1, wpkt_funcs = [demo_store], wpkt_calls = [], wpkt_blks = None, wpkt_next = None\<rparr>"

definition demo_reloc_T :: fsl_tables where
  "demo_reloc_T = demo_T\<lparr>fsl_rt_table := [demo_tt\<lparr>tt_reloc := [demo_reloc]\<rparr>], fsl_wpkts := [demo_wpkt]\<rparr>"

definition demo_we :: "nat \<Rightarrow> fsl_rt_wlog_ent" where
  "demo_we v = \<lparr>we_bit_addr = 256, we_val = of_nat v, we_bits = 8\<rparr>"

definition demo_G :: wpkt_gen where
  "demo_G = \<lparr>gen_writes = (\<lambda>f ps d. [demo_we (ps ! 0)]), gen_cond = (\<lambda>c ps d. False), gen_params = (\<lambda>c ps d. [])\<rparr>"

definition demo_reloc_env :: env where
  "demo_reloc_env = demo_env\<lparr>h_ti := h_ti demo_heap_env, h_next := 2\<rparr>"

lemma writeVal_logs:
  assumes "log_room 1 e" and "io_ok e" and "sz < 256"
  shows "\<exists>e'. writeVal off sz v e = Some e' \<and> logged [\<lparr>we_bit_addr = off, we_val = v, we_bits = sz\<rparr>] e e'"
proof -
  let ?i = "nat (wl_idx (io_wlog e))" and ?we = "\<lparr>we_bit_addr = off, we_val = v, we_bits = sz\<rparr>"
  have i: "?i < length (wl_write (io_wlog e))" "0 \<le> wl_idx (io_wlog e)" "wl_idx (io_wlog e) \<noteq> int IO_MAX_ACCESS"
    using assms(1) by (auto simp: log_room_def)
  then have "writeVal off sz v e = Some (e\<lparr>io_wlog := (io_wlog e)\<lparr>wl_write := (wl_write (io_wlog e))[?i := ?we], wl_idx := wl_idx (io_wlog e) + 1\<rparr>\<rparr>)"
    using assms(3) by (simp add: writeVal_def fsl_wlog_add_def)
  moreover have "take (nat (wl_idx (io_wlog e) + 1)) ((wl_write (io_wlog e))[?i := ?we]) = take ?i (wl_write (io_wlog e)) @ [?we]"
    using i(1,2) by (simp add: nat_add_distrib take_Suc_conv_app_nth)
  ultimately show ?thesis using assms(2) by (simp add: logged_def io_ok_log wlog_pending_def)
qed

lemma demo_gen_ok: "gen_ok demo_reloc_T demo_G"
proof -
  have "\<exists>e'. demo_store params e = Some ((), e') \<and> logged [demo_we (params ! 0)] e e'" if "io_ok e" "log_room (Suc 0) e" for params e
    using writeVal_logs [of e 8 256 "of_nat (params ! 0)"] that by (auto simp: demo_store_def demo_we_def)
  then show ?thesis by (simp add: gen_ok_def demo_reloc_T_def demo_wpkt_def demo_G_def)
qed

lemma demo_inst_ok:
  assumes "length ps \<le> 16" and "33 \<le> line_bytes (length d)"
  shows "inst_ok demo_reloc_T demo_G 16 demo_inst clo ps d [demo_we (ps ! 0)]"
proof -
  have "wpkt_writes demo_reloc_T demo_G d (WpktCalls (wpkt_calls demo_wpkt) ps) []"
    using wr_nil by (simp add: demo_wpkt_def)
  from wr_run [OF _ _ _ this, of 0]
  have "wpkt_writes demo_reloc_T demo_G d (WpktRun 0 ps) [demo_we (ps ! 0)]"
    by (simp add: demo_reloc_T_def demo_wpkt_def demo_G_def)
  then show ?thesis
    using assms by (auto simp: inst_ok_def demo_inst_def writes_ok_def write_ok_def demo_we_def IO_MAX_ACCESS_def reads_only_def)
qed

definition demo_dst :: type_info where
  "demo_dst = demo_ti\<lparr>ti_td := \<lparr>td_typenum = 0, td_clo = demo_clo\<lparr>clo_offset := 192\<rparr>\<rparr>, ti_prev := Some 0, ti_print_name := Some ''iter'',
     ti_print_idxval := 3, ti_iter := Some (IterChoice 0 0), ti_depth := 1\<rparr>"

definition demo_reloc_heap :: "addr \<Rightarrow> type_info option" where
  "demo_reloc_heap = (h_ti demo_heap_env)(0 \<mapsto> demo_ti\<lparr>ti_ref_c := 3\<rparr>, 2 \<mapsto> demo_dst)"

lemma demo_follow:
  "\<exists>e0. typeinfo_follow_iter demo_reloc_T 0 (IterChoice 0 0) 3 demo_reloc_env = Some (Some 2, e0) \<and> io_ok e0 \<and> disk e0 = disk demo_env \<and>
    log_stopped e0 \<and> h_ti e0 = demo_reloc_heap"
  apply (simp add: typeinfo_follow_iter_def ti_at_def demo_reloc_env_def demo_heap_at)
  apply (simp add: demo_ti_def demo_reloc_T_def demo_T_def tt_by_num_def demo_tt_def demo_reloc_def ti_sel_defs offset_is_bad_def OFFSET_EOF_def ones64_def typeinfo_alloc_iter_def)
  apply (simp add: typeinfo_alloc_generic_def Let_def offset_in_range_def demo_env_def u64_def)
  apply (simp add: TYPENUM_INVALID_def ones32_def demo_tt_def demo_clo_def fsl_virt_ref_def typeinfo_ref_def upd_ti_def ti_at_def put_ti_def demo_heap_at demo_ti_def u32_def)
  apply (simp add: verify_or_free_def typeinfo_verify_def ti_has_loop_def ti_has_loop_from.simps typeinfo_verify_asserts_def ti_at_def ti_phys_offset_def
      ti_sel_defs demo_heap_at Let_def demo_tt_def tt_by_num_def TYPENUM_INVALID_def ones32_def)
  apply (simp add: io_ok_def cache_ok_def no_hooks_def line_ok_def log_stopped_def demo_reloc_heap_def demo_dst_def demo_ti_def demo_clo_def
      blank_env_def IO_MAX_ACCESS_def stats_inc_def stats_add_def)
  done

lemma demo_reloc_refs: "ti_refs_ok (demo_ext(2 := 1)) demo_reloc_heap 3"
proof -
  have "ti_refs_ok (demo_ext(2 := 1)) (\<lambda>x. if x = 2 then Some demo_dst else if ti_prev demo_dst = Some x
      then map_option (\<lambda>t. t\<lparr>ti_ref_c := ti_ref_c t + 1\<rparr>) (h_ti demo_heap_env x) else h_ti demo_heap_env x) (2 + 1)"
    by (rule refs_ok_add [OF demo_heap_ok]) (auto simp: demo_dst_def demo_ti_def demo_clo_def ti_xlate_def ti_clo_def demo_heap_at)
  moreover have "(\<lambda>x. if x = 2 then Some demo_dst else if ti_prev demo_dst = Some x
      then map_option (\<lambda>t. t\<lparr>ti_ref_c := ti_ref_c t + 1\<rparr>) (h_ti demo_heap_env x) else h_ti demo_heap_env x) = demo_reloc_heap"
    by (auto simp: demo_reloc_heap_def fun_eq_iff demo_heap_at demo_dst_def)
  ultimately show ?thesis by simp
qed

lemma demo_size: "ti_typenum ti = 0 \<Longrightarrow> size_ok demo_reloc_T ti 8"
  by (simp add: size_ok_def ti_size_def TYPENUM_INVALID_def ones32_def tt_by_num_def demo_reloc_T_def demo_T_def demo_tt_def reads_only_def)

theorem wpkt_relocate_exact_witness:
  "\<exists>e'. wpkt_relocate demo_reloc_T 0 (0, 0) 1 1 3 demo_reloc_env = Some e' \<and>
    disk e' = write_all [demo_we 1] (write_all [demo_we 1] (copied (write_all [demo_we 3] (disk demo_env)) 8 24 8))"
proof -
  obtain e0 where e0: "typeinfo_follow_iter demo_reloc_T 0 (IterChoice (fst (0 :: nat, 0 :: nat)) (snd (0 :: nat, 0 :: nat))) 3 demo_reloc_env = Some (Some 2, e0)" "io_ok e0"
      "log_stopped e0" "disk e0 = disk demo_env" "h_ti e0 = demo_reloc_heap"
    using demo_follow by auto
  have h: "h_ti e0 0 = Some (demo_ti\<lparr>ti_ref_c := 3\<rparr>)" "h_ti e0 2 = Some demo_dst" "h_ti e0 1 = Some demo_child"
    by (simp_all add: e0(5) demo_reloc_heap_def demo_heap_at)
  have tab: "tt_by_num demo_reloc_T (fst (0 :: nat, 0 :: nat)) = Some (demo_tt\<lparr>tt_reloc := [demo_reloc]\<rparr>)"
      "get_at (tt_reloc (demo_tt\<lparr>tt_reloc := [demo_reloc]\<rparr>)) (snd (0 :: nat, 0 :: nat)) = Some demo_reloc"
    by (simp_all add: tt_by_num_def demo_reloc_T_def)
  have i: "inst_ok demo_reloc_T demo_G 16 (rel_alloc demo_reloc) clo [3] d [demo_we 3]"
      "inst_ok demo_reloc_T demo_G 16 (rel_replace demo_reloc) clo [1] d [demo_we 1]"
      "inst_ok demo_reloc_T demo_G 16 (rel_relink demo_reloc) clo [1, 3] d [demo_we 1]" if "length d = 64" for clo d
    using that demo_inst_ok [of "[3]" d] demo_inst_ok [of "[1]" d] demo_inst_ok [of "[1, 3]" d]
    by (simp_all add: demo_reloc_def line_bytes_def)
  have "\<exists>e'. wpkt_relocate demo_reloc_T 0 (0, 0) 1 1 3 demo_reloc_env = Some e' \<and>
    disk e' = write_all [demo_we 1] (write_all [demo_we 1] (copied (write_all [demo_we 3] (disk e0)) 8 24 8)) \<and> io_ok e' \<and>
    ti_refs_ok ((demo_ext(2 := 1))(2 := (demo_ext(2 := 1)) 2 - 1)) (h_ti e') 3"
    by (rule wpkt_relocate_exact [OF tab demo_gen_ok e0(1-3) h(1,2,3) _ _ demo_size demo_size _ _ _ _ _ _ _ _ i(1) refl i(2) i(3)])
       (use demo_reloc_refs in \<open>simp_all add: e0(4,5) demo_env_ok write_all_def writes_ok_def write_ok_def line_bytes_def demo_we_def IO_MAX_ACCESS_def
          demo_dst_def demo_child_def demo_ti_def demo_clo_def ti_sel_defs\<close>)
  then show ?thesis by (auto simp: e0(4))
qed

end
