(* ===== verification/TypePrint.thy ===== *)
theory TypePrint
  imports TypeInfo
begin

text \<open>
  Printing of instances (\<open>type_print.c\<close>). A function returns the text it prints. It may read the disk and run generated
  functions, so it has the state too. \<open>phys\<close> is the read function of the back end. \<open>PRINT_BITS\<close> is not defined.
\<close>

section \<open>Formats\<close>

function hex :: "nat \<Rightarrow> string" where
  "hex n = (if n < 16 then [''0123456789abcdef'' ! n] else hex (n div 16) @ [''0123456789abcdef'' ! (n mod 16)])"
  by pat_completeness auto
termination by (relation "measure id") auto

declare hex.simps [simp del]

definition pad0 :: "nat \<Rightarrow> string \<Rightarrow> string" where
  "pad0 w s = replicate (w - length s) CHR ''0'' @ s"

definition hexmap :: string where
  "hexmap = ''0123456789abcdef''"

definition DUMP_WIDTH :: nat where
  "DUMP_WIDTH = 24"

section \<open>Fields\<close>

definition typeinfo_print_field_value :: "(nat \<Rightarrow> nat \<Rightarrow> 64 word rt) \<Rightarrow> fsl_tables \<Rightarrow> type_info \<Rightarrow> fsl_rtt_field \<Rightarrow> string rt" where
  "typeinfo_print_field_value phys T ti field e = do {
     (num_elems, e) \<leftarrow> tf_elemcount field (ti_clo ti) e;
     ((field_sz, num_elems), e) \<leftarrow> ti_field_size T ti field e;
     let out = tf_fieldname field @ (if num_elems > 1 then ''['' @ dec num_elems @ '']'' else []);
     (field_off, e) \<leftarrow> tf_fieldbitoff field (ti_clo ti) e;
     (value_out, e) \<leftarrow> (if num_elems = 1 \<and> field_sz \<le> 64 \<and> field_sz > 0 then do {
         (v, e) \<leftarrow> getLocal phys T \<lparr>clo_offset = field_off, clo_params = [], clo_xlate = ti_xlate ti\<rparr> field_off field_sz e;
         Some ('' = '' @ dec (unat v) @ '' (0x'' @ hex (unat v) @ '')'', e)
       } else Some ([], e));
     Some (out @ value_out @ ''@'' @ dec (field_off div 8) @ ''--'' @ dec (u64 (field_off + field_sz) div 8) @ [CHR 0x0A], e)
   }"

definition typeinfo_print_type :: "fsl_tables \<Rightarrow> type_info \<Rightarrow> string rt" where
  "typeinfo_print_type T ti e = do {
     tt \<leftarrow> tt_by_num T (ti_typenum ti);
     (len, e) \<leftarrow> tt_size tt (ti_clo ti) e;
     Some (tt_name tt @ ''@'' @ dec (ti_offset ti div 8) @ ''--'' @ dec (u64 (ti_offset ti + len) div 8), e)
   }"

definition typeinfo_print_field :: "fsl_tables \<Rightarrow> type_info \<Rightarrow> string rt" where
  "typeinfo_print_field T ti e = do {
     p \<leftarrow> ti_prev ti;
     tip \<leftarrow> ti_at e p;
     fref \<leftarrow> ti_field ti;
     field \<leftarrow> field_by_ref T fref;
     tt \<leftarrow> tt_by_num T (ti_typenum tip);
     (len, e) \<leftarrow> tf_typesize field (Some (ti_clo tip)) e;
     Some (tt_name tt @ ''.'' @ tf_fieldname field @ ''@'' @ dec (ti_offset ti div 8) @ ''--'' @ dec (u64 (ti_offset ti + len) div 8), e)
   }"

definition print_name_idx :: "type_info \<Rightarrow> string option" where
  "print_name_idx ti = do {
     name \<leftarrow> ti_print_name ti;
     Some (name @ (if ti_print_idxval ti \<noteq> TI_INVALID_IDXVAL then ''['' @ dec (ti_print_idxval ti) @ '']'' else []))
   }"

definition typeinfo_print_default :: "type_info \<Rightarrow> string rt" where
  "typeinfo_print_default ti e = do {
     name \<leftarrow> print_name_idx ti;
     Some (name @ ''@'' @ dec (ti_offset ti div 8), e)
   }"

definition typeinfo_print_virt :: "fsl_tables \<Rightarrow> type_info \<Rightarrow> string rt" where
  "typeinfo_print_virt T ti e = do {
     assert_c (ti_xlate ti \<noteq> None);
     name \<leftarrow> print_name_idx ti;
     (phys_off, e) \<leftarrow> fsl_virt_xlate T (ti_clo ti) (ti_offset ti) e;
     Some (name @ ''@v'' @ dec (ti_offset ti div 8) @ ''p'' @ dec (phys_off div 8), e)
   }"

definition typeinfo_print :: "fsl_tables \<Rightarrow> addr \<Rightarrow> string rt" where
  "typeinfo_print T a e = do {
     ti \<leftarrow> ti_at e a;
     if ti_prev ti = None \<and> ti_typenum ti \<noteq> TYPENUM_INVALID then typeinfo_print_type T ti e
     else do {
       assert_c (ti_prev ti \<noteq> None);
       if ti_field ti \<noteq> None then typeinfo_print_field T ti e
       else if ti_points ti \<noteq> None then typeinfo_print_default ti e
       else if ti_virt ti \<noteq> None then typeinfo_print_virt T ti e
       else if ti_iter ti \<noteq> None then typeinfo_print_default ti e
       else Some (''???'', e)
     }
   }"

section \<open>Paths\<close>

partial_function (option) typeinfo_print_path_helper :: "fsl_tables \<Rightarrow> addr option \<Rightarrow> string rt" where
  "typeinfo_print_path_helper T p e = (case p of
     None \<Rightarrow> Some ([], e)
   | Some a \<Rightarrow> do {
       ti \<leftarrow> ti_at e a;
       (out, e) \<leftarrow> typeinfo_print_path_helper T (ti_prev ti) e;
       (out', e) \<leftarrow> typeinfo_print T a e;
       Some (out @ out' @ ''/'', e)
     })"

definition typeinfo_print_path :: "fsl_tables \<Rightarrow> addr \<Rightarrow> string rt" where
  "typeinfo_print_path T a e = do {
     ti \<leftarrow> ti_at e a;
     (out, e) \<leftarrow> typeinfo_print_path_helper T (ti_prev ti) e;
     (out', e) \<leftarrow> typeinfo_print T a e;
     Some (out @ out', e)
   }"

section \<open>Tables of a type\<close>

fun print_fields_loop :: "(nat \<Rightarrow> nat \<Rightarrow> 64 word rt) \<Rightarrow> fsl_tables \<Rightarrow> type_info \<Rightarrow> nat \<Rightarrow> fsl_rtt_field list \<Rightarrow> string rt" where
  "print_fields_loop phys T ti i [] e = Some ([], e)"
| "print_fields_loop phys T ti i (field # fs) e = do {
     (is_present, e) \<leftarrow> (case tf_cond field of None \<Rightarrow> Some (True, e) | Some c \<Rightarrow> c (ti_clo ti) e);
     if \<not> is_present then print_fields_loop phys T ti (i + 1) fs e
     else do {
       (out, e) \<leftarrow> typeinfo_print_field_value phys T ti field e;
       (rest, e) \<leftarrow> print_fields_loop phys T ti (i + 1) fs e;
       Some ((if tf_typenum field \<noteq> TYPENUM_INVALID then pad0 2 (dec i) @ ''. '' else ''--- '') @ out @ rest, e)
     }
   }"

definition typeinfo_print_fields :: "(nat \<Rightarrow> nat \<Rightarrow> 64 word rt) \<Rightarrow> fsl_tables \<Rightarrow> type_info \<Rightarrow> string rt" where
  "typeinfo_print_fields phys T ti e = (if ti_typenum ti = TYPENUM_INVALID then Some ([], e)
     else do {
       tt \<leftarrow> tt_by_num T (ti_typenum ti);
       (out, e) \<leftarrow> print_fields_loop phys T ti 0 (tt_fieldall_thunkoff tt) e;
       Some ((if tt_fieldall_thunkoff tt \<noteq> [] then ''Fields:'' @ [CHR 0x0A] else []) @ out, e)
     })"

text \<open>\<open>none_seen\<close>: the heading is printed with the first entry.\<close>

fun print_pointstos_loop :: "fsl_tables \<Rightarrow> type_info \<Rightarrow> nat \<Rightarrow> bool \<Rightarrow> fsl_rtt_pointsto list \<Rightarrow> string rt" where
  "print_pointstos_loop T ti i none_seen [] e = Some ([], e)"
| "print_pointstos_loop T ti i none_seen (pt # pts) e = do {
     (ok, e) \<leftarrow> iter_is_ok (pt_iter pt) (ti_clo ti) e;
     if \<not> ok then print_pointstos_loop T ti (i + 1) none_seen pts e
     else do {
       dst \<leftarrow> tt_by_num T (it_type_dst (pt_iter pt));
       (rest, e) \<leftarrow> print_pointstos_loop T ti (i + 1) False pts e;
       Some ((if none_seen then ''Points-To:'' @ [CHR 0x0A] else []) @ pad0 2 (dec i) @ ''. '' @
         (case pt_name pt of None \<Rightarrow> [] | Some name \<Rightarrow> name @ '' '') @ ''('' @ tt_name dst @ '')'' @ [CHR 0x0A] @ rest, e)
     }
   }"

definition typeinfo_print_pointstos :: "fsl_tables \<Rightarrow> type_info \<Rightarrow> string rt" where
  "typeinfo_print_pointstos T ti e = (if ti_typenum ti = TYPENUM_INVALID then Some ([], e)
     else do {
       tt \<leftarrow> tt_by_num T (ti_typenum ti);
       print_pointstos_loop T ti (length (tt_fieldall_thunkoff tt)) True (tt_pointsto tt) e
     })"

fun print_virts_loop :: "fsl_tables \<Rightarrow> type_info \<Rightarrow> nat \<Rightarrow> bool \<Rightarrow> fsl_rtt_virt list \<Rightarrow> string rt" where
  "print_virts_loop T ti i none_seen [] e = Some ([], e)"
| "print_virts_loop T ti i none_seen (vt # vts) e = do {
     (ok, e) \<leftarrow> iter_is_ok (vt_iter vt) (ti_clo ti) e;
     if \<not> ok then print_virts_loop T ti (i + 1) none_seen vts e
     else do {
       dst \<leftarrow> tt_by_num T (it_type_dst (vt_iter vt));
       virttype \<leftarrow> tt_by_num T (vt_type_virttype vt);
       (rest, e) \<leftarrow> print_virts_loop T ti (i + 1) False vts e;
       Some ((if none_seen then ''Virtuals: '' @ [CHR 0x0A] else []) @ pad0 2 (dec i) @ ''. '' @
         (case vt_name vt of None \<Rightarrow> [] | Some name \<Rightarrow> name @ '' '') @ ''('' @ tt_name dst @ ''->'' @ tt_name virttype @ '')'' @ [CHR 0x0A] @ rest, e)
     }
   }"

definition typeinfo_print_virts :: "fsl_tables \<Rightarrow> type_info \<Rightarrow> string rt" where
  "typeinfo_print_virts T ti e = (if ti_typenum ti = TYPENUM_INVALID then Some ([], e)
     else do {
       tt \<leftarrow> tt_by_num T (ti_typenum ti);
       print_virts_loop T ti (length (tt_fieldall_thunkoff tt) + length (tt_pointsto tt)) True (tt_virt tt) e
     })"

section \<open>Data\<close>

text \<open>The loop of \<open>typeinfo_dump_data\<close>; \<open>i\<close> is an \<open>unsigned int\<close>, and so is \<open>i*8\<close>.\<close>

partial_function (option) dump_data_loop :: "(nat \<Rightarrow> nat \<Rightarrow> 64 word rt) \<Rightarrow> fsl_tables \<Rightarrow> type_info \<Rightarrow> nat \<Rightarrow> nat \<Rightarrow> string rt" where
  "dump_data_loop phys T ti type_sz i e =
     (if i < type_sz div 8 then do {
        let head = (if i mod DUMP_WIDTH = 0 then (if i \<noteq> 0 then [CHR 0x0A] else []) @ pad0 4 (hex i) @ '': '' else []);
        (v, e) \<leftarrow> getLocal phys T (ti_clo ti) (u64 (ti_offset ti + u32 (i * 8))) 8 e;
        let c = unat v mod 256;
        (rest, e) \<leftarrow> dump_data_loop phys T ti type_sz (u32 (i + 1)) e;
        Some (head @ [hexmap ! (c div 16), hexmap ! (c mod 16), CHR '' ''] @ rest, e)
      } else Some ([], e))"

definition typeinfo_dump_data :: "(nat \<Rightarrow> nat \<Rightarrow> 64 word rt) \<Rightarrow> fsl_tables \<Rightarrow> type_info \<Rightarrow> string rt" where
  "typeinfo_dump_data phys T ti e = do {
     tt \<leftarrow> tt_by_num T (ti_typenum ti);
     (type_sz, e) \<leftarrow> tt_size tt (ti_clo ti) e;
     (out, e) \<leftarrow> dump_data_loop phys T ti type_sz 0 e;
     Some (out @ [CHR 0x0A] @ (if type_sz mod 8 \<noteq> 0 then ''OOPS-- size is not byte-aligned'' @ [CHR 0x0A] else []), e)
   }"

definition typeinfo_print_value :: "(nat \<Rightarrow> nat \<Rightarrow> 64 word rt) \<Rightarrow> fsl_tables \<Rightarrow> type_info \<Rightarrow> string rt" where
  "typeinfo_print_value phys T ti e = do {
     fref \<leftarrow> ti_field ti;
     p \<leftarrow> ti_prev ti;
     tip \<leftarrow> ti_at e p;
     field \<leftarrow> field_by_ref T fref;
     typeinfo_print_field_value phys T tip field e
   }"

section \<open>A dump can be read back\<close>

definition hexval :: "char \<Rightarrow> nat" where
  "hexval c = length (takeWhile (\<lambda>d. d \<noteq> c) hexmap)"

text \<open>
  The bytes of a dump. The flag is set while the address at the begin of a line is skipped.
\<close>

fun undump :: "bool \<Rightarrow> string \<Rightarrow> nat list" where
  "undump True (c # s) = (if c = CHR '':'' then undump False (tl s) else undump True s)"
| "undump False (c # s) = (if c = CHR 0x0A then undump True s
     else case s of d # sp # s' \<Rightarrow> (16 * hexval c + hexval d) # undump False s' | _ \<Rightarrow> [])"
| "undump b [] = []"

lemma undump_skip: "CHR '':'' \<notin> set a \<Longrightarrow> undump True (a @ CHR '':'' # c # s) = undump False s"
  by (induction a) auto

lemma undump_no_colon: "CHR '':'' \<notin> set s \<Longrightarrow> undump True s = []"
  by (induction s) auto

lemma hexmap_char:
  assumes "k < 16"
  shows "hexval (hexmap ! k) = k" "hexmap ! k \<noteq> CHR '':''" "hexmap ! k \<noteq> CHR 0x0A"
proof -
  have "\<forall>k \<in> {0..<16}. hexval (hexmap ! k) = k \<and> hexmap ! k \<noteq> CHR '':'' \<and> hexmap ! k \<noteq> CHR 0x0A" by code_simp
  then show "hexval (hexmap ! k) = k" "hexmap ! k \<noteq> CHR '':''" "hexmap ! k \<noteq> CHR 0x0A" using assms by simp_all
qed

lemma undump_byte: "v < 256 \<Longrightarrow> undump False (hexmap ! (v div 16) # hexmap ! (v mod 16) # CHR '' '' # s) = v # undump False s"
  using hexmap_char [of "v div 16"] hexmap_char [of "v mod 16"] by simp

lemma hex_no_colon: "CHR '':'' \<notin> set (hex n)"
proof (induction n rule: hex.induct)
  case (1 n)
  have "CHR '':'' \<noteq> ''0123456789abcdef'' ! m" if "m < 16" for m using hexmap_char(2) [OF that] unfolding hexmap_def by metis
  then show ?case using 1 by (subst hex.simps) auto
qed

lemma disk_bits_byte: "b < length d \<Longrightarrow> unat (disk_bits d (8 * b) 8) = unat (d ! b)"
proof -
  assume b: "b < length d"
  have "n < 8" if "bit (d ! b) n" for n using bit_imp_le_length [OF that] by simp
  then have "disk_bits d (8 * b) 8 = ucast (d ! b)"
    by (intro bit_word_eqI) (use b in \<open>auto simp: bit_disk_bits bit_ucast_iff disk_bit_def\<close>)
  then show ?thesis by (simp add: unsigned_ucast_eq take_bit_nat_eq_self_iff unsigned_less [THEN order_less_le_trans])
qed

text \<open>What the loop needs of the state, and keeps.\<close>

definition dump_ok :: "byte list \<Rightarrow> env \<Rightarrow> bool" where
  "dump_ok d e \<longleftrightarrow> io_ok e \<and> fsl_mode e \<noteq> FSL_MODE_BIGENDIAN \<and> disk e = d"

lemma getLocal_byte:
  assumes "dump_ok d e" and "clo_xlate clo = None" and "b < line_bytes (length d)"
  shows "\<exists>v e'. getLocal getLocalPhys T clo (8 * b) 8 e = Some (v, e') \<and> unat v = unat (d ! b) \<and> dump_ok d e'"
proof -
  let ?es = "stats_add FSL_STAT_BITS_READ 8 (stats_inc FSL_STAT_ACCESS e)"
  have es: "io_ok ?es" "fsl_mode ?es \<noteq> FSL_MODE_BIGENDIAN" "disk ?es = d" using assms(1) by (simp_all add: dump_ok_def)
  have "\<exists>e'. getLocalPhys (8 * b) 8 ?es = Some (disk_bits (disk ?es) (8 * b) 8, e') \<and> io_same ?es e' \<and> io_ok e'"
    by (rule getLocalPhys_le [OF es(1,2)]) (use assms(3) es(3) in simp_all)
  then obtain e' where e': "getLocalPhys (8 * b) 8 ?es = Some (disk_bits d (8 * b) 8, e')" "io_same ?es e'" "io_ok e'"
    using es(3) by auto
  have "b < length d" using assms(3) by (simp add: line_bytes_def)
  then show ?thesis using e' es assms(2) disk_bits_byte io_same_sel [OF e'(2)] by (auto simp: getLocal_def dump_ok_def)
qed

lemma dump_data_loop_bytes:
  assumes "dump_ok d e" and ti: "ti_xlate ti = None" "ti_offset ti = 8 * b" and sz: "sz < 2 ^ 32" "b + sz div 8 \<le> line_bytes (length d)"
    and "i \<le> sz div 8" and tail: "\<And>f. undump f tail = []"
  shows "\<exists>out e'. dump_data_loop getLocalPhys T ti sz i e = Some (out, e') \<and>
    undump (i = 0) (out @ tail) = map (\<lambda>k. unat (d ! (b + k))) [i..<sz div 8]"
  using assms(1, 6)
proof (induction "sz div 8 - i" arbitrary: i e)
  case 0
  then show ?case using tail by (subst dump_data_loop.simps) simp
next
  case (Suc n)
  then have i: "i < sz div 8" by simp
  then have "i * 8 < 2 ^ 32" using sz(1) by linarith
  moreover have "length d < 2 ^ 60" using Suc(3) by (auto simp: dump_ok_def io_ok_def)
  then have "b + i < 2 ^ 60" using sz(2) i unfolding line_bytes_def by linarith
  ultimately have off: "u64 (ti_offset ti + u32 (i * 8)) = 8 * (b + i)" "u32 (i + 1) = i + 1" using ti(2) by (simp_all add: u64_def u32_def)
  obtain v e1 where v: "getLocal getLocalPhys T (ti_clo ti) (8 * (b + i)) 8 e = Some (v, e1)" "unat v = unat (d ! (b + i))" "dump_ok d e1"
    using getLocal_byte [OF Suc(3), of "ti_clo ti" "b + i" T] ti(1) i sz(2) by (auto simp: ti_xlate_def)
  have n: "n = sz div 8 - (i + 1)" using Suc(2) by simp
  obtain out e' where out: "dump_data_loop getLocalPhys T ti sz (i + 1) e1 = Some (out, e')"
      "undump False (out @ tail) = map (\<lambda>k. unat (d ! (b + k))) [i + 1..<sz div 8]"
    using Suc(1) [OF n v(3)] i by auto
  have v256: "unat v < 256" using v(2) unsigned_less [of "d ! (b + i)"] by simp
  let ?cell = "[hexmap ! (unat v div 16), hexmap ! (unat v mod 16), CHR '' '']"
  have cell: "undump False (?cell @ out @ tail) = map (\<lambda>k. unat (d ! (b + k))) [i..<sz div 8]"
    using undump_byte [OF v256] out(2) v(2) i by (simp add: upt_conv_Cons)
  have head: "undump True (pad0 4 (hex i) @ '': '' @ s) = undump False s" for s
    using undump_skip [of "pad0 4 (hex i)"] hex_no_colon by (auto simp: pad0_def)
  show ?case
    using i v(1) off out(1) v256 cell head [of "?cell @ out @ tail"]
    by (subst dump_data_loop.simps) (auto simp: Let_def DUMP_WIDTH_def)
qed


text \<open>
  C32: a dump shows the data. For an instance outside of an address space, at a byte, of less than 512 MB and inside of the
  whole cache lines of the disk, \<open>typeinfo_dump_data\<close> returns, and reading its text back, line by line without the addresses, gives
  the bytes of the disk from the place of the instance on, as many as its size has.
\<close>

theorem typeinfo_dump_data_roundtrip:
  assumes "tt_by_num T (ti_typenum ti) = Some tt" and "tt_size tt (ti_clo ti) e = Some (sz, e1)" and "sz < 2 ^ 32"
    and "io_ok e1" and "fsl_mode e1 \<noteq> FSL_MODE_BIGENDIAN" and "ti_xlate ti = None" and "ti_offset ti = 8 * b"
    and "b + sz div 8 \<le> line_bytes (length (disk e1))"
  shows "\<exists>out e'. typeinfo_dump_data getLocalPhys T ti e = Some (out, e') \<and>
    undump True out = map (\<lambda>k. unat (disk e1 ! (b + k))) [0..<sz div 8]"
proof -
  let ?tail = "[CHR 0x0A] @ (if sz mod 8 \<noteq> 0 then ''OOPS-- size is not byte-aligned'' @ [CHR 0x0A] else [])"
  have tail: "undump f ?tail = []" for f by (cases f) (simp_all add: undump_no_colon)
  have "dump_ok (disk e1) e1" using assms(4, 5) by (simp add: dump_ok_def)
  from dump_data_loop_bytes [OF this assms(6, 7, 3, 8) _ tail, of 0 T] obtain out e' where
    "dump_data_loop getLocalPhys T ti sz 0 e1 = Some (out, e')" "undump True (out @ ?tail) = map (\<lambda>k. unat (disk e1 ! (b + k))) [0..<sz div 8]"
    by auto
  then show ?thesis using assms(1, 2) by (simp add: typeinfo_dump_data_def)
qed

theorem typeinfo_dump_data_roundtrip_witness:
  "\<exists>out e'. typeinfo_dump_data getLocalPhys demo_T (set_ti_offset 192 demo_ti) demo_env = Some (out, e') \<and> undump True out = [24..<32]"
proof -
  have "\<exists>out e'. typeinfo_dump_data getLocalPhys demo_T (set_ti_offset 192 demo_ti) demo_env = Some (out, e') \<and>
      undump True out = map (\<lambda>k. unat (disk demo_env ! (24 + k))) [0..<64 div 8]"
    by (rule typeinfo_dump_data_roundtrip [where tt = demo_tt]) (simp_all add: demo_env_ok demo_T_def demo_tt_def demo_ti_def demo_clo_def tt_by_num_def
        ti_sel_defs line_bytes_def)
  moreover have "map (\<lambda>k. unat (disk demo_env ! (24 + k))) [0..<64 div 8] = [24..<32]"
    by (simp add: demo_env_def unsigned_of_nat take_bit_nat_eq_self_iff upt_rec)
  ultimately show ?thesis by simp
qed

end
