(* ===== verification/Scan.thy ===== *)
theory Scan
  imports TiCopy
begin

text \<open>
  The scanner (\<open>scan.c\<close>): a walk over every instance reachable from a given one, driven by an explicit stack
  of frames instead of recursion.

  \<^item> A frame is a \<open>scan_stk\<close>. Its \<open>stk_ops\<close>, a table of function pointers, is a constructor of \<open>scan_stkops\<close>,
    and \<open>sto_init\<close>, \<open>sto_fini\<close> and \<open>sto_fill_next\<close> dispatch on it. The union of the frame is flattened: every
    variant sets its members before it reads them. The linked stack is a list with the top first; the free
    list only recycles frame buffers.
  \<^item> A new frame is filled into an uninitialised buffer, of which no member is read before it is set;
    \<open>blank_stk\<close> stands for its contents.
  \<^item> The hooks of \<open>scan_ops\<close> are the tools' functions. They see and change the tool's data \<open>'s\<close> (the \<open>aux\<close>
    pointer) and the process state.
\<close>

section \<open>Return codes, frames, hooks\<close>

definition SCAN_RET_CONTINUE :: int where "SCAN_RET_CONTINUE = 0"
definition SCAN_RET_TERMINATE :: int where "SCAN_RET_TERMINATE = 1"
definition SCAN_RET_SKIP :: int where "SCAN_RET_SKIP = 2"
definition SCAN_RET_EXIT_TYPE :: int where "SCAN_RET_EXIT_TYPE = 3"

definition is_ret_done :: "int \<Rightarrow> bool" where
  "is_ret_done x \<longleftrightarrow> x = SCAN_RET_TERMINATE \<or> x = SCAN_RET_EXIT_TYPE"

definition SCAN_FL_DEEP :: nat where "SCAN_FL_DEEP = 1"

datatype scan_stkops =
    StkType | StkFieldstrong | StkCond | StkPointstoAll | StkVirtAll | StkFieldarray | StkPointsto | StkVirt

record scan_stk =
  stk_ti :: addr
  stk_ops :: scan_stkops
  stk_idx :: nat
  sfa_field :: "field_ref option"
  sfa_numelems :: nat
  sfa_off :: nat
  spt_pt :: "(nat \<times> nat) option"
  spt_min :: nat
  spt_max :: nat
  svt_vt :: "(nat \<times> nat) option"

type_synonym ('s, 'a) sc = "'s \<Rightarrow> env \<Rightarrow> ('a \<times> 's \<times> env) option"

record 's scan_ops =
  so_ti :: "(addr \<Rightarrow> ('s, int) sc) option"
  so_strong :: "(addr \<Rightarrow> field_ref \<Rightarrow> ('s, int) sc) option"
  so_virt :: "(addr \<Rightarrow> nat \<times> nat \<Rightarrow> nat \<Rightarrow> ('s, int) sc) option"
  so_pt :: "(addr \<Rightarrow> nat \<times> nat \<Rightarrow> nat \<Rightarrow> ('s, int) sc) option"
  so_cond :: "(addr \<Rightarrow> field_ref \<Rightarrow> ('s, int) sc) option"

record 's scan_ctx =
  sctx_ops :: "'s scan_ops"
  sctx_flags :: nat

definition blank_stk :: scan_stk where
  "blank_stk = \<lparr>stk_ti = 0, stk_ops = StkType, stk_idx = 0, sfa_field = None, sfa_numelems = 0, sfa_off = 0,
     spt_pt = None, spt_min = 0, spt_max = 0, svt_vt = None\<rparr>"

text \<open>\<open>if (hook != NULL) ret = hook (...)\<close>; a missing hook continues.\<close>

definition scan_hook :: "('s, int) sc option \<Rightarrow> ('s, int) sc" where
  "scan_hook h s e = (case h of None \<Rightarrow> Some (SCAN_RET_CONTINUE, s, e) | Some f \<Rightarrow> f s e)"

definition lift_rt :: "'a rt \<Rightarrow> ('s, 'a) sc" where
  "lift_rt m s e = do { (v, e) \<leftarrow> m e; Some (v, s, e) }"

section \<open>Initialising a frame\<close>

definition stkop_type_init :: "'s scan_ctx \<Rightarrow> scan_stk \<Rightarrow> ('s, int \<times> scan_stk) sc" where
  "stkop_type_init ctx stk s e = do {
     (ret, s, e) \<leftarrow> scan_hook (map_option (\<lambda>f. f (stk_ti stk)) (so_ti (sctx_ops ctx))) s e;
     if is_ret_done ret then Some ((ret, stk), s, e)
     else Some ((SCAN_RET_CONTINUE, stk\<lparr>stk_idx := 0\<rparr>), s, e)
   }"

definition stkop_cond_init :: "scan_stk \<Rightarrow> (int \<times> scan_stk) rt" where
  "stkop_cond_init stk e = do {
     ti \<leftarrow> ti_at e (stk_ti stk);
     if ti_typenum ti = TYPENUM_INVALID then Some ((SCAN_RET_EXIT_TYPE, stk), e)
     else Some ((SCAN_RET_CONTINUE, stk\<lparr>stk_idx := 0\<rparr>), e)
   }"

definition stkop_fieldstrong_init :: "scan_stk \<Rightarrow> (int \<times> scan_stk) rt" where
  "stkop_fieldstrong_init stk e = do {
     ti \<leftarrow> ti_at e (stk_ti stk);
     if ti_typenum ti = TYPENUM_INVALID then Some ((SCAN_RET_EXIT_TYPE, stk), e)
     else Some ((SCAN_RET_CONTINUE, stk\<lparr>stk_idx := 0\<rparr>), e)
   }"

definition stkop_fieldarray_init :: "fsl_tables \<Rightarrow> 's scan_ctx \<Rightarrow> scan_stk \<Rightarrow> (int \<times> scan_stk) rt" where
  "stkop_fieldarray_init T ctx stk e = do {
     ti \<leftarrow> ti_at e (stk_ti stk);
     fref \<leftarrow> sfa_field stk;
     tf \<leftarrow> field_by_ref T fref;
     if tf_typenum tf = TYPENUM_INVALID then Some ((SCAN_RET_EXIT_TYPE, stk), e)
     else if and (sctx_flags ctx) SCAN_FL_DEEP = 0 \<and> and (tf_flags tf) FIELD_FL_NOFOLLOW \<noteq> 0
     then Some ((SCAN_RET_EXIT_TYPE, stk), e)
     else do {
       (off, e) \<leftarrow> tf_fieldbitoff tf (ti_clo ti) e;
       (n, e) \<leftarrow> tf_elemcount tf (ti_clo ti) e;
       Some ((SCAN_RET_CONTINUE, stk\<lparr>stk_idx := 0, sfa_off := off, sfa_numelems := n\<rparr>), e)
     }
   }"

definition stkop_pointsto_init :: "fsl_tables \<Rightarrow> scan_stk \<Rightarrow> (int \<times> scan_stk) rt" where
  "stkop_pointsto_init T stk e = do {
     ti \<leftarrow> ti_at e (stk_ti stk);
     ptr \<leftarrow> spt_pt stk;
     pt \<leftarrow> points_by_ref T ptr;
     (mn, e) \<leftarrow> it_min (pt_iter pt) (ti_clo ti) e;
     let stk = stk\<lparr>spt_min := mn\<rparr>;
     if mn = ones64 then Some ((SCAN_RET_EXIT_TYPE, stk), e)
     else do {
       (mx, e) \<leftarrow> it_max (pt_iter pt) (ti_clo ti) e;
       let stk = stk\<lparr>spt_max := mx\<rparr>;
       if mn > mx then Some ((SCAN_RET_EXIT_TYPE, stk), e)
       else Some ((SCAN_RET_CONTINUE, stk\<lparr>stk_idx := u32 mn\<rparr>), e)
     }
   }"

definition stkop_virt_init :: "scan_stk \<Rightarrow> (int \<times> scan_stk) rt" where
  "stkop_virt_init stk e = do {
     assert_c (svt_vt stk \<noteq> None);
     Some ((SCAN_RET_CONTINUE, stk\<lparr>stk_idx := 0\<rparr>), e)
   }"

text \<open>\<open>stkop_virt_all_init\<close> and \<open>stkop_pointsto_all_init\<close>, from the macro \<open>DECL_STKOP_ALL\<close>.\<close>

definition stkop_all_init :: "scan_stk \<Rightarrow> (int \<times> scan_stk) rt" where
  "stkop_all_init stk e = Some ((SCAN_RET_CONTINUE, stk\<lparr>stk_idx := 0\<rparr>), e)"

definition sto_init :: "fsl_tables \<Rightarrow> 's scan_ctx \<Rightarrow> scan_stk \<Rightarrow> ('s, int \<times> scan_stk) sc" where
  "sto_init T ctx stk = (case stk_ops stk of
     StkType \<Rightarrow> stkop_type_init ctx stk
   | StkFieldstrong \<Rightarrow> lift_rt (stkop_fieldstrong_init stk)
   | StkCond \<Rightarrow> lift_rt (stkop_cond_init stk)
   | StkPointstoAll \<Rightarrow> lift_rt (stkop_all_init stk)
   | StkVirtAll \<Rightarrow> lift_rt (stkop_all_init stk)
   | StkFieldarray \<Rightarrow> lift_rt (stkop_fieldarray_init T ctx stk)
   | StkPointsto \<Rightarrow> lift_rt (stkop_pointsto_init T stk)
   | StkVirt \<Rightarrow> lift_rt (stkop_virt_init stk))"

definition stk_from_stk :: "fsl_tables \<Rightarrow> 's scan_ctx \<Rightarrow> scan_stk \<Rightarrow> scan_stk \<Rightarrow> scan_stkops \<Rightarrow> ('s, int \<times> scan_stk) sc" where
  "stk_from_stk T ctx stk_dest stk_src ops = sto_init T ctx (stk_dest\<lparr>stk_ti := stk_ti stk_src, stk_ops := ops\<rparr>)"

definition create_stk_type :: "fsl_tables \<Rightarrow> 's scan_ctx \<Rightarrow> addr \<Rightarrow> ('s, int \<times> scan_stk) sc" where
  "create_stk_type T ctx new_ti s e = do {
     ((ret, stk), s, e) \<leftarrow> sto_init T ctx (blank_stk\<lparr>stk_ti := new_ti, stk_ops := StkType\<rparr>) s e;
     e \<leftarrow> (if is_ret_done ret then typeinfo_free new_ti e else Some e);
     Some ((ret, stk), s, e)
   }"
section \<open>The next element of a frame\<close>

text \<open>A \<open>sto_fill_next\<close> gives the return code, the frame after the step, and the new frame.\<close>

definition scan_stkops_tab :: "scan_stkops list" where
  "scan_stkops_tab = [StkFieldstrong, StkCond, StkPointstoAll, StkVirtAll]"

definition stkop_type_next :: "fsl_tables \<Rightarrow> 's scan_ctx \<Rightarrow> scan_stk \<Rightarrow> ('s, int \<times> scan_stk \<times> scan_stk) sc" where
  "stkop_type_next T ctx stk s e = do {
     assert_c (stk_idx stk \<le> length scan_stkops_tab);
     let i = stk_idx stk;
     let stk = stk\<lparr>stk_idx := i + 1\<rparr>;
     if i = length scan_stkops_tab then Some ((SCAN_RET_EXIT_TYPE, stk, blank_stk), s, e)
     else do {
       ((err, sn), s, e) \<leftarrow> stk_from_stk T ctx blank_stk stk (scan_stkops_tab ! i) s e;
       Some ((err, stk, sn), s, e)
     }
   }"

text \<open>The first index from \<open>i\<close> on whose field is conditional.\<close>

function cond_idx :: "fsl_rtt_field list \<Rightarrow> nat \<Rightarrow> nat" where
  "cond_idx fs i = (if i < length fs \<and> tf_cond (fs ! i) = None then cond_idx fs (i + 1) else i)"
  by pat_completeness auto
termination by (relation "measure (\<lambda>(fs, i). length fs - i)") auto

declare cond_idx.simps [simp del]

partial_function (option) stkop_cond_next ::
  "fsl_tables \<Rightarrow> 's scan_ctx \<Rightarrow> scan_stk \<Rightarrow> ('s, int \<times> scan_stk \<times> scan_stk) sc" where
  "stkop_cond_next T ctx stk s e = do {
     ti \<leftarrow> ti_at e (stk_ti stk);
     tt \<leftarrow> tt_by_num T (ti_typenum ti);
     let i = cond_idx (tt_fieldtypes_thunkoff tt) (stk_idx stk);
     if i \<ge> length (tt_fieldtypes_thunkoff tt) then Some ((SCAN_RET_EXIT_TYPE, stk\<lparr>stk_idx := i\<rparr>, blank_stk), s, e)
     else do {
       let stk = stk\<lparr>stk_idx := i + 1\<rparr>;
       let fref = (TabFieldtypes, ti_typenum ti, i);
       (ret, s, e) \<leftarrow> scan_hook (map_option (\<lambda>f. f (stk_ti stk) fref) (so_cond (sctx_ops ctx))) s e;
       if is_ret_done ret then Some ((ret, stk, blank_stk), s, e)
       else do {
         cond \<leftarrow> tf_cond (tt_fieldtypes_thunkoff tt ! i);
         ti \<leftarrow> ti_at e (stk_ti stk);
         (present, e) \<leftarrow> cond (ti_clo ti) e;
         if \<not> present then stkop_cond_next T ctx stk s e
         else do {
           ((err, sn), s, e) \<leftarrow> stk_from_stk T ctx (blank_stk\<lparr>sfa_field := Some fref\<rparr>) stk StkFieldarray s e;
           Some ((err, stk, sn), s, e)
         }
       }
     }
   }"

text \<open>The search of \<open>stkop_fieldarray_next\<close> for the next element that exists, with its index and offset.\<close>

partial_function (option) fieldarray_find ::
  "fsl_tables \<Rightarrow> addr \<Rightarrow> field_ref \<Rightarrow> nat \<Rightarrow> nat \<Rightarrow> nat \<Rightarrow> (addr option \<times> nat \<times> nat) rt" where
  "fieldarray_find T a fref num idx off e =
     (if idx < num then do {
        (new_ti, e) \<leftarrow> typeinfo_follow_field_off_idx T a fref off idx e;
        case new_ti of
          Some n \<Rightarrow> Some ((Some n, idx, off), e)
        | None \<Rightarrow> do {
            tf \<leftarrow> field_by_ref T fref;
            ti \<leftarrow> ti_at e a;
            (sz, e) \<leftarrow> tf_typesize tf (Some (ti_clo ti)) e;
            fieldarray_find T a fref num (u32 (idx + 1)) (u64 (off + sz)) e
          }
      } else Some ((None, idx, off), e))"

definition stkop_fieldarray_next :: "fsl_tables \<Rightarrow> 's scan_ctx \<Rightarrow> scan_stk \<Rightarrow> ('s, int \<times> scan_stk \<times> scan_stk) sc" where
  "stkop_fieldarray_next T ctx stk s e = do {
     fref \<leftarrow> sfa_field stk;
     tf \<leftarrow> field_by_ref T fref;
     ((new_ti, idx, off), e) \<leftarrow> fieldarray_find T (stk_ti stk) fref (sfa_numelems stk) (stk_idx stk) (sfa_off stk) e;
     let stk = stk\<lparr>stk_idx := idx, sfa_off := off\<rparr>;
     case new_ti of
       None \<Rightarrow> Some ((SCAN_RET_EXIT_TYPE, stk, blank_stk), s, e)
     | Some n \<Rightarrow> do {
         (step, e) \<leftarrow> (if idx < sfa_numelems stk - 1 then do {
             nti \<leftarrow> ti_at e n;
             if ti_typenum nti = TYPENUM_INVALID then do {
               ti \<leftarrow> ti_at e (stk_ti stk);
               tf_typesize tf (Some (ti_clo ti)) e
             } else do {
               ntt \<leftarrow> tt_by_num T (ti_typenum nti);
               tt_size ntt (ti_clo nti) e
             }
           } else Some (0, e));
         let stk = stk\<lparr>stk_idx := u32 (idx + 1), sfa_off := u64 (off + step)\<rparr>;
         ((ret, sn), s, e) \<leftarrow> create_stk_type T ctx n s e;
         Some ((ret, stk, sn), s, e)
       }
   }"

partial_function (option) stkop_fieldstrong_next ::
  "fsl_tables \<Rightarrow> 's scan_ctx \<Rightarrow> scan_stk \<Rightarrow> ('s, int \<times> scan_stk \<times> scan_stk) sc" where
  "stkop_fieldstrong_next T ctx stk s e = do {
     ti \<leftarrow> ti_at e (stk_ti stk);
     tt \<leftarrow> tt_by_num T (ti_typenum ti);
     if stk_idx stk \<ge> length (tt_fieldstrong tt) then Some ((SCAN_RET_EXIT_TYPE, stk, blank_stk), s, e)
     else do {
       let fref = (TabStrong, ti_typenum ti, stk_idx stk);
       let stk = stk\<lparr>stk_idx := stk_idx stk + 1\<rparr>;
       (ret, s, e) \<leftarrow> scan_hook (map_option (\<lambda>f. f (stk_ti stk) fref) (so_strong (sctx_ops ctx))) s e;
       if is_ret_done ret then Some ((ret, stk, blank_stk), s, e)
       else do {
         ((ret, sn), s, e) \<leftarrow> stk_from_stk T ctx (blank_stk\<lparr>sfa_field := Some fref\<rparr>) stk StkFieldarray s e;
         if is_ret_done ret then stkop_fieldstrong_next T ctx stk s e
         else Some ((ret, stk, sn), s, e)
       }
     }
   }"

partial_function (option) pointsto_find ::
  "fsl_tables \<Rightarrow> addr \<Rightarrow> nat \<times> nat \<Rightarrow> nat \<Rightarrow> nat \<Rightarrow> (addr option \<times> nat) rt" where
  "pointsto_find T a ptr mx idx e =
     (if idx \<le> mx then do {
        (new_ti, e) \<leftarrow> typeinfo_follow_pointsto T a ptr idx e;
        case new_ti of
          Some n \<Rightarrow> Some ((Some n, idx), e)
        | None \<Rightarrow> pointsto_find T a ptr mx (u32 (idx + 1)) e
      } else Some ((None, idx), e))"

definition stkop_pointsto_next :: "fsl_tables \<Rightarrow> 's scan_ctx \<Rightarrow> scan_stk \<Rightarrow> ('s, int \<times> scan_stk \<times> scan_stk) sc" where
  "stkop_pointsto_next T ctx stk s e = do {
     ptr \<leftarrow> spt_pt stk;
     if stk_idx stk > spt_max stk then Some ((SCAN_RET_EXIT_TYPE, stk, blank_stk), s, e)
     else do {
       ((new_ti, idx), e) \<leftarrow> pointsto_find T (stk_ti stk) ptr (spt_max stk) (stk_idx stk) e;
       case new_ti of
         None \<Rightarrow> Some ((SCAN_RET_EXIT_TYPE, stk\<lparr>stk_idx := idx\<rparr>, blank_stk), s, e)
       | Some n \<Rightarrow> do {
           let stk = stk\<lparr>stk_idx := u32 (idx + 1)\<rparr>;
           (ret, s, e) \<leftarrow> scan_hook (map_option (\<lambda>f. f (stk_ti stk) ptr idx) (so_pt (sctx_ops ctx))) s e;
           if is_ret_done ret then Some ((ret, stk, blank_stk), s, e)
           else do {
             ((ret, sn), s, e) \<leftarrow> create_stk_type T ctx n s e;
             Some ((ret, stk, sn), s, e)
           }
         }
     }
   }"

partial_function (option) virt_find ::
  "fsl_tables \<Rightarrow> 's scan_ctx \<Rightarrow> addr \<Rightarrow> nat \<times> nat \<Rightarrow> nat \<Rightarrow> int \<Rightarrow> ('s, int option \<times> addr option \<times> nat) sc" where
  "virt_find T ctx a vtr idx err s e =
     (if err = TI_ERR_OK \<or> err = TI_ERR_BADVERIFY then do {
        (ret, s, e) \<leftarrow> scan_hook (map_option (\<lambda>f. f a vtr idx) (so_virt (sctx_ops ctx))) s e;
        if is_ret_done ret then Some ((Some ret, None, idx), s, e)
        else do {
          ((ti_cur, err), e) \<leftarrow> typeinfo_alloc_virt_idx T vtr a idx e;
          case ti_cur of
            Some n \<Rightarrow> Some ((None, Some n, idx), s, e)
          | None \<Rightarrow> virt_find T ctx a vtr (u32 (idx + 1)) err s e
        }
      } else Some ((None, None, idx), s, e))"

definition stkop_virt_next :: "fsl_tables \<Rightarrow> 's scan_ctx \<Rightarrow> scan_stk \<Rightarrow> ('s, int \<times> scan_stk \<times> scan_stk) sc" where
  "stkop_virt_next T ctx stk s e = do {
     vtr \<leftarrow> svt_vt stk;
     ((stop, ti_cur, idx), s, e) \<leftarrow> virt_find T ctx (stk_ti stk) vtr (stk_idx stk) TI_ERR_OK s e;
     let stk = stk\<lparr>stk_idx := idx\<rparr>;
     case stop of
       Some ret \<Rightarrow> Some ((ret, stk, blank_stk), s, e)
     | None \<Rightarrow> (case ti_cur of
           None \<Rightarrow> Some ((SCAN_RET_EXIT_TYPE, stk, blank_stk), s, e)
         | Some n \<Rightarrow> do {
             nti \<leftarrow> ti_at e n;
             assert_c (ti_xlate nti \<noteq> None);
             let stk = stk\<lparr>stk_idx := u32 (idx + 1)\<rparr>;
             ((ret, sn), s, e) \<leftarrow> create_stk_type T ctx n s e;
             Some ((ret, stk, sn), s, e)
           })
   }"

text \<open>
  \<open>stkop_pointsto_all_next\<close> and \<open>stkop_virt_all_next\<close>, from the macro \<open>DECL_STKOP_ALL\<close>: the entries of the type's
  table are tried in order until one has something to scan. \<open>n\<close> is the size of the table, \<open>fill i\<close> puts entry
  \<open>i\<close> into the buffer.
\<close>

function stkop_all_loop ::
  "fsl_tables \<Rightarrow> 's scan_ctx \<Rightarrow> scan_stkops \<Rightarrow> nat \<Rightarrow> (nat \<Rightarrow> scan_stk) \<Rightarrow> scan_stk \<Rightarrow> ('s, int \<times> scan_stk \<times> scan_stk) sc" where
  "stkop_all_loop T ctx ops n fill stk s e =
     (if stk_idx stk < n then do {
        let i = stk_idx stk;
        let stk = stk\<lparr>stk_idx := i + 1\<rparr>;
        ((err, sn), s, e) \<leftarrow> stk_from_stk T ctx (fill i) stk ops s e;
        if \<not> is_ret_done err then Some ((err, stk, sn), s, e)
        else stkop_all_loop T ctx ops n fill stk s e
      } else Some ((SCAN_RET_EXIT_TYPE, stk, blank_stk), s, e))"
  by pat_completeness auto
termination by (relation "measure (\<lambda>(T, ctx, ops, n, fill, stk, s, e). n - stk_idx stk)") auto

declare stkop_all_loop.simps [simp del]

definition stkop_pointsto_all_next :: "fsl_tables \<Rightarrow> 's scan_ctx \<Rightarrow> scan_stk \<Rightarrow> ('s, int \<times> scan_stk \<times> scan_stk) sc" where
  "stkop_pointsto_all_next T ctx stk s e = do {
     ti \<leftarrow> ti_at e (stk_ti stk);
     tt \<leftarrow> tt_by_num T (ti_typenum ti);
     stkop_all_loop T ctx StkPointsto (length (tt_pointsto tt)) (\<lambda>i. blank_stk\<lparr>spt_pt := Some (ti_typenum ti, i)\<rparr>) stk s e
   }"

definition stkop_virt_all_next :: "fsl_tables \<Rightarrow> 's scan_ctx \<Rightarrow> scan_stk \<Rightarrow> ('s, int \<times> scan_stk \<times> scan_stk) sc" where
  "stkop_virt_all_next T ctx stk s e = do {
     ti \<leftarrow> ti_at e (stk_ti stk);
     tt \<leftarrow> tt_by_num T (ti_typenum ti);
     stkop_all_loop T ctx StkVirt (length (tt_virt tt)) (\<lambda>i. blank_stk\<lparr>svt_vt := Some (ti_typenum ti, i)\<rparr>) stk s e
   }"

definition sto_fill_next :: "fsl_tables \<Rightarrow> 's scan_ctx \<Rightarrow> scan_stk \<Rightarrow> ('s, int \<times> scan_stk \<times> scan_stk) sc" where
  "sto_fill_next T ctx stk = (case stk_ops stk of
     StkType \<Rightarrow> stkop_type_next T ctx stk
   | StkFieldstrong \<Rightarrow> stkop_fieldstrong_next T ctx stk
   | StkCond \<Rightarrow> stkop_cond_next T ctx stk
   | StkPointstoAll \<Rightarrow> stkop_pointsto_all_next T ctx stk
   | StkVirtAll \<Rightarrow> stkop_virt_all_next T ctx stk
   | StkFieldarray \<Rightarrow> stkop_fieldarray_next T ctx stk
   | StkPointsto \<Rightarrow> stkop_pointsto_next T ctx stk
   | StkVirt \<Rightarrow> stkop_virt_next T ctx stk)"

definition sto_fini :: "scan_stk \<Rightarrow> env \<Rightarrow> env option" where
  "sto_fini stk e = (if stk_ops stk = StkType then typeinfo_free (stk_ti stk) e else Some e)"

section \<open>The scan\<close>

fun scan_stk_next :: "fsl_tables \<Rightarrow> 's scan_ctx \<Rightarrow> scan_stk list \<Rightarrow> ('s, int \<times> scan_stk list) sc" where
  "scan_stk_next T ctx [] s e = None"
| "scan_stk_next T ctx (stk # rest) s e = do {
     ((err, stk, sn), s, e) \<leftarrow> sto_fill_next T ctx stk s e;
     if is_ret_done err then do {
       e \<leftarrow> sto_fini stk e;
       Some ((err, rest), s, e)
     } else Some ((err, sn # stk # rest), s, e)
   }"

partial_function (option) scan_loop :: "fsl_tables \<Rightarrow> 's scan_ctx \<Rightarrow> int \<Rightarrow> scan_stk list \<Rightarrow> ('s, int) sc" where
  "scan_loop T ctx err stk s e =
     (if stk = [] then Some (err, s, e)
      else do {
        ((err, stk), s, e) \<leftarrow> scan_stk_next T ctx stk s e;
        scan_loop T ctx err stk s e
      })"

definition scan_type_ctx :: "fsl_tables \<Rightarrow> 's scan_ctx \<Rightarrow> addr \<Rightarrow> ('s, int) sc" where
  "scan_type_ctx T ctx a s e = do {
     e \<leftarrow> typeinfo_ref a e;
     ((err, stk), s, e) \<leftarrow> create_stk_type T ctx a s e;
     if is_ret_done err then Some (err, s, e)
     else scan_loop T ctx err [stk] s e
   }"

definition scan_type_fl :: "fsl_tables \<Rightarrow> addr option \<Rightarrow> 's scan_ops \<Rightarrow> nat \<Rightarrow> ('s, int) sc" where
  "scan_type_fl T ap sops fl s e = (case ap of
     None \<Rightarrow> Some (SCAN_RET_CONTINUE, s, e)
   | Some a \<Rightarrow> do {
       ti \<leftarrow> ti_at e a;
       if ti_typenum ti = TYPENUM_INVALID then Some (SCAN_RET_CONTINUE, s, e)
       else scan_type_ctx T \<lparr>sctx_ops = sops, sctx_flags = fl\<rparr> a s e
     })"

definition scan_type_deep :: "fsl_tables \<Rightarrow> addr option \<Rightarrow> 's scan_ops \<Rightarrow> ('s, int) sc" where
  "scan_type_deep T ap sops = scan_type_fl T ap sops SCAN_FL_DEEP"

definition scan_type :: "fsl_tables \<Rightarrow> addr option \<Rightarrow> 's scan_ops \<Rightarrow> ('s, int) sc" where
  "scan_type T ap sops = scan_type_fl T ap sops 0"

end
