(* ===== verification/GenCode.thy ===== *)
theory GenCode
  imports TiHeap
begin

text \<open>
  What the runtime relies on in the functions that the compiler generates for the fields and iterators of a
  description: they return, leave the heap of instances alone, and give as many parameters as the type of the
  target has (\<open>field_ok\<close>, \<open>iter_ok\<close>).
\<close>

text \<open>\<open>keeps\<close>: the heap of instances and the device are as before. \<open>gives P m\<close>: \<open>m\<close> returns a value that satisfies \<open>P\<close> and keeps.\<close>

definition keeps :: "env \<Rightarrow> env \<Rightarrow> bool" where
  "keeps e e' \<longleftrightarrow> h_ti e' = h_ti e \<and> h_next e' = h_next e \<and> bdev_bytes e' = bdev_bytes e"

definition gives :: "('a \<Rightarrow> bool) \<Rightarrow> 'a rt \<Rightarrow> bool" where
  "gives P m \<longleftrightarrow> (\<forall>e. \<exists>v e'. m e = Some (v, e') \<and> P v \<and> keeps e e')"

definition params_fit :: "fsl_tables \<Rightarrow> nat \<Rightarrow> nat list \<Rightarrow> bool" where
  "params_fit T n ps \<longleftrightarrow> (n \<noteq> TYPENUM_INVALID \<longrightarrow> tt_param_c (fsl_rt_table T ! n) \<le> length ps)"

definition field_ok :: "fsl_tables \<Rightarrow> nat \<Rightarrow> fsl_rtt_field \<Rightarrow> bool" where
  "field_ok T M tf \<longleftrightarrow> typenum_ok T (tf_typenum tf) \<and> (\<forall>clo. gives (\<lambda>_. True) (tf_fieldbitoff tf clo) \<and>
     gives (\<lambda>n. n \<le> M) (tf_elemcount tf clo) \<and> gives (\<lambda>_. True) (tf_typesize tf (Some clo)) \<and>
     (\<forall>c. tf_cond tf = Some c \<longrightarrow> gives (\<lambda>_. True) (c clo)) \<and>
     (\<forall>i. gives (params_fit T (tf_typenum tf)) (tf_params tf clo i)))"

definition iter_ok :: "fsl_tables \<Rightarrow> nat \<Rightarrow> nat \<Rightarrow> fsl_rt_iter \<Rightarrow> bool" where
  "iter_ok T M pc it \<longleftrightarrow> it_type_dst it < length (fsl_rt_table T) \<and> (\<forall>clo. gives (\<lambda>_. True) (it_min it clo) \<and> gives (\<lambda>n. n \<le> M) (it_max it clo) \<and>
     (\<forall>i. gives (\<lambda>(off, ps, x). x = None \<and> \<not> offset_is_bad off \<and> length ps \<le> pc \<and> params_fit T (it_type_dst it) ps) (it_range it clo i)))"

lemma keeps_refl [simp]: "keeps e e"
  by (simp add: keeps_def)

lemma keeps_trans: "keeps e e1 \<Longrightarrow> keeps e1 e2 \<Longrightarrow> keeps e e2"
  by (simp add: keeps_def)

lemma keeps_stats [simp]: "keeps e (stats_inc s e)"
  by (simp add: keeps_def)

lemma givesE:
  assumes "gives P m"
  obtains v e' where "m e = Some (v, e')" "P v" "keeps e e'"
  using assms unfolding gives_def by blast

lemma field_okD:
  assumes "field_ok T M tf"
  shows "typenum_ok T (tf_typenum tf)" "gives (\<lambda>_. True) (tf_fieldbitoff tf clo)" "gives (\<lambda>n. n \<le> M) (tf_elemcount tf clo)"
    "gives (\<lambda>_. True) (tf_typesize tf (Some clo))" "gives (params_fit T (tf_typenum tf)) (tf_params tf clo i)"
  using assms by (simp_all add: field_ok_def)

lemma field_ok_cond:
  "field_ok T M tf \<Longrightarrow> gives (\<lambda>_. True) (\<lambda>e. case tf_cond tf of None \<Rightarrow> Some (True, e) | Some c \<Rightarrow> c clo e)"
  by (cases "tf_cond tf") (auto simp: field_ok_def gives_def)

section \<open>Creating an instance and taking it back\<close>

lemma heap_add_undo:
  assumes "H a = None" and "H b = Some tb" and "ti_prev ta = Some b"
  shows "(heap_add a ta H)(a := None, b \<mapsto> tb) = H" "heap_add a ta H a = Some ta" "heap_add a ta H b = Some (tb\<lparr>ti_ref_c := ti_ref_c tb + 1\<rparr>)"
  using assms by (auto simp: heap_add_def fun_eq_iff)

text \<open>Releasing an instance with one reference whose parent stays.\<close>

lemma typeinfo_free_child:
  assumes H: "h_ti e = heap_add a ta H" "H a = None" "H b = Some tb" and ta: "ti_prev ta = Some b" "ti_ref_c ta = 1" "ti_xlate ta = None"
    and tb: "0 < ti_ref_c tb"
  shows "typeinfo_free a e = Some (e\<lparr>h_ti := H\<rparr>)"
proof -
  let ?ta = "ta\<lparr>ti_ref_c := 0\<rparr>" and ?e = "put_ti a (ta\<lparr>ti_ref_c := 0\<rparr>) e"
  have ab: "a \<noteq> b" using H by auto
  have at: "ti_at e a = Some ta" "ti_at ?e b = Some (tb\<lparr>ti_ref_c := ti_ref_c tb + 1\<rparr>)"
    using heap_add_undo [OF H(2,3) ta(1)] ab H(1) by (simp_all add: ti_at_def put_ti_def)
  have x: "ti_xlate ?ta = None" using ta(3) by (simp add: ti_xlate_def ti_clo_def)
  have "typeinfo_free b ?e = Some (put_ti b tb ?e)"
    using tb at(2) by (subst typeinfo_free.simps) (simp add: typeinfo_unref_def)
  then have "typeinfo_free a e = Some (free_ti a (put_ti b tb ?e))"
    using at(1) ta(1,2) ab x by (subst typeinfo_free.simps) (simp add: typeinfo_unref_def)
  moreover have "free_ti a (put_ti b tb ?e) = e\<lparr>h_ti := (h_ti e)(a := None, b \<mapsto> tb)\<rparr>"
    using ab by (simp add: free_ti_def put_ti_def fun_eq_iff)
  ultimately show ?thesis using heap_add_undo(1) [OF H(2,3) ta(1)] H(1) by simp
qed

text \<open>
  What following from \<open>p\<close> does to the heap: either nothing, or there is one new instance, the only reference to it
  goes to the caller, and \<open>p\<close> has one reference more.
\<close>

definition follow_res :: "addr \<Rightarrow> env \<Rightarrow> addr option \<Rightarrow> env \<Rightarrow> bool" where
  "follow_res p e r e' \<longleftrightarrow> (r = None \<and> h_ti e' = h_ti e \<and> h_next e \<le> h_next e' \<or>
     (\<exists>ti. r = Some (h_next e) \<and> h_ti e' = heap_add (h_next e) ti (h_ti e) \<and> h_next e' = h_next e + 1 \<and>
        ti_prev ti = Some p \<and> ti_ref_c ti = 1 \<and> ti_xlate ti = None))"

definition res_refs :: "addr option \<Rightarrow> (addr \<Rightarrow> nat) \<Rightarrow> addr \<Rightarrow> nat" where
  "res_refs r ext = (case r of None \<Rightarrow> ext | Some a \<Rightarrow> ext(a := 1))"

lemma ti_refs_ok_next: "ti_refs_ok ext H n \<Longrightarrow> n \<le> m \<Longrightarrow> ti_refs_ok ext H m"
  unfolding ti_refs_ok_def by (meson order_less_le_trans)

lemma follow_res_refs:
  assumes ok: "ti_refs_ok ext (h_ti e) (h_next e)" and p: "h_ti e p \<noteq> None" and r: "follow_res p e r e'"
  shows "ti_refs_ok (res_refs r ext) (h_ti e') (h_next e')"
  using r unfolding follow_res_def
proof (elim disjE exE conjE)
  fix ti
  assume ti: "r = Some (h_next e)" "h_ti e' = heap_add (h_next e) ti (h_ti e)" "h_next e' = h_next e + 1"
    "ti_prev ti = Some p" "ti_ref_c ti = 1" "ti_xlate ti = None"
  have "ti_refs_ok (ext(h_next e := 1)) (heap_add (h_next e) ti (h_ti e)) (h_next e + 1)"
    unfolding heap_add_def by (rule refs_ok_add [OF ok ti(5,6)]) (use ti(4) p in simp)
  then show ?thesis using ti(1-3) by (simp add: res_refs_def)
qed (use ok ti_refs_ok_next in \<open>simp add: res_refs_def\<close>)

lemma alloc_named_res:
  assumes ok: "ti_refs_ok ext (h_ti e) (h_next e)" and td: "td_ok T td" and pure: "asserts_pure T (td_typenum td)"
    and range: "offset_in_range e (clo_offset (td_clo td))" and tp: "h_ti e p = Some tp" "ti_ref_c tp + 1 < 2 ^ 32"
    and f: "\<And>t. ti_prev (f t) = ti_prev t" "\<And>t. ti_ref_c (f t) = ti_ref_c t" "\<And>t. ti_td (f t) = ti_td t"
  shows "\<exists>e1 ti r e'. typeinfo_alloc_generic T td (Some p) e = Some (Some (h_next e), e1) \<and> ti_at e1 (h_next e) = Some ti \<and>
    verify_or_free T (h_next e) (put_ti (h_next e) (f ti) e1) = Some (r, e') \<and> follow_res p e r e' \<and>
    (\<forall>a. r = Some a \<longrightarrow> h_ti e' a = Some (f ti)) \<and> ti_typenum (f ti) = td_typenum td \<and>
    (\<exists>t. ti_at (put_ti (h_next e) (f ti) e1) p = Some t \<and> ti_xlate t = None)"
proof -
  let ?a = "h_next e"
  have dead: "h_ti e ?a = None" using ti_refs_okD(1) [OF ok] by (metis less_irrefl not_None_eq)
  have "\<exists>tp. h_ti e q = Some tp \<and> ti_ref_c tp + 1 < 2 ^ 32" if "Some p = Some q" for q using that tp by simp
  from typeinfo_alloc_generic_run [OF td range dead this] obtain ti where ti: "typeinfo_alloc_generic T td (Some p) e =
      Some (Some ?a, (stats_inc FSL_STAT_TYPEINFO_ALLOC e)\<lparr>h_ti := heap_add ?a ti (h_ti e), h_next := ?a + 1\<rparr>)"
      "fresh_ti td (Some p) e ti"
    by blast
  let ?ti = "f ti" and ?e = "(stats_inc FSL_STAT_TYPEINFO_ALLOC e)\<lparr>h_ti := heap_add ?a (f ti) (h_ti e), h_next := ?a + 1\<rparr>"
  have fr: "ti_prev ?ti = Some p" "ti_ref_c ?ti = 1" "ti_xlate ?ti = None" "ti_typenum ?ti = td_typenum td"
    using ti(2) by (simp_all add: fresh_ti_def f ti_sel_defs)
  have put: "put_ti ?a ?ti ((stats_inc FSL_STAT_TYPEINFO_ALLOC e)\<lparr>h_ti := heap_add ?a ti (h_ti e), h_next := ?a + 1\<rparr>) = ?e"
    using ti(2) fr(1) by (simp add: put_ti_def heap_add_def fun_eq_iff fresh_ti_def)
  have ok': "ti_refs_ok (ext(?a := 1)) (h_ti ?e) (?a + 1)"
    using follow_res_refs [OF ok, of p "Some ?a" ?e] tp(1) fr by (auto simp: follow_res_def res_refs_def)
  have at: "h_ti ?e ?a = Some ?ti" by (simp add: heap_add_def)
  obtain b e2 where e2: "typeinfo_verify T ?a ?e = Some (b, e2)" "h_ti e2 = h_ti ?e" "h_next e2 = ?a + 1"
    using typeinfo_verify_keeps [OF ok' at, of T] td pure fr(4) unfolding td_ok_def by auto
  have "0 < ti_ref_c tp" using ti_refs_okD(3) [OF ok tp(1)] .
  then have free: "typeinfo_free ?a e2 = Some (e2\<lparr>h_ti := h_ti e\<rparr>)"
    using typeinfo_free_child [OF _ dead tp(1) fr(1-3)] e2(2) by simp
  have "\<exists>r e'. verify_or_free T ?a ?e = Some (r, e') \<and> follow_res p e r e' \<and> (\<forall>a. r = Some a \<longrightarrow> h_ti e' a = Some ?ti)"
    using e2 free fr at by (cases b) (auto simp: verify_or_free_def follow_res_def)
  moreover have "\<exists>t. ti_at ?e p = Some t \<and> ti_xlate t = None"
    using tp(1) dead fr(1) ti_refs_okD(2) [OF ok tp(1)] by (auto simp: ti_at_def heap_add_def ti_sel_defs)
  ultimately show ?thesis using ti(1) put at fr(4) by (auto simp: ti_at_def heap_add_def)
qed

lemma alloc_by_field_res:
  assumes ok: "ti_refs_ok ext (h_ti e) (h_next e)" and td: "td_ok T td" and pure: "asserts_pure T (td_typenum td)"
    and tp: "h_ti e p = Some tp" "ti_ref_c tp + 1 < 2 ^ 32" and fref: "field_by_ref T fref \<noteq> None"
  shows "\<exists>r e'. typeinfo_alloc_by_field T td (Some fref) (Some p) e = Some (r, e') \<and> follow_res p e r e' \<and>
    (\<forall>a. r = Some a \<longrightarrow> (\<exists>t. h_ti e' a = Some t \<and> ti_field t = Some fref \<and> ti_typenum t = td_typenum td))"
proof (cases "offset_in_range e (clo_offset (td_clo td))")
  case False
  then show ?thesis by (simp add: typeinfo_alloc_by_field_def typeinfo_alloc_generic_def offset_in_range_def Let_def follow_res_def)
next
  case True
  obtain tf where tf: "field_by_ref T fref = Some tf" using fref by blast
  from alloc_named_res [OF ok td pure True tp, of "\<lambda>ti. ti\<lparr>ti_field := Some fref, ti_print_name := Some (tf_fieldname tf), ti_print_idxval := TI_INVALID_IDXVAL\<rparr>"]
  show ?thesis using tf by (auto simp: typeinfo_alloc_by_field_def upd_ti_def)
qed

lemma alloc_pointsto_res:
  assumes ok: "ti_refs_ok ext (h_ti e) (h_next e)" and td: "td_ok T td" and pure: "asserts_pure T (td_typenum td)"
    and tp: "h_ti e p = Some tp" "ti_ref_c tp + 1 < 2 ^ 32" and pt: "points_by_ref T ptr = Some pt"
  shows "\<exists>r e'. typeinfo_alloc_pointsto T td ptr i p e = Some (r, e') \<and> follow_res p e r e'"
proof (cases "offset_in_range e (clo_offset (td_clo td))")
  case False
  then show ?thesis by (simp add: typeinfo_alloc_pointsto_def typeinfo_alloc_generic_def offset_in_range_def Let_def follow_res_def)
next
  case True
  let ?name = "case pt_name pt of None \<Rightarrow> ''points-to'' | Some n \<Rightarrow> n"
  from alloc_named_res [OF ok td pure True tp, of "\<lambda>ti. ti\<lparr>ti_points := Some ptr, ti_print_name := Some ?name, ti_print_idxval := u32 i,
      ti_iter := Some (IterPointsto (fst ptr) (snd ptr))\<rparr>"]
  show ?thesis using pt by (auto simp: typeinfo_alloc_pointsto_def upd_ti_def)
qed

lemma alloc_iter_res:
  assumes ok: "ti_refs_ok ext (h_ti e) (h_next e)" and td: "td_ok T td" and pure: "asserts_pure T (td_typenum td)"
    and tp: "h_ti e p = Some tp" "ti_ref_c tp + 1 < 2 ^ 32"
  shows "\<exists>r e'. typeinfo_alloc_iter T td itr i p e = Some (r, e') \<and> follow_res p e r e'"
proof (cases "offset_in_range e (clo_offset (td_clo td))")
  case False
  then show ?thesis by (simp add: typeinfo_alloc_iter_def typeinfo_alloc_generic_def offset_in_range_def Let_def follow_res_def)
next
  case True
  from alloc_named_res [OF ok td pure True tp, of "\<lambda>ti. ti\<lparr>ti_print_name := Some ''iter'', ti_print_idxval := u32 i, ti_iter := Some itr\<rparr>"]
  show ?thesis by (auto simp: typeinfo_alloc_iter_def upd_ti_def)
qed

end
