(* ===== verification/ScanSafe.thy ===== *)
theory ScanSafe
  imports Scan GenCode
begin

text \<open>
  The scanner terminates and gives back every instance it created.

  \<^item> The tables are those of a file system description without virtual types, whose generated functions
    return and leave the heap of instances alone (\<open>tables_ok\<close>), with arrays and pointer ranges of at most
    \<open>M\<close> elements. The tool's hooks do the same (\<open>ops_ok\<close>).
  \<^item> \<open>scan_heap H\<close> describes the heap in the middle of a scan: the heap \<open>H\<close> before the scan, plus the chain of
    instances that the type frames of the stack own, each with its exact reference count.
  \<^item> Every step of the machine keeps the invariant \<open>scan_inv\<close> and lowers the measure \<open>stk_measure\<close> of the stack. The
    stack is bounded because verified chains are.
\<close>

section \<open>Generated code and hooks\<close>

definition tt_ok :: "fsl_tables \<Rightarrow> nat \<Rightarrow> fsl_rtt_type \<Rightarrow> bool" where
  "tt_ok T M tt \<longleftrightarrow> (\<forall>tf \<in> set (tt_fieldstrong tt) \<union> set (tt_fieldtypes_thunkoff tt). field_ok T M tf) \<and>
     (\<forall>pt \<in> set (tt_pointsto tt). iter_ok T M (tt_param_c tt) (pt_iter pt)) \<and> tt_virt tt = [] \<and>
     (\<forall>clo. gives (\<lambda>_. True) (tt_size tt clo) \<and> (\<forall>as \<in> set (tt_assert tt). gives (\<lambda>_. True) (as_assertf as clo))) \<and>
     length (tt_fieldstrong tt) \<le> M \<and> length (tt_fieldtypes_thunkoff tt) \<le> M \<and> length (tt_pointsto tt) \<le> M"

definition tables_ok :: "fsl_tables \<Rightarrow> nat \<Rightarrow> bool" where
  "tables_ok T M \<longleftrightarrow> (\<forall>tt \<in> set (fsl_rt_table T). tt_ok T M tt) \<and> 4 \<le> M \<and> M + 1 < 2 ^ 32 \<and> length (fsl_rt_table T) \<le> TYPENUM_INVALID"

definition hook_ok :: "(int \<Rightarrow> bool) \<Rightarrow> ('s, int) sc \<Rightarrow> bool" where
  "hook_ok P h \<longleftrightarrow> (\<forall>s e. \<exists>r s' e'. h s e = Some (r, s', e') \<and> P r \<and> keeps e e')"

text \<open>A hook on pointers must not stop the scan: the instance it is called for would not be released.\<close>

definition ops_ok :: "'s scan_ops \<Rightarrow> bool" where
  "ops_ok ops \<longleftrightarrow> (\<forall>h. so_ti ops = Some h \<longrightarrow> (\<forall>a. hook_ok (\<lambda>_. True) (h a))) \<and>
     (\<forall>h. so_strong ops = Some h \<longrightarrow> (\<forall>a f. hook_ok (\<lambda>_. True) (h a f))) \<and>
     (\<forall>h. so_cond ops = Some h \<longrightarrow> (\<forall>a f. hook_ok (\<lambda>_. True) (h a f))) \<and>
     (\<forall>h. so_pt ops = Some h \<longrightarrow> (\<forall>a p i. hook_ok (\<lambda>r. \<not> is_ret_done r) (h a p i)))"

lemma scan_hook_ok:
  assumes "\<And>f. h = Some f \<Longrightarrow> hook_ok P f" and "P SCAN_RET_CONTINUE"
  shows "\<exists>r s' e'. scan_hook h s e = Some (r, s', e') \<and> P r \<and> keeps e e'"
  using assms by (cases h) (auto simp: scan_hook_def hook_ok_def)

lemma not_done_continue [simp]: "\<not> is_ret_done SCAN_RET_CONTINUE" "is_ret_done SCAN_RET_EXIT_TYPE"
  by (simp_all add: is_ret_done_def SCAN_RET_CONTINUE_def SCAN_RET_TERMINATE_def SCAN_RET_EXIT_TYPE_def)

section \<open>The heap in the middle of a scan\<close>

fun scan_heap :: "(addr \<Rightarrow> type_info option) \<Rightarrow> addr list \<Rightarrow> (addr \<Rightarrow> type_info option) \<Rightarrow> bool" where
  "scan_heap H0 [] H \<longleftrightarrow> False"
| "scan_heap H0 [a] H \<longleftrightarrow> (\<exists>ti. H0 a = Some ti \<and> H = H0(a \<mapsto> ti\<lparr>ti_ref_c := ti_ref_c ti + 1\<rparr>))"
| "scan_heap H0 (a # b # as) H \<longleftrightarrow> (\<exists>H1 ta. scan_heap H0 (b # as) H1 \<and> H1 a = None \<and> H1 b \<noteq> None \<and> ti_ref_c ta = 1 \<and>
     ti_prev ta = Some b \<and> ti_xlate ta = None \<and> H = heap_add a ta H1)"

text \<open>The caller of the scan holds a reference to the instance it scans, and its count has room for two more.\<close>

definition root_ok :: "(addr \<Rightarrow> type_info option) \<Rightarrow> addr \<Rightarrow> bool" where
  "root_ok H0 a \<longleftrightarrow> (\<exists>ti. H0 a = Some ti \<and> 0 < ti_ref_c ti \<and> ti_ref_c ti + 2 < 2 ^ 32 \<and> ti_xlate ti = None)"

lemma scan_heap_top:
  assumes "scan_heap H0 (a # as) H" and "root_ok H0 (last (a # as))"
  shows "\<exists>ti. H a = Some ti \<and> 0 < ti_ref_c ti \<and> ti_ref_c ti + 1 < 2 ^ 32 \<and> ti_xlate ti = None"
  using assms by (cases as) (auto simp: root_ok_def heap_add_def ti_xlate_def ti_clo_def)

lemma scan_heap_pop_root:
  assumes "scan_heap H0 [a] (h_ti e)" and "root_ok H0 a"
  shows "typeinfo_free a e = Some (e\<lparr>h_ti := H0\<rparr>)"
proof -
  obtain ti where ti: "H0 a = Some ti" "h_ti e = H0(a \<mapsto> ti\<lparr>ti_ref_c := ti_ref_c ti + 1\<rparr>)" "0 < ti_ref_c ti"
    using assms by (auto simp: root_ok_def)
  then have "put_ti a ti e = e\<lparr>h_ti := H0\<rparr>" by (simp add: put_ti_def fun_upd_idem)
  then show ?thesis using ti by (subst typeinfo_free.simps) (simp add: typeinfo_unref_def ti_at_def)
qed

section \<open>Chains of scanned instances\<close>

definition ti_key :: "(addr \<Rightarrow> type_info option) \<Rightarrow> addr \<Rightarrow> nat \<times> nat" where
  "ti_key H x = (ti_offset (the (H x)), typenum_at H x)"

definition ti_ok :: "fsl_tables \<Rightarrow> nat \<Rightarrow> type_info \<Rightarrow> bool" where
  "ti_ok T N ti \<longleftrightarrow> ti_xlate ti = None \<and> typenum_ok T (ti_typenum ti) \<and> ti_offset ti < N"

definition chain_ok :: "fsl_tables \<Rightarrow> nat \<Rightarrow> (addr \<Rightarrow> type_info option) \<Rightarrow> addr list \<Rightarrow> bool" where
  "chain_ok T N H xs \<longleftrightarrow> ti_path H (Some (hd xs)) xs \<and> (\<forall>x \<in> set xs. \<exists>ti. H x = Some ti \<and> ti_ok T N ti) \<and> distinct (map (ti_key H) xs)"

lemma ti_core_eqD:
  assumes "ti_core t = ti_core t'"
  shows "ti_prev t = ti_prev t'" "ti_xlate t = ti_xlate t'" "ti_typenum t = ti_typenum t'" "ti_offset t = ti_offset t'" "ti_clo t = ti_clo t'"
proof -
  have td: "ti_td t = ti_td t'" using arg_cong [OF assms, of ti_td] by (simp add: ti_core_def)
  show "ti_prev t = ti_prev t'" using arg_cong [OF assms, of ti_prev] by (simp add: ti_core_def)
  show "ti_xlate t = ti_xlate t'" "ti_typenum t = ti_typenum t'" "ti_offset t = ti_offset t'" "ti_clo t = ti_clo t'"
    by (simp_all add: ti_sel_defs td)
qed

lemma ti_path_core:
  assumes "\<forall>x \<in> set xs. map_option ti_core (H' x) = map_option ti_core (H x)"
  shows "ti_path H cur xs \<Longrightarrow> ti_path H' cur xs"
  using assms
proof (induction xs arbitrary: cur)
  case (Cons x xs)
  from Cons.prems(1) obtain t where t: "cur = Some x" "H x = Some t" "ti_path H (ti_prev t) xs" by (cases cur) auto
  have "map_option ti_core (H' x) = Some (ti_core t)" using Cons.prems(2) t(2) by simp
  then obtain t' where "H' x = Some t'" "ti_core t' = ti_core t" by auto
  then show ?case using t Cons.IH [OF t(3)] Cons.prems(2) ti_core_eqD(1) [of t' t] by simp
next
  case Nil
  then show ?case by (cases cur) simp_all
qed

lemma chain_ok_core:
  assumes ok: "chain_ok T N H xs" and core: "\<forall>x \<in> set xs. map_option ti_core (H' x) = map_option ti_core (H x)"
  shows "chain_ok T N H' xs"
proof -
  have at: "\<exists>t'. H' x = Some t' \<and> ti_ok T N t' \<and> ti_key H' x = ti_key H x" if x: "x \<in> set xs" for x
  proof -
    obtain t where t: "H x = Some t" "ti_ok T N t" using ok x by (auto simp: chain_ok_def)
    then obtain t' where t': "H' x = Some t'" "ti_core t' = ti_core t" using core x by fastforce
    from ti_core_eqD [OF t'(2)] show ?thesis using t t'(1) by (simp add: ti_ok_def ti_key_def typenum_at_def)
  qed
  then have "map (ti_key H') xs = map (ti_key H) xs" by (metis map_eq_conv)
  then have "distinct (map (ti_key H') xs)" using ok by (metis chain_ok_def)
  moreover have "\<exists>t'. H' x = Some t' \<and> ti_ok T N t'" if "x \<in> set xs" for x using at [OF that] by blast
  ultimately show ?thesis using ok ti_path_core [OF core] by (simp add: chain_ok_def)
qed

lemma chain_ok_add:
  assumes "chain_ok T N H xs" and "H a = None" and "xs \<noteq> []" and ta: "ti_prev ta = Some (hd xs)" "ti_ok T N ta"
  shows "chain_ok T N (heap_add a ta H) xs" and "ti_path (heap_add a ta H) (Some a) (a # xs)"
proof -
  have a: "a \<notin> set xs" using assms(1,2) by (auto simp: chain_ok_def)
  then have "\<forall>x \<in> set xs. map_option ti_core (heap_add a ta H x) = map_option ti_core (H x)"
    by (auto simp: heap_add_def map_option.compositionality comp_def)
  from chain_ok_core [OF assms(1) this] show "chain_ok T N (heap_add a ta H) xs" .
  then show "ti_path (heap_add a ta H) (Some a) (a # xs)" using ta(1) by (simp add: chain_ok_def heap_add_def)
qed

lemma chain_ok_bound:
  assumes "chain_ok T N H xs"
  shows "length xs \<le> N * (length (fsl_rt_table T) + 1)"
proof -
  let ?S = "insert TYPENUM_INVALID {..<length (fsl_rt_table T)}"
  have "distinct (map (\<lambda>x. (ti_offset (the (H x)), typenum_at H x)) xs)"
    using assms by (simp add: chain_ok_def ti_key_def [abs_def])
  then have "length xs \<le> N * card ?S"
    by (rule keys_bound) (use assms in \<open>auto simp: chain_ok_def ti_ok_def typenum_ok_def typenum_at_def\<close>)
  also have "\<dots> \<le> N * (length (fsl_rt_table T) + 1)" by (simp add: card_insert_if)
  finally show ?thesis .
qed

lemma verify_asserts_gives:
  assumes "\<forall>as \<in> set ass. gives (\<lambda>_. True) (as_assertf as clo)"
  shows "gives (\<lambda>_. True) (verify_asserts_loop clo ass)"
  using assms
proof (induction ass)
  case (Cons as ass)
  have "\<exists>v e'. verify_asserts_loop clo (as # ass) e = Some (v, e') \<and> keeps e e'" for e
  proof -
    obtain v e1 where v: "as_assertf as clo e = Some (v, e1)" "keeps e e1" using Cons.prems givesE by (metis list.set_intros(1))
    obtain v2 e2 where "verify_asserts_loop clo ass e1 = Some (v2, e2)" "keeps e1 e2" using Cons givesE by (metis list.set_intros(2))
    then show ?thesis using v keeps_trans by (cases v) (auto simp: keeps_def)
  qed
  then show ?case by (simp add: gives_def)
qed (auto simp: gives_def)

lemma typeinfo_verify_child:
  assumes tabs: "tables_ok T M" and ch: "chain_ok T N H xs" and new: "H a = None" "xs \<noteq> []" and ta: "ti_prev ta = Some (hd xs)" "ti_ok T N ta"
    and h: "h_ti e = heap_add a ta H"
  shows "\<exists>b e'. typeinfo_verify T a e = Some (b, e') \<and> keeps e e' \<and> (b \<longrightarrow> chain_ok T N (h_ti e) (a # xs))"
proof -
  note add = chain_ok_add [OF ch new ta, folded h]
  have at: "h_ti e a = Some ta" by (simp add: h heap_add_def)
  have live: "\<exists>ti. h_ti e x = Some ti \<and> ti_ok T N ti" if "x \<in> set (a # xs)" for x
    using that add(1) at ta(2) by (auto simp: chain_ok_def)
  have "phys_ok T (h_ti e) (keeps e) (\<lambda>x. ti_offset (the (h_ti e x))) (a # xs)"
    using live by (fastforce simp: phys_ok_def keeps_def ti_phys_offset_def ti_ok_def Let_def)
  from ti_has_loop_spec [OF add(2) this keeps_refl] obtain b e1 where b: "ti_has_loop T a e = Some (b, e1)" "keeps e e1"
      "b \<longleftrightarrow> (\<exists>x \<in> set xs. ti_offset (the (h_ti e x)) = ti_offset (the (h_ti e a)) \<and> typenum_at (h_ti e) x = typenum_at (h_ti e) a)"
    by blast
  have at1: "ti_at e1 a = Some ta" using at b(2) by (simp add: ti_at_def keeps_def)
  obtain c e2 where c: "typeinfo_verify_asserts T a e1 = Some (c, e2)" "keeps e1 e2"
  proof (cases "ti_typenum ta = TYPENUM_INVALID")
    case True
    then show thesis using that [of True e1] at1 by (simp add: typeinfo_verify_asserts_def)
  next
    case False
    let ?tt = "fsl_rt_table T ! ti_typenum ta"
    have n: "ti_typenum ta < length (fsl_rt_table T)" using ta(2) False by (simp add: ti_ok_def typenum_ok_def)
    then have "tt_ok T M ?tt" using tabs by (simp add: tables_ok_def)
    then have "gives (\<lambda>_. True) (verify_asserts_loop (ti_clo ta) (tt_assert ?tt))" by (intro verify_asserts_gives) (simp add: tt_ok_def)
    then show thesis using that at1 False n by (auto elim!: givesE [where e = e1] simp: typeinfo_verify_asserts_def tt_by_num_def)
  qed
  show ?thesis
  proof (cases b)
    case True
    then have "typeinfo_verify T a e = Some (False, e1)" using b(1) by (simp add: typeinfo_verify_def)
    then show ?thesis using b(2) by blast
  next
    case False
    then have "ti_key (h_ti e) a \<notin> ti_key (h_ti e) ` set xs" using b(3) by (auto simp: ti_key_def)
    then have "chain_ok T N (h_ti e) (a # xs)" using add live by (auto simp: chain_ok_def)
    then show ?thesis using False b c keeps_trans by (auto simp: typeinfo_verify_def)
  qed
qed

section \<open>Creating the next instance\<close>

text \<open>\<open>cs\<close> lists the scanned instances with their types, the last one first; \<open>rest\<close> are the ancestors of the first.\<close>

definition scan_st :: "fsl_tables \<Rightarrow> (addr \<Rightarrow> type_info option) \<Rightarrow> addr list \<Rightarrow> (addr \<times> nat) list \<Rightarrow> env \<Rightarrow> bool" where
  "scan_st T H0 rest cs e \<longleftrightarrow> scan_heap H0 (map fst cs) (h_ti e) \<and> root_ok H0 (last (map fst cs)) \<and> (\<forall>x. h_ti e x \<noteq> None \<longrightarrow> x < h_next e) \<and>
     chain_ok T (u64 (bdev_bytes e * 8)) (h_ti e) (map fst cs @ rest) \<and>
     (\<forall>(x, n) \<in> set cs. typenum_at (h_ti e) x = n \<and> n < length (fsl_rt_table T))"

definition child_st :: "fsl_tables \<Rightarrow> (addr \<Rightarrow> type_info option) \<Rightarrow> addr list \<Rightarrow> (addr \<times> nat) list \<Rightarrow> addr option \<Rightarrow> env \<Rightarrow> bool" where
  "child_st T H0 rest cs r e \<longleftrightarrow> (case r of None \<Rightarrow> scan_st T H0 rest cs e | Some a \<Rightarrow> \<exists>n. scan_st T H0 rest ((a, n) # cs) e)"

lemma scan_st_keeps: "scan_st T H0 rest cs e \<Longrightarrow> keeps e e' \<Longrightarrow> scan_st T H0 rest cs e'"
  by (simp add: scan_st_def keeps_def)

lemma scan_st_top:
  assumes "scan_st T H0 rest ((p, n) # cs) e"
  obtains tp where "h_ti e p = Some tp" "0 < ti_ref_c tp" "ti_ref_c tp + 1 < 2 ^ 32" "ti_xlate tp = None"
    "ti_typenum tp = n" "n < length (fsl_rt_table T)"
  using assms scan_heap_top [of H0 p "map fst cs" "h_ti e"] by (auto simp: scan_st_def typenum_at_def)

definition td_fits :: "fsl_tables \<Rightarrow> type_desc \<Rightarrow> bool" where
  "td_fits T td \<longleftrightarrow> td_typenum td < length (fsl_rt_table T) \<and> clo_xlate (td_clo td) = None \<and> params_fit T (td_typenum td) (clo_params (td_clo td))"

lemma verify_child_or_free:
  assumes tabs: "tables_ok T M" and st: "scan_st T H0 rest ((p, n) # cs) e0"
    and ta: "ti_prev ta = Some p" "ti_ref_c ta = 1" "ti_ok T (u64 (bdev_bytes e0 * 8)) ta" "ti_typenum ta < length (fsl_rt_table T)"
    and e: "h_ti e = heap_add (h_next e0) ta (h_ti e0)" "h_next e = h_next e0 + 1" "bdev_bytes e = bdev_bytes e0"
  shows "\<exists>r e'. verify_or_free T (h_next e0) e = Some (r, e') \<and> child_st T H0 rest ((p, n) # cs) r e'"
proof -
  let ?a = "h_next e0" and ?N = "u64 (bdev_bytes e0 * 8)"
  let ?as = "map fst cs"
  have ch: "chain_ok T ?N (h_ti e0) ((p # ?as) @ rest)" and dead: "h_ti e0 ?a = None" and sh: "scan_heap H0 (p # ?as) (h_ti e0)"
    and nums: "\<forall>(x, m) \<in> set ((p, n) # cs). typenum_at (h_ti e0) x = m \<and> m < length (fsl_rt_table T)"
    using st by (auto simp: scan_st_def)
  obtain tp where tp: "h_ti e0 p = Some tp" "0 < ti_ref_c tp" using scan_st_top [OF st] by metis
  have x: "ti_xlate ta = None" using ta(3) by (simp add: ti_ok_def)
  obtain b e1 where b: "typeinfo_verify T ?a e = Some (b, e1)" "keeps e e1" "b \<longrightarrow> chain_ok T ?N (h_ti e) (?a # (p # ?as) @ rest)"
    using typeinfo_verify_child [OF tabs ch dead _ _ ta(3) e(1)] ta(1) by auto
  have bound: "\<forall>x. h_ti e x \<noteq> None \<longrightarrow> x < h_next e" "\<forall>x. h_ti e0 x \<noteq> None \<longrightarrow> x < h_next e"
    using st e(1,2) less_SucI by (auto simp: scan_st_def heap_add_def split: if_splits)
  show ?thesis
  proof (cases b)
    case True
    have sh': "scan_heap H0 (?a # p # ?as) (h_ti e)" using sh dead tp ta(1,2) x e(1) by auto
    have na: "typenum_at (h_ti e) ?a = ti_typenum ta" using e(1) by (simp add: typenum_at_def heap_add_def)
    have ny: "typenum_at (h_ti e) y = typenum_at (h_ti e0) y" if "y \<noteq> ?a" for y
      using that e(1) by (auto simp: typenum_at_def heap_add_def ti_typenum_def split: option.splits)
    have ne: "y \<noteq> ?a" if "(y, m) \<in> set ((p, n) # cs)" for y m
    proof -
      have "y \<in> set ((p # ?as) @ rest)" using that by force
      then obtain t where "h_ti e0 y = Some t" using ch unfolding chain_ok_def by blast
      then show ?thesis using dead by auto
    qed
    have "typenum_at (h_ti e) y = m \<and> m < length (fsl_rt_table T)" if "(y, m) \<in> set ((p, n) # cs)" for y m
      using nums that ny [OF ne [OF that]] by auto
    then have "\<forall>(y, m) \<in> set ((?a, ti_typenum ta) # (p, n) # cs). typenum_at (h_ti e) y = m \<and> m < length (fsl_rt_table T)"
      using na ta(4) by auto
    moreover have "root_ok H0 (last (map fst ((?a, ti_typenum ta) # (p, n) # cs)))" using st by (simp add: scan_st_def)
    ultimately have "scan_st T H0 rest ((?a, ti_typenum ta) # (p, n) # cs) e"
      using b(3) True sh' bound(1) e(3) by (simp add: scan_st_def)
    then have "scan_st T H0 rest ((?a, ti_typenum ta) # (p, n) # cs) e1" using scan_st_keeps b(2) by blast
    then show ?thesis using b(1) True by (auto simp: verify_or_free_def child_st_def)
  next
    case False
    have "typeinfo_free ?a e1 = Some (e1\<lparr>h_ti := h_ti e0\<rparr>)"
      using typeinfo_free_child [of e1 ?a ta "h_ti e0" p tp] b(2) e(1) dead tp ta(1,2) x by (simp add: keeps_def)
    moreover have "scan_st T H0 rest ((p, n) # cs) (e1\<lparr>h_ti := h_ti e0\<rparr>)"
      using st b(2) e(2,3) bound(2) by (simp add: scan_st_def keeps_def)
    ultimately show ?thesis using b(1) False by (simp add: verify_or_free_def child_st_def)
  qed
qed

lemma alloc_child:
  assumes tabs: "tables_ok T M" and st: "scan_st T H0 rest ((p, n) # cs) e" and td: "td_fits T td"
    and f: "\<And>ti. ti_prev (f ti) = ti_prev ti \<and> ti_ref_c (f ti) = ti_ref_c ti \<and> ti_td (f ti) = ti_td ti"
  shows "(\<exists>e1. typeinfo_alloc_generic T td (Some p) e = Some (None, e1) \<and> scan_st T H0 rest ((p, n) # cs) e1) \<or>
    (\<exists>a e1 e2 r e3 tp. typeinfo_alloc_generic T td (Some p) e = Some (Some a, e1) \<and> upd_ti a f e1 = Some e2 \<and> ti_at e2 p = Some tp \<and>
       ti_xlate tp = None \<and> verify_or_free T a e2 = Some (r, e3) \<and> child_st T H0 rest ((p, n) # cs) r e3)"
proof (cases "offset_in_range e (clo_offset (td_clo td))")
  case False
  then show ?thesis using scan_st_keeps [OF st keeps_stats] by (simp add: typeinfo_alloc_generic_def offset_in_range_def Let_def)
next
  case True
  obtain tp where tp: "h_ti e p = Some tp" "ti_ref_c tp + 1 < 2 ^ 32" "ti_xlate tp = None" using scan_st_top [OF st] by metis
  have dead: "h_ti e (h_next e) = None" using st by (auto simp: scan_st_def)
  have "td_ok T td" using td by (auto simp: td_ok_def td_fits_def params_fit_def typenum_ok_def)
  from typeinfo_alloc_generic_run [OF this True dead, of "Some p"] tp obtain ta
    where ta: "typeinfo_alloc_generic T td (Some p) e =
        Some (Some (h_next e), (stats_inc FSL_STAT_TYPEINFO_ALLOC e)\<lparr>h_ti := heap_add (h_next e) ta (h_ti e), h_next := h_next e + 1\<rparr>)"
      "fresh_ti td (Some p) e ta"
    by auto
  let ?a = "h_next e" and ?e1 = "(stats_inc FSL_STAT_TYPEINFO_ALLOC e)\<lparr>h_ti := heap_add (h_next e) ta (h_ti e), h_next := h_next e + 1\<rparr>"
  have up: "upd_ti ?a f ?e1 = Some (put_ti ?a (f ta) ?e1)" by (simp add: upd_ti_def ti_at_def heap_add_def)
  have pre: "ti_prev ta = Some p" using ta(2) by (simp add: fresh_ti_def)
  have h: "h_ti (put_ti ?a (f ta) ?e1) = heap_add ?a (f ta) (h_ti e)" using f by (auto simp: put_ti_def heap_add_def fun_eq_iff)
  have "ti_ok T (u64 (bdev_bytes e * 8)) (f ta)" "ti_typenum (f ta) < length (fsl_rt_table T)"
    using ta(2) td True f by (auto simp: ti_ok_def fresh_ti_def td_fits_def typenum_ok_def offset_in_range_def ti_sel_defs)
  from verify_child_or_free [OF tabs st _ _ this h] obtain r e3
    where r: "verify_or_free T ?a (put_ti ?a (f ta) ?e1) = Some (r, e3)" "child_st T H0 rest ((p, n) # cs) r e3"
    using f pre ta(2) by (auto simp: put_ti_def fresh_ti_def)
  have "?a \<noteq> p" using dead tp(1) by auto
  then have "ti_at (put_ti ?a (f ta) ?e1) p = Some (tp\<lparr>ti_ref_c := ti_ref_c tp + 1\<rparr>)"
    using tp(1) pre f by (simp add: ti_at_def put_ti_def heap_add_def)
  moreover have "ti_xlate (tp\<lparr>ti_ref_c := ti_ref_c tp + 1\<rparr>) = None" using tp(3) by (simp add: ti_xlate_def ti_clo_def)
  ultimately show ?thesis using ta(1) up r by blast
qed

lemma follow_field_child:
  assumes tabs: "tables_ok T M" and st: "scan_st T H0 rest ((p, n) # cs) e" and tf: "field_by_ref T fref = Some tf" "field_ok T M tf" "tf_typenum tf \<noteq> TYPENUM_INVALID"
  shows "\<exists>r e'. typeinfo_follow_field_off_idx T p fref off idx e = Some (r, e') \<and> child_st T H0 rest ((p, n) # cs) r e'"
proof -
  obtain tp where tp: "h_ti e p = Some tp" using scan_st_top [OF st] by metis
  obtain ps e1 where ps: "tf_params tf (ti_clo tp) idx e = Some (ps, e1)" "params_fit T (tf_typenum tf) ps" "keeps e e1"
    using tf(2) unfolding field_ok_def by (metis givesE)
  let ?td = "\<lparr>td_typenum = tf_typenum tf, td_clo = \<lparr>clo_offset = off, clo_params = ps, clo_xlate = None\<rparr>\<rparr>"
  let ?f = "\<lambda>ti. ti\<lparr>ti_field := Some fref, ti_print_name := Some (tf_fieldname tf), ti_print_idxval := TI_INVALID_IDXVAL\<rparr>"
  have td: "td_fits T ?td" using tf(2,3) ps(2) by (auto simp: td_fits_def field_ok_def typenum_ok_def)
  have run: "typeinfo_follow_field_off_idx T p fref off idx e = typeinfo_alloc_by_field T ?td (Some fref) (Some p) e1"
    using tp tf(1) ps(1) by (simp add: typeinfo_follow_field_off_idx_def ti_at_def)
  have f: "ti_prev (?f ti) = ti_prev ti \<and> ti_ref_c (?f ti) = ti_ref_c ti \<and> ti_td (?f ti) = ti_td ti" for ti by simp
  from alloc_child [OF tabs scan_st_keeps [OF st ps(3)] td, of ?f, OF f] show ?thesis
  proof (elim disjE exE conjE, goal_cases)
    case (1 e2)
    then show ?case by (simp add: run typeinfo_alloc_by_field_def child_st_def)
  next
    case (2 a e2 e3 r e4 tp)
    then show ?case using tf(1) by (simp add: run typeinfo_alloc_by_field_def)
  qed
qed

lemma follow_pointsto_child:
  assumes tabs: "tables_ok T M" and st: "scan_st T H0 rest ((p, n) # cs) e" and pt: "points_by_ref T ptr = Some pt"
    and it: "iter_ok T M (tt_param_c (fsl_rt_table T ! n)) (pt_iter pt)"
  shows "\<exists>r e'. typeinfo_follow_pointsto T p ptr idx e = Some (r, e') \<and> child_st T H0 rest ((p, n) # cs) r e'"
proof -
  obtain tp where tp: "h_ti e p = Some tp" "ti_typenum tp = n" "n < length (fsl_rt_table T)" using scan_st_top [OF st] by metis
  obtain b e1 where b: "iter_is_ok (pt_iter pt) (ti_clo tp) e = Some (b, e1)" "keeps e e1"
  proof -
    obtain mn em where mn: "it_min (pt_iter pt) (ti_clo tp) e = Some (mn, em)" "keeps e em" using it unfolding iter_ok_def by (metis givesE)
    obtain mx ex where mx: "it_max (pt_iter pt) (ti_clo tp) em = Some (mx, ex)" "keeps em ex" using it unfolding iter_ok_def by (metis givesE)
    show thesis using that mn mx keeps_trans by (cases "mn = ones64"; cases "mx < mn") (auto simp: iter_is_ok_def)
  qed
  obtain v e2 where v: "it_range (pt_iter pt) (ti_clo tp) idx e1 = Some (v, e2)" "keeps e1 e2"
      "case v of (off, ps, x) \<Rightarrow> x = None \<and> \<not> offset_is_bad off \<and> length ps \<le> tt_param_c (fsl_rt_table T ! n) \<and> params_fit T (it_type_dst (pt_iter pt)) ps"
    using it unfolding iter_ok_def by (metis (no_types, lifting) givesE)
  obtain off ps x where vv: "v = (off, ps, x)" by (cases v)
  let ?td = "\<lparr>td_typenum = it_type_dst (pt_iter pt), td_clo = \<lparr>clo_offset = off, clo_params = ps, clo_xlate = x\<rparr>\<rparr>"
  let ?f = "\<lambda>ti. ti\<lparr>ti_points := Some ptr, ti_print_name := Some (case pt_name pt of None \<Rightarrow> ''points-to'' | Some n \<Rightarrow> n), ti_print_idxval := u32 (u32 idx),
              ti_iter := Some (IterPointsto (fst ptr) (snd ptr))\<rparr>"
  have td: "td_fits T ?td" using it v(3) by (simp add: vv td_fits_def iter_ok_def)
  have at: "ti_at e p = Some tp" "tt_by_num T (ti_typenum tp) = Some (fsl_rt_table T ! n)"
    using tp by (simp_all add: ti_at_def tt_by_num_def)
  have st1: "scan_st T H0 rest ((p, n) # cs) e1" and st2: "scan_st T H0 rest ((p, n) # cs) e2"
    using st b(2) v(2) scan_st_keeps keeps_trans by blast+
  show ?thesis
  proof (cases b)
    case False
    then show ?thesis using st1 b(1) at pt by (simp add: typeinfo_follow_pointsto_def child_st_def)
  next
    case True
    then have run: "typeinfo_follow_pointsto T p ptr idx e = typeinfo_alloc_pointsto T ?td ptr (u32 idx) p e2"
      using b(1) at pt v(1,3) by (simp add: typeinfo_follow_pointsto_def vv)
    have f: "ti_prev (?f ti) = ti_prev ti \<and> ti_ref_c (?f ti) = ti_ref_c ti \<and> ti_td (?f ti) = ti_td ti" for ti by simp
    from alloc_child [OF tabs st2 td, of ?f, OF f] show ?thesis
    proof (elim disjE exE conjE, goal_cases)
      case (1 e3)
      then show ?case by (simp add: run typeinfo_alloc_pointsto_def child_st_def)
    next
      case (2 a e3 e4 r e5 tp)
      then show ?case using pt by (simp add: run typeinfo_alloc_pointsto_def Let_def)
    qed
  qed
qed

lemma chain_ok_tl: "chain_ok T N H (x # y # xs) \<Longrightarrow> chain_ok T N H (y # xs)"
  by (cases "H x") (auto simp: chain_ok_def elim: ti_path.elims)

lemma heap_add_core:
  "H a = None \<Longrightarrow> H x \<noteq> None \<Longrightarrow> map_option ti_core (H x) = map_option ti_core (heap_add a ta H x)"
  "H a = None \<Longrightarrow> H x \<noteq> None \<Longrightarrow> typenum_at (heap_add a ta H) x = typenum_at H x"
  by (auto simp: heap_add_def map_option.compositionality comp_def typenum_at_def ti_typenum_def)

text \<open>Popping a type frame takes the last instance out of the heap again.\<close>

lemma scan_st_pop:
  assumes st: "scan_st T H0 rest ((a, m) # (p, n) # cs) e"
  obtains H1 where "typeinfo_free a e = Some (e\<lparr>h_ti := H1\<rparr>)" "scan_st T H0 rest ((p, n) # cs) (e\<lparr>h_ti := H1\<rparr>)"
proof -
  let ?as = "map fst cs" and ?N = "u64 (bdev_bytes e * 8)"
  obtain H1 ta where H1: "scan_heap H0 (p # ?as) H1" "H1 a = None" "H1 p \<noteq> None" "ti_ref_c ta = 1" "ti_prev ta = Some p" "ti_xlate ta = None"
      "h_ti e = heap_add a ta H1"
    using st by (auto simp: scan_st_def)
  have root: "root_ok H0 (last (p # ?as))" using st by (simp add: scan_st_def)
  obtain tp where tp: "H1 p = Some tp" "0 < ti_ref_c tp" using scan_heap_top [OF H1(1) root] by auto
  have free: "typeinfo_free a e = Some (e\<lparr>h_ti := H1\<rparr>)" by (rule typeinfo_free_child [OF H1(7,2) tp(1) H1(5,4,6) tp(2)])
  have ch: "chain_ok T ?N (h_ti e) (a # p # ?as @ rest)" using st by (simp add: scan_st_def)
  then have "distinct (map (ti_key (h_ti e)) (a # p # ?as @ rest))" by (simp add: chain_ok_def)
  then have na: "x \<noteq> a" if "x \<in> set (p # ?as @ rest)" for x using that by (metis distinct.simps(2) distinct_map)
  have live: "H1 x \<noteq> None" if x: "x \<in> set (p # ?as @ rest)" for x
    using ch x na [OF x] by (auto simp: chain_ok_def H1(7) heap_add_def split: if_splits)
  then have "\<forall>x \<in> set (p # ?as @ rest). map_option ti_core (H1 x) = map_option ti_core (h_ti e x)"
    using heap_add_core(1) [where H = H1 and a = a, OF H1(2)] by (simp add: H1(7))
  then have "chain_ok T ?N H1 (p # ?as @ rest)" using chain_ok_core [OF chain_ok_tl [OF ch]] by blast
  moreover have "typenum_at H1 x = k \<and> k < length (fsl_rt_table T)" if "(x, k) \<in> set ((p, n) # cs)" for x k
  proof -
    have "x \<in> set (p # ?as @ rest)" using that by force
    then have "typenum_at (h_ti e) x = typenum_at H1 x" using heap_add_core(2) [where H = H1 and a = a, OF H1(2) live] by (simp add: H1(7))
    moreover have "typenum_at (h_ti e) x = k \<and> k < length (fsl_rt_table T)" using st that unfolding scan_st_def by auto
    ultimately show ?thesis by simp
  qed
  moreover have "x < h_next e" if "H1 x \<noteq> None" for x
    using st that by (auto simp: scan_st_def H1(7) heap_add_def)
  ultimately have "scan_st T H0 rest ((p, n) # cs) (e\<lparr>h_ti := H1\<rparr>)" using H1(1) root by (auto simp: scan_st_def)
  with free show thesis by (rule that)
qed

lemma create_stk_type_ok:
  assumes ops: "ops_ok (sctx_ops ctx)" and st: "scan_st T H0 rest ((a, m) # (p, n) # cs) e"
  shows "\<exists>ret sn s' e'. create_stk_type T ctx a s e = Some ((ret, sn), s', e') \<and>
    (if is_ret_done ret then scan_st T H0 rest ((p, n) # cs) e'
     else scan_st T H0 rest ((a, m) # (p, n) # cs) e' \<and> sn = blank_stk\<lparr>stk_ti := a, stk_ops := StkType, stk_idx := 0\<rparr>)"
proof -
  have "hook_ok (\<lambda>_. True) f" if "map_option (\<lambda>f. f a) (so_ti (sctx_ops ctx)) = Some f" for f using that ops by (auto simp: ops_ok_def)
  then obtain r s1 e1 where r: "scan_hook (map_option (\<lambda>f. f a) (so_ti (sctx_ops ctx))) s e = Some (r, s1, e1)" "keeps e e1"
    using scan_hook_ok [of "map_option (\<lambda>f. f a) (so_ti (sctx_ops ctx))" "\<lambda>_. True" s e] by auto
  have st1: "scan_st T H0 rest ((a, m) # (p, n) # cs) e1" using scan_st_keeps [OF st r(2)] .
  obtain H1 where "typeinfo_free a e1 = Some (e1\<lparr>h_ti := H1\<rparr>)" "scan_st T H0 rest ((p, n) # cs) (e1\<lparr>h_ti := H1\<rparr>)"
    using scan_st_pop [OF st1] by blast
  then show ?thesis
    using r st1 by (cases "is_ret_done r") (simp_all add: create_stk_type_def sto_init_def stkop_type_init_def)
qed

section \<open>Frames\<close>

fun stk_lvl :: "scan_stkops \<Rightarrow> nat" where
  "stk_lvl StkType = 0"
| "stk_lvl StkFieldstrong = 1"
| "stk_lvl StkCond = 1"
| "stk_lvl StkPointstoAll = 1"
| "stk_lvl StkVirtAll = 1"
| "stk_lvl StkFieldarray = 2"
| "stk_lvl StkPointsto = 2"
| "stk_lvl StkVirt = 2"

text \<open>A frame over an instance of type \<open>n\<close>.\<close>

definition frame_ok :: "fsl_tables \<Rightarrow> nat \<Rightarrow> nat \<Rightarrow> scan_stk \<Rightarrow> bool" where
  "frame_ok T M n f \<longleftrightarrow> stk_idx f \<le> M + 1 \<and> (case stk_ops f of
     StkType \<Rightarrow> stk_idx f \<le> 4
   | StkFieldarray \<Rightarrow> (\<exists>fref tf. sfa_field f = Some fref \<and> field_by_ref T fref = Some tf \<and> field_ok T M tf \<and> tf_typenum tf \<noteq> TYPENUM_INVALID) \<and>
       sfa_numelems f \<le> M
   | StkPointsto \<Rightarrow> (\<exists>ptr pt. spt_pt f = Some ptr \<and> points_by_ref T ptr = Some pt \<and> iter_ok T M (tt_param_c (fsl_rt_table T ! n)) (pt_iter pt)) \<and>
       spt_max f \<le> M
   | StkVirt \<Rightarrow> False
   | _ \<Rightarrow> True)"

text \<open>What a \<open>sto_fill_next\<close> must do: stop, or advance its index and push a frame of the next level.\<close>

definition fill_ok :: "fsl_tables \<Rightarrow> nat \<Rightarrow> (addr \<Rightarrow> type_info option) \<Rightarrow> addr list \<Rightarrow> (addr \<times> nat) list \<Rightarrow> addr \<Rightarrow> nat \<Rightarrow> scan_stk \<Rightarrow>
    ((int \<times> scan_stk \<times> scan_stk) \<times> 's \<times> env) option \<Rightarrow> bool" where
  "fill_ok T M H0 rest cs a n f res \<longleftrightarrow> (\<exists>err f' sn s' e'. res = Some ((err, f', sn), s', e') \<and> stk_ti f' = stk_ti f \<and> stk_ops f' = stk_ops f \<and>
     (if is_ret_done err then scan_st T H0 rest ((a, n) # cs) e'
      else stk_idx f < stk_idx f' \<and> frame_ok T M n f' \<and>
        (if stk_lvl (stk_ops f) = 2 then stk_ops sn = StkType \<and> (\<exists>m. frame_ok T M m sn \<and> scan_st T H0 rest ((stk_ti sn, m) # (a, n) # cs) e')
         else stk_ti sn = a \<and> stk_lvl (stk_ops sn) = Suc (stk_lvl (stk_ops f)) \<and> frame_ok T M n sn \<and> scan_st T H0 rest ((a, n) # cs) e')))"

lemma fill_ok_done:
  "is_ret_done err \<Longrightarrow> stk_ti f' = stk_ti f \<Longrightarrow> stk_ops f' = stk_ops f \<Longrightarrow> scan_st T H0 rest ((a, n) # cs) e' \<Longrightarrow>
    fill_ok T M H0 rest cs a n f (Some ((err, f', sn), s', e'))"
  by (simp add: fill_ok_def)

lemma scan_st_at:
  assumes "scan_st T H0 rest ((a, n) # cs) e" and "tables_ok T M"
  obtains ti where "ti_at e a = Some ti" "ti_typenum ti = n" "n \<noteq> TYPENUM_INVALID" "tt_by_num T n = Some (fsl_rt_table T ! n)" "tt_ok T M (fsl_rt_table T ! n)"
proof -
  obtain ti where "h_ti e a = Some ti" "ti_typenum ti = n" "n < length (fsl_rt_table T)" using scan_st_top [OF assms(1)] by metis
  then show thesis using that assms(2) by (auto simp: ti_at_def tables_ok_def tt_by_num_def)
qed

lemma fieldarray_init_ok:
  assumes tabs: "tables_ok T M" and st: "scan_st T H0 rest ((a, n) # cs) e"
    and f: "stk_ti f = a" "stk_ops f = StkFieldarray" "sfa_field f = Some fref" "field_by_ref T fref = Some tf" "field_ok T M tf"
  shows "\<exists>err f' e'. stkop_fieldarray_init T ctx f e = Some ((err, f'), e') \<and> scan_st T H0 rest ((a, n) # cs) e' \<and>
    (\<not> is_ret_done err \<longrightarrow> stk_ti f' = a \<and> stk_ops f' = StkFieldarray \<and> frame_ok T M n f')"
proof -
  obtain ti where ti: "ti_at e a = Some ti" using scan_st_at [OF st tabs] by blast
  obtain off e1 where o: "tf_fieldbitoff tf (ti_clo ti) e = Some (off, e1)" "keeps e e1" using f(5) unfolding field_ok_def by (metis givesE)
  obtain k e2 where k: "tf_elemcount tf (ti_clo ti) e1 = Some (k, e2)" "k \<le> M" "keeps e1 e2" using f(5) unfolding field_ok_def by (metis givesE)
  have "scan_st T H0 rest ((a, n) # cs) e2" using st o(2) k(3) scan_st_keeps keeps_trans by blast
  then show ?thesis using st ti f o k by (simp add: stkop_fieldarray_init_def frame_ok_def)
qed

lemma fieldarray_find_ok:
  assumes tabs: "tables_ok T M" and st: "scan_st T H0 rest ((a, n) # cs) e"
    and tf: "field_by_ref T fref = Some tf" "field_ok T M tf" "tf_typenum tf \<noteq> TYPENUM_INVALID" and num: "num \<le> M" "idx \<le> M + 1"
  shows "\<exists>r i o' e'. fieldarray_find T a fref num idx off e = Some ((r, i, o'), e') \<and> child_st T H0 rest ((a, n) # cs) r e' \<and> idx \<le> i \<and> (r \<noteq> None \<longrightarrow> i < num)"
  using st num(2)
proof (induction "num - idx" arbitrary: idx off e rule: less_induct)
  case less
  show ?case
  proof (cases "idx < num")
    case False
    then show ?thesis using less.prems by (subst fieldarray_find.simps) (simp add: child_st_def)
  next
    case True
    obtain r e1 where r: "typeinfo_follow_field_off_idx T a fref off idx e = Some (r, e1)" "child_st T H0 rest ((a, n) # cs) r e1"
      using follow_field_child [OF tabs less.prems(1) tf] by blast
    show ?thesis
    proof (cases r)
      case None
      then have st1: "scan_st T H0 rest ((a, n) # cs) e1" using r(2) by (simp add: child_st_def)
      obtain ti where ti: "ti_at e1 a = Some ti" using scan_st_at [OF st1 tabs] by blast
      obtain sz e2 where sz: "tf_typesize tf (Some (ti_clo ti)) e1 = Some (sz, e2)" "keeps e1 e2" using tf(2) unfolding field_ok_def by (metis givesE)
      have w: "u32 (idx + 1) = idx + 1" using True num(1) tabs by (simp add: u32_def tables_ok_def)
      have "num - (idx + 1) < num - idx" "idx + 1 \<le> M + 1" using True num(1) by simp_all
      from less.hyps [OF this(1) scan_st_keeps [OF st1 sz(2)] this(2)] show ?thesis
        using True None r(1) tf(1) ti sz(1) w by (subst fieldarray_find.simps) fastforce
    next
      case (Some b)
      then show ?thesis using True r by (subst fieldarray_find.simps) simp
    qed
  qed
qed

text \<open>The end of the two operations that push a type frame.\<close>

lemma fill_ok_child:
  assumes ops: "ops_ok (sctx_ops ctx)" and st: "scan_st T H0 rest ((b, m) # (a, n) # cs) e"
    and f: "stk_ti f' = stk_ti f" "stk_ops f' = stk_ops f" "stk_lvl (stk_ops f) = 2" "stk_idx f < stk_idx f'" "frame_ok T M n f'"
  shows "fill_ok T M H0 rest cs a n f (do { ((ret, sn), s, e) \<leftarrow> create_stk_type T ctx b s e; Some ((ret, f', sn), s, e) })"
proof -
  obtain ret sn s' e' where c: "create_stk_type T ctx b s e = Some ((ret, sn), s', e')"
      "if is_ret_done ret then scan_st T H0 rest ((a, n) # cs) e'
       else scan_st T H0 rest ((b, m) # (a, n) # cs) e' \<and> sn = blank_stk\<lparr>stk_ti := b, stk_ops := StkType, stk_idx := 0\<rparr>"
    using create_stk_type_ok [OF ops st] by blast
  have "frame_ok T M m (blank_stk\<lparr>stk_ti := b, stk_ops := StkType, stk_idx := 0\<rparr>)" by (simp add: frame_ok_def)
  then show ?thesis using c f by (cases "is_ret_done ret") (auto simp: fill_ok_def)
qed

lemma fieldarray_next_ok:
  assumes tabs: "tables_ok T M" and ops: "ops_ok (sctx_ops ctx)" and st: "scan_st T H0 rest ((a, n) # cs) e"
    and f: "stk_ti f = a" "stk_ops f = StkFieldarray" "frame_ok T M n f"
  shows "fill_ok T M H0 rest cs a n f (stkop_fieldarray_next T ctx f s e)"
proof -
  obtain fref tf where tf: "sfa_field f = Some fref" "field_by_ref T fref = Some tf" "field_ok T M tf" "tf_typenum tf \<noteq> TYPENUM_INVALID"
    and num: "sfa_numelems f \<le> M" "stk_idx f \<le> M + 1"
    using f(2,3) by (auto simp: frame_ok_def)
  obtain r i off e1 where r: "fieldarray_find T a fref (sfa_numelems f) (stk_idx f) (sfa_off f) e = Some ((r, i, off), e1)"
      "child_st T H0 rest ((a, n) # cs) r e1" "stk_idx f \<le> i" "r \<noteq> None \<longrightarrow> i < sfa_numelems f"
    using fieldarray_find_ok [OF tabs st tf(2-4) num] by blast
  show ?thesis
  proof (cases r)
    case None
    then show ?thesis using r f tf by (auto simp: stkop_fieldarray_next_def child_st_def intro: fill_ok_done)
  next
    case (Some b)
    then obtain m where st1: "scan_st T H0 rest ((b, m) # (a, n) # cs) e1" using r(2) by (auto simp: child_st_def)
    obtain bt where bt: "ti_at e1 b = Some bt" "ti_typenum bt = m" "m \<noteq> TYPENUM_INVALID" "tt_by_num T m = Some (fsl_rt_table T ! m)"
        "tt_ok T M (fsl_rt_table T ! m)"
      using scan_st_at [OF st1 tabs] by metis
    obtain sz e2 where sz: "tt_size (fsl_rt_table T ! m) (ti_clo bt) e1 = Some (sz, e2)" "keeps e1 e2" using bt(5) unfolding tt_ok_def by (metis givesE)
    have w: "u32 (i + 1) = i + 1" using r(4) Some num(1) tabs by (simp add: u32_def tables_ok_def)
    let ?step = "if i < sfa_numelems f - 1 then sz else 0" and ?e = "if i < sfa_numelems f - 1 then e2 else e1"
    let ?f = "f\<lparr>stk_idx := i + 1, sfa_off := u64 (off + ?step)\<rparr>"
    have "stkop_fieldarray_next T ctx f s e = do { ((ret, sn), s, e) \<leftarrow> create_stk_type T ctx b s ?e; Some ((ret, ?f, sn), s, e) }"
      using Some r(1) f(1) tf(1,2) bt sz(1) w by (simp add: stkop_fieldarray_next_def)
    moreover have "scan_st T H0 rest ((b, m) # (a, n) # cs) ?e" using st1 scan_st_keeps [OF st1 sz(2)] by simp
    moreover have "frame_ok T M n ?f" using f(2,3) tf num(1) r(4) Some by (simp add: frame_ok_def)
    ultimately show ?thesis using fill_ok_child [OF ops, of T H0 rest b m a n cs ?e ?f f M s] f(1,2) r(3) by simp
  qed
qed

lemma pointsto_find_ok:
  assumes tabs: "tables_ok T M" and st: "scan_st T H0 rest ((a, n) # cs) e"
    and pt: "points_by_ref T ptr = Some pt" "iter_ok T M (tt_param_c (fsl_rt_table T ! n)) (pt_iter pt)" and num: "mx \<le> M"
  shows "\<exists>r i e'. pointsto_find T a ptr mx idx e = Some ((r, i), e') \<and> child_st T H0 rest ((a, n) # cs) r e' \<and> idx \<le> i \<and> (r \<noteq> None \<longrightarrow> i \<le> mx)"
  using st
proof (induction "mx + 1 - idx" arbitrary: idx e rule: less_induct)
  case less
  show ?case
  proof (cases "idx \<le> mx")
    case False
    then show ?thesis using less.prems by (subst pointsto_find.simps) (simp add: child_st_def)
  next
    case True
    obtain r e1 where r: "typeinfo_follow_pointsto T a ptr idx e = Some (r, e1)" "child_st T H0 rest ((a, n) # cs) r e1"
      using follow_pointsto_child [OF tabs less.prems pt] by blast
    show ?thesis
    proof (cases r)
      case None
      then have st1: "scan_st T H0 rest ((a, n) # cs) e1" using r(2) by (simp add: child_st_def)
      have w: "u32 (idx + 1) = idx + 1" using True num tabs by (simp add: u32_def tables_ok_def)
      have "mx + 1 - (idx + 1) < mx + 1 - idx" using True by simp
      from less.hyps [OF this st1] show ?thesis using True None r(1) w by (subst pointsto_find.simps) fastforce
    next
      case (Some b)
      then show ?thesis using True r by (subst pointsto_find.simps) simp
    qed
  qed
qed

lemma pointsto_next_ok:
  assumes tabs: "tables_ok T M" and ops: "ops_ok (sctx_ops ctx)" and st: "scan_st T H0 rest ((a, n) # cs) e"
    and f: "stk_ti f = a" "stk_ops f = StkPointsto" "frame_ok T M n f"
  shows "fill_ok T M H0 rest cs a n f (stkop_pointsto_next T ctx f s e)"
proof -
  obtain ptr pt where pt: "spt_pt f = Some ptr" "points_by_ref T ptr = Some pt" "iter_ok T M (tt_param_c (fsl_rt_table T ! n)) (pt_iter pt)"
    and num: "spt_max f \<le> M"
    using f(2,3) by (auto simp: frame_ok_def)
  obtain r i e1 where r: "pointsto_find T a ptr (spt_max f) (stk_idx f) e = Some ((r, i), e1)"
      "child_st T H0 rest ((a, n) # cs) r e1" "stk_idx f \<le> i" "r \<noteq> None \<longrightarrow> i \<le> spt_max f"
    using pointsto_find_ok [OF tabs st pt(2,3) num] by blast
  show ?thesis
  proof (cases "stk_idx f > spt_max f \<or> r = None")
    case True
    then show ?thesis using r st f pt(1)
      by (cases "stk_idx f > spt_max f") (auto simp: stkop_pointsto_next_def child_st_def intro: fill_ok_done)
  next
    case False
    then obtain b m where b: "r = Some b" and st1: "scan_st T H0 rest ((b, m) # (a, n) # cs) e1" using r(2) by (auto simp: child_st_def)
    let ?h = "map_option (\<lambda>f. f a ptr i) (so_pt (sctx_ops ctx))"
    have "hook_ok (\<lambda>r. \<not> is_ret_done r) g" if "?h = Some g" for g using that ops by (cases ptr) (auto simp: ops_ok_def)
    then obtain ret s2 e2 where h: "scan_hook ?h s e1 = Some (ret, s2, e2)" "\<not> is_ret_done ret" "keeps e1 e2"
      using scan_hook_ok [of ?h "\<lambda>r. \<not> is_ret_done r" s e1] by auto
    have i: "i \<le> M" using r(4) b num by simp
    then have w: "u32 (i + 1) = i + 1" using tabs by (simp add: u32_def tables_ok_def)
    let ?f = "f\<lparr>stk_idx := i + 1\<rparr>"
    have "stkop_pointsto_next T ctx f s e = do { ((ret, sn), s, e) \<leftarrow> create_stk_type T ctx b s2 e2; Some ((ret, ?f, sn), s, e) }"
      using False b r(1) f(1) pt(1) h(1,2) w by (simp add: stkop_pointsto_next_def)
    moreover have "frame_ok T M n ?f" using f(2,3) i by (simp add: frame_ok_def)
    ultimately show ?thesis
      using fill_ok_child [OF ops scan_st_keeps [OF st1 h(3)], of ?f f M s2] f(1,2) r(3) by simp
  qed
qed

text \<open>A field of the type at hand that is pushed as an array frame.\<close>

lemma push_fieldarray:
  assumes tabs: "tables_ok T M" and st: "scan_st T H0 rest ((a, n) # cs) e" and f: "stk_ti f = a"
    and tf: "field_by_ref T fref = Some tf" "field_ok T M tf"
  shows "\<exists>err sn e'. stk_from_stk T ctx (blank_stk\<lparr>sfa_field := Some fref\<rparr>) f StkFieldarray s e = Some ((err, sn), s, e') \<and>
    scan_st T H0 rest ((a, n) # cs) e' \<and> (\<not> is_ret_done err \<longrightarrow> stk_ti sn = a \<and> stk_ops sn = StkFieldarray \<and> frame_ok T M n sn)"
proof -
  let ?f = "blank_stk\<lparr>sfa_field := Some fref, stk_ti := a, stk_ops := StkFieldarray\<rparr>"
  obtain err f' e' where i: "stkop_fieldarray_init T ctx ?f e = Some ((err, f'), e')" "scan_st T H0 rest ((a, n) # cs) e'"
      "\<not> is_ret_done err \<longrightarrow> stk_ti f' = a \<and> stk_ops f' = StkFieldarray \<and> frame_ok T M n f'"
    using fieldarray_init_ok [OF tabs st, of ?f fref tf ctx] tf by auto
  then show ?thesis using f by (simp add: stk_from_stk_def sto_init_def lift_rt_def blank_stk_def)
qed

lemma fieldstrong_next_ok:
  assumes tabs: "tables_ok T M" and ops: "ops_ok (sctx_ops ctx)" and st: "scan_st T H0 rest ((a, n) # cs) e"
    and f: "stk_ti f = a" "stk_ops f = StkFieldstrong"
  shows "fill_ok T M H0 rest cs a n f (stkop_fieldstrong_next T ctx f s e)"
  using st f
proof (induction "length (tt_fieldstrong (fsl_rt_table T ! n)) - stk_idx f" arbitrary: f s e rule: less_induct)
  case less
  let ?tt = "fsl_rt_table T ! n"
  obtain ti where ti: "ti_at e a = Some ti" "ti_typenum ti = n" "tt_by_num T n = Some ?tt" "tt_ok T M ?tt"
    using scan_st_at [OF less.prems(1) tabs] by metis
  show ?case
  proof (cases "stk_idx f < length (tt_fieldstrong ?tt)")
    case False
    then show ?thesis using ti less.prems by (subst stkop_fieldstrong_next.simps) (auto intro: fill_ok_done)
  next
    case True
    let ?fref = "(TabStrong, n, stk_idx f)" and ?f = "f\<lparr>stk_idx := stk_idx f + 1\<rparr>"
    let ?h = "map_option (\<lambda>g. g a ?fref) (so_strong (sctx_ops ctx))"
    have "hook_ok (\<lambda>_. True) g" if "?h = Some g" for g using that ops by (auto simp: ops_ok_def)
    then obtain ret s1 e1 where h: "scan_hook ?h s e = Some (ret, s1, e1)" "keeps e e1"
      using scan_hook_ok [of ?h "\<lambda>_. True" s e] by auto
    have st1: "scan_st T H0 rest ((a, n) # cs) e1" using scan_st_keeps [OF less.prems(1) h(2)] .
    have fld: "field_by_ref T ?fref = Some (tt_fieldstrong ?tt ! stk_idx f)" "field_ok T M (tt_fieldstrong ?tt ! stk_idx f)"
      using True ti(3,4) by (auto simp: tt_ok_def)
    obtain err sn e2 where p: "stk_from_stk T ctx (blank_stk\<lparr>sfa_field := Some ?fref\<rparr>) ?f StkFieldarray s1 e1 = Some ((err, sn), s1, e2)"
        "scan_st T H0 rest ((a, n) # cs) e2" "\<not> is_ret_done err \<longrightarrow> stk_ti sn = a \<and> stk_ops sn = StkFieldarray \<and> frame_ok T M n sn"
      using push_fieldarray [OF tabs st1 _ fld, of ?f ctx s1] less.prems(2) by auto
    have idx: "stk_idx f + 1 \<le> M + 1" using True ti(4) by (simp add: tt_ok_def)
    have run: "stkop_fieldstrong_next T ctx f s e = (if is_ret_done ret then Some ((ret, ?f, blank_stk), s1, e1)
        else if is_ret_done err then stkop_fieldstrong_next T ctx ?f s1 e2 else Some ((err, ?f, sn), s1, e2))"
      using True ti h(1) p(1) less.prems(2) by (subst stkop_fieldstrong_next.simps) (simp add: Let_def)
    have rec: "fill_ok T M H0 rest cs a n ?f (stkop_fieldstrong_next T ctx ?f s1 e2)"
      using less.hyps [of ?f e2 s1] p(2) less.prems(2,3) True by simp
    then have "fill_ok T M H0 rest cs a n f (stkop_fieldstrong_next T ctx ?f s1 e2)" by (force simp: fill_ok_def)
    moreover have "frame_ok T M n ?f" using idx less.prems(3) by (simp add: frame_ok_def)
    ultimately show ?thesis using run st1 p less.prems(2,3) by (auto intro: fill_ok_done simp: fill_ok_def)
  qed
qed

lemma cond_idx_spec: "i \<le> cond_idx fs i" "cond_idx fs i < length fs \<Longrightarrow> tf_cond (fs ! cond_idx fs i) \<noteq> None"
proof -
  have "i \<le> cond_idx fs i \<and> (cond_idx fs i < length fs \<longrightarrow> tf_cond (fs ! cond_idx fs i) \<noteq> None)"
  proof (induction fs i rule: cond_idx.induct)
    case (1 fs i)
    then show ?case by (subst (1 2 3) cond_idx.simps) auto
  qed
  then show "i \<le> cond_idx fs i" "cond_idx fs i < length fs \<Longrightarrow> tf_cond (fs ! cond_idx fs i) \<noteq> None" by auto
qed

lemma cond_next_ok:
  assumes tabs: "tables_ok T M" and ops: "ops_ok (sctx_ops ctx)" and st: "scan_st T H0 rest ((a, n) # cs) e"
    and f: "stk_ti f = a" "stk_ops f = StkCond"
  shows "fill_ok T M H0 rest cs a n f (stkop_cond_next T ctx f s e)"
  using st f
proof (induction "length (tt_fieldtypes_thunkoff (fsl_rt_table T ! n)) - stk_idx f" arbitrary: f s e rule: less_induct)
  case less
  let ?tt = "fsl_rt_table T ! n" and ?i = "cond_idx (tt_fieldtypes_thunkoff (fsl_rt_table T ! n)) (stk_idx f)"
  obtain ti where ti: "ti_at e a = Some ti" "ti_typenum ti = n" "tt_by_num T n = Some ?tt" "tt_ok T M ?tt"
    using scan_st_at [OF less.prems(1) tabs] by metis
  note ci = cond_idx_spec [where i = "stk_idx f" and fs = "tt_fieldtypes_thunkoff ?tt"]
  show ?case
  proof (cases "?i < length (tt_fieldtypes_thunkoff ?tt)")
    case False
    then show ?thesis using ti less.prems by (subst stkop_cond_next.simps) (auto intro: fill_ok_done)
  next
    case True
    let ?tf = "tt_fieldtypes_thunkoff ?tt ! ?i" and ?fref = "(TabFieldtypes, n, ?i)" and ?f = "f\<lparr>stk_idx := ?i + 1\<rparr>"
    let ?h = "map_option (\<lambda>g. g a ?fref) (so_cond (sctx_ops ctx))"
    have "hook_ok (\<lambda>_. True) g" if "?h = Some g" for g using that ops by (auto simp: ops_ok_def)
    then obtain ret s1 e1 where h: "scan_hook ?h s e = Some (ret, s1, e1)" "keeps e e1"
      using scan_hook_ok [of ?h "\<lambda>_. True" s e] by auto
    have st1: "scan_st T H0 rest ((a, n) # cs) e1" using scan_st_keeps [OF less.prems(1) h(2)] .
    obtain t1 where t1: "ti_at e1 a = Some t1" using scan_st_at [OF st1 tabs] by blast
    have fld: "field_by_ref T ?fref = Some ?tf" "field_ok T M ?tf" using True ti(3,4) by (auto simp: tt_ok_def)
    obtain c where c: "tf_cond ?tf = Some c" using ci(2) True by auto
    obtain b e2 where b: "c (ti_clo t1) e1 = Some (b, e2)" "keeps e1 e2" using fld(2) c unfolding field_ok_def by (metis givesE)
    have st2: "scan_st T H0 rest ((a, n) # cs) e2" using scan_st_keeps [OF st1 b(2)] .
    obtain err sn e3 where p: "stk_from_stk T ctx (blank_stk\<lparr>sfa_field := Some ?fref\<rparr>) ?f StkFieldarray s1 e2 = Some ((err, sn), s1, e3)"
        "scan_st T H0 rest ((a, n) # cs) e3" "\<not> is_ret_done err \<longrightarrow> stk_ti sn = a \<and> stk_ops sn = StkFieldarray \<and> frame_ok T M n sn"
      using push_fieldarray [OF tabs st2 _ fld, of ?f ctx s1] less.prems(2) by auto
    have run: "stkop_cond_next T ctx f s e = (if is_ret_done ret then Some ((ret, ?f, blank_stk), s1, e1)
        else if \<not> b then stkop_cond_next T ctx ?f s1 e2 else Some ((err, ?f, sn), s1, e3))"
      using True ti h(1) c t1 b(1) p(1) less.prems(2) by (subst stkop_cond_next.simps) (simp add: Let_def)
    have "fill_ok T M H0 rest cs a n ?f (stkop_cond_next T ctx ?f s1 e2)"
      using less.hyps [of ?f e2 s1] st2 less.prems(2,3) True ci(1) by simp
    then have "fill_ok T M H0 rest cs a n f (stkop_cond_next T ctx ?f s1 e2)" using ci(1) by (force simp: fill_ok_def)
    moreover have "frame_ok T M n ?f" using True ti(4) less.prems(3) by (simp add: frame_ok_def tt_ok_def)
    moreover have "stk_idx f < ?i + 1" using ci(1) by simp
    ultimately show ?thesis using run st1 p less.prems(2,3) by (auto intro: fill_ok_done simp: fill_ok_def)
  qed
qed

lemma pointsto_init_ok:
  assumes tabs: "tables_ok T M" and st: "scan_st T H0 rest ((a, n) # cs) e"
    and f: "stk_ti f = a" "stk_ops f = StkPointsto" "spt_pt f = Some ptr" "points_by_ref T ptr = Some pt"
      "iter_ok T M (tt_param_c (fsl_rt_table T ! n)) (pt_iter pt)"
  shows "\<exists>err f' e'. stkop_pointsto_init T f e = Some ((err, f'), e') \<and> scan_st T H0 rest ((a, n) # cs) e' \<and>
    (\<not> is_ret_done err \<longrightarrow> stk_ti f' = a \<and> stk_ops f' = StkPointsto \<and> frame_ok T M n f')"
proof -
  obtain ti where ti: "ti_at e a = Some ti" using scan_st_at [OF st tabs] by blast
  obtain mn e1 where mn: "it_min (pt_iter pt) (ti_clo ti) e = Some (mn, e1)" "keeps e e1" using f(5) unfolding iter_ok_def by (metis givesE)
  obtain mx e2 where mx: "it_max (pt_iter pt) (ti_clo ti) e1 = Some (mx, e2)" "mx \<le> M" "keeps e1 e2" using f(5) unfolding iter_ok_def by (metis givesE)
  have "scan_st T H0 rest ((a, n) # cs) e1" "scan_st T H0 rest ((a, n) # cs) e2"
    using st mn(2) mx(3) scan_st_keeps keeps_trans by blast+
  moreover have "u32 mn \<le> M + 1" if "\<not> mx < mn" using that mx(2) by (simp add: u32_def mod_less_eq_dividend le_trans [of "mn mod 2 ^ 32" mn])
  ultimately show ?thesis using ti f mn(1) mx by (simp add: stkop_pointsto_init_def frame_ok_def Let_def)
qed

lemma pointsto_all_next_ok:
  assumes tabs: "tables_ok T M" and st: "scan_st T H0 rest ((a, n) # cs) e"
    and f: "stk_ti f = a" "stk_ops f = StkPointstoAll"
  shows "fill_ok T M H0 rest cs a n f (stkop_pointsto_all_next T ctx f s e)"
proof -
  let ?tt = "fsl_rt_table T ! n" and ?fill = "\<lambda>i. blank_stk\<lparr>spt_pt := Some (n, i)\<rparr>"
  have "fill_ok T M H0 rest cs a n f (stkop_all_loop T ctx StkPointsto (length (tt_pointsto ?tt)) ?fill f s e)"
    using st f
  proof (induction "length (tt_pointsto ?tt) - stk_idx f" arbitrary: f e rule: less_induct)
    case less
    obtain ti where ti: "tt_by_num T n = Some ?tt" "tt_ok T M ?tt" using scan_st_at [OF less.prems(1) tabs] by metis
    show ?case
    proof (cases "stk_idx f < length (tt_pointsto ?tt)")
      case False
      then show ?thesis using less.prems by (subst stkop_all_loop.simps) (auto intro: fill_ok_done)
    next
      case True
      let ?f = "f\<lparr>stk_idx := stk_idx f + 1\<rparr>" and ?g = "blank_stk\<lparr>spt_pt := Some (n, stk_idx f), stk_ti := a, stk_ops := StkPointsto\<rparr>"
      have pt: "points_by_ref T (n, stk_idx f) = Some (tt_pointsto ?tt ! stk_idx f)" "iter_ok T M (tt_param_c ?tt) (pt_iter (tt_pointsto ?tt ! stk_idx f))"
        using True ti by (auto simp: tt_ok_def)
      obtain err sn e1 where i: "stkop_pointsto_init T ?g e = Some ((err, sn), e1)" "scan_st T H0 rest ((a, n) # cs) e1"
          "\<not> is_ret_done err \<longrightarrow> stk_ti sn = a \<and> stk_ops sn = StkPointsto \<and> frame_ok T M n sn"
        using pointsto_init_ok [OF tabs less.prems(1) _ _ _ pt, of ?g] by auto
      have run: "stkop_all_loop T ctx StkPointsto (length (tt_pointsto ?tt)) ?fill f s e =
          (if \<not> is_ret_done err then Some ((err, ?f, sn), s, e1) else stkop_all_loop T ctx StkPointsto (length (tt_pointsto ?tt)) ?fill ?f s e1)"
        using True i(1) less.prems(2) by (subst stkop_all_loop.simps) (simp add: stk_from_stk_def sto_init_def lift_rt_def blank_stk_def Let_def)
      have "fill_ok T M H0 rest cs a n ?f (stkop_all_loop T ctx StkPointsto (length (tt_pointsto ?tt)) ?fill ?f s e1)"
        using less.hyps [of ?f e1] i(2) less.prems(2,3) True by simp
      then have "fill_ok T M H0 rest cs a n f (stkop_all_loop T ctx StkPointsto (length (tt_pointsto ?tt)) ?fill ?f s e1)" by (force simp: fill_ok_def)
      moreover have "frame_ok T M n ?f" using True ti(2) less.prems(3) by (simp add: frame_ok_def tt_ok_def)
      ultimately show ?thesis using run i less.prems(2,3) by (auto simp: fill_ok_def)
    qed
  qed
  moreover obtain ti where "ti_at e a = Some ti" "ti_typenum ti = n" "tt_by_num T n = Some ?tt" using scan_st_at [OF st tabs] by metis
  ultimately show ?thesis using f(1) by (simp add: stkop_pointsto_all_next_def)
qed

lemma type_next_ok:
  assumes tabs: "tables_ok T M" and st: "scan_st T H0 rest ((a, n) # cs) e" and f: "stk_ti f = a" "stk_ops f = StkType" "frame_ok T M n f"
  shows "fill_ok T M H0 rest cs a n f (stkop_type_next T ctx f s e)"
proof (cases "stk_idx f = 4")
  case True
  then show ?thesis using st f by (auto simp: stkop_type_next_def scan_stkops_tab_def Let_def intro: fill_ok_done)
next
  case False
  obtain ti where ti: "ti_at e a = Some ti" "ti_typenum ti = n" "n \<noteq> TYPENUM_INVALID" using scan_st_at [OF st tabs] by metis
  have M: "4 \<le> M" using tabs by (simp add: tables_ok_def)
  have "stk_idx f < 4" using False f(2,3) by (simp add: frame_ok_def)
  then consider "stk_idx f = 0" | "stk_idx f = 1" | "stk_idx f = 2" | "stk_idx f = 3" by linarith
  then show ?thesis
    using ti st f M
    by cases (simp_all add: stkop_type_next_def scan_stkops_tab_def stk_from_stk_def sto_init_def lift_rt_def stkop_fieldstrong_init_def
        stkop_cond_init_def stkop_all_init_def fill_ok_def frame_ok_def numeral_3_eq_3 Let_def)
qed

lemma virt_all_next_ok:
  assumes tabs: "tables_ok T M" and st: "scan_st T H0 rest ((a, n) # cs) e" and f: "stk_ti f = a" "stk_ops f = StkVirtAll"
  shows "fill_ok T M H0 rest cs a n f (stkop_virt_all_next T ctx f s e)"
proof -
  obtain ti where "ti_at e a = Some ti" "ti_typenum ti = n" "tt_by_num T n = Some (fsl_rt_table T ! n)" "tt_ok T M (fsl_rt_table T ! n)"
    using scan_st_at [OF st tabs] by metis
  then show ?thesis using st f by (auto simp: stkop_virt_all_next_def stkop_all_loop.simps tt_ok_def intro: fill_ok_done)
qed

lemma sto_fill_next_ok:
  assumes "tables_ok T M" and "ops_ok (sctx_ops ctx)" and "scan_st T H0 rest ((a, n) # cs) e" and "stk_ti f = a" and "frame_ok T M n f"
  shows "fill_ok T M H0 rest cs a n f (sto_fill_next T ctx f s e)"
proof (cases "stk_ops f")
  case StkVirt
  then show ?thesis using assms(5) by (simp add: frame_ok_def)
qed (use assms in \<open>simp_all add: sto_fill_next_def type_next_ok fieldstrong_next_ok cond_next_ok pointsto_all_next_ok virt_all_next_ok
    fieldarray_next_ok pointsto_next_ok\<close>)

section \<open>The stack\<close>

fun stk_ok :: "fsl_tables \<Rightarrow> nat \<Rightarrow> (addr \<times> nat) list \<Rightarrow> scan_stk list \<Rightarrow> bool" where
  "stk_ok T M ((a, n) # cs) (f # fs) \<longleftrightarrow> stk_ti f = a \<and> frame_ok T M n f \<and>
     (if stk_lvl (stk_ops f) = 0
      then (if cs = [] then fs = [] else fs \<noteq> [] \<and> stk_lvl (stk_ops (hd fs)) = 2 \<and> stk_ok T M cs fs)
      else fs \<noteq> [] \<and> Suc (stk_lvl (stk_ops (hd fs))) = stk_lvl (stk_ops f) \<and> stk_ok T M ((a, n) # cs) fs)"
| "stk_ok T M _ _ \<longleftrightarrow> False"

lemma stk_lvl_le: "stk_lvl x \<le> 2"
  by (cases x) simp_all

lemma stk_ok_length: "stk_ok T M cs fs \<Longrightarrow> length fs + 2 = 3 * length cs + stk_lvl (stk_ops (hd fs))"
proof (induction T M cs fs rule: stk_ok.induct)
  case (1 T M a n cs f fs)
  show ?case
  proof (cases "stk_lvl (stk_ops f) = 0")
    case True
    then show ?thesis using 1 by (cases "cs = []") auto
  next
    case False
    then show ?thesis using 1 by auto
  qed
qed simp_all

definition stk_bound :: "fsl_tables \<Rightarrow> nat" where
  "stk_bound T = 3 * (2 ^ 64 * (length (fsl_rt_table T) + 1))"

lemma stk_ok_bound:
  assumes "stk_ok T M cs fs" and "scan_st T H0 rest cs e"
  shows "length fs \<le> stk_bound T"
proof -
  let ?k = "length (fsl_rt_table T) + 1"
  have "length (map fst cs @ rest) \<le> u64 (bdev_bytes e * 8) * ?k" by (rule chain_ok_bound [where H = "h_ti e"]) (use assms(2) in \<open>simp add: scan_st_def\<close>)
  also have "\<dots> \<le> 2 ^ 64 * ?k" using u64_less by (intro mult_le_mono1) (metis less_imp_le)
  finally have "length cs \<le> 2 ^ 64 * ?k" by simp
  moreover have "length fs \<le> 3 * length cs" using stk_ok_length [OF assms(1)] stk_lvl_le [of "stk_ops (hd fs)"] by linarith
  ultimately show ?thesis unfolding stk_bound_def by linarith
qed

fun stk_measure :: "nat \<Rightarrow> nat \<Rightarrow> scan_stk list \<Rightarrow> nat" where
  "stk_measure M L [] = 0"
| "stk_measure M L (f # fs) = (M + 2 - stk_idx f) * (M + 3) ^ (L - length fs) + stk_measure M L fs"

lemma stk_measure_push:
  assumes "stk_idx f < stk_idx f'" and "stk_idx f' \<le> M + 1" and "length fs + 1 \<le> L"
  shows "stk_measure M L (sn # f' # fs) < stk_measure M L (f # fs)"
proof -
  define y where "y = L - (length fs + 1)"
  let ?K = "M + 3"
  have y: "L - length fs = Suc y" using assms(3) by (simp add: y_def)
  have y2: "L - length (f' # fs) = y" by (simp add: y_def)
  have "(M + 2 - stk_idx sn) * ?K ^ y < ?K ^ Suc y" unfolding power_Suc by (rule mult_strict_right_mono) simp_all
  moreover have "(M + 2 - stk_idx f') * ?K ^ Suc y + ?K ^ Suc y \<le> (M + 2 - stk_idx f) * ?K ^ Suc y"
  proof -
    have "(M + 2 - stk_idx f') + 1 \<le> M + 2 - stk_idx f" using assms(1,2) by linarith
    from mult_le_mono1 [OF this, of "?K ^ Suc y"] show ?thesis by (simp add: add_mult_distrib)
  qed
  ultimately show ?thesis unfolding stk_measure.simps y y2 by linarith
qed

lemma stk_measure_pop: "stk_idx f \<le> M + 1 \<Longrightarrow> stk_measure M L fs < stk_measure M L (f # fs)"
  by simp

section \<open>The machine\<close>

text \<open>Either the scan is over and the heap is as before, or the invariant holds of a new stack.\<close>

definition scan_inv :: "fsl_tables \<Rightarrow> nat \<Rightarrow> (addr \<Rightarrow> type_info option) \<Rightarrow> addr list \<Rightarrow> scan_stk list \<Rightarrow> env \<Rightarrow> bool" where
  "scan_inv T M H0 rest stk e \<longleftrightarrow> (if stk = [] then h_ti e = H0 else \<exists>cs. stk_ok T M cs stk \<and> scan_st T H0 rest cs e)"

lemma scan_stk_next_ok:
  assumes tabs: "tables_ok T M" and ops: "ops_ok (sctx_ops ctx)" and inv: "scan_inv T M H0 rest stk e" and ne: "stk \<noteq> []"
  shows "\<exists>err stk' s' e'. scan_stk_next T ctx stk s e = Some ((err, stk'), s', e') \<and> scan_inv T M H0 rest stk' e' \<and>
    stk_measure M (stk_bound T) stk' < stk_measure M (stk_bound T) stk"
proof -
  obtain cs0 where cs0: "stk_ok T M cs0 stk" "scan_st T H0 rest cs0 e" using inv ne by (auto simp: scan_inv_def)
  then obtain a n cs f fs where eq: "cs0 = (a, n) # cs" "stk = f # fs" by (cases "(T, M, cs0, stk)" rule: stk_ok.cases) auto
  have f: "stk_ti f = a" "frame_ok T M n f" using cs0(1) by (simp_all add: eq)
  have idx: "stk_idx f \<le> M + 1" using f(2) by (simp add: frame_ok_def)
  obtain err f' sn s' e1 where r: "sto_fill_next T ctx f s e = Some ((err, f', sn), s', e1)" "stk_ti f' = a" "stk_ops f' = stk_ops f"
      "if is_ret_done err then scan_st T H0 rest ((a, n) # cs) e1
       else stk_idx f < stk_idx f' \<and> frame_ok T M n f' \<and>
        (if stk_lvl (stk_ops f) = 2 then stk_ops sn = StkType \<and> (\<exists>m. frame_ok T M m sn \<and> scan_st T H0 rest ((stk_ti sn, m) # (a, n) # cs) e1)
         else stk_ti sn = a \<and> stk_lvl (stk_ops sn) = Suc (stk_lvl (stk_ops f)) \<and> frame_ok T M n sn \<and> scan_st T H0 rest ((a, n) # cs) e1)"
    using sto_fill_next_ok [OF tabs ops cs0(2) [unfolded eq(1)] f, of s] f(1) unfolding fill_ok_def by metis
  show ?thesis
  proof (cases "is_ret_done err")
    case True
    then have st1: "scan_st T H0 rest ((a, n) # cs) e1" using r(4) by simp
    have "\<exists>e2. sto_fini f' e1 = Some e2 \<and> scan_inv T M H0 rest fs e2"
    proof (cases "stk_ops f = StkType")
      case False
      then have "stk_lvl (stk_ops f) \<noteq> 0" by (cases "stk_ops f") simp_all
      then show ?thesis using False r(3) st1 cs0(1) by (auto simp: eq sto_fini_def scan_inv_def)
    next
      case top: True
      show ?thesis
      proof (cases cs)
        case Nil
        then have "fs = []" using cs0(1) top by (simp add: eq)
        moreover have "typeinfo_free a e1 = Some (e1\<lparr>h_ti := H0\<rparr>)" using st1 Nil by (intro scan_heap_pop_root) (simp_all add: scan_st_def)
        ultimately show ?thesis using top r(2,3) by (simp add: sto_fini_def scan_inv_def)
      next
        case (Cons p cs')
        obtain H1 where "typeinfo_free a e1 = Some (e1\<lparr>h_ti := H1\<rparr>)" "scan_st T H0 rest cs (e1\<lparr>h_ti := H1\<rparr>)"
          using scan_st_pop [of T H0 rest a n "fst p" "snd p" cs' e1] st1 Cons by auto
        moreover have "fs \<noteq> []" "stk_ok T M cs fs" using cs0(1) top Cons by (auto simp: eq)
        ultimately show ?thesis using top r(2,3) by (auto simp: sto_fini_def scan_inv_def)
      qed
    qed
    then show ?thesis using r(1) True stk_measure_pop [OF idx] by (auto simp: eq(2))
  next
    case False
    have f': "stk_idx f < stk_idx f'" "frame_ok T M n f'" using r(4) False by auto
    have ok': "stk_ok T M ((a, n) # cs) (f' # fs)" using cs0(1) r(2,3) f'(2) by (simp add: eq)
    obtain cs' where st': "stk_ok T M cs' (sn # f' # fs)" "scan_st T H0 rest cs' e1"
    proof (cases "stk_lvl (stk_ops f) = 2")
      case True
      then obtain m where "stk_ops sn = StkType" "frame_ok T M m sn" "scan_st T H0 rest ((stk_ti sn, m) # (a, n) # cs) e1" using r(4) False by auto
      moreover have "stk_ok T M ((stk_ti sn, m) # (a, n) # cs) (sn # f' # fs)"
        unfolding stk_ok.simps(1) [of T M "stk_ti sn"] using ok' calculation(1,2) r(3) True by simp
      ultimately show thesis using that by blast
    next
      case lvl: False
      then have "stk_ti sn = a" "stk_lvl (stk_ops sn) = Suc (stk_lvl (stk_ops f))" "frame_ok T M n sn" "scan_st T H0 rest ((a, n) # cs) e1" using r(4) False by auto
      moreover have "stk_ok T M ((a, n) # cs) (sn # f' # fs)"
        unfolding stk_ok.simps(1) [of T M a n cs sn] using ok' calculation(1-3) r(3) by simp
      ultimately show thesis using that by blast
    qed
    have "length fs + 1 \<le> stk_bound T" using stk_ok_bound [OF st'] by simp
    from stk_measure_push [OF f'(1) _ this] show ?thesis
      using r(1) False st' f'(2) by (auto simp: eq(2) scan_inv_def frame_ok_def)
  qed
qed

lemma scan_loop_ok:
  assumes tabs: "tables_ok T M" and ops: "ops_ok (sctx_ops ctx)" and inv: "scan_inv T M H0 rest stk e"
  shows "\<exists>err' s' e'. scan_loop T ctx err stk s e = Some (err', s', e') \<and> h_ti e' = H0"
  using inv
proof (induction "stk_measure M (stk_bound T) stk" arbitrary: stk err s e rule: less_induct)
  case less
  show ?case
  proof (cases "stk = []")
    case True
    then show ?thesis using less.prems by (subst scan_loop.simps) (simp add: scan_inv_def)
  next
    case False
    obtain err1 stk1 s1 e1 where n: "scan_stk_next T ctx stk s e = Some ((err1, stk1), s1, e1)" "scan_inv T M H0 rest stk1 e1"
        "stk_measure M (stk_bound T) stk1 < stk_measure M (stk_bound T) stk"
      using scan_stk_next_ok [OF tabs ops less.prems False] by blast
    from less.hyps [OF n(3,2)] show ?thesis using False n(1) by (subst scan_loop.simps) simp
  qed
qed

text \<open>The first type frame: a hook that stops the scan there gives the reference on the scanned instance back.\<close>

lemma create_root_ok:
  assumes ops: "ops_ok (sctx_ops ctx)" and st: "scan_st T H0 rest [(a, n)] e"
  shows "\<exists>ret sn s' e'. create_stk_type T ctx a s e = Some ((ret, sn), s', e') \<and>
    (if is_ret_done ret then h_ti e' = H0
     else scan_st T H0 rest [(a, n)] e' \<and> sn = blank_stk\<lparr>stk_ti := a, stk_ops := StkType, stk_idx := 0\<rparr>)"
proof -
  let ?h = "map_option (\<lambda>f. f a) (so_ti (sctx_ops ctx))"
  have "hook_ok (\<lambda>_. True) f" if "?h = Some f" for f using that ops by (auto simp: ops_ok_def)
  then obtain r s1 e1 where r: "scan_hook ?h s e = Some (r, s1, e1)" "keeps e e1"
    using scan_hook_ok [of ?h "\<lambda>_. True" s e] by auto
  have st1: "scan_st T H0 rest [(a, n)] e1" using scan_st_keeps [OF st r(2)] .
  have "typeinfo_free a e1 = Some (e1\<lparr>h_ti := H0\<rparr>)" using st1 by (intro scan_heap_pop_root) (simp_all add: scan_st_def)
  then show ?thesis
    using r st1 by (cases "is_ret_done r") (simp_all add: create_stk_type_def sto_init_def stkop_type_init_def)
qed

lemma scan_st_root:
  assumes root: "root_ok (h_ti e) a" and fresh: "\<forall>x. h_ti e x \<noteq> None \<longrightarrow> x < h_next e"
    and chain: "chain_ok T (u64 (bdev_bytes e * 8)) (h_ti e) (a # rest)" and num: "typenum_at (h_ti e) a < length (fsl_rt_table T)"
  shows "\<exists>e1. typeinfo_ref a e = Some e1 \<and> scan_st T (h_ti e) rest [(a, typenum_at (h_ti e) a)] e1"
proof -
  obtain ti where ti: "h_ti e a = Some ti" "ti_ref_c ti + 2 < 2 ^ 32" using root by (auto simp: root_ok_def)
  let ?ti = "ti\<lparr>ti_ref_c := ti_ref_c ti + 1\<rparr>" and ?H = "(h_ti e)(a \<mapsto> ti\<lparr>ti_ref_c := ti_ref_c ti + 1\<rparr>)"
  have run: "typeinfo_ref a e = Some (put_ti a ?ti e)" using ti by (simp add: typeinfo_ref_def upd_ti_def ti_at_def u32_def)
  have "\<forall>x \<in> set (a # rest). map_option ti_core (?H x) = map_option ti_core (h_ti e x)" using ti(1) by (simp add: ti_core_def)
  then have ch: "chain_ok T (u64 (bdev_bytes e * 8)) ?H (a # rest)" by (rule chain_ok_core [OF chain])
  moreover have "\<forall>x. ?H x \<noteq> None \<longrightarrow> x < h_next e" using fresh ti(1) by simp
  moreover have "typenum_at ?H a = typenum_at (h_ti e) a" using ti(1) by (simp add: typenum_at_def ti_typenum_def)
  ultimately have "scan_st T (h_ti e) rest [(a, typenum_at (h_ti e) a)] (put_ti a ?ti e)"
    using root ti(1) num by (simp add: scan_st_def put_ti_def)
  with run show ?thesis by blast
qed

lemma scan_type_ctx_ok:
  assumes tabs: "tables_ok T M" and ops: "ops_ok (sctx_ops ctx)" and root: "root_ok (h_ti e) a"
    and fresh: "\<forall>x. h_ti e x \<noteq> None \<longrightarrow> x < h_next e" and chain: "chain_ok T (u64 (bdev_bytes e * 8)) (h_ti e) (a # rest)"
    and num: "typenum_at (h_ti e) a < length (fsl_rt_table T)"
  shows "\<exists>err s' e'. scan_type_ctx T ctx a s e = Some (err, s', e') \<and> h_ti e' = h_ti e"
proof -
  let ?n = "typenum_at (h_ti e) a"
  obtain e1 where e1: "typeinfo_ref a e = Some e1" "scan_st T (h_ti e) rest [(a, ?n)] e1"
    using scan_st_root [OF root fresh chain num] by blast
  obtain ret sn s2 e2 where r: "create_stk_type T ctx a s e1 = Some ((ret, sn), s2, e2)"
      "if is_ret_done ret then h_ti e2 = h_ti e
       else scan_st T (h_ti e) rest [(a, ?n)] e2 \<and> sn = blank_stk\<lparr>stk_ti := a, stk_ops := StkType, stk_idx := 0\<rparr>"
    using create_root_ok [OF ops e1(2), of s] by blast
  show ?thesis
  proof (cases "is_ret_done ret")
    case True
    then show ?thesis using e1(1) r by (simp add: scan_type_ctx_def)
  next
    case False
    then have "stk_ok T M [(a, ?n)] [sn]" "scan_st T (h_ti e) rest [(a, ?n)] e2" using r(2) by (simp_all add: frame_ok_def)
    then have "scan_inv T M (h_ti e) rest [sn] e2" unfolding scan_inv_def by (simp only: list.distinct if_False) blast
    from scan_loop_ok [OF tabs ops this] show ?thesis using False e1(1) r(1) by (simp add: scan_type_ctx_def)
  qed
qed


text \<open>A type with an array of three elements of its own type after its header, and a pointer back to the start of the disk.\<close>

definition demo_scan_field :: fsl_rtt_field where
  "demo_scan_field = \<lparr>tf_fieldname = ''kids'', tf_typenum = 0, tf_flags = 0, tf_fieldbitoff = (\<lambda>c e. Some (clo_offset c + 64, e)),
     tf_elemcount = (\<lambda>c e. Some (3, e)), tf_typesize = (\<lambda>c e. Some (64, e)), tf_cond = None, tf_params = (\<lambda>c i e. Some ([], e)), tf_fieldnum = 0\<rparr>"

definition demo_scan_tt :: fsl_rtt_type where
  "demo_scan_tt = demo_tt\<lparr>tt_fieldstrong := [demo_scan_field], tt_virt := [],
     tt_pointsto := [\<lparr>pt_iter = \<lparr>it_type_dst = 0, it_range = (\<lambda>c i e. Some ((0, [], None), e)), it_min = (\<lambda>c e. Some (0, e)),
       it_max = (\<lambda>c e. Some (1, e))\<rparr>, pt_name = None\<rparr>]\<rparr>"

definition demo_scan_T :: fsl_tables where
  "demo_scan_T = demo_T\<lparr>fsl_rt_table := [demo_scan_tt]\<rparr>"

text \<open>A tool that counts the instances it is shown.\<close>

definition demo_scan_ops :: "nat scan_ops" where
  "demo_scan_ops = \<lparr>so_ti = Some (\<lambda>a s e. Some (SCAN_RET_CONTINUE, s + 1, e)), so_strong = None, so_virt = None, so_pt = None, so_cond = None\<rparr>"

lemma demo_scan_ok: "tables_ok demo_scan_T 4" "ops_ok demo_scan_ops" "root_ok (h_ti demo_heap_env) 1"
  "chain_ok demo_scan_T (u64 (bdev_bytes demo_heap_env * 8)) (h_ti demo_heap_env) [1, 0]"
proof -
  show "tables_ok demo_scan_T 4"
    by (simp add: tables_ok_def demo_scan_T_def demo_T_def demo_scan_tt_def demo_tt_def demo_scan_field_def tt_ok_def field_ok_def iter_ok_def gives_def
        params_fit_def typenum_ok_def offset_is_bad_def OFFSET_EOF_def ones64_def TYPENUM_INVALID_def ones32_def)
  show "ops_ok demo_scan_ops" by (simp add: ops_ok_def demo_scan_ops_def hook_ok_def)
  show "root_ok (h_ti demo_heap_env) 1"
    by (simp add: root_ok_def demo_heap_at demo_child_def demo_ti_def demo_clo_def ti_xlate_def ti_clo_def)
  show "chain_ok demo_scan_T (u64 (bdev_bytes demo_heap_env * 8)) (h_ti demo_heap_env) [1, 0]"
    by (simp add: chain_ok_def demo_heap_at demo_child_def demo_ti_def demo_clo_def ti_ok_def ti_key_def typenum_ok_def demo_scan_T_def ti_sel_defs)
      (simp add: demo_heap_env_def u64_def)
qed


end
