(* ===== verification/Bridge.thy ===== *)
theory Bridge
  imports GenCode
begin

text \<open>
  Bridge nodes (\<open>bridge.c\<close>) and the paths of the FUSE browser (\<open>tool/fuse_node.c\<close>).

  \<^item> A bridge node names a place of the tree that the user walks: an instance of a type, a primitive field, or an
    array of fields, pointers or virtual instances that is not expanded yet. A node owns references to the instances it
    mentions. Nodes are never shared, so a \<open>struct fsl_bridge_node *\<close> is a value, and \<open>NULL\<close> is \<open>None\<close>.
  \<^item> A C string is a list of characters; a pointer into a path is the rest of the path. The comparison of the node that
    \<open>fbn_from_relpath\<close> returns with the one it was given is a flag next to the result.
  \<^item> A \<open>NULL\<close> dereference is a run without a result, like a failed assertion.
\<close>

section \<open>Nodes\<close>

datatype fsl_node_t = FSL_NODE_TYPE | FSL_NODE_PRIMARRAY | FSL_NODE_TYPEARRAY | FSL_NODE_POINTSTO | FSL_NODE_VIRT | FSL_NODE_PRIM

record fsl_bridge_node =
  fbn_ti :: "addr option"
  fbn_arr_parent :: "addr option"
  fbn_arr_prim_field :: "field_ref option"
  fbn_arr_field :: "field_ref option"
  fbn_arr_pt :: "(nat \<times> nat) option"
  fbn_arr_vt :: "(nat \<times> nat) option"
  fbn_arr_max :: nat
  fbn_f_parent :: "addr option"
  fbn_f_field :: "field_ref option"
  fbn_prim_ti :: "addr option"

definition fbn_alloc :: fsl_bridge_node where
  "fbn_alloc = \<lparr>fbn_ti = None, fbn_arr_parent = None, fbn_arr_prim_field = None, fbn_arr_field = None, fbn_arr_pt = None, fbn_arr_vt = None,
     fbn_arr_max = 0, fbn_f_parent = None, fbn_f_field = None, fbn_prim_ti = None\<rparr>"

definition fbn_is_array :: "fsl_bridge_node \<Rightarrow> bool" where
  "fbn_is_array x \<longleftrightarrow> fbn_arr_parent x \<noteq> None"

definition fsl_bridge_type :: "fsl_bridge_node \<Rightarrow> fsl_node_t option" where
  "fsl_bridge_type fbn =
     (if fbn_ti fbn \<noteq> None then Some FSL_NODE_TYPE
      else if fbn_f_parent fbn \<noteq> None then Some FSL_NODE_PRIM
      else if fbn_arr_field fbn \<noteq> None then Some FSL_NODE_TYPEARRAY
      else if fbn_arr_pt fbn \<noteq> None then Some FSL_NODE_POINTSTO
      else if fbn_arr_vt fbn \<noteq> None then Some FSL_NODE_VIRT
      else if fbn_arr_prim_field fbn \<noteq> None then Some FSL_NODE_PRIMARRAY
      else None)"

definition free_opt :: "addr option \<Rightarrow> env \<Rightarrow> env option" where
  "free_opt p e = (case p of None \<Rightarrow> Some e | Some a \<Rightarrow> typeinfo_free a e)"

definition fsl_bridge_free :: "fsl_bridge_node \<Rightarrow> env \<Rightarrow> env option" where
  "fsl_bridge_free fbn e = do {
     e \<leftarrow> free_opt (fbn_ti fbn) e;
     e \<leftarrow> free_opt (fbn_f_parent fbn) e;
     e \<leftarrow> free_opt (fbn_arr_parent fbn) e;
     free_opt (fbn_prim_ti fbn) e
   }"

definition fsl_bridge_from_ti :: "addr \<Rightarrow> fsl_bridge_node rt" where
  "fsl_bridge_from_ti a e = do {
     ti \<leftarrow> ti_at e a;
     assert_c (ti_typenum ti \<noteq> TYPENUM_INVALID);
     Some (fbn_alloc\<lparr>fbn_ti := Some a\<rparr>, e)
   }"

section \<open>Following\<close>

definition fsl_bridge_follow_tf :: "fsl_tables \<Rightarrow> addr \<Rightarrow> field_ref \<Rightarrow> fsl_bridge_node option rt" where
  "fsl_bridge_follow_tf T p fref e = do {
     tip \<leftarrow> ti_at e p;
     tf \<leftarrow> field_by_ref T fref;
     (present, e) \<leftarrow> (case tf_cond tf of None \<Rightarrow> Some (True, e) | Some c \<Rightarrow> c (ti_clo tip) e);
     if \<not> present then Some (None, e)
     else do {
       (elems, e) \<leftarrow> tf_elemcount tf (ti_clo tip) e;
       if elems = 0 then Some (None, e)
       else if elems = 1 then do {
         (ti, e) \<leftarrow> typeinfo_follow_field T p fref e;
         case ti of
           None \<Rightarrow> Some (None, e)
         | Some a \<Rightarrow>
             if tf_typenum tf = TYPENUM_INVALID then do {
               e \<leftarrow> typeinfo_ref p e;
               Some (Some (fbn_alloc\<lparr>fbn_f_parent := Some p, fbn_f_field := Some fref, fbn_prim_ti := Some a\<rparr>), e)
             } else Some (Some (fbn_alloc\<lparr>fbn_ti := Some a\<rparr>), e)
       } else do {
         e \<leftarrow> typeinfo_ref p e;
         let fbn = fbn_alloc\<lparr>fbn_arr_parent := Some p, fbn_arr_max := elems\<rparr>;
         Some (Some (if tf_typenum tf = TYPENUM_INVALID then fbn\<lparr>fbn_arr_prim_field := Some fref\<rparr> else fbn\<lparr>fbn_arr_field := Some fref\<rparr>), e)
       }
     }
   }"

definition fsl_bridge_follow_pretty_name :: "fsl_tables \<Rightarrow> fsl_bridge_node \<Rightarrow> string \<Rightarrow> fsl_bridge_node option rt" where
  "fsl_bridge_follow_pretty_name T fbn pretty_name e = do {
     (ret_ti, e) \<leftarrow> (case fbn_arr_field fbn of
         Some fref \<Rightarrow> do { p \<leftarrow> fbn_arr_parent fbn; typeinfo_follow_name_tf T p fref pretty_name e }
       | None \<Rightarrow> (case fbn_arr_pt fbn of
           Some ptr \<Rightarrow> do { p \<leftarrow> fbn_arr_parent fbn; typeinfo_follow_name_pt T p ptr pretty_name e }
         | None \<Rightarrow> (case fbn_arr_vt fbn of
             Some vtr \<Rightarrow> do { p \<leftarrow> fbn_arr_parent fbn; typeinfo_follow_name_vt T p vtr pretty_name e }
           | None \<Rightarrow> Some (None, e))));
     case ret_ti of
       None \<Rightarrow> Some (None, e)
     | Some a \<Rightarrow> do {
         (ret_fbn, e) \<leftarrow> fsl_bridge_from_ti a e;
         Some (Some ret_fbn, e)
       }
   }"

text \<open>The index is an \<open>unsigned int\<close>; the error code is returned next to the node.\<close>

definition fsl_bridge_idx_into :: "fsl_tables \<Rightarrow> fsl_bridge_node \<Rightarrow> nat \<Rightarrow> (fsl_bridge_node option \<times> int) rt" where
  "fsl_bridge_idx_into T fbn idx e = do {
     p \<leftarrow> fbn_arr_parent fbn;
     if idx \<ge> fbn_arr_max fbn then Some ((None, TI_ERR_BADIDX), e)
     else do {
       ((ret_ti, err), e) \<leftarrow> (case fbn_arr_field fbn of
           Some fref \<Rightarrow> do { (r, e) \<leftarrow> typeinfo_follow_field_idx T p fref idx e; Some ((r, 0), e) }
         | None \<Rightarrow> (case fbn_arr_pt fbn of
             Some ptr \<Rightarrow> do {
               pt \<leftarrow> points_by_ref T ptr;
               tip \<leftarrow> ti_at e p;
               (mn, e) \<leftarrow> it_min (pt_iter pt) (ti_clo tip) e;
               (r, e) \<leftarrow> typeinfo_follow_pointsto T p ptr (u64 (idx + mn)) e;
               Some ((r, 0), e)
             }
           | None \<Rightarrow> (case fbn_arr_vt fbn of
               Some vtr \<Rightarrow> typeinfo_alloc_virt_idx T vtr p idx e
             | None \<Rightarrow> do {
                 assert_c (fbn_arr_prim_field fbn \<noteq> None);
                 Some ((None, 0), e)
               })));
       case ret_ti of
         None \<Rightarrow> Some ((None, err), e)
       | Some a \<Rightarrow> Some ((Some (fbn_alloc\<lparr>fbn_ti := Some a\<rparr>), err), e)
     }
   }"

definition fsl_bridge_follow_name :: "fsl_tables \<Rightarrow> addr option \<Rightarrow> string \<Rightarrow> fsl_bridge_node option rt" where
  "fsl_bridge_follow_name T ti_p child_path e = do {
     p \<leftarrow> ti_p;
     tip \<leftarrow> ti_at e p;
     let n = ti_typenum tip;
     tf \<leftarrow> fsl_lookup_field T n child_path;
     case tf of
       Some fref \<Rightarrow> fsl_bridge_follow_tf T p fref e
     | None \<Rightarrow> do {
         let fbn = fbn_alloc\<lparr>fbn_arr_max := ones64\<rparr>;
         pt \<leftarrow> fsl_lookup_points T n child_path;
         case pt of
           Some ptr \<Rightarrow> do {
             ptx \<leftarrow> points_by_ref T ptr;
             (pt_min, e) \<leftarrow> it_min (pt_iter ptx) (ti_clo tip) e;
             if pt_min = ones64 then Some (None, e)
             else do {
               (pt_max, e) \<leftarrow> it_max (pt_iter ptx) (ti_clo tip) e;
               if pt_min > pt_max then Some (None, e)
               else do {
                 e \<leftarrow> typeinfo_ref p e;
                 Some (Some (fbn\<lparr>fbn_arr_pt := Some ptr, fbn_arr_max := u64 (pt_max - pt_min + 1), fbn_arr_parent := Some p\<rparr>), e)
               }
             }
           }
         | None \<Rightarrow> do {
             vt \<leftarrow> fsl_lookup_virt T n child_path;
             case vt of
               Some vtr \<Rightarrow> do {
                 e \<leftarrow> typeinfo_ref p e;
                 Some (Some (fbn\<lparr>fbn_arr_vt := Some vtr, fbn_arr_parent := Some p\<rparr>), e)
               }
             | None \<Rightarrow> Some (None, e)
           }
       }
   }"

partial_function (option) fsl_bridge_fbn_follow_name :: "fsl_tables \<Rightarrow> fsl_bridge_node \<Rightarrow> string \<Rightarrow> fsl_bridge_node option rt" where
  "fsl_bridge_fbn_follow_name T fbn child_path e =
     (if fbn_is_array fbn then do {
        ((fbn_tmp, err), e) \<leftarrow> fsl_bridge_idx_into T fbn 0 e;
        case fbn_tmp of
          None \<Rightarrow> Some (None, e)
        | Some tmp \<Rightarrow> do {
            (ret, e) \<leftarrow> fsl_bridge_fbn_follow_name T tmp child_path e;
            e \<leftarrow> fsl_bridge_free tmp e;
            Some (ret, e)
          }
      } else fsl_bridge_follow_name T (fbn_ti fbn) child_path e)"

definition fbn_bytes :: "fsl_tables \<Rightarrow> fsl_bridge_node \<Rightarrow> nat rt" where
  "fbn_bytes T fbn e = (case (fbn_ti fbn, fbn_prim_ti fbn, fbn_arr_field fbn, fbn_arr_prim_field fbn) of
     (Some a, _, _, _) \<Rightarrow> do { ti \<leftarrow> ti_at e a; (sz, e) \<leftarrow> ti_size T ti e; Some (sz div 8, e) }
   | (None, Some a, _, _) \<Rightarrow> do { ti \<leftarrow> ti_at e a; (sz, e) \<leftarrow> ti_size T ti e; Some (sz div 8, e) }
   | (None, None, Some fref, _) \<Rightarrow> do {
       p \<leftarrow> fbn_arr_parent fbn; tip \<leftarrow> ti_at e p; tf \<leftarrow> field_by_ref T fref;
       ((sz, num_elems), e) \<leftarrow> ti_field_size T tip tf e; Some (sz div 8, e) }
   | (None, None, None, Some fref) \<Rightarrow> do {
       p \<leftarrow> fbn_arr_parent fbn; tip \<leftarrow> ti_at e p; tf \<leftarrow> field_by_ref T fref;
       ((sz, num_elems), e) \<leftarrow> ti_field_size T tip tf e; Some (sz div 8, e) }
   | (None, None, None, None) \<Rightarrow> Some (0, e))"

definition fsl_bridge_up_array :: "fsl_tables \<Rightarrow> fsl_bridge_node \<Rightarrow> fsl_bridge_node option rt" where
  "fsl_bridge_up_array T fbn e = do {
     a \<leftarrow> fbn_ti fbn;
     ti \<leftarrow> ti_at e a;
     case ti_prev ti of
       None \<Rightarrow> Some (None, e)
     | Some p \<Rightarrow> do {
         tip \<leftarrow> ti_at e p;
         (new_fbn, e) \<leftarrow> (case (ti_field ti, ti_points ti, ti_virt ti) of
             (Some fref, _, _) \<Rightarrow> do {
               tf \<leftarrow> field_by_ref T fref;
               (elems, e) \<leftarrow> tf_elemcount tf (ti_clo tip) e;
               Some (if elems = 1 then None else Some (fbn_alloc\<lparr>fbn_arr_field := Some fref\<rparr>), e)
             }
           | (None, Some ptr, _) \<Rightarrow> Some (Some (fbn_alloc\<lparr>fbn_arr_pt := Some ptr\<rparr>), e)
           | (None, None, Some vtr) \<Rightarrow> Some (Some (fbn_alloc\<lparr>fbn_arr_vt := Some vtr\<rparr>), e)
           | (None, None, None) \<Rightarrow> Some (None, e));
         case new_fbn of
           None \<Rightarrow> do { e \<leftarrow> fsl_bridge_free fbn_alloc e; Some (None, e) }
         | Some fbn' \<Rightarrow> do {
             e \<leftarrow> typeinfo_ref p e;
             Some (Some (fbn'\<lparr>fbn_arr_parent := Some p\<rparr>), e)
           }
       }
   }"

section \<open>Paths\<close>

definition get_path_next :: "string \<Rightarrow> string option" where
  "get_path_next s = (let s = dropWhile (\<lambda>c. c = CHR ''/'') s in
     if s = [] then None else Some (dropWhile (\<lambda>c. c \<noteq> CHR ''/'') s))"

definition get_path_first :: "string \<Rightarrow> string option" where
  "get_path_first s = (let s = dropWhile (\<lambda>c. c = CHR ''/'') s in
     if s = [] then None
     else case get_path_next s of None \<Rightarrow> None | Some s_next \<Rightarrow> Some (take (length s - length s_next) s))"

definition is_int :: "string \<Rightarrow> bool" where
  "is_int s = list_all (\<lambda>c. \<not> (of_char c < (48 :: nat) \<or> of_char c > (57 :: nat))) s"

text \<open>\<open>atoi\<close> of a string of digits as an \<open>unsigned int\<close>: \<open>strtol\<close> saturates, the conversions truncate.\<close>

definition atoi_digits :: "string \<Rightarrow> nat" where
  "atoi_digits s = u32 (min (2 ^ 63 - 1) (foldl (\<lambda>v c. 10 * v + (of_char c - 48)) 0 s))"

lemma get_path_next_shorter:
  assumes "get_path_next s = Some t"
  shows "length t < length s"
proof -
  let ?s = "dropWhile (\<lambda>c. c = CHR ''/'') s"
  have ne: "?s \<noteq> []" and t: "t = dropWhile (\<lambda>c. c \<noteq> CHR ''/'') ?s"
    using assms by (auto simp: get_path_next_def Let_def split: if_splits)
  from hd_dropWhile [OF ne] have "hd ?s \<noteq> CHR ''/''" .
  then have "t = dropWhile (\<lambda>c. c \<noteq> CHR ''/'') (tl ?s)" using ne t by (cases ?s) auto
  then have "length t \<le> length (tl ?s)" by (simp only: length_dropWhile_le)
  also have "\<dots> < length ?s" using ne by (cases ?s) simp_all
  also have "\<dots> \<le> length s" by (rule length_dropWhile_le)
  finally show ?thesis .
qed

definition path_elem :: "fsl_tables \<Rightarrow> fsl_bridge_node \<Rightarrow> string \<Rightarrow> fsl_bridge_node option rt" where
  "path_elem T fbn_parent elem e =
     (if is_int elem then do {
        ((new_fbn, err), e) \<leftarrow> fsl_bridge_idx_into T fbn_parent (atoi_digits elem) e;
        Some (new_fbn, e)
      } else do {
        (new_fbn, e) \<leftarrow> fsl_bridge_fbn_follow_name T fbn_parent elem e;
        case new_fbn of
          None \<Rightarrow> fsl_bridge_follow_pretty_name T fbn_parent elem e
        | Some _ \<Rightarrow> Some (new_fbn, e)
      })"

function fbn_from_relpath :: "fsl_tables \<Rightarrow> fsl_bridge_node \<Rightarrow> string \<Rightarrow> (fsl_bridge_node option \<times> bool) rt" where
  "fbn_from_relpath T fbn_parent path e = (case get_path_next path of
     None \<Rightarrow> Some ((Some fbn_parent, True), e)
   | Some s_next \<Rightarrow> (case get_path_first path of
       None \<Rightarrow> Some ((Some fbn_parent, True), e)
     | Some elem \<Rightarrow> do {
         (new_fbn, e) \<leftarrow> path_elem T fbn_parent elem e;
         case new_fbn of
           None \<Rightarrow> Some ((None, False), e)
         | Some n \<Rightarrow> do {
             ((ret, same), e) \<leftarrow> fbn_from_relpath T n s_next e;
             e \<leftarrow> (if \<not> same then fsl_bridge_free n e else Some e);
             Some ((ret, False), e)
           }
       }))"
  by pat_completeness auto
termination
  by (relation "measure (\<lambda>(T, fbn, path, e). length path)") (simp_all add: get_path_next_shorter)

declare fbn_from_relpath.simps [simp del]

definition fbn_from_rootpath :: "fsl_tables \<Rightarrow> string \<Rightarrow> fsl_bridge_node option rt" where
  "fbn_from_rootpath T path e = do {
     (ti_origin, e) \<leftarrow> typeinfo_alloc_origin T e;
     case ti_origin of
       None \<Rightarrow> Some (None, e)
     | Some a \<Rightarrow> do {
         (fbn, e) \<leftarrow> fsl_bridge_from_ti a e;
         ((ret, same), e) \<leftarrow> fbn_from_relpath T fbn path e;
         e \<leftarrow> (if \<not> same then fsl_bridge_free fbn e else Some e);
         Some (ret, e)
       }
   }"

definition fslnode_by_path :: "fsl_tables \<Rightarrow> string \<Rightarrow> fsl_bridge_node option rt" where
  "fslnode_by_path T path = fbn_from_rootpath T path"

section \<open>Shape of nodes\<close>

definition fbn_wf :: "fsl_bridge_node \<Rightarrow> bool" where
  "fbn_wf f \<longleftrightarrow> (case fsl_bridge_type f of
     None \<Rightarrow> False
   | Some FSL_NODE_TYPE \<Rightarrow> \<exists>a. f = fbn_alloc\<lparr>fbn_ti := Some a\<rparr>
   | Some FSL_NODE_PRIM \<Rightarrow> \<exists>p fr a. f = fbn_alloc\<lparr>fbn_f_parent := Some p, fbn_f_field := Some fr, fbn_prim_ti := Some a\<rparr>
   | Some FSL_NODE_TYPEARRAY \<Rightarrow> \<exists>p fr m. f = fbn_alloc\<lparr>fbn_arr_parent := Some p, fbn_arr_max := m, fbn_arr_field := Some fr\<rparr>
   | Some FSL_NODE_PRIMARRAY \<Rightarrow> \<exists>p fr m. f = fbn_alloc\<lparr>fbn_arr_parent := Some p, fbn_arr_max := m, fbn_arr_prim_field := Some fr\<rparr>
   | Some FSL_NODE_POINTSTO \<Rightarrow> \<exists>p pt m. f = fbn_alloc\<lparr>fbn_arr_pt := Some pt, fbn_arr_max := m, fbn_arr_parent := Some p\<rparr>
   | Some FSL_NODE_VIRT \<Rightarrow> \<exists>p vt. f = fbn_alloc\<lparr>fbn_arr_max := ones64, fbn_arr_vt := Some vt, fbn_arr_parent := Some p\<rparr>)"

text \<open>\<open>wf_res\<close>: a run that gives a node gives a well-formed one.\<close>

definition wf_res :: "(fsl_bridge_node option \<times> env) option \<Rightarrow> bool" where
  "wf_res r \<longleftrightarrow> (\<forall>f e'. r = Some (Some f, e') \<longrightarrow> fbn_wf f)"

named_theorems fbn_simps

lemma fbn_wf_nodes [fbn_simps]:
  "fbn_wf (fbn_alloc\<lparr>fbn_ti := Some a\<rparr>)"
  "fbn_wf (fbn_alloc\<lparr>fbn_f_parent := Some p, fbn_f_field := Some fr, fbn_prim_ti := Some a\<rparr>)"
  "fbn_wf (fbn_alloc\<lparr>fbn_arr_parent := Some p, fbn_arr_max := m, fbn_arr_field := Some fr\<rparr>)"
  "fbn_wf (fbn_alloc\<lparr>fbn_arr_parent := Some p, fbn_arr_max := m, fbn_arr_prim_field := Some fr\<rparr>)"
  "fbn_wf (fbn_alloc\<lparr>fbn_arr_pt := Some pt, fbn_arr_max := m, fbn_arr_parent := Some p\<rparr>)"
  "fbn_wf (fbn_alloc\<lparr>fbn_arr_max := ones64, fbn_arr_vt := Some vt, fbn_arr_parent := Some p\<rparr>)"
  by (cases fr; auto simp: fbn_wf_def fsl_bridge_type_def fbn_alloc_def)+

lemma fbn_type_not_array [fbn_simps]: "\<not> fbn_is_array (fbn_alloc\<lparr>fbn_ti := Some a\<rparr>)"
  by (simp add: fbn_is_array_def fbn_alloc_def)

lemma wf_res_from_ti: "fsl_bridge_from_ti a e = Some (f, e') \<Longrightarrow> fbn_wf f"
  by (auto simp: fsl_bridge_from_ti_def assert_c_def fbn_simps split: Option.bind_splits if_splits)

lemma wf_res_follow_tf: "wf_res (fsl_bridge_follow_tf T p fref e)"
  unfolding wf_res_def fsl_bridge_follow_tf_def
  by (auto simp: fbn_simps Let_def split: Option.bind_splits option.splits if_splits)

lemma wf_res_follow_name: "wf_res (fsl_bridge_follow_name T p name e)"
  using wf_res_follow_tf unfolding wf_res_def fsl_bridge_follow_name_def
  by (fastforce simp: fbn_simps Let_def split: Option.bind_splits option.splits if_splits)

lemma wf_res_idx_into: "fsl_bridge_idx_into T fbn i e = Some ((Some f, err), e') \<Longrightarrow> fbn_wf f \<and> \<not> fbn_is_array f"
  unfolding fsl_bridge_idx_into_def
  by (auto simp: fbn_simps Let_def split: Option.bind_splits option.splits if_splits prod.splits)

lemma wf_res_pretty: "wf_res (fsl_bridge_follow_pretty_name T fbn name e)"
  using wf_res_from_ti unfolding wf_res_def fsl_bridge_follow_pretty_name_def
  by (fastforce split: Option.bind_splits option.splits)

text \<open>An array is entered through its first element, which is never an array, so the search recurs at most once.\<close>

lemma fbn_follow_name_type:
  "\<not> fbn_is_array fbn \<Longrightarrow> fsl_bridge_fbn_follow_name T fbn name e = fsl_bridge_follow_name T (fbn_ti fbn) name e"
  by (subst fsl_bridge_fbn_follow_name.simps) simp

lemma fbn_follow_name_array:
  assumes "fbn_is_array fbn"
  shows "fsl_bridge_fbn_follow_name T fbn name e = do {
      ((fbn_tmp, err), e) \<leftarrow> fsl_bridge_idx_into T fbn 0 e;
      case fbn_tmp of
        None \<Rightarrow> Some (None, e)
      | Some tmp \<Rightarrow> do {
          (ret, e) \<leftarrow> fsl_bridge_follow_name T (fbn_ti tmp) name e;
          e \<leftarrow> fsl_bridge_free tmp e;
          Some (ret, e)
        }
    }"
  using assms by (subst fsl_bridge_fbn_follow_name.simps)
    (auto intro!: Option.bind_cong fbn_follow_name_type dest: wf_res_idx_into split: option.splits)

lemma wf_res_fbn_follow_name: "wf_res (fsl_bridge_fbn_follow_name T fbn name e)"
proof (cases "fbn_is_array fbn")
  case True
  then show ?thesis using wf_res_follow_name unfolding wf_res_def fbn_follow_name_array [OF True]
    by (fastforce split: Option.bind_splits option.splits)
qed (simp add: fbn_follow_name_type wf_res_follow_name)

lemma wf_res_path_elem: "wf_res (path_elem T fbn elem e)"
proof (cases "is_int elem")
  case True
  then show ?thesis using wf_res_idx_into unfolding wf_res_def path_elem_def by (fastforce split: Option.bind_splits)
next
  case False
  then show ?thesis using wf_res_pretty wf_res_fbn_follow_name unfolding wf_res_def path_elem_def
    by (fastforce split: Option.bind_splits option.splits)
qed

lemma wf_res_relpath:
  "fbn_wf fbn \<Longrightarrow> fbn_from_relpath T fbn path e = Some ((Some f, same), e') \<Longrightarrow> fbn_wf f"
proof (induction T fbn path e arbitrary: f same e' rule: fbn_from_relpath.induct)
  case (1 T fbn path e)
  show ?case
  proof (cases "get_path_next path = None \<or> get_path_first path = None")
    case True
    then show ?thesis using 1(2,3) by (auto simp: fbn_from_relpath.simps split: option.splits)
  next
    case False
    then obtain s_next elem where p: "get_path_next path = Some s_next" "get_path_first path = Some elem" by auto
    obtain n e1 ret same1 e2 where r: "path_elem T fbn elem e = Some (Some n, e1)" "fbn_from_relpath T n s_next e1 = Some ((Some f, same1), e2)"
      using 1(3) p by (auto simp: fbn_from_relpath.simps [of T fbn] split: Option.bind_splits option.splits)
    have "fbn_wf n" using wf_res_path_elem r(1) unfolding wf_res_def by blast
    then show ?thesis using 1(1) [OF p r(1)] r(2) by blast
  qed
qed

text \<open>
  C27: nodes are well-typed. Whatever the tables, the disk and the path, a node that the lookup of a path returns is
  one of the six kinds of nodes, \<open>fsl_bridge_type\<close> recognises it without running into its assertion, and exactly the
  members that belong to this kind are set.
\<close>

theorem fslnode_by_path_typed:
  assumes "fslnode_by_path T path e = Some (Some f, e')"
  shows "fbn_wf f \<and> (\<exists>k. fsl_bridge_type f = Some k)"
proof -
  obtain a e1 fbn e2 same e3 where r: "fsl_bridge_from_ti a e1 = Some (fbn, e2)" "fbn_from_relpath T fbn path e2 = Some ((Some f, same), e3)"
    using assms by (auto simp: fslnode_by_path_def fbn_from_rootpath_def split: Option.bind_splits option.splits)
  have "fbn_wf f" using wf_res_relpath [OF wf_res_from_ti [OF r(1)] r(2)] .
  then show ?thesis by (auto simp: fbn_wf_def split: option.splits)
qed

section \<open>Path elements\<close>

text \<open>The reference: the non-empty pieces between slashes, walked from left to right.\<close>

fun path_elems_acc :: "string \<Rightarrow> string \<Rightarrow> string list" where
  "path_elems_acc cur [] = (if cur = [] then [] else [rev cur])"
| "path_elems_acc cur (c # cs) = (if c = CHR ''/'' then (if cur = [] then [] else [rev cur]) @ path_elems_acc [] cs
     else path_elems_acc (c # cur) cs)"

definition path_elems :: "string \<Rightarrow> string list" where
  "path_elems = path_elems_acc []"

fun walk :: "fsl_tables \<Rightarrow> fsl_bridge_node \<Rightarrow> string list \<Rightarrow> (fsl_bridge_node option \<times> bool) rt" where
  "walk T fbn [] e = Some ((Some fbn, True), e)"
| "walk T fbn (elem # elems) e = do {
     (new_fbn, e) \<leftarrow> path_elem T fbn elem e;
     case new_fbn of
       None \<Rightarrow> Some ((None, False), e)
     | Some n \<Rightarrow> do {
         ((ret, same), e) \<leftarrow> walk T n elems e;
         e \<leftarrow> (if \<not> same then fsl_bridge_free n e else Some e);
         Some ((ret, False), e)
       }
   }"

lemma path_elems_slash: "path_elems (CHR ''/'' # s) = path_elems s"
  by (simp add: path_elems_def)

lemma path_elems_skip: "path_elems (dropWhile (\<lambda>c. c = CHR ''/'') s) = path_elems s"
  by (induction s) (simp_all add: path_elems_slash)

lemma path_elems_acc_piece:
  "cur @ s \<noteq> [] \<Longrightarrow> (s = [] \<or> hd s \<noteq> CHR ''/'' \<or> cur \<noteq> []) \<Longrightarrow>
   path_elems_acc cur s = (rev cur @ takeWhile (\<lambda>c. c \<noteq> CHR ''/'') s) # path_elems (dropWhile (\<lambda>c. c \<noteq> CHR ''/'') s)"
  by (induction s arbitrary: cur) (auto simp: path_elems_def)

lemma get_path_first_alt:
  "get_path_first s = (let s = dropWhile (\<lambda>c. c = CHR ''/'') s in if s = [] then None else Some (takeWhile (\<lambda>c. c \<noteq> CHR ''/'') s))"
proof -
  let ?s = "dropWhile (\<lambda>c. c = CHR ''/'') s"
  have skip: "dropWhile (\<lambda>c. c = CHR ''/'') ?s = ?s" by (simp add: dropWhile_idem)
  have "take (length ?s - length (dropWhile (\<lambda>c. c \<noteq> CHR ''/'') ?s)) ?s = takeWhile (\<lambda>c. c \<noteq> CHR ''/'') ?s"
    by (metis append_eq_conv_conj diff_add_inverse2 length_append takeWhile_dropWhile_id)
  then show ?thesis unfolding get_path_first_def get_path_next_def Let_def skip by simp
qed

lemma path_elems_first_next:
  "path_elems s = (case (get_path_first s, get_path_next s) of (Some elem, Some rest) \<Rightarrow> elem # path_elems rest | _ \<Rightarrow> [])"
proof -
  let ?s = "dropWhile (\<lambda>c. c = CHR ''/'') s"
  show ?thesis
  proof (cases "?s = []")
    case True
    have "path_elems s = []" using path_elems_skip [of s] unfolding True by (simp add: path_elems_def)
    then show ?thesis unfolding get_path_next_def Let_def True by (simp split: option.splits)
  next
    case False
    then have "hd ?s \<noteq> CHR ''/''" by (rule hd_dropWhile)
    then have "path_elems s = takeWhile (\<lambda>c. c \<noteq> CHR ''/'') ?s # path_elems (dropWhile (\<lambda>c. c \<noteq> CHR ''/'') ?s)"
      using False path_elems_skip [of s] path_elems_acc_piece [of "[]" ?s] by (metis append_Nil path_elems_def rev.simps(1))
    then show ?thesis using False by (auto simp: get_path_next_def get_path_first_alt Let_def)
  qed
qed

text \<open>
  C28: paths are resolved element by element. \<open>fbn_from_relpath\<close>, which finds the elements with pointers into the path,
  agrees with the walk over the list of the non-empty pieces between the slashes, for every node, path and heap: it
  returns the same node or the same \<open>NULL\<close>, releases the same intermediate nodes and aborts on the same paths.
\<close>

theorem fbn_from_relpath_walks: "fbn_from_relpath T fbn path e = walk T fbn (path_elems path) e"
proof (induction T fbn path e rule: fbn_from_relpath.induct)
  case (1 T fbn path e)
  show ?case
  proof (cases "get_path_next path")
    case None
    then show ?thesis by (subst path_elems_first_next) (simp add: fbn_from_relpath.simps [of T fbn] split: option.splits)
  next
    case (Some s_next)
    then obtain elem where elem: "get_path_first path = Some elem" by (auto simp: get_path_first_alt get_path_next_def Let_def split: if_splits)
    then have "path_elems path = elem # path_elems s_next" using Some by (subst path_elems_first_next) simp
    then show ?thesis using 1 [OF Some elem] Some elem
      by (auto simp: fbn_from_relpath.simps [of T fbn] intro!: Option.bind_cong split: option.splits)
  qed
qed

section \<open>Ownership\<close>

definition names_ok :: "fsl_tables \<Rightarrow> nat \<Rightarrow> bool" where
  "names_ok T M \<longleftrightarrow> asserts_pure T TYPENUM_INVALID \<and> (\<forall>n < length (fsl_rt_table T). asserts_pure T n \<and>
     (\<forall>tf \<in> set (tt_field_table (fsl_rt_table T ! n)). field_ok T M tf) \<and>
     (\<forall>pt \<in> set (tt_pointsto (fsl_rt_table T ! n)). \<forall>clo. gives (\<lambda>_. True) (it_min (pt_iter pt) clo) \<and> gives (\<lambda>_. True) (it_max (pt_iter pt) clo)))"

lemma follow_res_keeps: "keeps e e1 \<Longrightarrow> follow_res p e1 r e' \<Longrightarrow> follow_res p e r e'"
  by (simp add: keeps_def follow_res_def)

lemma follow_field_res:
  assumes ok: "ti_refs_ok ext (h_ti e) (h_next e)" and tp: "h_ti e p = Some tp" "ti_ref_c tp + 1 < 2 ^ 32"
    and tf: "field_by_ref T fref = Some tf" "field_ok T M tf" "asserts_pure T (tf_typenum tf)"
  shows "\<exists>r e'. typeinfo_follow_field T p fref e = Some (r, e') \<and> follow_res p e r e' \<and>
    (\<forall>a. r = Some a \<longrightarrow> (\<exists>t. h_ti e' a = Some t \<and> ti_field t = Some fref \<and> ti_typenum t = tf_typenum tf))"
proof -
  let ?clo = "ti_clo tp"
  obtain b e1 where e1: "(case tf_cond tf of None \<Rightarrow> Some (True, e) | Some c \<Rightarrow> c ?clo e) = Some (b, e1)" "keeps e e1"
    using givesE [OF field_ok_cond [OF tf(2)]] by metis
  obtain off e2 where e2: "tf_fieldbitoff tf ?clo e1 = Some (off, e2)" "keeps e1 e2" using givesE [OF field_okD(2) [OF tf(2)]] by metis
  obtain ps e3 where e3: "tf_params tf ?clo 0 e2 = Some (ps, e3)" "params_fit T (tf_typenum tf) ps" "keeps e2 e3"
    using givesE [OF field_okD(5) [OF tf(2)]] by metis
  have k: "keeps e e2" "keeps e e3" using e1(2) e2(2) e3(3) keeps_trans by blast+
  let ?td = "\<lparr>td_typenum = tf_typenum tf, td_clo = \<lparr>clo_offset = off, clo_params = ps, clo_xlate = None\<rparr>\<rparr>"
  have td: "td_ok T ?td" using tf(2) e3(2) by (simp add: td_ok_def field_ok_def params_fit_def)
  have "ti_refs_ok ext (h_ti e3) (h_next e3)" "h_ti e3 p = Some tp" using ok tp(1) k(2) by (simp_all add: keeps_def)
  from alloc_by_field_res [OF this(1) td _ this(2) tp(2), of fref] tf obtain r e' where
    r: "typeinfo_alloc_by_field T ?td (Some fref) (Some p) e3 = Some (r, e')" "follow_res p e3 r e'"
      "\<forall>a. r = Some a \<longrightarrow> (\<exists>t. h_ti e' a = Some t \<and> ti_field t = Some fref \<and> ti_typenum t = tf_typenum tf)" by auto
  have at: "ti_at e p = Some tp" "ti_at e2 p = Some tp" using tp(1) k(1) by (simp_all add: ti_at_def keeps_def)
  show ?thesis
  proof (cases b)
    case True
    then show ?thesis using e1 e2 e3 at tf(1) r(1, 3) follow_res_keeps [OF k(2) r(2)]
      by (simp add: typeinfo_follow_field_def typeinfo_follow_field_off_idx_def)
  next
    case False
    then show ?thesis using e1 at tf(1) by (simp add: typeinfo_follow_field_def follow_res_def keeps_def)
  qed
qed

text \<open>Taking one more reference on a live instance, and giving it back.\<close>

definition heap_ref :: "addr \<Rightarrow> (addr \<Rightarrow> type_info option) \<Rightarrow> addr \<Rightarrow> type_info option" where
  "heap_ref p H = H(p := map_option (\<lambda>t. t\<lparr>ti_ref_c := ti_ref_c t + 1\<rparr>) (H p))"

lemma typeinfo_ref_run:
  "h_ti e p = Some tp \<Longrightarrow> ti_ref_c tp + 1 < 2 ^ 32 \<Longrightarrow> typeinfo_ref p e = Some (e\<lparr>h_ti := heap_ref p (h_ti e)\<rparr>)"
  by (simp add: typeinfo_ref_def upd_ti_def ti_at_def heap_ref_def put_ti_def u32_def)

lemma typeinfo_free_ref:
  assumes "h_ti e = heap_ref p H" and "H p = Some tp" and "0 < ti_ref_c tp"
  shows "typeinfo_free p e = Some (e\<lparr>h_ti := H\<rparr>)"
  using assms by (subst typeinfo_free.simps)
    (simp add: typeinfo_unref_def ti_at_def heap_ref_def put_ti_def fun_upd_idem)

definition fbn_refs :: "fsl_bridge_node \<Rightarrow> addr \<Rightarrow> nat" where
  "fbn_refs f x = of_bool (fbn_ti f = Some x) + of_bool (fbn_f_parent f = Some x) + of_bool (fbn_arr_parent f = Some x) + of_bool (fbn_prim_ti f = Some x)"

lemma refs_ok_ref:
  assumes ok: "ti_refs_ok ext H n" and p: "H p \<noteq> None"
  shows "ti_refs_ok (ext(p := ext p + 1)) (heap_ref p H) n"
proof -
  obtain tp where tp: "H p = Some tp" using p by auto
  let ?tp = "tp\<lparr>ti_ref_c := ti_ref_c tp + 1\<rparr>"
  have H: "heap_ref p H = H(p \<mapsto> ?tp)" using tp by (simp add: heap_ref_def)
  have ch: "children (H(p \<mapsto> tp\<lparr>ti_ref_c := k\<rparr>)) x = children H x" for x k by (rule children_put) (simp_all add: tp)
  note D = ti_refs_okD [OF ok]
  show ?thesis unfolding H
  proof (rule ti_refs_okI, goal_cases)
    case (4 x t q)
    then show ?case using D(5) [of x t q] D(5) [OF tp, of q] by (cases "x = p") auto
  qed (use D(1-4) D(1-4) [OF tp] ti_refs_ok_dead [OF ok] in \<open>auto simp: ch ti_sel_defs split: if_splits\<close>)
qed

text \<open>\<open>node_ok\<close>: no node and no change, or a node whose release gives the heap back, and whose references are right.\<close>

definition node_ok :: "(addr \<Rightarrow> nat) \<Rightarrow> (addr \<Rightarrow> type_info option) \<Rightarrow> fsl_bridge_node option \<Rightarrow> env \<Rightarrow> bool" where
  "node_ok ext H r e' \<longleftrightarrow> (case r of None \<Rightarrow> h_ti e' = H
     | Some f \<Rightarrow> ti_refs_ok (\<lambda>x. ext x + fbn_refs f x) (h_ti e') (h_next e') \<and> fsl_bridge_free f e' = Some (e'\<lparr>h_ti := H\<rparr>))"

lemma node_ok_array:
  assumes ok: "ti_refs_ok ext H (h_next e)" and tp: "H p = Some tp" "ti_ref_c tp + 1 < 2 ^ 32" and H: "h_ti e = H"
    and f: "fbn_arr_parent f = Some p" "fbn_ti f = None" "fbn_f_parent f = None" "fbn_prim_ti f = None"
  shows "\<exists>e'. typeinfo_ref p e = Some e' \<and> node_ok ext H (Some f) e'"
proof -
  let ?e = "e\<lparr>h_ti := heap_ref p H\<rparr>"
  have "0 < ti_ref_c tp" using ti_refs_okD(3) [OF ok tp(1)] .
  then have "fsl_bridge_free f ?e = Some (?e\<lparr>h_ti := H\<rparr>)"
    using typeinfo_free_ref [of ?e p H tp] tp f by (simp add: fsl_bridge_free_def free_opt_def)
  moreover have "(\<lambda>x. ext x + fbn_refs f x) = ext(p := ext p + 1)" using f by (auto simp: fbn_refs_def fun_eq_iff)
  then have "ti_refs_ok (\<lambda>x. ext x + fbn_refs f x) (h_ti ?e) (h_next ?e)" using refs_ok_ref [OF ok, of p] tp(1) by simp
  ultimately show ?thesis using typeinfo_ref_run [of e p tp] tp H by (simp add: node_ok_def)
qed

lemma node_ok_type:
  assumes ok: "ti_refs_ok ext (h_ti e) (h_next e)" and tp: "h_ti e p = Some tp" and r: "follow_res p e (Some a) e'"
    and f: "f = fbn_alloc\<lparr>fbn_ti := Some a\<rparr>"
  shows "node_ok ext (h_ti e) (Some f) e'"
proof -
  obtain ti where ti: "a = h_next e" "h_ti e' = heap_add a ti (h_ti e)" "ti_prev ti = Some p" "ti_ref_c ti = 1" "ti_xlate ti = None"
    using r by (auto simp: follow_res_def)
  have dead: "h_ti e a = None" using ti_refs_okD(1) [OF ok] ti(1) by (metis less_irrefl not_None_eq)
  have "typeinfo_free a e' = Some (e'\<lparr>h_ti := h_ti e\<rparr>)"
    by (rule typeinfo_free_child [OF ti(2) dead tp ti(3-5) ti_refs_okD(3) [OF ok tp]])
  moreover have "(\<lambda>x. ext x + fbn_refs f x) = res_refs (Some a) ext"
    using ti_refs_ok_dead [OF ok dead] f by (auto simp: fbn_refs_def res_refs_def fbn_alloc_def fun_eq_iff)
  ultimately show ?thesis using follow_res_refs [OF ok _ r] tp f
    by (simp add: node_ok_def fsl_bridge_free_def free_opt_def fbn_alloc_def)
qed

lemma node_ok_prim:
  assumes ok: "ti_refs_ok ext (h_ti e) (h_next e)" and tp: "h_ti e p = Some tp" "ti_ref_c tp + 2 < 2 ^ 32" and r: "follow_res p e (Some a) e1"
    and f: "f = fbn_alloc\<lparr>fbn_f_parent := Some p, fbn_f_field := fr, fbn_prim_ti := Some a\<rparr>"
  shows "\<exists>e'. typeinfo_ref p e1 = Some e' \<and> node_ok ext (h_ti e) (Some f) e'"
proof -
  obtain ti where ti: "a = h_next e" "h_ti e1 = heap_add a ti (h_ti e)" "ti_prev ti = Some p" "ti_ref_c ti = 1" "ti_xlate ti = None"
    using r by (auto simp: follow_res_def)
  have dead: "h_ti e a = None" using ti_refs_okD(1) [OF ok] ti(1) by (metis less_irrefl not_None_eq)
  then have pa: "p \<noteq> a" using tp(1) by auto
  let ?tp = "tp\<lparr>ti_ref_c := ti_ref_c tp + 1\<rparr>" and ?e = "e1\<lparr>h_ti := heap_ref p (h_ti e1)\<rparr>"
  have at: "h_ti e1 p = Some ?tp" using ti(2,3) tp(1) pa by (simp add: heap_add_def)
  then have run: "typeinfo_ref p e1 = Some ?e" using typeinfo_ref_run [OF at] tp(2) by simp
  have "typeinfo_free p ?e = Some (?e\<lparr>h_ti := h_ti e1\<rparr>)" using typeinfo_free_ref [of ?e p "h_ti e1" ?tp] at by simp
  moreover have "typeinfo_free a (?e\<lparr>h_ti := h_ti e1\<rparr>) = Some (?e\<lparr>h_ti := h_ti e\<rparr>)"
    using typeinfo_free_child [OF _ dead tp(1) ti(3-5) ti_refs_okD(3) [OF ok tp(1)], of "?e\<lparr>h_ti := h_ti e1\<rparr>"] ti(2) by simp
  ultimately have "fsl_bridge_free f ?e = Some (?e\<lparr>h_ti := h_ti e\<rparr>)" by (simp add: f fsl_bridge_free_def free_opt_def fbn_alloc_def)
  moreover have "(\<lambda>x. ext x + fbn_refs f x) = (res_refs (Some a) ext)(p := res_refs (Some a) ext p + 1)"
    using ti_refs_ok_dead [OF ok dead] f pa by (auto simp: fbn_refs_def res_refs_def fbn_alloc_def fun_eq_iff)
  moreover have "ti_refs_ok ((res_refs (Some a) ext)(p := res_refs (Some a) ext p + 1)) (heap_ref p (h_ti e1)) (h_next e1)"
    using refs_ok_ref [OF follow_res_refs [OF ok _ r], of p] tp(1) at by simp
  ultimately show ?thesis using run by (simp add: node_ok_def)
qed

lemma field_table_ref:
  assumes names: "names_ok T M" and n: "n < length (fsl_rt_table T)" and f: "fsl_lookup_field T n name = Some (Some fref)"
  obtains tf where "field_by_ref T fref = Some tf" "field_ok T M tf" "asserts_pure T (tf_typenum tf)"
proof -
  let ?tt = "fsl_rt_table T ! n"
  obtain i where i: "fref = (TabField, n, i)" "i < length (tt_field_table ?tt)"
    using f n by (auto simp: fsl_lookup_field_def tt_by_num_def first_idx_Some)
  let ?tf = "tt_field_table ?tt ! i"
  have "field_by_ref T fref = Some ?tf" using i n by (simp add: tt_by_num_def)
  moreover have ok: "field_ok T M ?tf" using names n i(2) by (auto simp: names_ok_def)
  moreover have "asserts_pure T (tf_typenum ?tf)" using names field_okD(1) [OF ok] by (auto simp: names_ok_def typenum_ok_def)
  ultimately show thesis by (rule that)
qed

lemma follow_tf_node:
  assumes ok: "ti_refs_ok ext (h_ti e) (h_next e)" and tp: "h_ti e p = Some tp" "ti_ref_c tp + 2 < 2 ^ 32"
    and tf: "field_by_ref T fref = Some tf" "field_ok T M tf" "asserts_pure T (tf_typenum tf)"
  shows "\<exists>r e'. fsl_bridge_follow_tf T p fref e = Some (r, e') \<and> node_ok ext (h_ti e) r e'"
proof -
  let ?clo = "ti_clo tp"
  obtain b e1 where e1: "(case tf_cond tf of None \<Rightarrow> Some (True, e) | Some c \<Rightarrow> c ?clo e) = Some (b, e1)" "keeps e e1"
    using givesE [OF field_ok_cond [OF tf(2)]] by metis
  obtain n e2 where e2: "tf_elemcount tf ?clo e1 = Some (n, e2)" "keeps e1 e2" using givesE [OF field_okD(3) [OF tf(2)]] by metis
  have k: "h_ti e2 = h_ti e" "h_next e2 = h_next e" "h_ti e1 = h_ti e" using e1(2) e2(2) by (simp_all add: keeps_def)
  have ok2: "ti_refs_ok ext (h_ti e2) (h_next e2)" "h_ti e2 p = Some tp" using ok tp(1) k by simp_all
  have at: "ti_at e p = Some tp" using tp(1) by (simp add: ti_at_def)
  note step = fsl_bridge_follow_tf_def at tf(1) e1(1) e2(1)
  consider "\<not> b" | "b" "n = 0" | "b" "n = 1" | "b" "n > 1" by linarith
  then show ?thesis
  proof cases
    case 3
    obtain r e3 where e3: "typeinfo_follow_field T p fref e2 = Some (r, e3)" "follow_res p e2 r e3"
      using follow_field_res [OF ok2 _ tf] tp(2) by auto
    show ?thesis
    proof (cases r)
      case None
      then show ?thesis using 3 e3 k by (simp add: step node_ok_def follow_res_def)
    next
      case (Some a)
      show ?thesis
      proof (cases "tf_typenum tf = TYPENUM_INVALID")
        case True
        then show ?thesis using 3 e3(1) Some node_ok_prim [OF ok2 tp(2) e3(2) [unfolded Some] refl, of "Some fref"] k by (auto simp: step)
      next
        case False
        then show ?thesis using 3 e3(1) Some node_ok_type [OF ok2 e3(2) [unfolded Some] refl] k by (auto simp: step)
      qed
    qed
  next
    case 4
    have "ti_ref_c tp + 1 < 2 ^ 32" using tp(2) by simp
    note arr = node_ok_array [OF ok2(1) ok2(2) this refl]
    show ?thesis using 4 k arr [of "fbn_alloc\<lparr>fbn_arr_parent := Some p, fbn_arr_max := n, fbn_arr_prim_field := Some fref\<rparr>"]
        arr [of "fbn_alloc\<lparr>fbn_arr_parent := Some p, fbn_arr_max := n, fbn_arr_field := Some fref\<rparr>"]
      by (auto simp: step Let_def fbn_alloc_def)
  qed (use k in \<open>simp_all add: step node_ok_def\<close>)
qed

text \<open>
  C12: nodes own what they name. From an instance \<open>p\<close> that the caller holds, in a heap whose reference counts are right,
  \<open>fsl_bridge_follow_name\<close> returns for every name. Without a result the heap is as before; a result owns exactly one
  reference to each instance it mentions, the counts are right with these references, and \<open>fsl_bridge_free\<close> gives
  back the heap from before the call, exactly.
\<close>

theorem fsl_bridge_follow_name_owns:
  assumes names: "names_ok T M" and ok: "ti_refs_ok ext (h_ti e) (h_next e)"
    and tp: "h_ti e p = Some tp" "ti_ref_c tp + 2 < 2 ^ 32" "ti_typenum tp < length (fsl_rt_table T)"
  shows "\<exists>r e'. fsl_bridge_follow_name T (Some p) name e = Some (r, e') \<and> node_ok ext (h_ti e) r e'"
proof -
  let ?n = "ti_typenum tp" and ?clo = "ti_clo tp"
  have at: "ti_at e p = Some tp" using tp(1) by (simp add: ti_at_def)
  have room: "ti_ref_c tp + 1 < 2 ^ 32" using tp(2) by simp
  obtain f pt vt where l: "fsl_lookup_field T ?n name = Some f" "fsl_lookup_points T ?n name = Some pt" "fsl_lookup_virt T ?n name = Some vt"
    using tp(3) by (auto simp: fsl_lookup_field_def fsl_lookup_points_def fsl_lookup_virt_def tt_by_num_def)
  note step = fsl_bridge_follow_name_def at l
  show ?thesis
  proof (cases f)
    case (Some fref)
    obtain tf where "field_by_ref T fref = Some tf" "field_ok T M tf" "asserts_pure T (tf_typenum tf)"
      using field_table_ref [OF names tp(3)] l(1) Some by metis
    from follow_tf_node [OF ok tp(1,2) this] show ?thesis by (simp add: step Some)
  next
    case None
    show ?thesis
    proof (cases pt)
      case (Some ptr)
      then obtain i where i: "ptr = (?n, i)" "i < length (tt_pointsto (fsl_rt_table T ! ?n))"
        using l(2) tp(3) by (auto simp: fsl_lookup_points_def tt_by_num_def first_idx_Some)
      let ?pt = "tt_pointsto (fsl_rt_table T ! ?n) ! i"
      have pt: "points_by_ref T ptr = Some ?pt" using i tp(3) by (simp add: tt_by_num_def)
      have "gives (\<lambda>_. True) (it_min (pt_iter ?pt) ?clo)" "gives (\<lambda>_. True) (it_max (pt_iter ?pt) ?clo)"
        using names tp(3) i(2) by (auto simp: names_ok_def)
      then obtain mn e1 mx e2 where m: "it_min (pt_iter ?pt) ?clo e = Some (mn, e1)" "keeps e e1" "it_max (pt_iter ?pt) ?clo e1 = Some (mx, e2)" "keeps e1 e2"
        using givesE by metis
      have k: "h_ti e2 = h_ti e" "h_next e2 = h_next e" "h_ti e1 = h_ti e" using m(2,4) by (simp_all add: keeps_def)
      have ok2: "ti_refs_ok ext (h_ti e) (h_next e2)" using ok k by simp
      note arr = node_ok_array [OF ok2 tp(1) room k(1), of "fbn_alloc\<lparr>fbn_arr_pt := Some ptr, fbn_arr_max := u64 (mx - mn + 1), fbn_arr_parent := Some p\<rparr>"]
      show ?thesis
      proof (cases "mn = ones64 \<or> mx < mn")
        case True
        then show ?thesis using None Some pt m k by (auto simp: step node_ok_def)
      next
        case False
        then show ?thesis using None Some pt m arr by (auto simp: step fbn_alloc_def)
      qed
    next
      case noPt: None
      show ?thesis
      proof (cases vt)
        case None
        then show ?thesis using \<open>f = None\<close> noPt by (simp add: step node_ok_def)
      next
        case (Some vtr)
        then show ?thesis using \<open>f = None\<close> noPt node_ok_array [OF ok tp(1) room refl, of "fbn_alloc\<lparr>fbn_arr_max := ones64, fbn_arr_vt := Some vtr, fbn_arr_parent := Some p\<rparr>"]
          by (auto simp: step fbn_alloc_def)
      qed
    qed
  qed
qed

section \<open>A concrete description\<close>

text \<open>A type with a primitive field, an array of itself and a pointer.\<close>

definition demo_bridge_tt :: fsl_rtt_type where
  "demo_bridge_tt = (let f = \<lparr>tf_fieldname = ''len'', tf_typenum = TYPENUM_INVALID, tf_flags = 0, tf_fieldbitoff = (\<lambda>c e. Some (clo_offset c, e)),
       tf_elemcount = (\<lambda>c e. Some (1, e)), tf_typesize = (\<lambda>c e. Some (32, e)), tf_cond = None, tf_params = (\<lambda>c i e. Some ([], e)), tf_fieldnum = 0\<rparr>
     in demo_tt\<lparr>tt_virt := [], tt_field_table := [f, f\<lparr>tf_fieldname := ''kids'', tf_typenum := 0, tf_elemcount := (\<lambda>c e. Some (3, e))\<rparr>],
       tt_pointsto := [\<lparr>pt_iter = \<lparr>it_type_dst = 0, it_range = (\<lambda>c i e. Some ((0, [], None), e)), it_min = (\<lambda>c e. Some (0, e)),
         it_max = (\<lambda>c e. Some (1, e))\<rparr>, pt_name = Some ''next''\<rparr>]\<rparr>)"

definition demo_bridge_T :: fsl_tables where
  "demo_bridge_T = demo_T\<lparr>fsl_rt_table := [demo_bridge_tt]\<rparr>"

lemma demo_names_ok: "names_ok demo_bridge_T 3"
  by (auto simp: names_ok_def demo_bridge_T_def demo_bridge_tt_def demo_tt_def demo_T_def Let_def asserts_pure_def asserts_of_def field_ok_def gives_def
      typenum_ok_def params_fit_def less_Suc_eq)

theorem fsl_bridge_follow_name_owns_witness:
  "(\<exists>r e'. fsl_bridge_follow_name demo_bridge_T (Some 1) ''len'' demo_heap_env = Some (r, e') \<and> node_ok demo_ext (h_ti demo_heap_env) r e') \<and>
   (\<exists>r e'. fsl_bridge_follow_name demo_bridge_T (Some 1) ''kids'' demo_heap_env = Some (r, e') \<and> node_ok demo_ext (h_ti demo_heap_env) r e')"
proof -
  have "ti_refs_ok demo_ext (h_ti demo_heap_env) (h_next demo_heap_env)" using demo_heap_ok demo_heap_at(5) by simp
  note own = fsl_bridge_follow_name_owns [OF demo_names_ok this demo_heap_at(2)]
  show ?thesis by (intro conjI own) (simp_all add: demo_child_def demo_ti_def ti_sel_defs demo_bridge_T_def)
qed

theorem fslnode_by_path_typed_witness:
  "\<exists>f e'. fslnode_by_path demo_bridge_T ''//'' (blank_env\<lparr>bdev_bytes := 4096\<rparr>) = Some (Some f, e') \<and> fbn_wf f \<and> (\<exists>k. fsl_bridge_type f = Some k)"
proof -
  have "\<exists>f e'. fslnode_by_path demo_bridge_T ''//'' (blank_env\<lparr>bdev_bytes := 4096\<rparr>) = Some (Some f, e')"
    by (simp add: fslnode_by_path_def fbn_from_rootpath_def typeinfo_alloc_origin_def typeinfo_alloc_by_field_def typeinfo_alloc_generic_def
        offset_in_range_def demo_bridge_T_def demo_bridge_tt_def demo_T_def demo_tt_def blank_env_def Let_def tt_by_num_def fsl_virt_ref_def typeinfo_ref_def
        upd_ti_def ti_at_def put_ti_def verify_or_free_def typeinfo_verify_def ti_has_loop_def typeinfo_verify_asserts_def
        fsl_bridge_from_ti_def fbn_from_relpath.simps get_path_next_def ti_sel_defs TYPENUM_INVALID_def ones32_def u32_def u64_def)
  then show ?thesis using fslnode_by_path_typed by blast
qed

end
