(* ===== verification/Modify.thy ===== *)
theory Modify
  imports Bridge TypePrint
begin

text \<open>
  The modification tool (\<open>tool/modify.c\<close>): it looks up a path of names with dots between them and prints what it finds.

  \<^item> \<open>modify_lookup\<close> is \<open>__lookup\<close>. It and \<open>lookup\<close>, which also releases the instance it starts from, call each other through
    \<open>lookup_fields\<close>, \<open>lookup_pointstos\<close> and \<open>lookup_virts\<close>; here these three have the call of \<open>lookup\<close> on the rest of the path as
    an argument.
  \<^item> The error code that \<open>err\<close> points to is passed in and returned. It is not initialised in \<open>tool_entry\<close>, so what it has
    at first is an argument there.
\<close>

section \<open>Paths\<close>

definition LOOKUP_RC_UNEXPECT_PRIM :: int where "LOOKUP_RC_UNEXPECT_PRIM = - 8"
definition LOOKUP_RC_BADFIELD :: int where "LOOKUP_RC_BADFIELD = - 4"
definition LOOKUP_RC_NOPOINTSTO :: int where "LOOKUP_RC_NOPOINTSTO = - 3"
definition LOOKUP_RC_NOVIRT :: int where "LOOKUP_RC_NOVIRT = - 2"
definition LOOKUP_RC_NOFIELD :: int where "LOOKUP_RC_NOFIELD = - 1"
definition LOOKUP_RC_OK :: int where "LOOKUP_RC_OK = 0"

definition chop_head :: "string \<Rightarrow> string option" where
  "chop_head v = (let rest = dropWhile (\<lambda>c. c = CHR ''.'') (dropWhile (\<lambda>c. c \<noteq> CHR ''.'') v) in if rest = [] then None else Some rest)"

definition get_name :: "string \<Rightarrow> string" where
  "get_name cur = takeWhile (\<lambda>c. c \<noteq> CHR ''['') cur"

definition get_head :: "string \<Rightarrow> string" where
  "get_head v = takeWhile (\<lambda>c. c \<noteq> CHR ''.'') v"

lemma chop_head_shorter: "chop_head v = Some rest \<Longrightarrow> length rest < length v"
proof -
  assume "chop_head v = Some rest"
  then have rest: "rest = dropWhile (\<lambda>c. c = CHR ''.'') (dropWhile (\<lambda>c. c \<noteq> CHR ''.'') v)" "rest \<noteq> []"
    unfolding chop_head_def Let_def by (metis option.distinct(1) option.inject)+
  let ?d = "dropWhile (\<lambda>c. c \<noteq> CHR ''.'') v"
  have ne: "?d \<noteq> []" using rest by (metis dropWhile.simps(1))
  then have "hd ?d = CHR ''.''" using hd_dropWhile [OF ne] by simp
  then have "rest = dropWhile (\<lambda>c. c = CHR ''.'') (tl ?d)" using ne rest(1) by (cases ?d) auto
  then have "length rest \<le> length (tl ?d)" by (simp only: length_dropWhile_le)
  also have "\<dots> < length ?d" using ne by (cases ?d) simp_all
  also have "\<dots> \<le> length v" by (rule length_dropWhile_le)
  finally show ?thesis .
qed

section \<open>Lookup\<close>

definition find_virt :: "fsl_tables \<Rightarrow> nat \<Rightarrow> string \<Rightarrow> (nat \<times> nat) option option" where
  "find_virt T n fieldname = do {
     tt \<leftarrow> tt_by_num T n;
     Some (map_option (\<lambda>i. (n, i)) (first_idx (\<lambda>vt. vt_name vt = Some (get_name fieldname)) (tt_virt tt)))
   }"

definition find_pt :: "fsl_tables \<Rightarrow> nat \<Rightarrow> string \<Rightarrow> (nat \<times> nat) option option" where
  "find_pt T n fieldname = do {
     tt \<leftarrow> tt_by_num T n;
     Some (map_option (\<lambda>i. (n, i)) (first_idx (\<lambda>pt. pt_name pt = Some fieldname) (tt_pointsto tt)))
   }"

text \<open>The loop has the length of one table of fields (\<open>tt_field_c\<close>) and looks into another one.\<close>

fun find_field_loop :: "string \<Rightarrow> fsl_rtt_field list \<Rightarrow> nat \<Rightarrow> nat \<Rightarrow> nat option option" where
  "find_field_loop fieldname tab i 0 = Some None"
| "find_field_loop fieldname tab i (Suc left) = do {
     tf \<leftarrow> get_at tab i;
     if fieldname = tf_fieldname tf then Some (Some i) else find_field_loop fieldname tab (i + 1) left
   }"

definition find_field :: "fsl_tables \<Rightarrow> nat \<Rightarrow> string \<Rightarrow> field_ref option option" where
  "find_field T n fieldname = do {
     tt \<leftarrow> tt_by_num T n;
     i \<leftarrow> find_field_loop fieldname (tt_fieldall_thunkoff tt) 0 (length (tt_field_table tt));
     Some (map_option (\<lambda>i. (TabFieldall, n, i)) i)
   }"

type_synonym lookup_res = "(addr option \<times> int) rt"

definition lookup_virts :: "fsl_tables \<Rightarrow> (addr \<Rightarrow> int \<Rightarrow> lookup_res) \<Rightarrow> addr \<Rightarrow> string \<Rightarrow> int \<Rightarrow> lookup_res" where
  "lookup_virts T lookup cur_ti cur_elem err e = do {
     ti \<leftarrow> ti_at e cur_ti;
     vt \<leftarrow> find_virt T (ti_typenum ti) cur_elem;
     if vt = None then Some ((None, LOOKUP_RC_NOVIRT), e) else lookup cur_ti err e
   }"

definition lookup_pointstos :: "fsl_tables \<Rightarrow> (addr \<Rightarrow> int \<Rightarrow> lookup_res) \<Rightarrow> addr \<Rightarrow> string \<Rightarrow> int \<Rightarrow> lookup_res" where
  "lookup_pointstos T lookup cur_ti cur_elem err e = do {
     ti \<leftarrow> ti_at e cur_ti;
     pt \<leftarrow> find_pt T (ti_typenum ti) cur_elem;
     case pt of
       None \<Rightarrow> Some ((None, LOOKUP_RC_NOPOINTSTO), e)
     | Some ptr \<Rightarrow> do {
         (next_ti, e) \<leftarrow> typeinfo_follow_pointsto T cur_ti ptr 0 e;
         a \<leftarrow> next_ti;
         lookup a err e
       }
   }"

definition lookup_fields :: "fsl_tables \<Rightarrow> (addr \<Rightarrow> int \<Rightarrow> lookup_res) \<Rightarrow> addr \<Rightarrow> string \<Rightarrow> string option \<Rightarrow> int \<Rightarrow> lookup_res" where
  "lookup_fields T lookup cur_ti cur_elem next_elems err e = do {
     ti \<leftarrow> ti_at e cur_ti;
     next_field \<leftarrow> find_field T (ti_typenum ti) cur_elem;
     case next_field of
       None \<Rightarrow> Some ((None, LOOKUP_RC_NOFIELD), e)
     | Some fref \<Rightarrow> do {
         tf \<leftarrow> field_by_ref T fref;
         if tf_typenum tf = TYPENUM_INVALID then
           (if next_elems \<noteq> None then Some ((None, LOOKUP_RC_UNEXPECT_PRIM), e)
            else do { (r, e) \<leftarrow> typeinfo_follow_field T cur_ti fref e; Some ((r, err), e) })
         else do {
           (next_ti, e) \<leftarrow> typeinfo_follow_field T cur_ti fref e;
           case next_ti of
             None \<Rightarrow> Some ((None, LOOKUP_RC_BADFIELD), e)
           | Some a \<Rightarrow> lookup a err e
         }
       }
   }"

definition or_else :: "lookup_res \<Rightarrow> (int \<Rightarrow> lookup_res) \<Rightarrow> lookup_res" where
  "or_else first_try next_try e = do {
     ((ret, err), e) \<leftarrow> first_try e;
     if ret \<noteq> None then Some ((ret, LOOKUP_RC_OK), e) else next_try err e
   }"

function modify_lookup :: "fsl_tables \<Rightarrow> addr \<Rightarrow> string \<Rightarrow> int \<Rightarrow> lookup_res" where
  "modify_lookup T cur_ti v err e =
     (let cur_elem = get_head v;
          lookup = (\<lambda>ti err e. case chop_head v of
              None \<Rightarrow> None
            | Some rest \<Rightarrow> do {
                (ret, e) \<leftarrow> modify_lookup T ti rest err e;
                e \<leftarrow> typeinfo_free ti e;
                Some (ret, e)
              }) in
      or_else (lookup_fields T lookup cur_ti cur_elem (chop_head v) err) (\<lambda>err.
      or_else (lookup_pointstos T lookup cur_ti cur_elem err) (\<lambda>err.
      or_else (lookup_virts T lookup cur_ti cur_elem err) (\<lambda>err e. Some ((None, err), e)))) e)"
  by pat_completeness auto
termination
  by (relation "measure (\<lambda>(T, cur_ti, v, err, e). length v)") (simp_all add: chop_head_shorter)

section \<open>The tool\<close>

definition line :: "string \<Rightarrow> string" where
  "line s = s @ [CHR 0x0A]"

definition dec_int :: "int \<Rightarrow> string" where
  "dec_int i = (if i < 0 then ''-'' @ dec (nat (- i)) else dec (nat i))"

text \<open>The printed text is returned next to the exit code.\<close>

definition modify_entry :: "(nat \<Rightarrow> nat \<Rightarrow> 64 word rt) \<Rightarrow> fsl_tables \<Rightarrow> string \<Rightarrow> int \<Rightarrow> string list \<Rightarrow> (int \<times> string) rt" where
  "modify_entry phys T fsl_rt_fsname err argv e = (let welcome = line (''Welcome to fsl modify. Modify mode: \"'' @ fsl_rt_fsname @ ''\"'') in
     case argv of
       [] \<Rightarrow> Some ((- 2, welcome @ line ''Expected one argument (varname)''), e)
     | var_name # _ \<Rightarrow> do {
         (origin_ti, e) \<leftarrow> typeinfo_alloc_origin T e;
         case origin_ti of
           None \<Rightarrow> Some ((- 1, welcome @ line ''Could not open origin type''), e)
         | Some a \<Rightarrow> do {
             ti \<leftarrow> ti_at e a;
             tt \<leftarrow> tt_by_num T (ti_typenum ti);
             if get_head var_name \<noteq> tt_name tt
             then Some ((- 3, welcome @ line (''Must match origin type, got '' @ [CHR 0x27] @ get_head var_name @ [CHR 0x27])), e)
             else do {
               v \<leftarrow> chop_head var_name;
               ((lookup_ti, err), e) \<leftarrow> modify_lookup T a v err e;
               (out, e) \<leftarrow> (case lookup_ti of
                   None \<Rightarrow> Some (line (''Error finding '' @ var_name @ '': err='' @ dec_int err), e)
                 | Some b \<Rightarrow> do {
                     (out, e) \<leftarrow> typeinfo_print T b e;
                     ti \<leftarrow> ti_at e b;
                     (out', e) \<leftarrow> typeinfo_print_value phys T ti e;
                     e \<leftarrow> typeinfo_free b e;
                     Some (line ''Found it!...'' @ line out @ line out', e)
                   });
               e \<leftarrow> typeinfo_free a e;
               Some ((err, welcome @ line (''Finding '' @ var_name) @ out @ line ''Have a nice day.''), e)
             }
           }
       })"

declare modify_lookup.simps [simp del]

section \<open>What a lookup leaves behind\<close>

text \<open>\<open>later e e'\<close>: the instances that were there before have only changed their reference counts, or are gone.\<close>

definition later :: "env \<Rightarrow> env \<Rightarrow> bool" where
  "later e e' \<longleftrightarrow> h_next e \<le> h_next e' \<and>
     (\<forall>x t'. h_ti e' x = Some t' \<and> x < h_next e \<longrightarrow> (\<exists>t. h_ti e x = Some t \<and> ti_core t' = ti_core t))"

lemma later_refl [simp]: "later e e"
  by (auto simp: later_def)

lemma later_trans: "later e e1 \<Longrightarrow> later e1 e2 \<Longrightarrow> later e e2"
  unfolding later_def by (metis order_less_le_trans order_trans)

lemma follow_res_later: "follow_res p e r e' \<Longrightarrow> later e e'"
  by (auto simp: later_def follow_res_def heap_add_def split: if_splits)

lemma only_ti_later: "only_ti {} e e' \<Longrightarrow> later e e'"
  by (auto simp: later_def only_ti_def)

lemma ti_core_sel:
  assumes "ti_core t = ti_core t'"
  shows "ti_field t = ti_field t'" "ti_prev t = ti_prev t'" "ti_typenum t = ti_typenum t'" "ti_clo t = ti_clo t'"
  using assms by (cases t; cases t'; simp add: ti_core_def ti_sel_defs)+

lemma later_live:
  assumes "later e e'" and "ti_refs_ok ext (h_ti e') n" and "0 < ext p" and "h_ti e p = Some t" and "p < h_next e"
  shows "\<exists>t'. h_ti e' p = Some t' \<and> ti_core t' = ti_core t"
proof -
  obtain t' where "h_ti e' p = Some t'" using ti_refs_ok_dead [OF assms(2)] assms(3) by (metis less_irrefl option.exhaust)
  then show ?thesis using assms(1, 4, 5) by (force simp: later_def)
qed

text \<open>
  \<open>spells T H a names p\<close>: going from the instance \<open>a\<close> to its parents and on to \<open>p\<close>, every instance is a field of its parent, and the
  names of the fields are \<open>names\<close>.
\<close>

fun spells :: "fsl_tables \<Rightarrow> (addr \<Rightarrow> type_info option) \<Rightarrow> addr \<Rightarrow> string list \<Rightarrow> addr \<Rightarrow> bool" where
  "spells T H a [] p \<longleftrightarrow> a = p"
| "spells T H a (x # xs) p \<longleftrightarrow> (\<exists>t f tf b tb. H a = Some t \<and> ti_field t = Some f \<and> field_by_ref T f = Some tf \<and> tf_fieldname tf = x \<and>
     ti_typenum t = tf_typenum tf \<and> ti_prev t = Some b \<and> H b = Some tb \<and> (fst f, fst (snd f)) = (TabFieldall, ti_typenum tb) \<and> spells T H b xs p)"

lemma spells_append: "spells T H a (xs @ ys) p \<longleftrightarrow> (\<exists>b. spells T H a xs b \<and> spells T H b ys p)"
  by (induction xs arbitrary: a) auto

lemma spells_later:
  assumes "later e e'" and "ti_refs_ok ext (h_ti e') n"
  shows "spells T (h_ti e) a xs p \<Longrightarrow> h_ti e' a \<noteq> None \<Longrightarrow> a < h_next e \<Longrightarrow> spells T (h_ti e') a xs p"
proof (induction xs arbitrary: a)
  case (Cons x xs)
  obtain t f tf b tb where t: "h_ti e a = Some t" "ti_field t = Some f" "field_by_ref T f = Some tf" "tf_fieldname tf = x"
      "ti_typenum t = tf_typenum tf" "ti_prev t = Some b" "h_ti e b = Some tb" "(fst f, fst (snd f)) = (TabFieldall, ti_typenum tb)" "spells T (h_ti e) b xs p"
    using Cons.prems(1) by auto
  obtain t' where t': "h_ti e' a = Some t'" "ti_core t' = ti_core t" using Cons.prems(2, 3) assms(1) t(1) by (force simp: later_def)
  note core = ti_core_sel [OF t'(2)]
  have b: "h_ti e' b \<noteq> None" "b < a" using ti_refs_okD(5) [OF assms(2) t'(1), of b] core(2) t(6) by auto
  then obtain tb' where tb': "h_ti e' b = Some tb'" "ti_core tb' = ti_core tb" using Cons.prems(3) assms(1) t(7) by (force simp: later_def)
  have "spells T (h_ti e') b xs p" using Cons.IH [OF t(9)] b Cons.prems(3) by simp
  then show ?case unfolding spells.simps using t' t(2-8) tb' core ti_core_sel(3) [OF tb'(2)] by metis
qed simp

section \<open>Paths of fields\<close>

function dot_elems :: "string \<Rightarrow> string list" where
  "dot_elems v = get_head v # (case chop_head v of None \<Rightarrow> [] | Some rest \<Rightarrow> dot_elems rest)"
  by pat_completeness auto
termination by (relation "measure length") (simp_all add: chop_head_shorter)

declare dot_elems.simps [simp del]

text \<open>
  What is expected of the tables and of the path: the two tables of fields have the same length, no element of the path is the
  name of a pointer or of a virtual type, and the path does not end at a field that has a type.
\<close>

definition modify_ok :: "fsl_tables \<Rightarrow> nat \<Rightarrow> bool" where
  "modify_ok T M \<longleftrightarrow> asserts_pure T TYPENUM_INVALID \<and> (\<forall>n < length (fsl_rt_table T). asserts_pure T n \<and>
     length (tt_field_table (fsl_rt_table T ! n)) \<le> length (tt_fieldall_thunkoff (fsl_rt_table T ! n)) \<and>
     (\<forall>tf \<in> set (tt_fieldall_thunkoff (fsl_rt_table T ! n)). field_ok T M tf))"

fun path_ok :: "fsl_tables \<Rightarrow> nat \<Rightarrow> string list \<Rightarrow> bool" where
  "path_ok T n [] \<longleftrightarrow> False"
| "path_ok T n (x # xs) \<longleftrightarrow> find_pt T n x = Some None \<and> find_virt T n x = Some None \<and> (case find_field T n x of
     Some (Some f) \<Rightarrow> (case field_by_ref T f of Some tf \<Rightarrow> tf_typenum tf = TYPENUM_INVALID \<or> path_ok T (tf_typenum tf) xs | None \<Rightarrow> False)
   | _ \<Rightarrow> True)"

lemma find_field_loop_ok:
  "i + left \<le> length tab \<Longrightarrow> \<exists>r. find_field_loop x tab i left = Some r \<and> (\<forall>j. r = Some j \<longrightarrow> j < length tab \<and> tf_fieldname (tab ! j) = x)"
  by (induction left arbitrary: i) auto

lemma find_field_ok:
  assumes "modify_ok T M" and "n < length (fsl_rt_table T)"
  obtains "find_field T n x = Some None"
  | f tf where "find_field T n x = Some (Some f)" "field_by_ref T f = Some tf" "tf_fieldname tf = x" "field_ok T M tf" "asserts_pure T (tf_typenum tf)" "(fst f, fst (snd f)) = (TabFieldall, n)"
proof -
  let ?tt = "fsl_rt_table T ! n" and ?tab = "tt_fieldall_thunkoff (fsl_rt_table T ! n)"
  obtain r where r: "find_field_loop x ?tab 0 (length (tt_field_table ?tt)) = Some r" "\<forall>j. r = Some j \<longrightarrow> j < length ?tab \<and> tf_fieldname (?tab ! j) = x"
    using find_field_loop_ok [of 0 "length (tt_field_table ?tt)" ?tab x] assms by (auto simp: modify_ok_def)
  have ff: "find_field T n x = Some (map_option (\<lambda>i. (TabFieldall, n, i)) r)" using r(1) assms(2) by (simp add: find_field_def tt_by_num_def)
  show thesis
  proof (cases r)
    case None
    then show ?thesis using ff that(1) by simp
  next
    case (Some j)
    then have j: "j < length ?tab" "tf_fieldname (?tab ! j) = x" using r(2) by simp_all
    have ok: "field_ok T M (?tab ! j)" using assms j(1) by (simp add: modify_ok_def)
    then have "asserts_pure T (tf_typenum (?tab ! j))" using assms(1) field_okD(1) [OF ok] by (auto simp: modify_ok_def typenum_ok_def)
    moreover have "field_by_ref T (TabFieldall, n, j) = Some (?tab ! j)" using j(1) assms(2) by (simp add: tt_by_num_def)
    ultimately show ?thesis using ff Some that(2) j(2) ok by simp
  qed
qed

section \<open>A lookup along fields\<close>

text \<open>The result of a lookup of \<open>names\<close> from \<open>p\<close>: nothing has changed, or the caller has the only reference to a new instance, which
  the names lead to; with \<open>prim\<close> it is one of a primitive type.\<close>

definition looked_up :: "fsl_tables \<Rightarrow> (addr \<Rightarrow> nat) \<Rightarrow> addr \<Rightarrow> string list \<Rightarrow> bool \<Rightarrow> env \<Rightarrow> addr option \<Rightarrow> env \<Rightarrow> bool" where
  "looked_up T ext p names prim e r e' \<longleftrightarrow> later e e' \<and> ti_refs_ok (res_refs r ext) (h_ti e') (h_next e') \<and>
     (\<forall>a. r = Some a \<longrightarrow> h_next e \<le> a \<and> spells T (h_ti e') a (rev names) p \<and>
       (prim \<longrightarrow> (\<exists>t. h_ti e' a = Some t \<and> ti_typenum t = TYPENUM_INVALID)))"

lemma live_below: "ti_refs_ok ext H n \<Longrightarrow> H p = Some t \<Longrightarrow> p < n"
  by (rule ti_refs_okD(1))

lemma other_tries:
  assumes "find_pt T n x = Some None" and "find_virt T n x = Some None" and "h_ti e p = Some t" and "ti_typenum t = n"
  shows "or_else (lookup_pointstos T lk p x err) (\<lambda>err. or_else (lookup_virts T lk p x err) (\<lambda>err e. Some ((None, err), e))) e =
    Some ((None, LOOKUP_RC_NOVIRT), e)"
  using assms by (simp add: or_else_def lookup_pointstos_def lookup_virts_def ti_at_def)

lemma follow_looked_up:
  assumes ok: "ti_refs_ok ext (h_ti e) (h_next e)" and p: "h_ti e p = Some tp" and r: "follow_res p e r e'"
    and f: "\<forall>a. r = Some a \<longrightarrow> (\<exists>t. h_ti e' a = Some t \<and> ti_field t = Some f \<and> ti_typenum t = n)"
    and tf: "field_by_ref T f = Some tf" "n = tf_typenum tf" "(fst f, fst (snd f)) = (TabFieldall, ti_typenum tp)" and prim: "prim \<longrightarrow> n = TYPENUM_INVALID"
  shows "looked_up T ext p [tf_fieldname tf] prim e r e'"
proof -
  have "ti_refs_ok (res_refs r ext) (h_ti e') (h_next e')" using follow_res_refs [OF ok _ r] p by simp
  moreover have "h_next e \<le> a \<and> spells T (h_ti e') a [tf_fieldname tf] p \<and> (prim \<longrightarrow> (\<exists>t. h_ti e' a = Some t \<and> ti_typenum t = TYPENUM_INVALID))"
    if a: "r = Some a" for a
  proof -
    obtain t where t: "h_ti e' a = Some t" "ti_field t = Some f" "ti_typenum t = n" using f a by blast
    have "h_ti e (h_next e) = None" using ti_refs_okD(1) [OF ok] by (metis less_irrefl not_None_eq)
    then have "a = h_next e" "ti_prev t = Some p" "\<exists>tp'. h_ti e' p = Some tp' \<and> ti_typenum tp' = ti_typenum tp"
      using r a t(1) p by (auto simp: follow_res_def heap_add_def ti_sel_defs)
    then show ?thesis using t tf prim by (auto simp del: split_paired_Ex field_by_ref.simps)
  qed
  ultimately show ?thesis using follow_res_later [OF r] by (simp add: looked_up_def)
qed

text \<open>Releasing the instance in the middle of the path.\<close>

lemma looked_up_free:
  assumes ok: "ti_refs_ok ext (h_ti e) (h_next e)" and first: "looked_up T ext p [x] False e (Some a) e1"
    and rest: "looked_up T (res_refs (Some a) ext) a names prim e1 r e2"
  shows "\<exists>e3. typeinfo_free a e2 = Some e3 \<and> looked_up T ext p (x # names) prim e r e3"
proof -
  let ?ext = "res_refs r (res_refs (Some a) ext)"
  note F = first [unfolded looked_up_def] and R = rest [unfolded looked_up_def]
  have dead: "ext a = 0" using F ok ti_refs_ok_dead [OF ok] ti_refs_okD(1) [OF ok] by (metis linorder_not_less option.exhaust)
  have a1: "a < h_next e1" "h_ti e1 a \<noteq> None" using F ti_refs_okD(1) [of "res_refs (Some a) ext" "h_ti e1"] by fastforce+
  have ra: "r \<noteq> Some a" using R a1(1) by fastforce
  then have ext: "?ext a = 1" "?ext(a := ?ext a - 1) = res_refs r ext" using dead by (auto simp: res_refs_def fun_eq_iff split: option.splits)
  have R2: "ti_refs_ok ?ext (h_ti e2) (h_next e2)" "later e1 e2" using R by blast+
  obtain e3 where e3: "typeinfo_free a e2 = Some e3" "ti_refs_ok (res_refs r ext) (h_ti e3) (h_next e2)" "only_ti {} e2 e3"
    using typeinfo_free_refs [of ?ext e2 "{}" "h_next e2" a] R2(1) ext by (auto simp: heap_without_def)
  have n3: "h_next e3 = h_next e2" using e3(3) by (auto simp: only_ti_def)
  have l: "later e2 e3" "later e e3" using only_ti_later [OF e3(3)] F R2(2) later_trans by blast+
  have "h_next e \<le> b \<and> spells T (h_ti e3) b (rev (x # names)) p \<and> (prim \<longrightarrow> (\<exists>t. h_ti e3 b = Some t \<and> ti_typenum t = TYPENUM_INVALID))" if b: "r = Some b" for b
  proof -
    have "h_ti e2 a \<noteq> None" using ti_refs_ok_dead [OF R2(1), of a] ext(1) by auto
    then have "spells T (h_ti e2) a [x] p" using spells_later [OF R2(2, 1), of T a "[x]" p] F a1(1) by simp
    then have sp: "spells T (h_ti e2) b (rev (x # names)) p" using R b by (auto simp: spells_append simp del: spells.simps)
    obtain t where t: "h_ti e2 b = Some t" using ti_refs_ok_dead [OF R2(1), of b] b by (cases "h_ti e2 b") (auto simp: res_refs_def)
    have lt: "b < h_next e2" using ti_refs_okD(1) [OF R2(1) t] .
    have "0 < res_refs r ext b" using b by (simp add: res_refs_def)
    then obtain t' where t': "h_ti e3 b = Some t'" "ti_core t' = ti_core t" using later_live [OF l(1) e3(2) _ t lt] by blast
    have "spells T (h_ti e3) b (rev (x # names)) p" using spells_later [OF l(1) e3(2) sp _ lt] t'(1) by simp
    moreover have "h_next e \<le> b" using R F b by (auto simp: later_def)
    ultimately show ?thesis using R b t t' ti_core_sel(3) [OF t'(2)] by auto
  qed
  then show ?thesis using e3 n3 l(2) by (simp add: looked_up_def)
qed

lemma looked_up_None: "looked_up T ext p names prim e None e' \<longleftrightarrow> later e e' \<and> ti_refs_ok ext (h_ti e') (h_next e')"
  by (simp add: looked_up_def res_refs_def)

text \<open>One step along a field. \<open>lk\<close> is the lookup of the rest of the path.\<close>

lemma lookup_fields_run:
  assumes T: "modify_ok T M" and ok: "ti_refs_ok ext (h_ti e) (h_next e)" and p: "h_ti e p = Some tp" "ti_ref_c tp + 1 < 2 ^ 32"
    and n: "ti_typenum tp < length (fsl_rt_table T)" and path: "path_ok T (ti_typenum tp) (x # names)"
    and next_elems: "next_elems = None \<longleftrightarrow> names = []"
    and lk: "\<And>a t e ext. ti_refs_ok ext (h_ti e) (h_next e) \<Longrightarrow> 0 < ext a \<Longrightarrow> h_ti e a = Some t \<Longrightarrow> ti_ref_c t = 1 \<Longrightarrow>
      ti_typenum t < length (fsl_rt_table T) \<Longrightarrow> path_ok T (ti_typenum t) names \<Longrightarrow>
      \<exists>r err' e1. run a err e = Some ((r, err'), e1) \<and> looked_up T ext a names True e r e1"
    and run: "\<And>a err e. names \<noteq> [] \<Longrightarrow> lookup a err e = do { (ret, e) \<leftarrow> run a err e; e \<leftarrow> typeinfo_free a e; Some (ret, e) }"
  shows "\<exists>r err' e'. lookup_fields T lookup p x next_elems err e = Some ((r, err'), e') \<and> looked_up T ext p (x # names) True e r e'"
proof (cases rule: find_field_ok [OF T n, of x])
  case 1
  then show ?thesis using p(1) ok by (simp add: lookup_fields_def ti_at_def looked_up_None)
next
  case (2 f tf)
  obtain r e1 where r: "typeinfo_follow_field T p f e = Some (r, e1)" "follow_res p e r e1"
      "\<forall>a. r = Some a \<longrightarrow> (\<exists>t. h_ti e1 a = Some t \<and> ti_field t = Some f \<and> ti_typenum t = tf_typenum tf)"
    using follow_field_res [OF ok p 2(2, 4, 5)] by blast
  have first: "looked_up T ext p [x] prim e r e1" if "prim \<longrightarrow> tf_typenum tf = TYPENUM_INVALID" for prim
    using follow_looked_up [OF ok p(1) r(2, 3) 2(2) refl _ that] 2(3, 6) by simp
  note step = lookup_fields_def ti_at_def p(1) 2(1, 2) r(1)
  show ?thesis
  proof (cases "tf_typenum tf = TYPENUM_INVALID")
    case True
    then show ?thesis using first [of True] next_elems ok by (cases names) (auto simp: step looked_up_None)
  next
    case typed: False
    then have rest: "path_ok T (tf_typenum tf) names" and tn: "tf_typenum tf < length (fsl_rt_table T)"
      using path 2 field_okD(1) [OF 2(4)] by (auto simp: typenum_ok_def)
    show ?thesis
    proof (cases r)
      case None
      then show ?thesis using first [of False] typed by (simp add: step looked_up_None)
    next
      case (Some a)
      let ?ext = "res_refs (Some a) ext"
      obtain t where t: "h_ti e1 a = Some t" "ti_typenum t = tf_typenum tf" "ti_ref_c t = 1"
        using r(2, 3) Some by (auto simp: follow_res_def heap_add_def)
      have "ti_refs_ok ?ext (h_ti e1) (h_next e1)" "0 < ?ext a" using first [of False] Some by (auto simp: looked_up_def res_refs_def)
      from lk [OF this t(1, 3)] t(2) tn rest obtain r' err' e2 where
        r': "run a err e1 = Some ((r', err'), e2)" "looked_up T ?ext a names True e1 r' e2" by metis
      from looked_up_free [OF ok _ r'(2), of p x] first [of False] Some obtain e3 where
        "typeinfo_free a e2 = Some e3" "looked_up T ext p (x # names) True e r' e3" by auto
      moreover have "names \<noteq> []" using rest by auto
      ultimately show ?thesis using r'(1) Some typed run by (simp add: step)
    qed
  qed
qed

lemma modify_lookup_fields:
  assumes T: "modify_ok T M"
  shows "ti_refs_ok ext (h_ti e) (h_next e) \<Longrightarrow> 0 < ext p \<Longrightarrow> h_ti e p = Some tp \<Longrightarrow> ti_ref_c tp + 1 < 2 ^ 32 \<Longrightarrow>
    ti_typenum tp < length (fsl_rt_table T) \<Longrightarrow> path_ok T (ti_typenum tp) (dot_elems v) \<Longrightarrow>
    \<exists>r e'. modify_lookup T p v err e = Some ((r, if r = None then LOOKUP_RC_NOVIRT else LOOKUP_RC_OK), e') \<and> looked_up T ext p (dot_elems v) True e r e'"
proof (induction v arbitrary: p tp e ext err rule: dot_elems.induct)
  case (1 v)
  let ?x = "get_head v" and ?names = "case chop_head v of None \<Rightarrow> [] | Some rest \<Rightarrow> dot_elems rest"
  let ?run = "\<lambda>a err e. case chop_head v of None \<Rightarrow> None | Some rest \<Rightarrow> modify_lookup T a rest err e"
  let ?lookup = "\<lambda>ti err e. case chop_head v of None \<Rightarrow> None
    | Some rest \<Rightarrow> do { (ret, e) \<leftarrow> modify_lookup T ti rest err e; e \<leftarrow> typeinfo_free ti e; Some (ret, e) }"
  have elems: "dot_elems v = ?x # ?names" by (rule dot_elems.simps)
  have "\<exists>r err' e'. lookup_fields T ?lookup p ?x (chop_head v) err e = Some ((r, err'), e') \<and> looked_up T ext p (?x # ?names) True e r e'"
  proof (rule lookup_fields_run [OF T 1(2, 4, 5, 6), where run = ?run])
    show "path_ok T (ti_typenum tp) (?x # ?names)" using 1(7) unfolding elems .
    show "chop_head v = None \<longleftrightarrow> ?names = []" by (cases "chop_head v") (simp_all add: dot_elems.simps [of "the _"] dot_elems.simps)
  next
    fix a t ext and e :: env
    assume a: "ti_refs_ok ext (h_ti e) (h_next e)" "0 < ext a" "h_ti e a = Some t" "ti_ref_c t = 1" "ti_typenum t < length (fsl_rt_table T)"
      "path_ok T (ti_typenum t) ?names"
    then obtain rest where rest: "chop_head v = Some rest" by (cases "chop_head v") auto
    then show "\<exists>r err' e1. ?run a err e = Some ((r, err'), e1) \<and> looked_up T ext a ?names True e r e1"
      using 1(1) [OF rest a(1-3) _ a(5), of err] a(4, 6) by auto
  qed (simp split: option.splits)
  then obtain r err' e' where r: "lookup_fields T ?lookup p ?x (chop_head v) err e = Some ((r, err'), e')" "looked_up T ext p (?x # ?names) True e r e'"
    by blast
  show ?case
  proof (cases r)
    case None
    then have l: "later e e'" "ti_refs_ok ext (h_ti e') (h_next e')" using r(2) by (simp_all add: looked_up_None)
    obtain t' where "h_ti e' p = Some t'" "ti_typenum t' = ti_typenum tp"
      using later_live [OF l 1(3, 4) live_below [OF 1(2, 4)]] ti_core_sel(3) by metis
    then show ?thesis using None r 1(7) other_tries [of T "ti_typenum tp" ?x e' p t'] unfolding elems
      by (subst modify_lookup.simps) (simp add: or_else_def [of "lookup_fields _ _ _ _ _ _"])
  next
    case (Some a)
    then show ?thesis using r unfolding elems by (subst modify_lookup.simps) (simp add: or_else_def)
  qed
qed

section \<open>Printing what was found\<close>

text \<open>A back end whose reads return and leave the heap of instances alone.\<close>

definition phys_gives :: "(nat \<Rightarrow> nat \<Rightarrow> 64 word rt) \<Rightarrow> bool" where
  "phys_gives phys \<longleftrightarrow> (\<forall>off n. gives (\<lambda>w. n = 1 \<longrightarrow> w < 2) (phys off n))"

lemma keeps_stats_add [simp]: "keeps e (stats_add s n e)"
  by (simp add: keeps_def)

lemma getLocal_gives:
  assumes "phys_gives phys" and "clo_xlate clo = None" and "0 < n" and "n \<le> 64"
  shows "\<exists>v e'. getLocal phys T clo off n e = Some (v, e') \<and> keeps e e'"
proof -
  let ?es = "stats_add FSL_STAT_BITS_READ n (stats_inc FSL_STAT_ACCESS e)"
  have "gives (\<lambda>w. n = 1 \<longrightarrow> w < 2) (phys off n)" using assms(1) by (simp add: phys_gives_def)
  then obtain v e' where v: "phys off n ?es = Some (v, e')" "n = 1 \<longrightarrow> v < 2" "keeps ?es e'" by (rule givesE)
  have "keeps e e'" using v(3) keeps_trans [OF keeps_stats keeps_stats_add] keeps_trans by blast
  then show ?thesis using v(1, 2) assms(2-4) by (auto simp: getLocal_def)
qed

lemma print_field_value_gives:
  assumes phys: "phys_gives phys" and tf: "field_ok T M tf" "tf_typenum tf = TYPENUM_INVALID" and ti: "ti_xlate ti = None"
  shows "\<exists>out e'. typeinfo_print_field_value phys T ti tf e = Some (out, e') \<and> keeps e e'"
proof -
  let ?clo = "ti_clo ti"
  obtain n e1 where e1: "tf_elemcount tf ?clo e = Some (n, e1)" "keeps e e1" using givesE [OF field_okD(3) [OF tf(1)]] by metis
  obtain n' e2 where e2: "tf_elemcount tf ?clo e1 = Some (n', e2)" "keeps e1 e2" using givesE [OF field_okD(3) [OF tf(1)]] by metis
  obtain sz e3 where e3: "tf_typesize tf (Some ?clo) e2 = Some (sz, e3)" "keeps e2 e3" using givesE [OF field_okD(4) [OF tf(1)]] by metis
  obtain off e4 where e4: "tf_fieldbitoff tf ?clo e3 = Some (off, e4)" "keeps e3 e4" using givesE [OF field_okD(2) [OF tf(1)]] by metis
  have k: "keeps e e4" using e1(2) e2(2) e3(2) e4(2) keeps_trans by blast
  have fs: "ti_field_size T ti tf e1 = Some ((u64 (sz * n'), n'), e3)" using e2(1) e3(1) tf(2) by (simp add: ti_field_size_def tf_variable_def)
  let ?read = "n' = 1 \<and> u64 (sz * n') \<le> 64 \<and> u64 (sz * n') > 0"
  let ?c = "\<lparr>clo_offset = off, clo_params = [], clo_xlate = ti_xlate ti\<rparr>"
  show ?thesis
  proof (cases ?read)
    case True
    then obtain v e5 where "getLocal phys T ?c off (u64 (sz * n')) e4 = Some (v, e5)" "keeps e4 e5"
      using getLocal_gives [OF phys, of ?c "u64 (sz * n')" T off e4] ti by auto
    then show ?thesis using True e1(1) fs e4(1) keeps_trans [OF k] by (simp add: typeinfo_print_field_value_def Let_def)
  next
    case False
    then show ?thesis using e1(1) fs e4(1) k by (auto simp: typeinfo_print_field_value_def Let_def)
  qed
qed

lemma fieldall_ok:
  assumes "modify_ok T M" and "field_by_ref T f = Some tf" and "(fst f, fst (snd f)) = (TabFieldall, n)"
  shows "field_ok T M tf" "n < length (fsl_rt_table T)"
proof -
  obtain i where f: "f = (TabFieldall, n, i)" using assms(3) by (metis prod.inject prod.exhaust_sel)
  then have "n < length (fsl_rt_table T)" "i < length (tt_fieldall_thunkoff (fsl_rt_table T ! n))" "tf = tt_fieldall_thunkoff (fsl_rt_table T ! n) ! i"
    using assms(2) by (auto simp: tt_by_num_def get_at_eq_Some bind_eq_Some_conv)
  then show "field_ok T M tf" "n < length (fsl_rt_table T)" using assms(1) by (auto simp: modify_ok_def)
qed

lemma print_found:
  assumes T: "modify_ok T M" and phys: "phys_gives phys" and ok: "ti_refs_ok ext (h_ti e) n" and b: "h_ti e b = Some t" "ti_typenum t = TYPENUM_INVALID"
    and sp: "spells T (h_ti e) b (x # xs) p"
  shows "\<exists>out e1 out' e2. typeinfo_print T b e = Some (out, e1) \<and> ti_at e1 b = Some t \<and> typeinfo_print_value phys T t e1 = Some (out', e2) \<and> keeps e e2"
proof -
  obtain f tf q tq where t: "ti_field t = Some f" "field_by_ref T f = Some tf" "ti_typenum t = tf_typenum tf" "ti_prev t = Some q" "h_ti e q = Some tq"
      "(fst f, fst (snd f)) = (TabFieldall, ti_typenum tq)"
    using sp b(1) by auto
  note tf = fieldall_ok [OF T t(2, 6)]
  obtain len e1 where e1: "tf_typesize tf (Some (ti_clo tq)) e = Some (len, e1)" "keeps e e1" using givesE [OF field_okD(4) [OF tf(1)]] by metis
  have "\<exists>out. typeinfo_print T b e = Some (out, e1)"
    using b t(1-5) tf(2) e1(1) by (simp add: typeinfo_print_def typeinfo_print_field_def ti_at_def tt_by_num_def del: field_by_ref.simps)
  moreover have at: "ti_at e1 b = Some t" "ti_at e1 q = Some tq" using b(1) t(5) e1(2) by (simp_all add: ti_at_def keeps_def)
  moreover have "ti_xlate tq = None" using ti_refs_okD(2) [OF ok t(5)] .
  then obtain out' e2 where "typeinfo_print_field_value phys T tq tf e1 = Some (out', e2)" "keeps e1 e2"
    using print_field_value_gives [OF phys tf(1)] t(3) b(2) by metis
  then have "typeinfo_print_value phys T t e1 = Some (out', e2)" "keeps e e2"
    using at(2) t(1, 2, 4) keeps_trans [OF e1(2)] by (simp_all add: typeinfo_print_value_def del: field_by_ref.simps)
  ultimately show ?thesis by blast
qed

lemma free_run:
  assumes "ti_refs_ok ext (h_ti e) (h_next e)" and "0 < ext a"
  shows "\<exists>e'. typeinfo_free a e = Some e' \<and> ti_refs_ok (ext(a := ext a - 1)) (h_ti e') (h_next e')"
proof -
  obtain e' where e': "typeinfo_free a e = Some e'" "ti_refs_ok (ext(a := ext a - 1)) (h_ti e') (h_next e)" "only_ti {} e e'"
    using typeinfo_free_refs [of ext e "{}" "h_next e" a] assms by (auto simp: heap_without_def)
  then show ?thesis by (auto simp: only_ti_def)
qed

text \<open>The end of the tool: what was found is printed and released, then the origin.\<close>

lemma finish_run:
  assumes T: "modify_ok T M" and phys: "phys_gives phys" and l: "looked_up T ((\<lambda>_. 0)(a := 1)) a (dot_elems v) True e1 l e2"
    and ok1: "ti_refs_ok ((\<lambda>_. 0)(a := 1)) (h_ti e1) (h_next e1)" and a: "h_ti e1 a = Some ti"
  shows "\<exists>out e3 e4. (case l of None \<Rightarrow> Some (msg, e2)
       | Some b \<Rightarrow> do { (out, e) \<leftarrow> typeinfo_print T b e2; ti \<leftarrow> ti_at e b; (out', e) \<leftarrow> typeinfo_print_value phys T ti e;
           e \<leftarrow> typeinfo_free b e; Some (line ''Found it!...'' @ line out @ line out', e) }) = Some (out, e3) \<and>
     typeinfo_free a e3 = Some e4 \<and> h_ti e4 = (\<lambda>_. None)"
proof -
  let ?ext = "(\<lambda>_. 0)(a := 1) :: addr \<Rightarrow> nat" and ?ok = "\<lambda>ext e. ti_refs_ok ext (h_ti e) (h_next e)"
  have last: "\<exists>e4. typeinfo_free a e3 = Some e4 \<and> h_ti e4 = (\<lambda>_. None)" if "?ok ?ext e3" for e3
  proof -
    have "?ext(a := ?ext a - 1) = (\<lambda>_. 0)" by (simp add: fun_eq_iff)
    then show ?thesis using free_run [OF that, of a] typeinfo_no_leak by force
  qed
  show ?thesis
  proof (cases l)
    case None
    then show ?thesis using l last [of e2] by (auto simp: looked_up_None)
  next
    case (Some b)
    let ?extb = "?ext(b := 1)"
    have ok2: "?ok ?extb e2" using l Some by (simp add: looked_up_def res_refs_def)
    have ab: "b \<noteq> a" using l Some live_below [OF ok1 a] by (auto simp: looked_up_def)
    obtain t x xs where t: "h_ti e2 b = Some t" "ti_typenum t = TYPENUM_INVALID" "spells T (h_ti e2) b (x # xs) a"
      using l Some by (cases "rev (dot_elems v)") (auto simp: looked_up_def dot_elems.simps [of v] simp del: spells.simps)
    obtain out e3 out' e4 where p: "typeinfo_print T b e2 = Some (out, e3)" "ti_at e3 b = Some t" "typeinfo_print_value phys T t e3 = Some (out', e4)"
        "keeps e2 e4" using print_found [OF T phys ok2 t] by blast
    have "?ok ?extb e4" using ok2 p(4) by (simp add: keeps_def)
    then obtain e5 where e5: "typeinfo_free b e4 = Some e5" "?ok (?extb(b := ?extb b - 1)) e5" using free_run by (metis fun_upd_same zero_less_one)
    moreover have "?extb(b := ?extb b - 1) = ?ext" using ab by (auto simp: fun_eq_iff)
    ultimately show ?thesis using last [of e5] p(1-3) Some by auto
  qed
qed

text \<open>
  C21: the lookup of the modification tool finds the field that a path names. With tables of fields of equal length, for a path
  none of whose elements names a pointer or a virtual type and that does not end at a field with a type, it returns. Either it
  finds nothing, the error code is that of a missing virtual type, and no reference has been taken or lost; or it returns a
  new instance to which the caller has the only reference, and the names of the fields from it up to the start are the path.
\<close>

theorem modify_lookup_finds:
  assumes "modify_ok T M" and "ti_refs_ok ext (h_ti e) (h_next e)" and "0 < ext p" and "h_ti e p = Some tp" and "ti_ref_c tp + 1 < 2 ^ 32"
    and "ti_typenum tp < length (fsl_rt_table T)" and "path_ok T (ti_typenum tp) (dot_elems v)"
  shows "\<exists>r e'. modify_lookup T p v err e = Some ((r, if r = None then LOOKUP_RC_NOVIRT else LOOKUP_RC_OK), e') \<and>
    ti_refs_ok (res_refs r ext) (h_ti e') (h_next e') \<and>
    (\<forall>a. r = Some a \<longrightarrow> h_ti e a = None \<and> spells T (h_ti e') a (rev (dot_elems v)) p)"
proof -
  from modify_lookup_fields [OF assms] obtain r e' where
    r: "modify_lookup T p v err e = Some ((r, if r = None then LOOKUP_RC_NOVIRT else LOOKUP_RC_OK), e')" "looked_up T ext p (dot_elems v) True e r e'" by blast
  have "h_ti e a = None" if "h_next e \<le> a" for a using that ti_refs_okD(1) [OF assms(2)] by (metis linorder_not_less not_None_eq)
  then show ?thesis using r by (auto simp: looked_up_def)
qed

text \<open>
  The tool cannot show an instance of a type. A path that ends at a field that has a type runs into the assertion of
  \<open>__lookup\<close> against an empty path as soon as the field is followed, although the instance exists.
\<close>

theorem modify_lookup_type_aborts:
  assumes "ti_at e p = Some tp" and "find_field T (ti_typenum tp) (get_head v) = Some (Some f)" and "field_by_ref T f = Some tf"
    and "tf_typenum tf \<noteq> TYPENUM_INVALID" and "chop_head v = None" and "typeinfo_follow_field T p f e = Some (Some a, e1)"
  shows "modify_lookup T p v err e = None"
  using assms by (subst modify_lookup.simps) (simp add: or_else_def lookup_fields_def del: field_by_ref.simps)


text \<open>An example: a type with a length and a field of the same type behind it.\<close>

definition demo_mod_tt :: fsl_rtt_type where
  "demo_mod_tt = (let f = \<lparr>tf_fieldname = ''len'', tf_typenum = TYPENUM_INVALID, tf_flags = 0, tf_fieldbitoff = (\<lambda>c e. Some (clo_offset c, e)),
       tf_elemcount = (\<lambda>c e. Some (1, e)), tf_typesize = (\<lambda>c e. Some (32, e)), tf_cond = None, tf_params = (\<lambda>c i e. Some ([], e)), tf_fieldnum = 0\<rparr>;
       fs = [f, f\<lparr>tf_fieldname := ''kid'', tf_typenum := 0, tf_fieldbitoff := (\<lambda>c e. Some (clo_offset c + 64, e)), tf_fieldnum := 1\<rparr>]
     in demo_tt\<lparr>tt_virt := [], tt_fieldall_thunkoff := fs, tt_field_table := fs\<rparr>)"

definition demo_mod_T :: fsl_tables where
  "demo_mod_T = demo_T\<lparr>fsl_rt_table := [demo_mod_tt]\<rparr>"

definition demo_mod_env :: env where
  "demo_mod_env = blank_env\<lparr>bdev_bytes := 4096, h_ti := [0 \<mapsto> demo_ti], h_next := 1\<rparr>"

lemmas demo_mod_defs = demo_mod_T_def demo_mod_tt_def demo_tt_def demo_T_def Let_def

lemma demo_mod_ok: "modify_ok demo_mod_T 1" "length (fsl_rt_table demo_mod_T) = 1"
  by (auto simp: modify_ok_def demo_mod_defs asserts_pure_def asserts_of_def field_ok_def gives_def typenum_ok_def params_fit_def less_Suc_eq)

lemma demo_mod_path: "path_ok demo_mod_T 0 (dot_elems ''kid.len'')" "dot_elems ''kid.len'' = [''kid'', ''len'']"
  by (simp_all add: dot_elems.simps get_head_def chop_head_def find_pt_def find_virt_def find_field_def demo_mod_defs tt_by_num_def first_idx_def
      TYPENUM_INVALID_def ones32_def numeral_2_eq_2)

lemma demo_mod_heap: "ti_refs_ok ((\<lambda>_. 0)(0 := 1)) (h_ti demo_mod_env) (h_next demo_mod_env)"
  by (rule ti_refs_okI) (auto simp: demo_mod_env_def demo_ti_def demo_clo_def children_def ti_sel_defs split: if_splits)

lemma demo_mod_follow: "\<exists>e1. typeinfo_follow_field demo_mod_T 0 (TabFieldall, 0, 1) demo_mod_env = Some (Some 1, e1)"
  by (simp add: typeinfo_follow_field_def typeinfo_follow_field_off_idx_def typeinfo_alloc_by_field_def typeinfo_alloc_generic_def
      offset_in_range_def demo_mod_defs demo_mod_env_def demo_ti_def demo_clo_def blank_env_def tt_by_num_def fsl_virt_ref_def typeinfo_ref_def
      upd_ti_def ti_at_def put_ti_def verify_or_free_def typeinfo_verify_def ti_has_loop_def typeinfo_verify_asserts_def ti_phys_offset_def
      ti_has_loop_from.simps [of _ _ _ None] ti_has_loop_from.simps [of _ _ _ "Some 0"] ti_sel_defs TYPENUM_INVALID_def ones32_def u32_def u64_def)

theorem modify_lookup_finds_witness:
  "\<exists>r e'. modify_lookup demo_mod_T 0 ''kid.len'' 0 demo_mod_env = Some ((r, if r = None then LOOKUP_RC_NOVIRT else LOOKUP_RC_OK), e') \<and>
    ti_refs_ok (res_refs r ((\<lambda>_. 0)(0 := 1))) (h_ti e') (h_next e') \<and>
    (\<forall>a. r = Some a \<longrightarrow> h_ti demo_mod_env a = None \<and> spells demo_mod_T (h_ti e') a (rev [''kid'', ''len'']) 0)"
  by (rule modify_lookup_finds [OF demo_mod_ok(1) demo_mod_heap, of 0 demo_ti "''kid.len''" 0, unfolded demo_mod_path(2)])
    (use demo_mod_path demo_mod_ok(2) in \<open>simp_all add: demo_mod_env_def demo_ti_def ti_sel_defs\<close>)

theorem modify_lookup_type_aborts_witness: "modify_lookup demo_mod_T 0 ''kid'' 0 demo_mod_env = None"
proof -
  obtain e1 where "typeinfo_follow_field demo_mod_T 0 (TabFieldall, 0, 1) demo_mod_env = Some (Some 1, e1)" using demo_mod_follow by blast
  then show ?thesis
  proof (rule modify_lookup_type_aborts [where tp = demo_ti and tf = "tt_fieldall_thunkoff demo_mod_tt ! 1", rotated 5])
    show "find_field demo_mod_T (ti_typenum demo_ti) (get_head ''kid'') = Some (Some (TabFieldall, 0, 1))"
      by (simp add: find_field_def demo_mod_defs demo_ti_def tt_by_num_def get_head_def ti_sel_defs numeral_2_eq_2)
  qed (simp_all add: demo_mod_env_def ti_at_def demo_mod_defs tt_by_num_def chop_head_def TYPENUM_INVALID_def ones32_def)
qed


end
