(* ===== verification/ToolReloc.thy ===== *)
theory ToolReloc
  imports WritePkt Scan Choice
begin

text \<open>
  The tools that move data: \<open>tool/smushtool.c\<close>, \<open>tool/scattertool.c\<close>, \<open>tool/thrashcopy.c\<close>, \<open>tool/relocate.c\<close> and
  \<open>tool/defragtool.c\<close>. Each scans the file system and, for every relocation statement of a type it meets, picks a free
  choice and runs the write packets that move a selected instance there.

  \<^item> The static variables of a tool, and the \<open>scan\<close> argument with its counter, are a record that is passed along.
  \<^item> \<open>junk\<close> is the contents of fresh memory (see \<open>choice_alloc\<close>); \<open>rand\<close> is a stream of numbers with a position.
  \<^item> A relocation is referred to by the number of its type and its index in the type. \<open>~0\<close> as a choice is \<open>ones64\<close>.
  \<^item> An \<open>int\<close> is an integer; a conversion from \<open>uint64_t\<close> is \<open>c_int\<close>, the conversions back are \<open>int_u32\<close> and
    \<open>int_u64\<close>. Incrementing the largest \<open>int\<close> is undefined and has no result.
  \<^item> Messages and progress output are left out.
\<close>

section \<open>What the tools share\<close>

definition c_int :: "nat \<Rightarrow> int" where
  "c_int x = (let y = u32 x in if y < 2 ^ 31 then int y else int y - 2 ^ 32)"

definition int_u32 :: "int \<Rightarrow> nat" where
  "int_u32 i = nat (i mod 2 ^ 32)"

definition int_u64 :: "int \<Rightarrow> nat" where
  "int_u64 i = nat (i mod 2 ^ 64)"

definition int_inc :: "int \<Rightarrow> int option" where
  "int_inc i = (if i < 2 ^ 31 - 1 then Some (i + 1) else None)"

definition rel_by_ref :: "fsl_tables \<Rightarrow> nat \<times> nat \<Rightarrow> fsl_rtt_reloc option" where
  "rel_by_ref T relr = do { tt \<leftarrow> tt_by_num T (fst relr); get_at (tt_reloc tt) (snd relr) }"

definition RELNAME_RELOC :: string where
  "RELNAME_RELOC = ''reloc''"

definition RELNAME_DEFRAG :: string where
  "RELNAME_DEFRAG = ''defrag''"

text \<open>The loop of the four copies of \<open>do_rel_type\<close> over the selected instances.\<close>

function rel_sel_loop ::
  "fsl_tables \<Rightarrow> (addr \<Rightarrow> int \<Rightarrow> 's \<Rightarrow> env \<Rightarrow> ('s \<times> env) option) \<Rightarrow> addr \<Rightarrow> nat \<times> nat \<Rightarrow> int \<Rightarrow> int \<Rightarrow> 's \<Rightarrow> env \<Rightarrow> ('s \<times> env) option" where
  "rel_sel_loop T swap p relr sel_cur sel_max s e =
     (if sel_cur \<le> sel_max then do {
        (sel, e) \<leftarrow> typeinfo_follow_iter T p (IterSel (fst relr) (snd relr)) (int_u64 sel_cur) e;
        (s, e) \<leftarrow> (case sel of
            None \<Rightarrow> Some (s, e)
          | Some a \<Rightarrow> do {
              (s, e) \<leftarrow> swap a sel_cur s e;
              e \<leftarrow> typeinfo_free a e;
              Some (s, e)
            });
        assert_c (sel_cur < 2 ^ 31 - 1);
        rel_sel_loop T swap p relr (sel_cur + 1) sel_max s e
      } else Some (s, e))"
  by pat_completeness auto
termination
  by (relation "measure (\<lambda>(T, swap, p, relr, sel_cur, sel_max, s, e). nat (sel_max + 1 - sel_cur))") auto

declare rel_sel_loop.simps [simp del]

definition rel_sel_all ::
  "fsl_tables \<Rightarrow> (addr \<Rightarrow> int \<Rightarrow> 's \<Rightarrow> env \<Rightarrow> ('s \<times> env) option) \<Rightarrow> addr \<Rightarrow> nat \<times> nat \<Rightarrow> 's \<Rightarrow> env \<Rightarrow> ('s \<times> env) option" where
  "rel_sel_all T swap p relr s e = do {
     rel \<leftarrow> rel_by_ref T relr;
     ti \<leftarrow> ti_at e p;
     (mn, e) \<leftarrow> it_min (rel_sel rel) (ti_clo ti) e;
     (mx, e) \<leftarrow> it_max (rel_sel rel) (ti_clo ti) e;
     rel_sel_loop T swap p relr (c_int mn) (c_int mx) s e
   }"

text \<open>The loop of the handlers over the relocations of a type with a given name.\<close>

fun rel_name_loop ::
  "fsl_tables \<Rightarrow> string \<Rightarrow> (addr \<Rightarrow> nat \<times> nat \<Rightarrow> 's \<Rightarrow> env \<Rightarrow> ('s \<times> env) option) \<Rightarrow> addr \<Rightarrow> nat \<Rightarrow> nat list \<Rightarrow> 's \<Rightarrow> env \<Rightarrow> ('s \<times> env) option" where
  "rel_name_loop T name act p n [] s e = Some (s, e)"
| "rel_name_loop T name act p n (i # is) s e = do {
     rel \<leftarrow> rel_by_ref T (n, i);
     (s, e) \<leftarrow> (if rel_name rel = Some name then act p (n, i) s e else Some (s, e));
     rel_name_loop T name act p n is s e
   }"

definition reloc_ti_handle ::
  "fsl_tables \<Rightarrow> (addr \<Rightarrow> nat \<times> nat \<Rightarrow> 's \<Rightarrow> env \<Rightarrow> ('s \<times> env) option) \<Rightarrow> ('s \<Rightarrow> 's) \<Rightarrow> addr \<Rightarrow> ('s, int) sc" where
  "reloc_ti_handle T act count a s e = do {
     ti \<leftarrow> ti_at e a;
     tt \<leftarrow> tt_by_num T (ti_typenum ti);
     if tt_reloc tt = [] then Some (SCAN_RET_CONTINUE, s, e)
     else do {
       (s, e) \<leftarrow> rel_name_loop T RELNAME_RELOC act a (ti_typenum ti) [0..<length (tt_reloc tt)] s e;
       Some (SCAN_RET_CONTINUE, count s, e)
     }
   }"

definition ti_ops :: "(addr \<Rightarrow> ('s, int) sc) \<Rightarrow> 's scan_ops" where
  "ti_ops h = \<lparr>so_ti = Some h, so_strong = None, so_virt = None, so_pt = None, so_cond = None\<rparr>"

text \<open>The entry of a tool: open the origin, scan, release the cache and the origin.\<close>

definition tool_scan :: "fsl_tables \<Rightarrow> (addr option \<Rightarrow> ('s, int) sc) \<Rightarrow> ('s, int) sc" where
  "tool_scan T scan s e = do {
     (origin, e) \<leftarrow> typeinfo_alloc_origin T e;
     case origin of
       None \<Rightarrow> Some (- 1, s, e)
     | Some a \<Rightarrow> do {
         (_, s, e) \<leftarrow> scan (Some a) s e;
         e \<leftarrow> typeinfo_free a e;
         Some (0, s, e)
       }
   }"

section \<open>Smush: move towards the start of the disk\<close>

record smush_st =
  sm_ccache :: "choice_cache option"
  sm_refresh_count :: int
  sm_cursor :: nat
  sm_threshold :: nat
  sm_rel_c :: nat

definition MAX_REFRESH_smush :: int where
  "MAX_REFRESH_smush = 10"

definition smush_cache_refresh :: "fsl_tables \<Rightarrow> (nat \<Rightarrow> byte) \<Rightarrow> addr \<Rightarrow> nat \<times> nat \<Rightarrow> smush_st \<Rightarrow> env \<Rightarrow> (smush_st \<times> env) option" where
  "smush_cache_refresh T junk p relr s e = do {
     assert_c (sm_ccache s \<noteq> None);
     rel \<leftarrow> rel_by_ref T relr;
     ti \<leftarrow> ti_at e p;
     (cc, e) \<leftarrow> choice_alloc junk ti rel e;
     c \<leftarrow> cc;
     cnt \<leftarrow> int_inc (sm_refresh_count s);
     Some (s\<lparr>sm_ccache := cc, sm_cursor := cc_min c, sm_refresh_count := cnt\<rparr>, e)
   }"

partial_function (option) smush_find_loop ::
  "fsl_tables \<Rightarrow> (nat \<Rightarrow> byte) \<Rightarrow> addr \<Rightarrow> nat \<times> nat \<Rightarrow> nat \<Rightarrow> (smush_st, nat option) sc" where
  "smush_find_loop T junk p relr ccmax s e =
     (if sm_cursor s \<le> ccmax then do {
        cc \<leftarrow> sm_ccache s;
        k \<leftarrow> choice_find_avail cc (u32 (sm_cursor s)) 1;
        if k = - 1 then smush_find_loop T junk p relr ccmax (s\<lparr>sm_cursor := u64 (sm_cursor s + 1)\<rparr>) e
        else if int_u64 k > sm_threshold s then do {
          (s, e) \<leftarrow> smush_cache_refresh T junk p relr s e;
          cc \<leftarrow> sm_ccache s;
          let s = s\<lparr>sm_threshold := u64 (sm_threshold s + sm_threshold s div 2)\<rparr>;
          let back = u64 (sm_cursor s + 2 ^ 64 - cc_min cc) div 2;
          let s = s\<lparr>sm_cursor := u64 (sm_cursor s + 2 ^ 64 - back)\<rparr>;
          smush_find_loop T junk p relr ccmax (s\<lparr>sm_cursor := u64 (sm_cursor s + 1)\<rparr>) e
        } else do {
          al \<leftarrow> choice_is_alloc cc (int_u64 k);
          if al then smush_find_loop T junk p relr ccmax (s\<lparr>sm_cursor := u64 (sm_cursor s + 1)\<rparr>) e
          else Some (Some (int_u64 k), s\<lparr>sm_cursor := int_u64 (k + 1)\<rparr>, e)
        }
      } else Some (None, s, e))"

definition smush_choice_find :: "fsl_tables \<Rightarrow> (nat \<Rightarrow> byte) \<Rightarrow> addr \<Rightarrow> nat \<times> nat \<Rightarrow> (smush_st, nat) sc" where
  "smush_choice_find T junk p relr s e = do {
     cc \<leftarrow> sm_ccache s;
     (r, s, e) \<leftarrow> smush_find_loop T junk p relr (cc_max cc) s e;
     case r of
       Some k \<Rightarrow> Some (k, s, e)
     | None \<Rightarrow>
         if sm_refresh_count s = MAX_REFRESH_smush then Some (ones64, s, e)
         else do {
           (s, e) \<leftarrow> smush_cache_refresh T junk p relr s e;
           Some (ones64, s, e)
         }
   }"

definition smush_swap_rel_sel ::
  "fsl_tables \<Rightarrow> (nat \<Rightarrow> byte) \<Rightarrow> addr \<Rightarrow> nat \<times> nat \<Rightarrow> addr \<Rightarrow> int \<Rightarrow> smush_st \<Rightarrow> env \<Rightarrow> (smush_st \<times> env) option" where
  "smush_swap_rel_sel T junk p relr sel sel_v s e = do {
     (idx, s, e) \<leftarrow> smush_choice_find T junk p relr s e;
     if idx = ones64 then Some (s, e)
     else do {
       (ch, e) \<leftarrow> typeinfo_follow_iter T p (IterChoice (fst relr) (snd relr)) idx e;
       case ch of
         None \<Rightarrow> Some (s, e)
       | Some a \<Rightarrow> do {
           ch_ti \<leftarrow> ti_at e a;
           (replace_poff, e) \<leftarrow> ti_phys_offset T ch_ti e;
           sel_ti \<leftarrow> ti_at e sel;
           (rel_sel_poff, e) \<leftarrow> ti_phys_offset T sel_ti e;
           e \<leftarrow> typeinfo_free a e;
           if replace_poff > rel_sel_poff then Some (s\<lparr>sm_cursor := idx\<rparr>, e)
           else do {
             e \<leftarrow> wpkt_relocate T p relr sel (int_u32 sel_v) (u32 idx) e;
             cc \<leftarrow> sm_ccache s;
             cc \<leftarrow> choice_mark_alloc cc idx;
             Some (s\<lparr>sm_ccache := Some cc\<rparr>, e)
           }
         }
     }
   }"

definition smush_do_rel_type :: "fsl_tables \<Rightarrow> (nat \<Rightarrow> byte) \<Rightarrow> addr \<Rightarrow> nat \<times> nat \<Rightarrow> smush_st \<Rightarrow> env \<Rightarrow> (smush_st \<times> env) option" where
  "smush_do_rel_type T junk p relr s e = do {
     (s, e) \<leftarrow> (if sm_ccache s = None then do {
         rel \<leftarrow> rel_by_ref T relr;
         ti \<leftarrow> ti_at e p;
         (cc, e) \<leftarrow> choice_alloc junk ti rel e;
         c \<leftarrow> cc;
         Some (s\<lparr>sm_ccache := cc, sm_cursor := cc_min c, sm_threshold := u32 (cc_max c + cc_min c) div 2\<rparr>, e)
       } else Some (s, e));
     rel_sel_all T (smush_swap_rel_sel T junk p relr) p relr s e
   }"

definition smush_ti_handle :: "fsl_tables \<Rightarrow> (nat \<Rightarrow> byte) \<Rightarrow> addr \<Rightarrow> (smush_st, int) sc" where
  "smush_ti_handle T junk = reloc_ti_handle T (smush_do_rel_type T junk) (\<lambda>s. s\<lparr>sm_rel_c := u32 (sm_rel_c s + 1)\<rparr>)"

definition smush_entry :: "fsl_tables \<Rightarrow> (nat \<Rightarrow> byte) \<Rightarrow> nat \<Rightarrow> env \<Rightarrow> (int \<times> smush_st \<times> env) option" where
  "smush_entry T junk argc e = do {
     assert_c (argc = 0);
     tool_scan T (\<lambda>a. scan_type T a (ti_ops (smush_ti_handle T junk)))
       \<lparr>sm_ccache = None, sm_refresh_count = 0, sm_cursor = 0, sm_threshold = 0, sm_rel_c = 0\<rparr> e
   }"

section \<open>Scatter: move to random places\<close>

record scatter_st =
  sc_ccache :: "choice_cache option"
  sc_refresh_count :: int
  sc_frag_percent :: int
  sc_num_relocs :: int
  sc_rel_c :: nat
  sc_rand :: "nat \<Rightarrow> nat"
  sc_rand_pos :: nat

definition MAX_REFRESH_scatter :: int where
  "MAX_REFRESH_scatter = 10"

definition fsl_rand :: "scatter_st \<Rightarrow> nat \<times> scatter_st" where
  "fsl_rand s = (sc_rand s (sc_rand_pos s), s\<lparr>sc_rand_pos := sc_rand_pos s + 1\<rparr>)"

fun scatter_find_loop :: "nat \<Rightarrow> scatter_st \<Rightarrow> (nat option \<times> scatter_st) option" where
  "scatter_find_loop 0 s = Some (None, s)"
| "scatter_find_loop (Suc n) s = do {
     cc \<leftarrow> sc_ccache s;
     let (r, s) = fsl_rand s;
     let range = u32 (cc_max cc + 2 ^ 32 - cc_min cc);
     assert_c (range \<noteq> 0);
     let choice_base = r mod range + cc_min cc;
     k \<leftarrow> choice_find_avail cc (u32 choice_base) 1;
     if k = - 1 then scatter_find_loop n s
     else do {
       al \<leftarrow> choice_is_alloc cc (int_u64 k);
       if al then scatter_find_loop n s
       else do {
         assert_c (int_u32 k \<le> cc_max cc);
         Some (Some (int_u64 k), s)
       }
     }
   }"

definition scatter_choice_find :: "fsl_tables \<Rightarrow> (nat \<Rightarrow> byte) \<Rightarrow> addr \<Rightarrow> nat \<times> nat \<Rightarrow> (scatter_st, nat) sc" where
  "scatter_choice_find T junk p relr s e = do {
     (r, s) \<leftarrow> scatter_find_loop 11 s;
     case r of
       Some k \<Rightarrow> Some (k, s, e)
     | None \<Rightarrow>
         if sc_refresh_count s = MAX_REFRESH_scatter then Some (ones64, s, e)
         else do {
           assert_c (sc_ccache s \<noteq> None);
           rel \<leftarrow> rel_by_ref T relr;
           ti \<leftarrow> ti_at e p;
           (cc, e) \<leftarrow> choice_alloc junk ti rel e;
           cnt \<leftarrow> int_inc (sc_refresh_count s);
           Some (ones64, s\<lparr>sc_ccache := cc, sc_refresh_count := cnt\<rparr>, e)
         }
   }"

definition scatter_swap_rel_sel ::
  "fsl_tables \<Rightarrow> (nat \<Rightarrow> byte) \<Rightarrow> addr \<Rightarrow> nat \<times> nat \<Rightarrow> addr \<Rightarrow> int \<Rightarrow> scatter_st \<Rightarrow> env \<Rightarrow> (scatter_st \<times> env) option" where
  "scatter_swap_rel_sel T junk p relr sel sel_v s e = do {
     let (r, s) = fsl_rand s;
     if int (r mod 100) > sc_frag_percent s then Some (s, e)
     else do {
       (idx, s, e) \<leftarrow> scatter_choice_find T junk p relr s e;
       if idx = ones64 then Some (s, e)
       else do {
         e \<leftarrow> wpkt_relocate T p relr sel (int_u32 sel_v) (u32 idx) e;
         cnt \<leftarrow> int_inc (sc_num_relocs s);
         cc \<leftarrow> sc_ccache s;
         cc \<leftarrow> choice_mark_alloc cc idx;
         Some (s\<lparr>sc_ccache := Some cc, sc_num_relocs := cnt\<rparr>, e)
       }
     }
   }"

definition scatter_do_rel_type :: "fsl_tables \<Rightarrow> (nat \<Rightarrow> byte) \<Rightarrow> addr \<Rightarrow> nat \<times> nat \<Rightarrow> scatter_st \<Rightarrow> env \<Rightarrow> (scatter_st \<times> env) option" where
  "scatter_do_rel_type T junk p relr s e = do {
     (s, e) \<leftarrow> (if sc_ccache s = None then do {
         rel \<leftarrow> rel_by_ref T relr;
         ti \<leftarrow> ti_at e p;
         (cc, e) \<leftarrow> choice_alloc junk ti rel e;
         Some (s\<lparr>sc_ccache := cc\<rparr>, e)
       } else Some (s, e));
     rel_sel_all T (scatter_swap_rel_sel T junk p relr) p relr s e
   }"

definition scatter_ti_handle :: "fsl_tables \<Rightarrow> (nat \<Rightarrow> byte) \<Rightarrow> addr \<Rightarrow> (scatter_st, int) sc" where
  "scatter_ti_handle T junk = reloc_ti_handle T (scatter_do_rel_type T junk) (\<lambda>s. s\<lparr>sc_rel_c := u32 (sc_rel_c s + 1)\<rparr>)"

text \<open>The percentage on the command line, already converted by \<open>FSL_ATOI\<close>.\<close>

definition scatter_entry :: "fsl_tables \<Rightarrow> (nat \<Rightarrow> byte) \<Rightarrow> (nat \<Rightarrow> nat) \<Rightarrow> int option \<Rightarrow> env \<Rightarrow> (int \<times> scatter_st \<times> env) option" where
  "scatter_entry T junk rnd percent e =
     tool_scan T (\<lambda>a. scan_type T a (ti_ops (scatter_ti_handle T junk)))
       \<lparr>sc_ccache = None, sc_refresh_count = 0, sc_frag_percent = (case percent of None \<Rightarrow> 100 | Some v \<Rightarrow> v), sc_num_relocs = 0, sc_rel_c = 0,
        sc_rand = rnd, sc_rand_pos = 0\<rparr> e"

section \<open>Thrash copy: move towards the end of the disk\<close>

text \<open>The cursor is an \<open>int64_t\<close> that is compared with an \<open>uint64_t\<close>.\<close>

record thrash_st =
  th_ccache :: "choice_cache option"
  th_refresh_count :: int
  th_cursor :: int
  th_rel_c :: nat

definition MAX_REFRESH_thrash :: int where
  "MAX_REFRESH_thrash = 40"

definition thrash_cache_refresh :: "fsl_tables \<Rightarrow> (nat \<Rightarrow> byte) \<Rightarrow> addr \<Rightarrow> nat \<times> nat \<Rightarrow> thrash_st \<Rightarrow> env \<Rightarrow> (thrash_st \<times> env) option" where
  "thrash_cache_refresh T junk p relr s e = do {
     assert_c (th_ccache s \<noteq> None);
     rel \<leftarrow> rel_by_ref T relr;
     ti \<leftarrow> ti_at e p;
     (cc, e) \<leftarrow> choice_alloc junk ti rel e;
     c \<leftarrow> cc;
     cnt \<leftarrow> int_inc (th_refresh_count s);
     Some (s\<lparr>th_ccache := cc, th_cursor := int (cc_max c), th_refresh_count := cnt\<rparr>, e)
   }"

partial_function (option) thrash_find_loop :: "choice_cache \<Rightarrow> int \<Rightarrow> (nat option \<times> int) option" where
  "thrash_find_loop cc cursor =
     (if int_u64 cursor \<ge> cc_min cc then do {
        al \<leftarrow> choice_is_alloc cc (int_u64 cursor);
        if al then do {
          assert_c (cursor > - (2 ^ 63));
          thrash_find_loop cc (cursor - 1)
        } else do {
          fr \<leftarrow> choice_is_free cc (int_u64 cursor);
          assert_c fr;
          Some (Some (int_u64 cursor), cursor)
        }
      } else Some (None, cursor))"

definition thrash_choice_find :: "fsl_tables \<Rightarrow> (nat \<Rightarrow> byte) \<Rightarrow> addr \<Rightarrow> nat \<times> nat \<Rightarrow> (thrash_st, nat) sc" where
  "thrash_choice_find T junk p relr s e =
     (if th_refresh_count s = MAX_REFRESH_thrash then Some (ones64, s, e)
      else do {
        cc \<leftarrow> th_ccache s;
        (r, cursor) \<leftarrow> thrash_find_loop cc (th_cursor s);
        let s = s\<lparr>th_cursor := cursor\<rparr>;
        case r of
          Some k \<Rightarrow> Some (k, s, e)
        | None \<Rightarrow> do {
            (s, e) \<leftarrow> thrash_cache_refresh T junk p relr s e;
            Some (ones64, s, e)
          }
      })"

definition thrash_swap_rel_sel ::
  "fsl_tables \<Rightarrow> (nat \<Rightarrow> byte) \<Rightarrow> addr \<Rightarrow> nat \<times> nat \<Rightarrow> addr \<Rightarrow> int \<Rightarrow> thrash_st \<Rightarrow> env \<Rightarrow> (thrash_st \<times> env) option" where
  "thrash_swap_rel_sel T junk p relr sel sel_v s e = do {
     (idx, s, e) \<leftarrow> thrash_choice_find T junk p relr s e;
     if idx = ones64 then Some (s, e)
     else do {
       (ch, e) \<leftarrow> typeinfo_follow_iter T p (IterChoice (fst relr) (snd relr)) idx e;
       case ch of
         None \<Rightarrow> Some (s, e)
       | Some a \<Rightarrow> do {
           ch_ti \<leftarrow> ti_at e a;
           (replace_poff, e) \<leftarrow> ti_phys_offset T ch_ti e;
           sel_ti \<leftarrow> ti_at e sel;
           (rel_sel_poff, e) \<leftarrow> ti_phys_offset T sel_ti e;
           e \<leftarrow> typeinfo_free a e;
           if rel_sel_poff \<ge> replace_poff then Some (s, e)
           else do {
             e \<leftarrow> wpkt_relocate T p relr sel (int_u32 sel_v) (u32 idx) e;
             cc \<leftarrow> th_ccache s;
             cc \<leftarrow> choice_mark_alloc cc idx;
             al \<leftarrow> choice_is_alloc cc idx;
             assert_c al;
             fr \<leftarrow> choice_is_free cc idx;
             assert_c (\<not> fr);
             Some (s\<lparr>th_ccache := Some cc\<rparr>, e)
           }
         }
     }
   }"

definition thrash_do_rel_type :: "fsl_tables \<Rightarrow> (nat \<Rightarrow> byte) \<Rightarrow> addr \<Rightarrow> nat \<times> nat \<Rightarrow> thrash_st \<Rightarrow> env \<Rightarrow> (thrash_st \<times> env) option" where
  "thrash_do_rel_type T junk p relr s e = do {
     (s, e) \<leftarrow> (if th_ccache s = None then do {
         rel \<leftarrow> rel_by_ref T relr;
         ti \<leftarrow> ti_at e p;
         (cc, e) \<leftarrow> choice_alloc junk ti rel e;
         c \<leftarrow> cc;
         Some (s\<lparr>th_ccache := cc, th_cursor := int (cc_max c)\<rparr>, e)
       } else Some (s, e));
     rel_sel_all T (thrash_swap_rel_sel T junk p relr) p relr s e
   }"

definition thrash_ti_handle :: "fsl_tables \<Rightarrow> (nat \<Rightarrow> byte) \<Rightarrow> addr \<Rightarrow> (thrash_st, int) sc" where
  "thrash_ti_handle T junk = reloc_ti_handle T (thrash_do_rel_type T junk) (\<lambda>s. s\<lparr>th_rel_c := u32 (th_rel_c s + 1)\<rparr>)"

definition thrash_entry :: "fsl_tables \<Rightarrow> (nat \<Rightarrow> byte) \<Rightarrow> nat \<Rightarrow> env \<Rightarrow> (int \<times> thrash_st \<times> env) option" where
  "thrash_entry T junk argc e = do {
     assert_c (argc = 0);
     tool_scan T (\<lambda>a. scan_type T a (ti_ops (thrash_ti_handle T junk)))
       \<lparr>th_ccache = None, th_refresh_count = 0, th_cursor = 0, th_rel_c = 0\<rparr> e
   }"

section \<open>Relocate: move into the shape of an image\<close>

text \<open>\<open>x * y\<close> is a product of two \<open>unsigned int\<close>s. The image is loaded by the caller.\<close>

record img =
  im_x :: nat
  im_y :: nat
  im_bmp :: "nat list"
  im_disk_bytes :: nat

record reloc_st =
  rl_ccache :: "choice_cache option"
  rl_img :: img
  rl_ccache_cursor :: nat
  rl_reloc_cursor :: nat
  rl_fail_c :: int
  rl_rel_c :: nat

definition img_px :: "img \<Rightarrow> nat" where
  "img_px im = u32 (im_x im * im_y im)"

definition bytes_per_px :: "img \<Rightarrow> nat option" where
  "bytes_per_px im = do { assert_c (img_px im \<noteq> 0); Some (im_disk_bytes im div img_px im) }"

definition byte_to_imgidx :: "img \<Rightarrow> nat \<Rightarrow> nat option" where
  "byte_to_imgidx im in_byte = do {
     bpp \<leftarrow> bytes_per_px im;
     assert_c (bpp \<noteq> 0);
     Some (in_byte div bpp)
   }"

definition byte_to_pixval :: "img \<Rightarrow> nat \<Rightarrow> nat option" where
  "byte_to_pixval im in_byte = do {
     i \<leftarrow> byte_to_imgidx im in_byte;
     assert_c (i < img_px im);
     get_at (im_bmp im) i
   }"

function reloc_advance_loop :: "img \<Rightarrow> nat \<Rightarrow> nat option" where
  "reloc_advance_loop im i =
     (if i < img_px im then do {
        v \<leftarrow> get_at (im_bmp im) i;
        if v \<noteq> 0 then Some i
        else do {
          assert_c (i < 2 ^ 31 - 1);
          reloc_advance_loop im (i + 1)
        }
      } else Some ones64)"
  by pat_completeness auto
termination
  by (relation "measure (\<lambda>(im, i). img_px im - i)") auto

declare reloc_advance_loop.simps [simp del]

definition reloc_img_advance_unchecked :: "reloc_st \<Rightarrow> reloc_st option" where
  "reloc_img_advance_unchecked s = do {
     c \<leftarrow> reloc_advance_loop (rl_img s) (u32 (rl_reloc_cursor s + 1));
     Some (s\<lparr>rl_reloc_cursor := c\<rparr>)
   }"

definition reloc_img_advance :: "reloc_st \<Rightarrow> reloc_st option" where
  "reloc_img_advance s = (if rl_reloc_cursor s = ones64 then Some s else reloc_img_advance_unchecked s)"

definition ccache_load :: "fsl_tables \<Rightarrow> (nat \<Rightarrow> byte) \<Rightarrow> addr \<Rightarrow> nat \<times> nat \<Rightarrow> reloc_st \<Rightarrow> env \<Rightarrow> (reloc_st \<times> env) option" where
  "ccache_load T junk p relr s e = do {
     rel \<leftarrow> rel_by_ref T relr;
     ti \<leftarrow> ti_at e p;
     (cc, e) \<leftarrow> choice_alloc junk ti rel e;
     c \<leftarrow> cc;
     Some (s\<lparr>rl_ccache := cc, rl_ccache_cursor := cc_min c\<rparr>, e)
   }"

text \<open>\<open>cur_choice\<close> is an \<open>unsigned int\<close>; after an overshot the same choice is tried again.\<close>

partial_function (option) reloc_find_loop ::
  "fsl_tables \<Rightarrow> addr \<Rightarrow> nat \<times> nat \<Rightarrow> nat \<Rightarrow> nat \<Rightarrow> (reloc_st, nat) sc" where
  "reloc_find_loop T p relr param_c cur s e = do {
     cc \<leftarrow> rl_ccache s;
     if cur \<le> cc_max cc then do {
       al \<leftarrow> choice_is_alloc cc cur;
       if al then reloc_find_loop T p relr param_c (u32 (cur + 1)) s e
       else do {
         rel \<leftarrow> rel_by_ref T relr;
         ti \<leftarrow> ti_at e p;
         ((off_bits, params, xlate), e) \<leftarrow> it_range (rel_choice rel) (ti_clo ti) cur e;
         assert_c (length params \<le> param_c);
         assert_c (xlate = None);
         imgidx \<leftarrow> byte_to_imgidx (rl_img s) (off_bits div 8);
         if imgidx = rl_reloc_cursor s then do {
           cc' \<leftarrow> choice_mark_alloc cc cur;
           s \<leftarrow> reloc_img_advance (s\<lparr>rl_ccache := Some cc'\<rparr>);
           Some (cur, s\<lparr>rl_ccache_cursor := (if rl_reloc_cursor s = ones64 then u32 (cc_max cc + 1) else u32 (cur + 1))\<rparr>, e)
         } else if imgidx > rl_reloc_cursor s then do {
           cnt \<leftarrow> int_inc (rl_fail_c s);
           s \<leftarrow> reloc_img_advance (s\<lparr>rl_fail_c := cnt\<rparr>);
           if rl_reloc_cursor s = ones64 then Some (ones64, s\<lparr>rl_ccache_cursor := u32 (cc_max cc + 1)\<rparr>, e)
           else reloc_find_loop T p relr param_c (u32 (u32 (cur + 2 ^ 32 - 1) + 1)) s e
         } else reloc_find_loop T p relr param_c (u32 (cur + 1)) s e
       }
     } else Some (ones64, s, e)
   }"

definition reloc_choice_find :: "fsl_tables \<Rightarrow> addr \<Rightarrow> nat \<times> nat \<Rightarrow> (reloc_st, nat) sc" where
  "reloc_choice_find T p relr s e = do {
     rel \<leftarrow> rel_by_ref T relr;
     tt \<leftarrow> tt_by_num T (it_type_dst (rel_choice rel));
     reloc_find_loop T p relr (tt_param_c tt) (u32 (rl_ccache_cursor s)) s e
   }"

definition reloc_swap_rel_sel :: "fsl_tables \<Rightarrow> addr \<Rightarrow> nat \<times> nat \<Rightarrow> addr \<Rightarrow> int \<Rightarrow> reloc_st \<Rightarrow> env \<Rightarrow> (reloc_st \<times> env) option" where
  "reloc_swap_rel_sel T p relr sel sel_v s e = do {
     ti \<leftarrow> ti_at e sel;
     pxval \<leftarrow> byte_to_pixval (rl_img s) (ti_offset ti div 8);
     if pxval \<noteq> 0 then Some (s, e)
     else do {
       (idx, s, e) \<leftarrow> reloc_choice_find T p relr s e;
       if idx = ones64 then Some (s, e)
       else do {
         e \<leftarrow> wpkt_relocate T p relr sel (int_u32 sel_v) (u32 idx) e;
         Some (s, e)
       }
     }
   }"

definition reloc_do_rel_type :: "fsl_tables \<Rightarrow> (nat \<Rightarrow> byte) \<Rightarrow> addr \<Rightarrow> nat \<times> nat \<Rightarrow> reloc_st \<Rightarrow> env \<Rightarrow> (reloc_st \<times> env) option" where
  "reloc_do_rel_type T junk p relr s e = do {
     (s, e) \<leftarrow> (if rl_ccache s = None then ccache_load T junk p relr s e else Some (s, e));
     rel_sel_all T (reloc_swap_rel_sel T p relr) p relr s e
   }"

definition relocate_ti_handle :: "fsl_tables \<Rightarrow> (nat \<Rightarrow> byte) \<Rightarrow> addr \<Rightarrow> (reloc_st, int) sc" where
  "relocate_ti_handle T junk = reloc_ti_handle T (reloc_do_rel_type T junk) (\<lambda>s. s\<lparr>rl_rel_c := u32 (rl_rel_c s + 1)\<rparr>)"

definition relocate_entry :: "fsl_tables \<Rightarrow> (nat \<Rightarrow> byte) \<Rightarrow> img \<Rightarrow> env \<Rightarrow> (int \<times> reloc_st \<times> env) option" where
  "relocate_entry T junk im e = do {
     let s = \<lparr>rl_ccache = None, rl_img = im, rl_ccache_cursor = 0, rl_reloc_cursor = ones64, rl_fail_c = 0, rl_rel_c = 0\<rparr>;
     s \<leftarrow> reloc_img_advance_unchecked s;
     tool_scan T (\<lambda>a. scan_type T a (ti_ops (relocate_ti_handle T junk))) s e
   }"

section \<open>Defragment\<close>

record defrag_st =
  df_ccache :: "choice_cache option"
  df_cursor :: int

text \<open>The place and the size in bits of the selected instance number \<open>sel\<close>.\<close>

definition sel_extent :: "fsl_tables \<Rightarrow> addr \<Rightarrow> nat \<times> nat \<Rightarrow> int \<Rightarrow> (nat \<times> nat) rt" where
  "sel_extent T p relr sel e = do {
     (a, e) \<leftarrow> typeinfo_follow_iter T p (IterSel (fst relr) (snd relr)) (int_u64 sel) e;
     a \<leftarrow> a;
     ti \<leftarrow> ti_at e a;
     (off, e) \<leftarrow> ti_phys_offset T ti e;
     ti \<leftarrow> ti_at e a;
     (sz, e) \<leftarrow> ti_size T ti e;
     e \<leftarrow> typeinfo_free a e;
     Some ((off, sz), e)
   }"

function is_fragmented_loop :: "fsl_tables \<Rightarrow> addr \<Rightarrow> nat \<times> nat \<Rightarrow> int \<Rightarrow> int \<Rightarrow> nat \<Rightarrow> nat \<Rightarrow> bool rt" where
  "is_fragmented_loop T p relr sel_cur sel_max last_off last_sz e =
     (if sel_cur \<le> sel_max then do {
        ((cur_off, cur_sz), e) \<leftarrow> sel_extent T p relr sel_cur e;
        if cur_off \<noteq> u64 (last_off + last_sz) then Some (True, e)
        else do {
          assert_c (sel_cur < 2 ^ 31 - 1);
          is_fragmented_loop T p relr (sel_cur + 1) sel_max cur_off cur_sz e
        }
      } else Some (False, e))"
  by pat_completeness auto
termination
  by (relation "measure (\<lambda>(T, p, relr, sel_cur, sel_max, last_off, last_sz, e). nat (sel_max + 1 - sel_cur))") auto

declare is_fragmented_loop.simps [simp del]

definition is_fragmented :: "fsl_tables \<Rightarrow> addr \<Rightarrow> nat \<times> nat \<Rightarrow> int \<Rightarrow> int \<Rightarrow> bool rt" where
  "is_fragmented T p relr sel_min sel_max e =
     (if sel_min \<ge> sel_max then Some (False, e)
      else do {
        ((last_off, last_sz), e) \<leftarrow> sel_extent T p relr sel_min e;
        is_fragmented_loop T p relr (sel_min + 1) sel_max last_off last_sz e
      })"

text \<open>The loop that moves the selected instances one by one to the run of free choices.\<close>

fun defrag_move_loop :: "fsl_tables \<Rightarrow> addr \<Rightarrow> nat \<times> nat \<Rightarrow> nat \<Rightarrow> int \<Rightarrow> nat list \<Rightarrow> choice_cache \<Rightarrow> env \<Rightarrow> (choice_cache \<times> env) option" where
  "defrag_move_loop T p relr sel_min cc_begin [] cc e = Some (cc, e)"
| "defrag_move_loop T p relr sel_min cc_begin (i # is) cc e = do {
     (sel, e) \<leftarrow> typeinfo_follow_iter T p (IterSel (fst relr) (snd relr)) (u32 (sel_min + i)) e;
     a \<leftarrow> sel;
     fr \<leftarrow> choice_is_free cc (int_u64 (cc_begin + int i));
     assert_c fr;
     e \<leftarrow> wpkt_relocate T p relr a (u32 (sel_min + i)) (int_u32 (cc_begin + int i)) e;
     cc \<leftarrow> choice_mark_alloc cc (int_u64 (cc_begin + int i));
     e \<leftarrow> typeinfo_free a e;
     defrag_move_loop T p relr sel_min cc_begin is cc e
   }"

text \<open>The first place with enough free choices from the cursor on, or from the start. \<open>sel_count\<close> is an \<open>int\<close>.\<close>

definition defrag_find :: "int \<Rightarrow> choice_cache \<Rightarrow> int \<Rightarrow> (int \<times> int) option" where
  "defrag_find sel_count cc cursor = do {
     cc_begin \<leftarrow> choice_find_avail cc (int_u32 cursor) (int_u32 sel_count);
     if cc_begin \<noteq> - 1 then Some (cc_begin, cursor)
     else do {
       let cursor = c_int (cc_min cc);
       cc_begin \<leftarrow> choice_find_avail cc (int_u32 cursor) (int_u32 sel_count);
       Some (cc_begin, cursor)
     }
   }"

definition do_defrag :: "fsl_tables \<Rightarrow> (nat \<Rightarrow> byte) \<Rightarrow> addr \<Rightarrow> nat \<times> nat \<Rightarrow> defrag_st \<Rightarrow> env \<Rightarrow> (defrag_st \<times> env) option" where
  "do_defrag T junk p relr s e = do {
     rel \<leftarrow> rel_by_ref T relr;
     ti \<leftarrow> ti_at e p;
     (s, e) \<leftarrow> (if df_ccache s = None then do {
         (cc, e) \<leftarrow> choice_alloc junk ti rel e;
         c \<leftarrow> cc;
         Some (s\<lparr>df_ccache := cc, df_cursor := c_int (cc_min c)\<rparr>, e)
       } else Some (s, e));
     (mn, e) \<leftarrow> it_min (rel_sel rel) (ti_clo ti) e;
     let sel_min = u32 mn;
     if sel_min = ones32 then Some (s, e)
     else do {
       (mx, e) \<leftarrow> it_max (rel_sel rel) (ti_clo ti) e;
       let sel_max = u32 mx;
       if sel_min > sel_max then Some (s, e)
       else do {
         let sel_count = c_int (sel_max - sel_min + 1);
         if sel_count = 1 then Some (s, e)
         else do {
           cc \<leftarrow> df_ccache s;
           (cc_begin, cursor) \<leftarrow> defrag_find sel_count cc (df_cursor s);
           let s = s\<lparr>df_cursor := cursor\<rparr>;
           if cc_begin = - 1 then Some (s, e)
           else do {
             (frag, e) \<leftarrow> is_fragmented T p relr (c_int sel_min) (c_int sel_max) e;
             if \<not> frag then Some (s, e)
             else do {
               (cc, e) \<leftarrow> defrag_move_loop T p relr sel_min cc_begin [0..<nat sel_count] cc e;
               let cursor = cursor + sel_count;
               assert_c (- (2 ^ 31) \<le> cursor \<and> cursor < 2 ^ 31);
               Some (\<lparr>df_ccache = Some cc, df_cursor = (if int_u32 cursor > cc_max cc then c_int (cc_min cc) else cursor)\<rparr>, e)
             }
           }
         }
       }
     }
   }"

definition defrag_handle_ti :: "fsl_tables \<Rightarrow> (nat \<Rightarrow> byte) \<Rightarrow> addr \<Rightarrow> (defrag_st, int) sc" where
  "defrag_handle_ti T junk a s e = do {
     ti \<leftarrow> ti_at e a;
     tt \<leftarrow> tt_by_num T (ti_typenum ti);
     (s, e) \<leftarrow> rel_name_loop T RELNAME_DEFRAG (do_defrag T junk) a (ti_typenum ti) [0..<length (tt_reloc tt)] s e;
     Some (SCAN_RET_CONTINUE, s, e)
   }"

definition defrag_entry :: "fsl_tables \<Rightarrow> (nat \<Rightarrow> byte) \<Rightarrow> env \<Rightarrow> (int \<times> defrag_st \<times> env) option" where
  "defrag_entry T junk e =
     tool_scan T (\<lambda>a. scan_type T a (ti_ops (defrag_handle_ti T junk))) \<lparr>df_ccache = None, df_cursor = 0\<rparr> e"

end
