(* ===== verification/ToolScan.thy ===== *)
theory ToolScan
  imports ToolReloc
begin

text \<open>
  The tools that look at every instance: \<open>tool/fsck.c\<close>, which repairs, \<open>tool/fragtool.c\<close> and \<open>tool/scantool.c\<close>, which
  report. A line that a tool prints is a record; the lines are collected in the state of the tool, the last one first.
\<close>

section \<open>Fsck\<close>

definition do_repair :: "fsl_tables \<Rightarrow> addr \<Rightarrow> fsl_rtt_repair \<Rightarrow> env \<Rightarrow> env option" where
  "do_repair T a rep e = do {
     ti \<leftarrow> ti_at e a;
     (broken, e) \<leftarrow> rep_cond rep (ti_clo ti) e;
     if \<not> broken then Some e
     else do {
       e \<leftarrow> wpkt_do T a (rep_wpkt rep) e;
       fsl_load_memo T e
     }
   }"

fun repair_loop :: "fsl_tables \<Rightarrow> addr \<Rightarrow> fsl_rtt_repair list \<Rightarrow> env \<Rightarrow> env option" where
  "repair_loop T a [] e = Some e"
| "repair_loop T a (rep # reps) e = do {
     e \<leftarrow> do_repair T a rep e;
     repair_loop T a reps e
   }"

definition fsck_handle_ti :: "fsl_tables \<Rightarrow> addr \<Rightarrow> (unit, int) sc" where
  "fsck_handle_ti T a s e = do {
     ti \<leftarrow> ti_at e a;
     if ti_typenum ti = TYPENUM_INVALID then Some (SCAN_RET_CONTINUE, s, e)
     else do {
       tt \<leftarrow> tt_by_num T (ti_typenum ti);
       e \<leftarrow> repair_loop T a (tt_repair tt) e;
       Some (SCAN_RET_CONTINUE, s, e)
     }
   }"

definition fsck_entry :: "fsl_tables \<Rightarrow> env \<Rightarrow> (int \<times> unit \<times> env) option" where
  "fsck_entry T e = tool_scan T (\<lambda>a. scan_type_deep T a (ti_ops (fsck_handle_ti T))) () e"

section \<open>Fragmentation of virtual types\<close>

record frag_line =
  fl_vname :: "string option"
  fl_elemidx :: nat
  fl_id :: nat
  fl_lastpoff :: nat
  fl_curpoff :: nat

record frag_st =
  fr_virt_c :: nat
  fr_out :: "frag_line list"

text \<open>The loop over the elements of a virtual type, from the second one on.\<close>

function frag_elem_loop ::
  "fsl_tables \<Rightarrow> fsl_rt_closure \<Rightarrow> string option \<Rightarrow> nat \<Rightarrow> nat \<Rightarrow> nat \<Rightarrow> nat \<Rightarrow> frag_st \<Rightarrow> env \<Rightarrow> (frag_st \<times> env) option" where
  "frag_elem_loop T clo name elem_len total_elems cur_elem last_poff s e =
     (if cur_elem < total_elems then do {
        (cur_poff, e) \<leftarrow> fsl_virt_xlate T clo (u64 (cur_elem * elem_len)) e;
        let s = (if cur_poff \<noteq> u64 (elem_len + last_poff)
                 then s\<lparr>fr_out := \<lparr>fl_vname = name, fl_elemidx = cur_elem, fl_id = fr_virt_c s, fl_lastpoff = last_poff, fl_curpoff = cur_poff\<rparr> # fr_out s\<rparr>
                 else s);
        frag_elem_loop T clo name elem_len total_elems (cur_elem + 1) cur_poff s e
      } else Some (s, e))"
  by pat_completeness auto
termination
  by (relation "measure (\<lambda>(T, clo, name, elem_len, total_elems, cur_elem, last_poff, s, e). total_elems - cur_elem)") auto

declare frag_elem_loop.simps [simp del]

definition frag_handle_virt :: "fsl_tables \<Rightarrow> addr \<Rightarrow> nat \<times> nat \<Rightarrow> nat \<Rightarrow> (frag_st, int) sc" where
  "frag_handle_virt T a vtr idx s e =
     (if idx \<noteq> 0 then Some (SCAN_RET_CONTINUE, s, e)
      else do {
        ((v, err), e) \<leftarrow> typeinfo_alloc_virt_idx T vtr a idx e;
        case v of
          None \<Rightarrow> Some (SCAN_RET_CONTINUE, s, e)
        | Some v \<Rightarrow> do {
            vti \<leftarrow> ti_at e v;
            r \<leftarrow> ti_xlate vti;
            rtm \<leftarrow> rtm_at e r;
            let elem_len = rtm_cached_srcsz rtm;
            assert_c (elem_len \<noteq> 0);
            let total_elems = u32 (fsl_virt_total_bits rtm div elem_len);
            (last_poff, e) \<leftarrow> fsl_virt_xlate T (ti_clo vti) 0 e;
            vtx \<leftarrow> ti_virt vti;
            vt \<leftarrow> virt_by_ref T vtx;
            (s, e) \<leftarrow> frag_elem_loop T (ti_clo vti) (vt_name vt) elem_len total_elems 1 last_poff s e;
            Some (SCAN_RET_CONTINUE, s\<lparr>fr_virt_c := u32 (fr_virt_c s + 1)\<rparr>, e)
          }
      })"

definition frag_entry :: "fsl_tables \<Rightarrow> env \<Rightarrow> (int \<times> frag_st \<times> env) option" where
  "frag_entry T e = tool_scan T (\<lambda>a. scan_type T a
       \<lparr>so_ti = None, so_strong = None, so_virt = Some (frag_handle_virt T), so_pt = None, so_cond = None\<rparr>)
     \<lparr>fr_virt_c = 0, fr_out = []\<rparr> e"

section \<open>Scan\<close>

record scan_line =
  sl_voff :: nat
  sl_poff :: nat
  sl_size :: nat
  sl_name :: string
  sl_depth :: nat

definition scan_handle_ti :: "fsl_tables \<Rightarrow> addr \<Rightarrow> (scan_line list, int) sc" where
  "scan_handle_ti T a s e = do {
     ti \<leftarrow> ti_at e a;
     if ti_typenum ti = TYPENUM_INVALID then Some (SCAN_RET_CONTINUE, s, e)
     else do {
       (poff, e) \<leftarrow> ti_phys_offset T ti e;
       (size, e) \<leftarrow> ti_size T ti e;
       assert_c (offset_in_range e poff);
       tt \<leftarrow> tt_by_num T (ti_typenum ti);
       Some (SCAN_RET_CONTINUE, \<lparr>sl_voff = ti_offset ti, sl_poff = poff, sl_size = size, sl_name = tt_name tt, sl_depth = ti_depth ti\<rparr> # s, e)
     }
   }"

definition scan_entry :: "fsl_tables \<Rightarrow> env \<Rightarrow> (int \<times> scan_line list \<times> env) option" where
  "scan_entry T e = tool_scan T (\<lambda>a. scan_type T a (ti_ops (scan_handle_ti T))) [] e"

end
