(* ===== verification/ToolSafe.thy ===== *)
theory ToolSafe
  imports ToolScan
begin

text \<open>
  How the moving tools search for a free choice.

  \<^item> \<open>choices_ok\<close> says what the tools rely on in a relocation statement: its generated functions return, the choices
    form an interval, and which of them are free does not change while a tool searches.
  \<^item> The search of each tool returns and gives a choice that its cache says is free; where the code does not return, the
    exact condition is proved.
\<close>

section \<open>Relocation statements\<close>

definition choices_ok :: "(env \<Rightarrow> bool) \<Rightarrow> fsl_tables \<Rightarrow> addr \<Rightarrow> nat \<times> nat \<Rightarrow> nat \<Rightarrow> nat \<Rightarrow> (nat \<Rightarrow> bool) \<Rightarrow> bool" where
  "choices_ok P T p relr lo hi good \<longleftrightarrow> lo \<le> hi \<and> hi < 2 ^ 31 - 1 \<and> (\<exists>rel ti. rel_by_ref T relr = Some rel \<and> (\<forall>e. P e \<longrightarrow> ti_at e p = Some ti \<and>
     (\<exists>e'. it_min (rel_choice rel) (ti_clo ti) e = Some (lo, e') \<and> P e') \<and>
     (\<exists>e'. it_max (rel_choice rel) (ti_clo ti) e = Some (hi, e') \<and> P e') \<and>
     (\<forall>k. lo \<le> k \<and> k \<le> hi \<longrightarrow> (\<exists>e'. rel_ccond rel (ti_clo ti) k e = Some (good k, e') \<and> P e'))))"

text \<open>A cache of these choices.\<close>

definition cache_of :: "nat \<Rightarrow> nat \<Rightarrow> choice_cache \<Rightarrow> bool" where
  "cache_of lo hi cc \<longleftrightarrow> choice_ok cc \<and> cc_min cc = lo \<and> cc_max cc = hi"

lemma choices_ok_load:
  assumes "choices_ok P T p relr lo hi good" and "P e"
  obtains rel ti cc e' where "rel_by_ref T relr = Some rel" "ti_at e p = Some ti" "choice_alloc junk ti rel e = Some (Some cc, e')" "P e'"
    "cache_of lo hi cc" "choice_free_set cc = {k. lo \<le> k \<and> k \<le> hi \<and> good k}"
proof -
  obtain rel ti where r: "rel_by_ref T relr = Some rel" and ti: "\<And>e. P e \<Longrightarrow> ti_at e p = Some ti"
      and mn: "\<And>e. P e \<Longrightarrow> \<exists>e'. it_min (rel_choice rel) (ti_clo ti) e = Some (lo, e') \<and> P e'"
      and mx: "\<And>e. P e \<Longrightarrow> \<exists>e'. it_max (rel_choice rel) (ti_clo ti) e = Some (hi, e') \<and> P e'"
      and cond: "\<And>k e. P e \<Longrightarrow> lo \<le> k \<Longrightarrow> k \<le> hi \<Longrightarrow> \<exists>e'. rel_ccond rel (ti_clo ti) k e = Some (good k, e') \<and> P e'"
      and le: "lo \<le> hi" "hi < 2 ^ 31 - 1"
    using assms(1) unfolding choices_ok_def by blast
  obtain cc e' where "choice_alloc junk ti rel e = Some (Some cc, e')" "P e'" "choice_ok cc" "cc_min cc = lo" "cc_max cc = hi"
      "choice_free_set cc = {k. lo \<le> k \<and> k \<le> hi \<and> good k}"
    using choice_alloc_loads_condition_spec [OF mn mx cond le assms(2), of junk] by blast
  with that [OF r ti [OF assms(2)]] show thesis by (simp add: cache_of_def)
qed

lemma cache_of_free: "cache_of lo hi cc \<Longrightarrow> k \<in> choice_free_set cc \<Longrightarrow> lo \<le> k \<and> k \<le> hi"
  using choice_free_set_bounds by (auto simp: cache_of_def)

lemma int_u64_nat [simp]: "k < 2 ^ 64 \<Longrightarrow> int_u64 (int k) = k"
  by (simp add: int_u64_def nat_mod_distrib)

lemma int_u32_nat [simp]: "k < 2 ^ 32 \<Longrightarrow> int_u32 (int k) = k"
  by (simp add: int_u32_def nat_mod_distrib)

text \<open>The search for one free choice from an offset on.\<close>

lemma find_one:
  assumes cc: "cache_of lo hi cc" "hi < 2 ^ 31 - 1" and off: "lo \<le> off" "off \<le> hi"
  obtains (found) l where "choice_find_avail cc off 1 = Some (int l)" "off \<le> l" "l \<le> hi" "l \<in> choice_free_set cc"
      "\<forall>j. off \<le> j \<and> j < l \<longrightarrow> j \<notin> choice_free_set cc" "choice_is_free cc l = Some True" "choice_is_alloc cc l = Some False"
    | (none) "choice_find_avail cc off 1 = Some (- 1)" "\<forall>l \<ge> off. l \<notin> choice_free_set cc"
proof -
  have one: "{l..<l + 1} \<subseteq> S \<longleftrightarrow> l \<in> S" for l :: nat and S by auto
  have ok: "choice_ok cc" "cc_min cc \<le> off" "off \<le> cc_max cc" using cc off by (simp_all add: cache_of_def)
  from choice_find_avail_exact_spec [OF ok zero_less_one] consider
      l where "choice_find_avail cc off 1 = Some (int l)" "off \<le> l" "l \<in> choice_free_set cc" "\<forall>j. off \<le> j \<and> j < l \<longrightarrow> j \<notin> choice_free_set cc"
    | "choice_find_avail cc off 1 = Some (- 1)" "\<forall>l \<ge> off. l \<notin> choice_free_set cc"
    unfolding one by blast
  then show thesis
  proof cases
    case (1 l)
    have "l \<le> hi" using cache_of_free [OF cc(1) 1(3)] by simp
    then have "choice_is_free cc l = Some True" using choice_is_free_spec [OF ok(1), of l] cc 1(2,3) off by (simp add: cache_of_def)
    then show thesis using found [OF 1(1,2) \<open>l \<le> hi\<close> 1(3,4)] by (simp add: choice_is_alloc_def)
  qed (rule none)
qed

section \<open>Smush\<close>

definition smush_inv :: "nat \<Rightarrow> nat \<Rightarrow> smush_st \<Rightarrow> bool" where
  "smush_inv lo hi s \<longleftrightarrow> (\<exists>cc. sm_ccache s = Some cc \<and> cache_of lo hi cc) \<and> lo \<le> sm_cursor s \<and> sm_cursor s \<le> hi + 1"

lemma smush_refresh_ok:
  assumes ok: "choices_ok P T p relr lo hi good" and e: "P e" and s: "sm_ccache s \<noteq> None" "sm_refresh_count s < 2 ^ 31 - 1"
  obtains s' e' cc where "smush_cache_refresh T junk p relr s e = Some (s', e')" "P e'"
    "s' = s\<lparr>sm_ccache := Some cc, sm_cursor := lo, sm_refresh_count := sm_refresh_count s + 1\<rparr>" "cache_of lo hi cc"
    "choice_free_set cc = {k. lo \<le> k \<and> k \<le> hi \<and> good k}"
proof -
  obtain rel ti cc e' where c: "rel_by_ref T relr = Some rel" "ti_at e p = Some ti" "choice_alloc junk ti rel e = Some (Some cc, e')" "P e'"
      "cache_of lo hi cc" "choice_free_set cc = {k. lo \<le> k \<and> k \<le> hi \<and> good k}"
    by (rule choices_ok_load [OF ok e])
  then have "smush_cache_refresh T junk p relr s e =
      Some (s\<lparr>sm_ccache := Some cc, sm_cursor := lo, sm_refresh_count := sm_refresh_count s + 1\<rparr>, e')"
    using s by (simp add: smush_cache_refresh_def int_inc_def cache_of_def)
  then show thesis using that c by blast
qed
text \<open>\<open>smush_found\<close>: the result of a search, with the state after it.\<close>

definition smush_found :: "nat \<Rightarrow> nat \<Rightarrow> nat option \<Rightarrow> smush_st \<Rightarrow> bool" where
  "smush_found lo hi r s \<longleftrightarrow> smush_inv lo hi s \<and> (case r of None \<Rightarrow> True | Some k \<Rightarrow> k \<le> sm_threshold s \<and> k \<in> choice_free_set (the (sm_ccache s)))"

lemma smush_find_loop_ok:
  assumes ok: "choices_ok P T p relr lo hi good"
  shows "P e \<Longrightarrow> smush_inv lo hi s \<Longrightarrow> 2 \<le> sm_threshold s \<Longrightarrow> sm_threshold s < 2 ^ 32 \<Longrightarrow> sm_refresh_count s + int (hi - sm_threshold s) < 2 ^ 31 \<Longrightarrow>
    \<exists>r s' e'. smush_find_loop T junk p relr hi s e = Some (r, s', e') \<and> P e' \<and> smush_found lo hi r s' \<and>
      sm_refresh_count s' + int (hi - sm_threshold s') \<le> sm_refresh_count s + int (hi - sm_threshold s)"
proof (induction "(hi - sm_threshold s) * (hi + 3) + (hi + 1 - sm_cursor s)" arbitrary: s e rule: less_induct)
  case less
  have hi: "lo \<le> hi" "hi < 2 ^ 31 - 1" using ok by (simp_all add: choices_ok_def)
  obtain cc where cc: "sm_ccache s = Some cc" "cache_of lo hi cc" "lo \<le> sm_cursor s" "sm_cursor s \<le> hi + 1" using less.prems(2) by (auto simp: smush_inv_def)
  show ?case
  proof (cases "sm_cursor s \<le> hi")
    case False
    then show ?thesis using less.prems by (subst smush_find_loop.simps) (simp add: smush_found_def)
  next
    case True
    have cur: "u32 (sm_cursor s) = sm_cursor s" "u64 (sm_cursor s + 1) = sm_cursor s + 1" using True hi by (simp_all add: u32_def u64_def)
    from find_one [OF cc(2) hi(2) cc(3) True] show ?thesis
    proof cases
      case none: 2
      let ?s = "s\<lparr>sm_cursor := sm_cursor s + 1\<rparr>"
      have inv: "smush_inv lo hi ?s" using cc True by (simp add: smush_inv_def)
      have "\<exists>r s' e'. smush_find_loop T junk p relr hi ?s e = Some (r, s', e') \<and> P e' \<and> smush_found lo hi r s' \<and>
          sm_refresh_count s' + int (hi - sm_threshold s') \<le> sm_refresh_count ?s + int (hi - sm_threshold ?s)"
        by (rule less.hyps) (use less.prems inv True in simp_all)
      then show ?thesis using True cc(1) none(1) cur by (subst smush_find_loop.simps) simp
    next
      case found: (1 l)
      have l: "int_u64 (int l) = l" "int_u64 (int l + 1) = l + 1" using found(3) hi(2) int_u64_nat [of l] int_u64_nat [of "l + 1"] by (simp_all add: add.commute)
      show ?thesis
      proof (cases "sm_threshold s < l")
        case False
        then have "smush_find_loop T junk p relr hi s e = Some (Some l, s\<lparr>sm_cursor := l + 1\<rparr>, e)"
          using True cc(1) found cur l by (subst smush_find_loop.simps) simp
        then show ?thesis using less.prems cc found False by (simp add: smush_found_def smush_inv_def)
      next
        case big: True
        let ?t = "sm_threshold s"
        have t: "?t < hi" using big found(3) by simp
        have cnt: "sm_refresh_count s < 2 ^ 31 - 1" using less.prems(5) t by linarith
        obtain s1 e1 cc1 where r: "smush_cache_refresh T junk p relr s e = Some (s1, e1)" "P e1"
            "s1 = s\<lparr>sm_ccache := Some cc1, sm_cursor := lo, sm_refresh_count := sm_refresh_count s + 1\<rparr>" "cache_of lo hi cc1"
          using smush_refresh_ok [OF ok less.prems(1) _ cnt] cc(1) by (metis option.distinct(1))
        let ?s = "s1\<lparr>sm_threshold := ?t + ?t div 2, sm_cursor := lo + 1\<rparr>"
        have "2 * hi < 2 ^ 32" using hi(2) by simp
        then have grow: "?t + 1 \<le> ?t + ?t div 2" "?t + ?t div 2 < 2 ^ 32" using less.prems(3) t by linarith+
        have inv: "smush_inv lo hi ?s" using r(4) hi(1) by (simp add: smush_inv_def r(3))
        have dec: "hi - (?t + ?t div 2) + 1 \<le> hi - ?t" using grow(1) t by linarith
        have "(hi - (?t + ?t div 2)) * (hi + 3) + (hi + 3) \<le> (hi - ?t) * (hi + 3)" using mult_le_mono1 [OF dec, of "hi + 3"] by (simp add: add_mult_distrib)
        then have m: "(hi - sm_threshold ?s) * (hi + 3) + (hi + 1 - sm_cursor ?s) < (hi - ?t) * (hi + 3) + (hi + 1 - sm_cursor s)" by (simp add: r(3))
        have bnd: "sm_refresh_count ?s + int (hi - sm_threshold ?s) \<le> sm_refresh_count s + int (hi - ?t)" using dec by (simp add: r(3))
        have "\<exists>r s' e'. smush_find_loop T junk p relr hi ?s e1 = Some (r, s', e') \<and> P e' \<and> smush_found lo hi r s' \<and>
            sm_refresh_count s' + int (hi - sm_threshold s') \<le> sm_refresh_count ?s + int (hi - sm_threshold ?s)"
          by (rule less.hyps [OF m r(2) inv]) (use less.prems(3,5) grow bnd in simp_all)
        moreover have "smush_find_loop T junk p relr hi s e = smush_find_loop T junk p relr hi ?s e1"
        proof -
          have u: "u64 (?t + ?t div 2) = ?t + ?t div 2" "u64 (lo + 2 ^ 64 - lo) = 0" "u64 (lo + 2 ^ 64) = lo" "u64 (lo + 1) = lo + 1" "cc_min cc1 = lo"
            using grow(2) hi r(4) by (simp_all add: u64_def cache_of_def)
          show ?thesis using True cc(1) found(1) cur l big r(1) u by (subst smush_find_loop.simps) (simp add: r(3) Let_def)
        qed
        ultimately show ?thesis using bnd by (metis (no_types, lifting) order_trans)
      qed
    qed
  qed
qed

lemma smush_choice_find_ok:
  assumes ok: "choices_ok P T p relr lo hi good" and e: "P e" and inv: "smush_inv lo hi s" and t: "2 \<le> sm_threshold s" "sm_threshold s < 2 ^ 32"
    and cnt: "sm_refresh_count s + int (hi - sm_threshold s) < 2 ^ 31 - 1"
  shows "\<exists>k s' e'. smush_choice_find T junk p relr s e = Some (k, s', e') \<and> P e' \<and> smush_inv lo hi s' \<and>
    (k = ones64 \<or> k \<le> sm_threshold s' \<and> k \<in> choice_free_set (the (sm_ccache s')))"
proof -
  obtain cc where cc: "sm_ccache s = Some cc" "cc_max cc = hi" using inv by (auto simp: smush_inv_def cache_of_def)
  have "sm_refresh_count s + int (hi - sm_threshold s) < 2 ^ 31" using cnt by simp
  from smush_find_loop_ok [OF ok e inv t this] obtain r s1 e1 where r: "smush_find_loop T junk p relr hi s e = Some (r, s1, e1)" "P e1"
      "smush_found lo hi r s1" "sm_refresh_count s1 + int (hi - sm_threshold s1) \<le> sm_refresh_count s + int (hi - sm_threshold s)"
    by blast
  show ?thesis
  proof (cases "r \<noteq> None \<or> sm_refresh_count s1 = MAX_REFRESH_smush")
    case True
    then show ?thesis using cc r by (cases r) (auto simp: smush_choice_find_def smush_found_def)
  next
    case False
    have "sm_refresh_count s1 < 2 ^ 31 - 1" "sm_ccache s1 \<noteq> None" using r(3,4) cnt by (auto simp: smush_found_def smush_inv_def)
    then obtain s2 e2 cc2 where "smush_cache_refresh T junk p relr s1 e1 = Some (s2, e2)" "P e2"
        "s2 = s1\<lparr>sm_ccache := Some cc2, sm_cursor := lo, sm_refresh_count := sm_refresh_count s1 + 1\<rparr>" "cache_of lo hi cc2"
      using smush_refresh_ok [OF ok r(2)] by metis
    moreover have "lo \<le> hi" using ok by (simp add: choices_ok_def)
    ultimately show ?thesis using False cc r(1) by (auto simp: smush_choice_find_def smush_inv_def)
  qed
qed

text \<open>
  C10: the smush tool finds a choice in finite time. With a threshold of at least two, \<open>choice_find\<close> of
  \<open>smushtool.c\<close> returns: every reload of the cache inside its loop raises the threshold, and between two reloads the
  cursor advances. A choice it returns is free in the cache and not above the threshold; otherwise it returns \<open>~0\<close>.
\<close>

theorem smush_choice_find_total:
  assumes ok: "choices_ok P T p relr lo hi good" and e: "P e" and inv: "smush_inv lo hi s" and t: "2 \<le> sm_threshold s" "sm_threshold s < 2 ^ 32"
    and cnt: "sm_refresh_count s + int (hi - sm_threshold s) < 2 ^ 31 - 1"
  shows "\<exists>k s' e'. smush_choice_find T junk p relr s e = Some (k, s', e') \<and> P e' \<and> smush_inv lo hi s' \<and>
    (k = ones64 \<or> k \<le> sm_threshold s' \<and> k \<in> choice_free_set (the (sm_ccache s')))"
  by (rule smush_choice_find_ok [OF assms])

text \<open>A state in which the loop never ends: a small threshold, and the free choices are all above it.\<close>

definition smush_stuck :: "(env \<Rightarrow> bool) \<Rightarrow> nat \<Rightarrow> nat \<Rightarrow> (nat \<Rightarrow> bool) \<Rightarrow> smush_st \<Rightarrow> env \<Rightarrow> bool" where
  "smush_stuck P lo hi good s e \<longleftrightarrow> P e \<and> (\<exists>cc. sm_ccache s = Some cc \<and> cache_of lo hi cc \<and> choice_free_set cc = {k. lo \<le> k \<and> k \<le> hi \<and> good k}) \<and>
     (sm_cursor s = lo \<or> sm_cursor s = lo + 1) \<and> sm_threshold s \<le> 1 \<and> (\<exists>k. lo < k \<and> k \<le> hi \<and> good k) \<and>
     (\<forall>k. lo \<le> k \<and> k \<le> hi \<and> good k \<longrightarrow> sm_threshold s < k)"

lemma smush_stuck_step:
  assumes ok: "choices_ok P T p relr lo hi good" and st: "smush_stuck P lo hi good s e"
  obtains l where "sm_cursor s \<le> hi" "choice_find_avail (the (sm_ccache s)) (u32 (sm_cursor s)) 1 = Some (int l)" "sm_threshold s < l" "int_u64 (int l) = l"
    "\<And>s1 e1. smush_cache_refresh T junk p relr s e = Some (s1, e1) \<Longrightarrow> cc_min (the (sm_ccache s1)) = lo \<and> sm_cursor s1 = lo \<and>
       sm_threshold s1 = sm_threshold s \<and> sm_ccache s1 \<noteq> None \<and> smush_stuck P lo hi good (s1\<lparr>sm_cursor := lo + 1\<rparr>) e1"
proof -
  have hi: "hi < 2 ^ 31 - 1" using ok by (simp add: choices_ok_def)
  obtain cc where cc: "sm_ccache s = Some cc" "cache_of lo hi cc" "choice_free_set cc = {k. lo \<le> k \<and> k \<le> hi \<and> good k}" and e: "P e"
    using st by (auto simp: smush_stuck_def)
  obtain k where k: "lo < k" "k \<le> hi" "good k" using st by (auto simp: smush_stuck_def)
  have cur: "lo \<le> sm_cursor s" "sm_cursor s \<le> hi" "sm_cursor s \<le> k" using st k by (auto simp: smush_stuck_def)
  have u: "u32 (sm_cursor s) = sm_cursor s" using cur(2) hi by (simp add: u32_def)
  from find_one [OF cc(2) hi cur(1,2)] obtain l where l: "choice_find_avail cc (sm_cursor s) 1 = Some (int l)" "l \<le> hi" "l \<in> choice_free_set cc"
  proof cases
    case 2
    then have "k \<notin> choice_free_set cc" using cur(3) by blast
    then show thesis using k cc(3) by simp
  qed
  have th: "sm_threshold s < l" using st l(3) cc(3) by (auto simp: smush_stuck_def)
  show thesis
  proof (rule that [OF cur(2) _ th])
    show "int_u64 (int l) = l" using l(2) hi by simp
    show "choice_find_avail (the (sm_ccache s)) (u32 (sm_cursor s)) 1 = Some (int l)" using l(1) cc(1) u by simp
    fix s1 e1 assume run: "smush_cache_refresh T junk p relr s e = Some (s1, e1)"
    then have cnt: "sm_refresh_count s < 2 ^ 31 - 1" by (auto simp: smush_cache_refresh_def int_inc_def split: Option.bind_splits if_splits)
    have ne: "sm_ccache s \<noteq> None" using cc(1) by simp
    obtain s2 e2 cc1 where r: "smush_cache_refresh T junk p relr s e = Some (s2, e2)" "P e2"
        "s2 = s\<lparr>sm_ccache := Some cc1, sm_cursor := lo, sm_refresh_count := sm_refresh_count s + 1\<rparr>" "cache_of lo hi cc1"
        "choice_free_set cc1 = {k. lo \<le> k \<and> k \<le> hi \<and> good k}"
      by (rule smush_refresh_ok [OF ok e ne cnt])
    have "s1 = s2" "e1 = e2" using run r(1) by simp_all
    with r(2-5) show "cc_min (the (sm_ccache s1)) = lo \<and> sm_cursor s1 = lo \<and>
        sm_threshold s1 = sm_threshold s \<and> sm_ccache s1 \<noteq> None \<and> smush_stuck P lo hi good (s1\<lparr>sm_cursor := lo + 1\<rparr>) e1"
      using st k unfolding smush_stuck_def by (auto simp: cache_of_def)
  qed
qed

lemma smush_stuck_forever:
  assumes ok: "choices_ok P T p relr lo hi good"
  shows "smush_stuck P lo hi good s e \<Longrightarrow> smush_find_loop T junk p relr hi s e = None"
proof -
  have "smush_find_loop T' junk' p' relr' hi' s e = Some y \<Longrightarrow>
      T' = T \<and> junk' = junk \<and> p' = p \<and> relr' = relr \<and> hi' = hi \<longrightarrow> \<not> smush_stuck P lo hi good s e" for T' junk' p' relr' hi' s e y
  proof (erule smush_find_loop.raw_induct [where P = "\<lambda>T' junk' p' relr' hi' s e y.
      T' = T \<and> junk' = junk \<and> p' = p \<and> relr' = relr \<and> hi' = hi \<longrightarrow> \<not> smush_stuck P lo hi good s e", rotated], goal_cases)
    case (1 loop T' junk' p' relr' hi' s e y)
    show ?case
    proof (intro impI notI)
      assume eq: "T' = T \<and> junk' = junk \<and> p' = p \<and> relr' = relr \<and> hi' = hi" and st: "smush_stuck P lo hi good s e"
      obtain l where l: "sm_cursor s \<le> hi" "choice_find_avail (the (sm_ccache s)) (u32 (sm_cursor s)) 1 = Some (int l)" "sm_threshold s < l" "int_u64 (int l) = l"
          and next_st: "\<And>s1 e1. smush_cache_refresh T junk p relr s e = Some (s1, e1) \<Longrightarrow> cc_min (the (sm_ccache s1)) = lo \<and> sm_cursor s1 = lo \<and>
            sm_threshold s1 = sm_threshold s \<and> sm_ccache s1 \<noteq> None \<and> smush_stuck P lo hi good (s1\<lparr>sm_cursor := lo + 1\<rparr>) e1"
        using smush_stuck_step [OF ok st] by metis
      obtain cc where cc: "sm_ccache s = Some cc" using st by (auto simp: smush_stuck_def)
      obtain s1 e1 where r: "smush_cache_refresh T junk p relr s e = Some (s1, e1)"
        using 1(2) eq l cc by (cases "smush_cache_refresh T junk p relr s e") auto
      note n = next_st [OF r]
      then obtain cc1 where cc1: "sm_ccache s1 = Some cc1" "cc_min cc1 = lo" by auto
      have "sm_threshold s \<le> 1" "lo + 1 < 2 ^ 64" using st ok by (simp_all add: smush_stuck_def choices_ok_def)
      then have u: "u64 (sm_threshold s + sm_threshold s div 2) = sm_threshold s" "u64 (lo + 2 ^ 64 - lo) = 0" "u64 (lo + 2 ^ 64) = lo" "u64 (lo + 1) = lo + 1"
        by (simp_all add: u64_def)
      have upd: "s1\<lparr>sm_threshold := sm_threshold s, sm_cursor := lo + 1\<rparr> = s1\<lparr>sm_cursor := lo + 1\<rparr>" using n by simp
      have "loop T junk p relr hi (s1\<lparr>sm_threshold := sm_threshold s, sm_cursor := lo + 1\<rparr>) e1 = Some y"
        using 1(2) eq l cc cc1 r n u by (simp add: Let_def)
      then have "loop T junk p relr hi (s1\<lparr>sm_cursor := lo + 1\<rparr>) e1 = Some y" unfolding upd .
      from 1(1) [OF this] n show False by simp
    qed
  qed
  then show "smush_stuck P lo hi good s e \<Longrightarrow> smush_find_loop T junk p relr hi s e = None"
    by (cases "smush_find_loop T junk p relr hi s e") blast+
qed


section \<open>Thrash copy\<close>

lemma choice_is_alloc_spec:
  "cache_of lo hi cc \<Longrightarrow> lo \<le> y \<Longrightarrow> y \<le> hi \<Longrightarrow> choice_is_alloc cc y = Some (y \<notin> choice_free_set cc) \<and> choice_is_free cc y = Some (y \<in> choice_free_set cc)"
  using choice_is_free_spec [of cc y] by (simp add: cache_of_def choice_is_alloc_def)

text \<open>Below the first choice, and with a positive first choice, the loop ends there.\<close>

text \<open>Below the first choice: with a first choice of 0 the cursor wraps and the bitmap is accessed out of bounds.\<close>

lemma thrash_find_below:
  assumes cc: "cache_of lo hi cc" "hi < 2 ^ 31 - 1"
  shows "thrash_find_loop cc (int lo - 1) = (if 0 < lo then Some (None, int lo - 1) else None)"
proof (cases "0 < lo")
  case True
  then have eq: "int lo - 1 = int (lo - 1)" by simp
  have "lo \<le> hi" using cc by (auto simp: cache_of_def choice_ok_def)
  then have "lo - 1 < 2 ^ 64" using cc(2) by simp
  then have "int_u64 (int lo - 1) = lo - 1" unfolding eq by (rule int_u64_nat)
  moreover have "\<not> cc_min cc \<le> lo - 1" using True cc(1) by (simp add: cache_of_def)
  ultimately show ?thesis using True by (subst thrash_find_loop.simps) simp
next
  case False
  then have lo: "cc_min cc = 0" "lo = 0" using cc(1) by (simp_all add: cache_of_def)
  have u: "int_u64 (- 1) = 2 ^ 64 - 1" by (simp add: int_u64_def)
  have r: "choice_rebase cc (2 ^ 64 - 1) = 2 ^ 32 - 1" by (simp add: choice_rebase_def lo u32_def u64_def)
  have "bmp_ok (cc_bmp cc)" using cc(1) by (simp add: cache_of_def choice_ok_def bmp_invar_def)
  then have l: "length (bmp_data (cc_bmp cc)) = (bmp_size (cc_bmp cc) + 7) div 8" "bmp_size (cc_bmp cc) \<le> 2 ^ 31" by (simp_all add: bmp_ok_def)
  have "(bmp_size (cc_bmp cc) + 7) div 8 \<le> (2 ^ 31 + 7) div 8" using l(2) by (intro div_le_mono) simp
  then have len: "length (bmp_data (cc_bmp cc)) < 2 ^ 29 - 1" unfolding l(1) by simp
  have "bmp_is_set (cc_bmp cc) (2 ^ 32 - 1) = None" using len by (simp add: bmp_is_set_def get_at_def)
  then have "choice_is_alloc cc (2 ^ 64 - 1) = None" unfolding choice_is_alloc_def choice_is_free_def r by simp
  then have "thrash_find_loop cc (- 1) = None" using lo by (subst thrash_find_loop.simps) (simp add: u)
  then show ?thesis by (simp add: lo)
qed

lemma thrash_find_down:
  assumes cc: "cache_of lo hi cc" "hi < 2 ^ 31 - 1"
  shows "lo + d \<le> hi \<Longrightarrow> thrash_find_loop cc (int (lo + d)) =
    (if \<exists>k \<in> choice_free_set cc. k \<le> lo + d
     then let m = Max {k \<in> choice_free_set cc. k \<le> lo + d} in Some (Some m, int m)
     else thrash_find_loop cc (int lo - 1))"
proof (induction d)
  case 0
  have u: "int_u64 (int lo) = lo" using 0 cc(2) by simp
  have b: "k \<in> choice_free_set cc \<and> k \<le> lo \<longleftrightarrow> k = lo \<and> lo \<in> choice_free_set cc" for k using cache_of_free [OF cc(1), of k] by auto
  then have m: "{k \<in> choice_free_set cc. k \<le> lo} = (if lo \<in> choice_free_set cc then {lo} else {})" by auto
  show ?case using choice_is_alloc_spec [OF cc(1), of lo] 0 cc(1) u b m
    by (subst thrash_find_loop.simps) (auto simp: cache_of_def Let_def)
next
  case (Suc d)
  let ?c = "lo + Suc d"
  have u: "int_u64 (int ?c) = ?c" using Suc.prems cc(2) by (intro int_u64_nat) simp
  have dec: "int ?c - 1 = int (lo + d)" by simp
  have fin: "finite {k \<in> choice_free_set cc. k \<le> ?c}" by (rule finite_subset [of _ "{..?c}"]) auto
  show ?case
  proof (cases "?c \<in> choice_free_set cc")
    case True
    then have "Max {k \<in> choice_free_set cc. k \<le> ?c} = ?c" using fin by (intro Max_eqI) auto
    then show ?thesis using True choice_is_alloc_spec [OF cc(1), of ?c] Suc.prems cc(1) u
      by (subst thrash_find_loop.simps) (auto simp: cache_of_def Let_def simp del: of_nat_add)
  next
    case False
    then have same: "{k \<in> choice_free_set cc. k \<le> ?c} = {k \<in> choice_free_set cc. k \<le> lo + d}" by (auto simp: le_Suc_eq)
    have ex: "(\<exists>k \<in> choice_free_set cc. k \<le> ?c) \<longleftrightarrow> (\<exists>k \<in> choice_free_set cc. k \<le> lo + d)" using same by blast
    have "thrash_find_loop cc (int ?c) = thrash_find_loop cc (int (lo + d))"
      using False choice_is_alloc_spec [OF cc(1), of ?c] Suc.prems cc(1) u unfolding dec [symmetric]
      by (subst thrash_find_loop.simps) (simp add: cache_of_def del: of_nat_add of_nat_Suc)
    then show ?thesis using Suc unfolding same ex by simp
  qed
qed

text \<open>
  C29: the search of the thrash copy tool (\<open>thrashcopy.c\<close>) is exact. From a cursor inside the range it returns the
  greatest free choice at or below the cursor. Without one it leaves the loop below the first choice, so that the caller
  reloads the cache, except when the first choice is 0: the signed cursor is compared as an unsigned number, so the
  loop goes on past 0 and the process dies on an access outside the bitmap.
\<close>

theorem thrash_find_exact:
  assumes cc: "cache_of lo hi cc" "hi < 2 ^ 31 - 1" and c: "lo \<le> c" "c \<le> hi"
  shows "thrash_find_loop cc (int c) =
    (if \<exists>k \<in> choice_free_set cc. k \<le> c then let m = Max {k \<in> choice_free_set cc. k \<le> c} in Some (Some m, int m)
     else if 0 < lo then Some (None, int lo - 1) else None)"
  using thrash_find_down [OF cc, of "c - lo"] thrash_find_below [OF cc] c by simp

section \<open>Relocate\<close>

definition img_ok :: "img \<Rightarrow> bool" where
  "img_ok im \<longleftrightarrow> 0 < img_px im \<and> img_px im < 2 ^ 31 \<and> length (im_bmp im) = img_px im \<and> img_px im \<le> im_disk_bytes im"

text \<open>The pixel of a bit offset on the disk.\<close>

definition px_of :: "img \<Rightarrow> nat \<Rightarrow> nat" where
  "px_of im off = off div 8 div (im_disk_bytes im div img_px im)"

text \<open>Choice \<open>k\<close> is at bit \<open>offs k\<close> of the disk.\<close>

definition range_ok :: "(env \<Rightarrow> bool) \<Rightarrow> fsl_tables \<Rightarrow> addr \<Rightarrow> nat \<times> nat \<Rightarrow> nat \<Rightarrow> nat \<Rightarrow> (nat \<Rightarrow> nat) \<Rightarrow> bool" where
  "range_ok P T p relr lo hi offs \<longleftrightarrow> (\<forall>k. offs k < 2 ^ 64) \<and> (\<exists>rel ti tt. rel_by_ref T relr = Some rel \<and> tt_by_num T (it_type_dst (rel_choice rel)) = Some tt \<and>
     (\<forall>e k. P e \<and> lo \<le> k \<and> k \<le> hi \<longrightarrow> ti_at e p = Some ti \<and>
       (\<exists>ps e'. it_range (rel_choice rel) (ti_clo ti) k e = Some ((offs k, ps, None), e') \<and> length ps \<le> tt_param_c tt \<and> P e')))"

definition cursor_ok :: "img \<Rightarrow> nat \<Rightarrow> bool" where
  "cursor_ok im c \<longleftrightarrow> c = ones64 \<or> c < img_px im \<and> im_bmp im ! c \<noteq> 0"

text \<open>Pixels the cursor still has before it.\<close>

definition px_left :: "reloc_st \<Rightarrow> nat" where
  "px_left s = (if rl_reloc_cursor s = ones64 then 0 else img_px (rl_img s) - rl_reloc_cursor s)"

lemma px_left_upd [simp]:
  "px_left (s\<lparr>rl_ccache := x\<rparr>) = px_left s" "px_left (s\<lparr>rl_ccache_cursor := n\<rparr>) = px_left s" "px_left (s\<lparr>rl_fail_c := i\<rparr>) = px_left s"
  "px_left (s\<lparr>rl_reloc_cursor := c\<rparr>) = (if c = ones64 then 0 else img_px (rl_img s) - c)"
  by (simp_all add: px_left_def)

definition reloc_inv :: "nat \<Rightarrow> nat \<Rightarrow> reloc_st \<Rightarrow> bool" where
  "reloc_inv lo hi s \<longleftrightarrow> (\<exists>cc. rl_ccache s = Some cc \<and> cache_of lo hi cc) \<and> img_ok (rl_img s) \<and> cursor_ok (rl_img s) (rl_reloc_cursor s) \<and>
     lo \<le> rl_ccache_cursor s \<and> rl_ccache_cursor s \<le> hi + 1 \<and> rl_fail_c s + int (px_left s) < 2 ^ 31"

lemma reloc_advance_loop_ok:
  assumes im: "img_ok im"
  shows "\<exists>c. reloc_advance_loop im i = Some c \<and> cursor_ok im c \<and> (c = ones64 \<or> i \<le> c)"
proof (induction "img_px im - i" arbitrary: i rule: less_induct)
  case less
  show ?case
  proof (cases "i < img_px im")
    case False
    then show ?thesis by (subst reloc_advance_loop.simps) (simp add: cursor_ok_def)
  next
    case True
    have "get_at (im_bmp im) i = Some (im_bmp im ! i)" using True im by (simp add: img_ok_def)
    moreover have "i < 2 ^ 31 - 1" using True im by (simp add: img_ok_def)
    moreover have "\<exists>c. reloc_advance_loop im (i + 1) = Some c \<and> cursor_ok im c \<and> (c = ones64 \<or> i + 1 \<le> c)"
      by (rule less.hyps) (use True in simp)
    ultimately show ?thesis using True by (subst reloc_advance_loop.simps) (auto simp: cursor_ok_def)
  qed
qed

lemma reloc_advance_ok:
  assumes im: "img_ok (rl_img s)" and c: "cursor_ok (rl_img s) (rl_reloc_cursor s)" "rl_reloc_cursor s \<noteq> ones64"
  obtains c' where "reloc_img_advance s = Some (s\<lparr>rl_reloc_cursor := c'\<rparr>)" "cursor_ok (rl_img s) c'" "px_left (s\<lparr>rl_reloc_cursor := c'\<rparr>) < px_left s"
proof -
  have lt: "rl_reloc_cursor s < img_px (rl_img s)" "img_px (rl_img s) < 2 ^ 31" using im c by (simp_all add: cursor_ok_def img_ok_def)
  then have "u32 (rl_reloc_cursor s + 1) = rl_reloc_cursor s + 1" by (simp add: u32_def)
  moreover obtain c' where c': "reloc_advance_loop (rl_img s) (rl_reloc_cursor s + 1) = Some c'" "cursor_ok (rl_img s) c'" "c' = ones64 \<or> rl_reloc_cursor s + 1 \<le> c'"
    using reloc_advance_loop_ok [OF im] by blast
  ultimately have run: "reloc_img_advance s = Some (s\<lparr>rl_reloc_cursor := c'\<rparr>)" using c(2) by (simp add: reloc_img_advance_def reloc_img_advance_unchecked_def)
  have "px_left (s\<lparr>rl_reloc_cursor := c'\<rparr>) < px_left s" using c(2) lt c'(3) by (cases "c' = ones64") (simp_all add: px_left_def)
  with run c'(2) show thesis by (rule that)
qed

lemma byte_to_imgidx_ok: "img_ok im \<Longrightarrow> byte_to_imgidx im (off div 8) = Some (px_of im off)"
  by (simp add: byte_to_imgidx_def bytes_per_px_def px_of_def img_ok_def div_greater_zero_iff)

text \<open>The result of the search: nothing, or a choice that was free, is marked now, and lies on a set pixel.\<close>

definition reloc_found :: "nat \<Rightarrow> nat \<Rightarrow> (nat \<Rightarrow> nat) \<Rightarrow> reloc_st \<Rightarrow> nat \<Rightarrow> reloc_st \<Rightarrow> bool" where
  "reloc_found lo hi offs s k s' \<longleftrightarrow> reloc_inv lo hi s' \<and> rl_img s' = rl_img s \<and>
     (k = ones64 \<and> rl_ccache s' = rl_ccache s \<or>
      k \<in> choice_free_set (the (rl_ccache s)) \<and> choice_free_set (the (rl_ccache s')) = choice_free_set (the (rl_ccache s)) - {k} \<and>
      im_bmp (rl_img s) ! px_of (rl_img s) (offs k) \<noteq> 0)"

lemma reloc_found_skip: "reloc_found lo hi offs s1 k s' \<Longrightarrow> rl_img s1 = rl_img s \<Longrightarrow> rl_ccache s1 = rl_ccache s \<Longrightarrow> reloc_found lo hi offs s k s'"
  by (simp add: reloc_found_def)

lemma reloc_find_loop_ok:
  assumes rng: "range_ok P T p relr lo hi offs" "hi < 2 ^ 31 - 1" "rel_by_ref T relr = Some rel" "tt_by_num T (it_type_dst (rel_choice rel)) = Some tt"
  shows "P e \<Longrightarrow> reloc_inv lo hi s \<Longrightarrow> lo \<le> cur \<Longrightarrow> cur \<le> hi + 1 \<Longrightarrow>
    \<exists>k s' e'. reloc_find_loop T p relr (tt_param_c tt) cur s e = Some (k, s', e') \<and> P e' \<and> reloc_found lo hi offs s k s'"
proof (induction "px_left s * (hi + 3) + (hi + 1 - cur)" arbitrary: s e cur rule: less_induct)
  case less
  let ?im = "rl_img s" and ?c = "rl_reloc_cursor s" and ?loop = "reloc_find_loop T p relr (tt_param_c tt)"
  obtain cc where cc: "rl_ccache s = Some cc" "cache_of lo hi cc" using less.prems(2) by (auto simp: reloc_inv_def)
  have inv: "img_ok ?im" "cursor_ok ?im ?c" "rl_fail_c s + int (px_left s) < 2 ^ 31" using less.prems(2) by (simp_all add: reloc_inv_def)
  have mx: "cc_max cc = hi" using cc(2) by (simp add: cache_of_def)
  have step: "\<exists>k s' e'. ?loop (cur + 1) s e1 = Some (k, s', e') \<and> P e' \<and> reloc_found lo hi offs s k s'" if "cur \<le> hi" "P e1" for e1
    by (rule less.hyps) (use that less.prems in simp_all)
  show ?case
  proof (cases "cur \<le> hi")
    case False
    then show ?thesis using less.prems cc(1) mx by (subst reloc_find_loop.simps) (simp add: reloc_found_def)
  next
    case True
    have u: "u32 (cur + 1) = cur + 1" "u32 (u32 (cur + 2 ^ 32 - 1) + 1) = cur" "u32 (hi + 1) = hi + 1"
      using True rng(2) by (simp_all add: u32_def mod_Suc_eq)
    note al = choice_is_alloc_spec [OF cc(2) less.prems(3) True]
    show ?thesis
    proof (cases "cur \<in> choice_free_set cc")
      case False
      then show ?thesis using step [OF True less.prems(1)] True cc(1) mx al u by (subst reloc_find_loop.simps) simp
    next
      case free: True
      obtain ti ps e1 where it: "ti_at e p = Some ti" "it_range (rel_choice rel) (ti_clo ti) cur e = Some ((offs cur, ps, None), e1)"
          "length ps \<le> tt_param_c tt" "P e1"
        using rng less.prems(1,3) True unfolding range_ok_def by force
      let ?i = "px_of ?im (offs cur)"
      note run = True cc(1) mx al u free it(1-3) rng(3) byte_to_imgidx_ok [OF inv(1), of "offs cur"]
      have "offs cur < 2 ^ 64" using rng(1) by (simp add: range_ok_def)
      then have "offs cur div 8 < ones64" by (simp add: ones64_def)
      then have small: "?i < ones64" unfolding px_of_def by (rule le_less_trans [OF div_le_dividend])
      consider "?i < ?c" | "?i = ?c" | "?c < ?i" by linarith
      then show ?thesis
      proof cases
        case 1
        then show ?thesis using step [OF True it(4)] run by (subst reloc_find_loop.simps) simp
      next
        case 2
        then have c: "?c \<noteq> ones64" using small by simp
        obtain cc' where cc': "choice_mark_alloc cc cur = Some cc'" "cache_of lo hi cc'" "choice_free_set cc' = choice_free_set cc - {cur}"
          using choice_mark_spec(2) [of cc cur] cc(2) less.prems(3) True by (auto simp: cache_of_def)
        let ?s = "s\<lparr>rl_ccache := Some cc'\<rparr>"
        obtain c' where adv: "reloc_img_advance ?s = Some (?s\<lparr>rl_reloc_cursor := c'\<rparr>)" "cursor_ok ?im c'" "px_left (?s\<lparr>rl_reloc_cursor := c'\<rparr>) < px_left ?s"
          by (rule reloc_advance_ok [of ?s]) (use inv c in simp_all)
        let ?n = "if c' = ones64 then hi + 1 else cur + 1"
        have run': "?loop cur s e = Some (cur, ?s\<lparr>rl_reloc_cursor := c', rl_ccache_cursor := ?n\<rparr>, e1)"
          using 2 run cc'(1) adv(1) by (subst reloc_find_loop.simps) simp
        have "px_left (?s\<lparr>rl_reloc_cursor := c', rl_ccache_cursor := ?n\<rparr>) \<le> px_left s" using adv(3) by simp
        then have "reloc_inv lo hi (?s\<lparr>rl_reloc_cursor := c', rl_ccache_cursor := ?n\<rparr>)"
          using cc'(2) inv adv(2) less.prems(3) True unfolding reloc_inv_def by simp
        moreover have "im_bmp ?im ! ?i \<noteq> 0" using inv(2) c 2 by (simp add: cursor_ok_def)
        ultimately show ?thesis using run' it(4) free cc'(3) cc(1) by (simp add: reloc_found_def)
      next
        case 3
        then have c: "?c \<noteq> ones64" using small by simp
        have "0 < px_left s" using c inv(2) by (simp add: px_left_def cursor_ok_def)
        then have cnt: "int_inc (rl_fail_c s) = Some (rl_fail_c s + 1)" using inv(3) by (simp add: int_inc_def)
        let ?s = "s\<lparr>rl_fail_c := rl_fail_c s + 1\<rparr>"
        obtain c' where adv: "reloc_img_advance ?s = Some (?s\<lparr>rl_reloc_cursor := c'\<rparr>)" "cursor_ok ?im c'" "px_left (?s\<lparr>rl_reloc_cursor := c'\<rparr>) < px_left ?s"
          by (rule reloc_advance_ok [of ?s]) (use inv c in simp_all)
        let ?s1 = "?s\<lparr>rl_reloc_cursor := c'\<rparr>"
        have left: "px_left ?s1 + 1 \<le> px_left s" using adv(3) by (simp del: px_left_upd(4))
        have inv1: "reloc_inv lo hi ?s1" using cc inv adv(2) less.prems(2) left by (simp add: reloc_inv_def)
        show ?thesis
        proof (cases "c' = ones64")
          case True
          then have "?loop cur s e = Some (ones64, ?s1\<lparr>rl_ccache_cursor := hi + 1\<rparr>, e1)"
            using 3 run cnt adv(1) by (subst reloc_find_loop.simps) simp
          moreover have "reloc_inv lo hi (?s1\<lparr>rl_ccache_cursor := hi + 1\<rparr>)" using inv1 less.prems(3) \<open>cur \<le> hi\<close> by (simp add: reloc_inv_def del: px_left_upd(4))
          ultimately show ?thesis using it(4) by (simp add: reloc_found_def)
        next
          case False
          have eq: "?loop cur s e = ?loop cur ?s1 e1" using 3 run cnt adv(1) False by (subst reloc_find_loop.simps) simp
          have "px_left ?s1 * (hi + 3) + (hi + 3) \<le> px_left s * (hi + 3)" using mult_le_mono1 [OF left, of "hi + 3"] by (simp add: add_mult_distrib)
          then have m: "px_left ?s1 * (hi + 3) + (hi + 1 - cur) < px_left s * (hi + 3) + (hi + 1 - cur)" by linarith
          obtain k s' e' where "?loop cur ?s1 e1 = Some (k, s', e')" "P e'" "reloc_found lo hi offs ?s1 k s'"
            using less.hyps [OF m it(4) inv1 less.prems(3,4)] by blast
          then show ?thesis using eq reloc_found_skip [of lo hi offs ?s1 k s' s] by simp
        qed
      qed
    qed
  qed
qed


section \<open>Defragment\<close>

text \<open>The moves without the bookkeeping of the cache: instance \<open>sel_min + i\<close> goes to choice \<open>b + i\<close>.\<close>

fun move_all :: "fsl_tables \<Rightarrow> addr \<Rightarrow> nat \<times> nat \<Rightarrow> nat \<Rightarrow> nat \<Rightarrow> nat list \<Rightarrow> env \<Rightarrow> env option" where
  "move_all T p relr sel_min b [] e = Some e"
| "move_all T p relr sel_min b (i # is) e = do {
     (sel, e) \<leftarrow> typeinfo_follow_iter T p (IterSel (fst relr) (snd relr)) (u32 (sel_min + i)) e;
     a \<leftarrow> sel;
     e \<leftarrow> wpkt_relocate T p relr a (u32 (sel_min + i)) (b + i) e;
     e \<leftarrow> typeinfo_free a e;
     move_all T p relr sel_min b is e
   }"

lemma defrag_move_loop_eq:
  assumes hi: "hi < 2 ^ 31 - 1"
  shows "cache_of lo hi cc \<Longrightarrow> distinct is \<Longrightarrow> (\<forall>i \<in> set is. b + i \<in> choice_free_set cc) \<Longrightarrow>
    \<exists>cc'. cache_of lo hi cc' \<and> choice_free_set cc' = choice_free_set cc - (\<lambda>i. b + i) ` set is \<and>
      (\<forall>e. defrag_move_loop T p relr sel_min (int b) is cc e = map_option (Pair cc') (move_all T p relr sel_min b is e))"
proof (induction "is" arbitrary: cc)
  case (Cons i "is")
  let ?k = "b + i"
  have k: "lo \<le> ?k" "?k \<le> hi" using cache_of_free [OF Cons.prems(1)] Cons.prems(3) by auto
  have u: "int_u64 (int b + int i) = ?k" "int_u32 (int b + int i) = ?k"
    using k hi int_u64_nat [of ?k] int_u32_nat [of ?k] by simp_all
  have fr: "choice_is_free cc ?k = Some True" using choice_is_alloc_spec [OF Cons.prems(1) k] Cons.prems(3) by simp
  obtain cc1 where cc1: "choice_mark_alloc cc ?k = Some cc1" "cache_of lo hi cc1" "choice_free_set cc1 = choice_free_set cc - {?k}"
    using choice_mark_spec(2) [of cc ?k] Cons.prems(1) k by (auto simp: cache_of_def)
  have "\<forall>j \<in> set is. b + j \<in> choice_free_set cc1" using Cons.prems(2,3) cc1(3) by auto
  then obtain cc' where cc': "cache_of lo hi cc'" "choice_free_set cc' = choice_free_set cc1 - (\<lambda>i. b + i) ` set is"
      "\<And>e. defrag_move_loop T p relr sel_min (int b) is cc1 e = map_option (Pair cc') (move_all T p relr sel_min b is e)"
    using Cons.IH [OF cc1(2)] Cons.prems(2) by auto
  have "choice_free_set cc' = choice_free_set cc - (\<lambda>i. b + i) ` set (i # is)" using cc'(2) cc1(3) by auto
  moreover have "defrag_move_loop T p relr sel_min (int b) (i # is) cc e = map_option (Pair cc') (move_all T p relr sel_min b (i # is) e)" for e
    using fr cc1(1) cc'(3) u by (auto simp: map_option_case split: Option.bind_splits option.splits prod.splits)
  ultimately show ?case using cc'(1) by blast
qed auto

text \<open>
  C9: the defragmenter moves into a free run. The search of \<open>do_defrag\<close>, first from the cursor and then from the first
  choice, fails only if there is nowhere a run of \<open>n\<close> free choices. Otherwise its result is the start of such a run, the
  assertion in the loop that moves the instances never fails, and a loop that returns has moved instance \<open>sel_min + i\<close>
  to choice \<open>b + i\<close> for every \<open>i < n\<close> in order and taken exactly these choices out of the cache.
\<close>

theorem defrag_moves_into_free_run:
  assumes cc: "cache_of lo hi cc" "hi < 2 ^ 31 - 1" and c: "lo \<le> c" "c \<le> hi" and n: "0 < n" "n < 2 ^ 31"
  shows "(\<exists>b c' cc'. defrag_find (int n) cc (int c) = Some (int b, int c') \<and> lo \<le> c' \<and> c' \<le> hi \<and> {b..<b + n} \<subseteq> choice_free_set cc \<and>
      cache_of lo hi cc' \<and> choice_free_set cc' = choice_free_set cc - {b..<b + n} \<and>
      (\<forall>e. defrag_move_loop T p relr sel_min (int b) [0..<n] cc e = map_option (Pair cc') (move_all T p relr sel_min b [0..<n] e))) \<or>
    defrag_find (int n) cc (int c) = Some (- 1, int lo) \<and> (\<forall>l. \<not> {l..<l + n} \<subseteq> choice_free_set cc)"
proof -
  have lohi: "lo \<le> hi" "cc_min cc = lo" "cc_max cc = hi" "choice_ok cc" using cc c by (auto simp: cache_of_def)
  have u: "int_u32 (int c) = c" "int_u32 (int lo) = lo" "int_u32 (int n) = n" "c_int lo = int lo"
    using c cc(2) n lohi(1) by (simp_all add: c_int_def u32_def)
  have img: "(\<lambda>i. b + i) ` set [0..<n] = {b..<b + n}" for b by (simp add: image_add_atLeastLessThan add.commute)
  have loop: "\<exists>cc'. cache_of lo hi cc' \<and> choice_free_set cc' = choice_free_set cc - {b..<b + n} \<and>
      (\<forall>e. defrag_move_loop T p relr sel_min (int b) [0..<n] cc e = map_option (Pair cc') (move_all T p relr sel_min b [0..<n] e))"
    if run: "{b..<b + n} \<subseteq> choice_free_set cc" for b
  proof -
    have "\<forall>i \<in> set [0..<n]. b + i \<in> choice_free_set cc" using run by (auto intro!: subsetD [OF run])
    from defrag_move_loop_eq [OF cc(2,1) distinct_upt this, of T p relr sel_min] show ?thesis unfolding img .
  qed
  consider (first) b where "choice_find_avail cc c n = Some (int b)" "{b..<b + n} \<subseteq> choice_free_set cc"
    | (second) b where "choice_find_avail cc c n = Some (- 1)" "choice_find_avail cc lo n = Some (int b)" "{b..<b + n} \<subseteq> choice_free_set cc"
    | (none) "choice_find_avail cc c n = Some (- 1)" "choice_find_avail cc lo n = Some (- 1)" "\<forall>l \<ge> lo. \<not> {l..<l + n} \<subseteq> choice_free_set cc"
    using choice_find_avail_exact_spec [OF lohi(4) _ _ n(1), of c] choice_find_avail_exact_spec [OF lohi(4) _ _ n(1), of lo] lohi c by fastforce
  then show ?thesis
  proof cases
    case first
    then have "defrag_find (int n) cc (int c) = Some (int b, int c)" using u by (simp add: defrag_find_def)
    then show ?thesis using first(2) loop [OF first(2)] c by blast
  next
    case second
    then have "defrag_find (int n) cc (int c) = Some (int b, int lo)" using u lohi by (simp add: defrag_find_def Let_def)
    then show ?thesis using second(3) loop [OF second(3)] lohi(1) by blast
  next
    case none
    have "\<not> {l..<l + n} \<subseteq> choice_free_set cc" for l
    proof
      assume run: "{l..<l + n} \<subseteq> choice_free_set cc"
      then have "l \<in> choice_free_set cc" using n(1) by auto
      then show False using cache_of_free [OF cc(1)] none(3) run by blast
    qed
    moreover have "defrag_find (int n) cc (int c) = Some (- 1, int lo)" using none u lohi by (simp add: defrag_find_def Let_def)
    ultimately show ?thesis by blast
  qed
qed

section \<open>The contract of the searches\<close>

text \<open>
  What the swapping functions of the tools rely on in their \<open>choice_find\<close>: it returns, and a result other than \<open>~0\<close> is
  free in the cache it leaves behind.
\<close>

locale chooser =
  fixes find :: "'s \<Rightarrow> env \<Rightarrow> (nat \<times> 's \<times> env) option" and cache :: "'s \<Rightarrow> choice_cache option" and inv :: "'s \<Rightarrow> env \<Rightarrow> bool"
  assumes find_free: "inv s e \<Longrightarrow> \<exists>k s' e' cc lo hi. find s e = Some (k, s', e') \<and> cache s' = Some cc \<and> cache_of lo hi cc \<and> (k = ones64 \<or> k \<in> choice_free_set cc)"
begin

text \<open>So marking the result succeeds, takes exactly this choice, and the number survives the conversion to \<open>unsigned int\<close>.\<close>

lemma find_mark:
  assumes "inv s e"
  shows "\<exists>k s' e'. find s e = Some (k, s', e') \<and> (k = ones64 \<or> u32 k = k \<and> (\<exists>cc cc'. cache s' = Some cc \<and> k \<in> choice_free_set cc \<and>
    choice_mark_alloc cc k = Some cc' \<and> choice_free_set cc' = choice_free_set cc - {k} \<and> choice_is_alloc cc' k = Some True \<and> choice_is_free cc' k = Some False))"
proof -
  obtain k s' e' cc lo hi where r: "find s e = Some (k, s', e')" "cache s' = Some cc" "cache_of lo hi cc" "k = ones64 \<or> k \<in> choice_free_set cc"
    using find_free [OF assms] by blast
  show ?thesis
  proof (cases "k = ones64")
    case False
    then have k: "k \<in> choice_free_set cc" "lo \<le> k" "k \<le> hi" using r(4) cache_of_free [OF r(3)] by auto
    obtain cc' where cc': "choice_mark_alloc cc k = Some cc'" "cache_of lo hi cc'" "choice_free_set cc' = choice_free_set cc - {k}"
      using choice_mark_spec(2) [of cc k] r(3) k by (auto simp: cache_of_def)
    have "hi < 2 ^ 31 - 1" using r(3) by (auto simp: cache_of_def choice_ok_def)
    then have "u32 k = k" using k(3) by (simp add: u32_def)
    then show ?thesis using r(1,2) k(1) cc' choice_is_alloc_spec [OF cc'(2) k(2,3)] by auto
  qed (use r(1) in simp)
qed

end

interpretation smush: chooser "smush_choice_find T junk p relr" sm_ccache
    "\<lambda>s e. choices_ok P T p relr lo hi good \<and> P e \<and> smush_inv lo hi s \<and> 2 \<le> sm_threshold s \<and> sm_threshold s < 2 ^ 32 \<and>
       sm_refresh_count s + int (hi - sm_threshold s) < 2 ^ 31 - 1" for T junk p relr P lo hi good
proof (unfold_locales, goal_cases)
  case (1 s e)
  then show ?case using smush_choice_find_ok [of P T p relr lo hi good e s junk] by (fastforce simp: smush_inv_def)
qed

text \<open>The scatter tool draws eleven times; a range of one choice would divide by zero.\<close>

lemma scatter_find_loop_ok:
  assumes cc: "sc_ccache s = Some cc" "cache_of lo hi cc" "hi < 2 ^ 31 - 1" "lo < hi"
  shows "\<exists>r i. scatter_find_loop n s = Some (r, s\<lparr>sc_rand_pos := i\<rparr>) \<and> (case r of None \<Rightarrow> True | Some k \<Rightarrow> k \<in> choice_free_set cc)"
  using cc(1)
proof (induction n arbitrary: s)
  case 0
  then show ?case by (auto intro: exI [of _ "sc_rand_pos s"])
next
  case (Suc n)
  let ?s = "s\<lparr>sc_rand_pos := sc_rand_pos s + 1\<rparr>" and ?r = "sc_rand s (sc_rand_pos s)"
  have b: "cc_min cc = lo" "cc_max cc = hi" using cc(2) by (simp_all add: cache_of_def)
  have "hi + 2 ^ 32 - lo = (hi - lo) + 2 ^ 32" using cc(4) by simp
  then have "u32 (hi + 2 ^ 32 - lo) = (hi - lo) mod 2 ^ 32" by (simp only: u32_def mod_add_self2)
  then have rg: "u32 (hi + 2 ^ 32 - lo) = hi - lo" using cc(3) by simp
  have lt: "?r mod (hi - lo) < hi - lo" using cc(4) by simp
  let ?o = "?r mod (hi - lo) + lo"
  have o: "lo \<le> ?o" "?o \<le> hi" using lt by linarith+
  then have u: "u32 ?o = ?o" using cc(3) by (simp add: u32_def)
  have rand: "fsl_rand s = (?r, ?s)" by (simp add: fsl_rand_def)
  note run = scatter_find_loop.simps(2) [of n s, unfolded rand Suc.prems bind.bind_lunit Let_def prod.case b rg u]
  obtain r i where IH: "scatter_find_loop n ?s = Some (r, ?s\<lparr>sc_rand_pos := i\<rparr>)" "case r of None \<Rightarrow> True | Some k \<Rightarrow> k \<in> choice_free_set cc"
    using Suc.IH [of ?s] Suc.prems by auto
  from find_one [OF cc(2,3) o] show ?case
  proof cases
    case (1 l)
    have "int_u64 (int l) = l" "int_u32 (int l) = l" using 1(3) cc(3) by simp_all
    then have "scatter_find_loop (Suc n) s = Some (Some l, ?s)" using run 1 cc(4) by simp
    then show ?thesis using 1(4) by auto
  next
    case 2
    then have "scatter_find_loop (Suc n) s = scatter_find_loop n ?s" using run cc(4) by simp
    then show ?thesis using IH by auto
  qed
qed

lemma scatter_choice_find_ok:
  assumes ok: "choices_ok P T p relr lo hi good" and e: "P e" and s: "sc_ccache s = Some cc" "cache_of lo hi cc" "lo < hi" "sc_refresh_count s < 2 ^ 31 - 1"
  shows "\<exists>k s' e' cc'. scatter_choice_find T junk p relr s e = Some (k, s', e') \<and> P e' \<and> sc_ccache s' = Some cc' \<and> cache_of lo hi cc' \<and>
    (k = ones64 \<or> k \<in> choice_free_set cc')"
proof -
  have hi: "hi < 2 ^ 31 - 1" using ok by (simp add: choices_ok_def)
  obtain r i where r: "scatter_find_loop 11 s = Some (r, s\<lparr>sc_rand_pos := i\<rparr>)" "case r of None \<Rightarrow> True | Some k \<Rightarrow> k \<in> choice_free_set cc"
    using scatter_find_loop_ok [OF s(1,2) hi s(3)] by blast
  show ?thesis
  proof (cases "r \<noteq> None \<or> sc_refresh_count s = MAX_REFRESH_scatter")
    case True
    then show ?thesis using r s e by (cases r) (auto simp: scatter_choice_find_def simp del: scatter_find_loop.simps)
  next
    case False
    obtain rel ti cc' e' where "rel_by_ref T relr = Some rel" "ti_at e p = Some ti" "choice_alloc junk ti rel e = Some (Some cc', e')" "P e'" "cache_of lo hi cc'"
      by (rule choices_ok_load [OF ok e])
    then show ?thesis using False r(1) s by (simp add: scatter_choice_find_def int_inc_def del: scatter_find_loop.simps)
  qed
qed

interpretation scatter: chooser "scatter_choice_find T junk p relr" sc_ccache
    "\<lambda>s e. choices_ok P T p relr lo hi good \<and> P e \<and> lo < hi \<and> (\<exists>cc. sc_ccache s = Some cc \<and> cache_of lo hi cc) \<and> sc_refresh_count s < 2 ^ 31 - 1"
    for T junk p relr P lo hi good
proof (unfold_locales, goal_cases)
  case (1 s e)
  then show ?case using scatter_choice_find_ok [of P T p relr lo hi good e s _ junk] by blast
qed

text \<open>
  C30: the scatter tool takes free choices only. With at least two choices, \<open>choice_find\<close> of \<open>scattertool.c\<close> returns
  for every sequence of random numbers. It gives up with \<open>~0\<close>, or it returns a choice that is free in the cache and fits
  the \<open>unsigned int\<close> parameter of \<open>wpkt_relocate\<close>, and marking it afterwards takes exactly this choice out of the cache.
\<close>

theorem scatter_takes_free_choice:
  assumes "choices_ok P T p relr lo hi good" and "P e" and "lo < hi" and "sc_ccache s = Some cc" and "cache_of lo hi cc" and "sc_refresh_count s < 2 ^ 31 - 1"
  shows "\<exists>k s' e'. scatter_choice_find T junk p relr s e = Some (k, s', e') \<and> (k = ones64 \<or> u32 k = k \<and> (\<exists>cc1 cc2. sc_ccache s' = Some cc1 \<and>
    k \<in> choice_free_set cc1 \<and> choice_mark_alloc cc1 k = Some cc2 \<and> choice_free_set cc2 = choice_free_set cc1 - {k} \<and>
    choice_is_alloc cc2 k = Some True \<and> choice_is_free cc2 k = Some False))"
  by (rule scatter.find_mark [where P = P and lo = lo and hi = hi and good = good]) (use assms in blast)

section \<open>Concrete relocations\<close>

text \<open>The choices from \<open>lo\<close> to \<open>hi\<close> of which those with \<open>good\<close> are free, for a type with one relocation.\<close>

definition demo_rel_T :: "nat \<Rightarrow> nat \<Rightarrow> (nat \<Rightarrow> bool) \<Rightarrow> fsl_tables" where
  "demo_rel_T lo hi good = demo_T\<lparr>fsl_rt_table := [demo_tt\<lparr>tt_reloc := [demo_rel\<lparr>
     rel_choice := \<lparr>it_type_dst = 0, it_range = (\<lambda>c i e. Some ((4096 * i, [], None), e)), it_min = (\<lambda>c e. Some (lo, e)), it_max = (\<lambda>c e. Some (hi, e))\<rparr>,
     rel_ccond := (\<lambda>c k e. Some (good k, e))\<rparr>]\<rparr>]\<rparr>"

definition demo_rel_env :: env where
  "demo_rel_env = put_ti 0 demo_ti (blank_env\<lparr>h_next := 1\<rparr>)"

lemma demo_choices_ok: "lo \<le> hi \<Longrightarrow> hi < 2 ^ 31 - 1 \<Longrightarrow> choices_ok (\<lambda>e. ti_at e 0 = Some demo_ti) (demo_rel_T lo hi good) 0 (0, 0) lo hi good"
  by (auto simp: choices_ok_def demo_rel_T_def rel_by_ref_def tt_by_num_def)

lemma demo_rel_env_at: "ti_at demo_rel_env 0 = Some demo_ti"
  by (simp add: demo_rel_env_def put_ti_def ti_at_def)

definition demo_smush :: "nat \<Rightarrow> nat \<Rightarrow> choice_cache \<Rightarrow> smush_st" where
  "demo_smush t c cc = \<lparr>sm_ccache = Some cc, sm_refresh_count = 0, sm_cursor = c, sm_threshold = t, sm_rel_c = 0\<rparr>"

theorem smush_choice_find_total_witness:
  "\<exists>cc k s' e'. cache_of 5 30 cc \<and> smush_choice_find (demo_rel_T 5 30 even) (\<lambda>_. 0) 0 (0, 0) (demo_smush 17 5 cc) demo_rel_env = Some (k, s', e') \<and>
     smush_inv 5 30 s' \<and> (k = ones64 \<or> k \<le> sm_threshold s' \<and> k \<in> choice_free_set (the (sm_ccache s')))"
proof -
  have ok: "choices_ok (\<lambda>e. ti_at e 0 = Some demo_ti) (demo_rel_T 5 30 even) 0 (0, 0) 5 30 even" by (rule demo_choices_ok) simp_all
  obtain cc where cc: "cache_of 5 30 cc" by (rule choices_ok_load [OF ok demo_rel_env_at])
  then have "smush_inv 5 30 (demo_smush 17 5 cc)" by (simp add: smush_inv_def demo_smush_def)
  from smush_choice_find_total [OF ok demo_rel_env_at this, of "\<lambda>_. 0"] show ?thesis using cc by (auto simp: demo_smush_def)
qed


lemma demo_choice_cache: "cache_of (cc_min demo_choice) (cc_max demo_choice) demo_choice" "cc_max demo_choice < 2 ^ 31 - 1"
  using demo_choice_ok by (simp_all add: cache_of_def choice_ok_def)

theorem thrash_find_exact_witness:
  "thrash_find_loop demo_choice (int (cc_max demo_choice)) =
    (if \<exists>k \<in> choice_free_set demo_choice. k \<le> cc_max demo_choice
     then let m = Max {k \<in> choice_free_set demo_choice. k \<le> cc_max demo_choice} in Some (Some m, int m)
     else if 0 < cc_min demo_choice then Some (None, int (cc_min demo_choice) - 1) else None)"
  by (rule thrash_find_exact [OF demo_choice_cache]) (use demo_choice_ok in \<open>simp_all add: choice_ok_def\<close>)

text \<open>A picture of four pixels, two of them set, for a disk of 16 kB.\<close>

definition demo_img :: img where
  "demo_img = \<lparr>im_x = 2, im_y = 2, im_bmp = [0, 1, 0, 1], im_disk_bytes = 16384\<rparr>"

definition demo_reloc_st :: "choice_cache \<Rightarrow> reloc_st" where
  "demo_reloc_st cc = \<lparr>rl_ccache = Some cc, rl_img = demo_img, rl_ccache_cursor = 0, rl_reloc_cursor = 1, rl_fail_c = 0, rl_rel_c = 0\<rparr>"


theorem defrag_moves_into_free_run_witness:
  "(\<exists>b c' cc'. defrag_find (int 2) demo_choice (int (cc_min demo_choice)) = Some (int b, int c') \<and> cc_min demo_choice \<le> c' \<and> c' \<le> cc_max demo_choice \<and>
      {b..<b + 2} \<subseteq> choice_free_set demo_choice \<and> cache_of (cc_min demo_choice) (cc_max demo_choice) cc' \<and>
      choice_free_set cc' = choice_free_set demo_choice - {b..<b + 2} \<and>
      (\<forall>e. defrag_move_loop demo_T 0 (0, 0) 7 (int b) [0..<2] demo_choice e = map_option (Pair cc') (move_all demo_T 0 (0, 0) 7 b [0..<2] e))) \<or>
    defrag_find (int 2) demo_choice (int (cc_min demo_choice)) = Some (- 1, int (cc_min demo_choice)) \<and>
      (\<forall>l. \<not> {l..<l + 2} \<subseteq> choice_free_set demo_choice)"
  by (rule defrag_moves_into_free_run [OF demo_choice_cache]) (use demo_choice_ok in \<open>simp_all add: choice_ok_def\<close>)

definition demo_scatter :: "choice_cache \<Rightarrow> scatter_st" where
  "demo_scatter cc = \<lparr>sc_ccache = Some cc, sc_refresh_count = 0, sc_frag_percent = 100, sc_num_relocs = 0, sc_rel_c = 0, sc_rand = (\<lambda>i. 7 * i), sc_rand_pos = 0\<rparr>"

theorem scatter_takes_free_choice_witness:
  "\<exists>cc k s' e'. cache_of 5 30 cc \<and> scatter_choice_find (demo_rel_T 5 30 even) (\<lambda>_. 0) 0 (0, 0) (demo_scatter cc) demo_rel_env = Some (k, s', e')"
proof -
  have ok: "choices_ok (\<lambda>e. ti_at e 0 = Some demo_ti) (demo_rel_T 5 30 even) 0 (0, 0) 5 30 even" by (rule demo_choices_ok) simp_all
  obtain cc where cc: "cache_of 5 30 cc" by (rule choices_ok_load [OF ok demo_rel_env_at])
  from scatter_takes_free_choice [OF ok demo_rel_env_at, of "demo_scatter cc" cc "\<lambda>_. 0"] show ?thesis using cc by (auto simp: demo_scatter_def)
qed

end
