(* ===== verification/CExpr.thy ===== *)
theory CExpr
  imports Prelude
begin

text \<open>
  Expressions of the compiler (\<open>compiler/expr.h\<close>, \<open>binarithop.h\<close>, \<open>cond.h\<close>, \<open>fcall.h\<close>, and \<open>expr_resolve_consts\<close> of
  \<open>eval.cc\<close>): copying, constant folding, comparison, rewriting, and the replacement of named constants.

  \<^item> One constructor per class. A binary operation has the flag \<open>simplified\<close> of \<open>BinArithOp\<close>.
  \<^item> \<open>unsigned long\<close> is a 64-bit word. Folding a division by zero or a shift by the width or more is undefined in C++
    and has no result here.
  \<^item> \<open>simplify\<close> is a \<open>const\<close> method that changes the sides of the object it is called on; it returns this object and the
    new expression. \<open>rewrite\<close> returns the changed object and the replacement, if any. The replacement expression is
    simplified again at every place; since its sides are simplified once and for all, the result is the same each time.
\<close>

section \<open>Lists of fallible results\<close>

primrec mapM :: "('a \<Rightarrow> 'b option) \<Rightarrow> 'a list \<Rightarrow> 'b list option" where
  "mapM f [] = Some []"
| "mapM f (x # xs) = do { y \<leftarrow> f x; ys \<leftarrow> mapM f xs; Some (y # ys) }"

lemma mapM_cong [fundef_cong]: "xs = ys \<Longrightarrow> (\<And>x. x \<in> set ys \<Longrightarrow> f x = g x) \<Longrightarrow> mapM f xs = mapM g ys"
proof (induction ys arbitrary: xs)
  case (Cons y ys)
  then show ?case by simp
qed simp

lemma mapM_Some: "mapM f xs = Some ys \<longleftrightarrow> length ys = length xs \<and> (\<forall>i < length xs. f (xs ! i) = Some (ys ! i))"
proof (induction xs arbitrary: ys)
  case (Cons x xs)
  show ?case
  proof (cases ys)
    case (Cons z zs)
    then show ?thesis using Cons.IH by (auto simp: All_less_Suc2 bind_eq_Some_conv)
  qed (auto simp: bind_eq_Some_conv)
qed auto

section \<open>Expressions\<close>

datatype aop = AOPAnd | AOPOr | AOPAdd | AOPSub | AOPDiv | AOPMul | AOPLShift | AOPRShift | AOPMod

datatype cmpop = EQ | NE | LE | LT | GT | GE

datatype expr =
    Id string
  | FCall string "expr list"
  | IdStruct "expr list"
  | IdArray string expr bool bool
  | ExprParens expr
  | Boolean bool
  | Number "64 word"
  | BinArithOp aop expr expr bool
  | CondVal condexpr expr expr
and condexpr =
    CondNot condexpr
  | BOPAnd condexpr condexpr
  | BOPOr condexpr condexpr
  | CmpOp cmpop expr expr
  | FuncCond string "expr list"

definition doOp :: "aop \<Rightarrow> 64 word \<Rightarrow> 64 word \<Rightarrow> 64 word option" where
  "doOp op a b = (case op of
     AOPAnd \<Rightarrow> Some (a AND b)
   | AOPOr \<Rightarrow> Some (a OR b)
   | AOPAdd \<Rightarrow> Some (a + b)
   | AOPSub \<Rightarrow> Some (a - b)
   | AOPDiv \<Rightarrow> if b = 0 then None else Some (a div b)
   | AOPMul \<Rightarrow> Some (a * b)
   | AOPLShift \<Rightarrow> if unat b < 64 then Some (push_bit (unat b) a) else None
   | AOPRShift \<Rightarrow> if unat b < 64 then Some (drop_bit (unat b) a) else None
   | AOPMod \<Rightarrow> if b = 0 then None else Some (a mod b))"

section \<open>Copying and constant folding\<close>

definition toNumbers :: "expr \<Rightarrow> expr \<Rightarrow> (64 word \<times> 64 word) option" where
  "toNumbers l r = (case l of Number a \<Rightarrow> (case r of Number b \<Rightarrow> Some (a, b) | _ \<Rightarrow> None) | _ \<Rightarrow> None)"

lemma toNumbers_Number [simp]: "toNumbers (Number a) (Number b) = Some (a, b)"
  by (simp add: toNumbers_def)

lemma toNumbers_Some: "toNumbers l r = Some (a, b) \<longleftrightarrow> l = Number a \<and> r = Number b"
  by (auto simp: toNumbers_def split: expr.splits)

text \<open>
  The constructor of \<open>FCall\<close> simplifies its arguments, so copying a call simplifies the copies of its arguments, and
  simplifying an expression that cannot be folded copies it. The first argument bounds the depth of the calls; the size
  of the expression is enough (\<open>simplify_total\<close>).
\<close>

fun copy_n :: "nat \<Rightarrow> expr \<Rightarrow> expr option" and simplify_n :: "nat \<Rightarrow> expr \<Rightarrow> (expr \<times> expr) option" and ccopy_n :: "nat \<Rightarrow> condexpr \<Rightarrow> condexpr option" where
  "copy_n 0 e = None"
| "copy_n (Suc n) e = (case e of
     FCall f es \<Rightarrow> do {
       es \<leftarrow> mapM (copy_n n) es;
       es \<leftarrow> mapM (simplify_n n) es;
       Some (FCall f (map snd es))
     }
   | IdStruct es \<Rightarrow> do { es \<leftarrow> mapM (copy_n n) es; Some (IdStruct es) }
   | IdArray i x fixed nofollow \<Rightarrow> do { x \<leftarrow> copy_n n x; Some (IdArray i x fixed nofollow) }
   | ExprParens x \<Rightarrow> do { x \<leftarrow> copy_n n x; Some (ExprParens x) }
   | BinArithOp op l r simplified \<Rightarrow> do { l \<leftarrow> copy_n n l; r \<leftarrow> copy_n n r; Some (BinArithOp op l r False) }
   | CondVal c t f \<Rightarrow> do { c \<leftarrow> ccopy_n n c; t \<leftarrow> copy_n n t; f \<leftarrow> copy_n n f; Some (CondVal c t f) }
   | _ \<Rightarrow> Some e)"
| "simplify_n 0 e = None"
| "simplify_n (Suc n) e = (case e of
     BinArithOp op l r simplified \<Rightarrow> do {
       (l, r) \<leftarrow> (if simplified then Some (l, r) else do {
           (_, l) \<leftarrow> simplify_n n l;
           (_, r) \<leftarrow> simplify_n n r;
           Some (l, r)
         });
       let this = BinArithOp op l r True;
       case toNumbers l r of
         Some (a, b) \<Rightarrow> do { v \<leftarrow> doOp op a b; Some (this, Number v) }
       | None \<Rightarrow> do { l \<leftarrow> copy_n n l; r \<leftarrow> copy_n n r; Some (this, BinArithOp op l r False) }
     }
   | ExprParens x \<Rightarrow> do { (x, r) \<leftarrow> simplify_n n x; Some (ExprParens x, ExprParens r) }
   | _ \<Rightarrow> do { r \<leftarrow> copy_n (Suc n) e; Some (e, r) })"
| "ccopy_n 0 c = None"
| "ccopy_n (Suc n) c = (case c of
     CondNot a \<Rightarrow> do { a \<leftarrow> ccopy_n n a; Some (CondNot a) }
   | BOPAnd a b \<Rightarrow> do { a \<leftarrow> ccopy_n n a; b \<leftarrow> ccopy_n n b; Some (BOPAnd a b) }
   | BOPOr a b \<Rightarrow> do { a \<leftarrow> ccopy_n n a; b \<leftarrow> ccopy_n n b; Some (BOPOr a b) }
   | CmpOp op l r \<Rightarrow> do { l \<leftarrow> copy_n n l; r \<leftarrow> copy_n n r; Some (CmpOp op l r) }
   | FuncCond f es \<Rightarrow> do {
       es \<leftarrow> mapM (copy_n n) es;
       es \<leftarrow> mapM (simplify_n n) es;
       Some (FuncCond f (map snd es))
     })"

section \<open>Meaning\<close>

text \<open>
  What the generated code computes (the \<open>codeGen\<close> methods): numbers are 64 bits wide, the comparisons are unsigned, \<open>&&\<close> and
  \<open>||\<close> do not evaluate their second operand without need. \<open>V\<close> gives the values of the variables, \<open>F\<close> those of functions.
  There is no code for arrays and structures that are left over, and \<open>codeGen\<close> aborts on them.
\<close>

datatype 'c cval = NumV "64 word" | BoolV bool | CloV 'c

definition num_op :: "aop \<Rightarrow> 'c cval \<Rightarrow> 'c cval \<Rightarrow> 'c cval option" where
  "num_op op a b = (case (a, b) of (NumV x, NumV y) \<Rightarrow> map_option NumV (doOp op x y) | _ \<Rightarrow> None)"

definition cmp_op :: "cmpop \<Rightarrow> 'c cval \<Rightarrow> 'c cval \<Rightarrow> bool option" where
  "cmp_op op a b = (case (a, b) of
     (NumV x, NumV y) \<Rightarrow> Some (case op of EQ \<Rightarrow> x = y | NE \<Rightarrow> x \<noteq> y | LE \<Rightarrow> x \<le> y | LT \<Rightarrow> x < y | GT \<Rightarrow> x > y | GE \<Rightarrow> x \<ge> y)
   | _ \<Rightarrow> None)"

fun den :: "(string \<Rightarrow> 'c cval option) \<Rightarrow> (string \<Rightarrow> 'c cval list \<Rightarrow> 'c cval option) \<Rightarrow> expr \<Rightarrow> 'c cval option"
  and cden :: "(string \<Rightarrow> 'c cval option) \<Rightarrow> (string \<Rightarrow> 'c cval list \<Rightarrow> 'c cval option) \<Rightarrow> condexpr \<Rightarrow> bool option" where
  "den V F (Id x) = V x"
| "den V F (FCall f es) = do { vs \<leftarrow> mapM (den V F) es; F f vs }"
| "den V F (IdStruct es) = None"
| "den V F (IdArray i x fixed nofollow) = None"
| "den V F (ExprParens x) = den V F x"
| "den V F (Boolean b) = Some (BoolV b)"
| "den V F (Number n) = Some (NumV n)"
| "den V F (BinArithOp op l r simplified) = do { a \<leftarrow> den V F l; b \<leftarrow> den V F r; num_op op a b }"
| "den V F (CondVal c t f) = do { b \<leftarrow> cden V F c; if b then den V F t else den V F f }"
| "cden V F (CondNot c) = map_option Not (cden V F c)"
| "cden V F (BOPAnd a b) = do { x \<leftarrow> cden V F a; if x then cden V F b else Some False }"
| "cden V F (BOPOr a b) = do { x \<leftarrow> cden V F a; if x then Some True else cden V F b }"
| "cden V F (CmpOp op l r) = do { a \<leftarrow> den V F l; b \<leftarrow> den V F r; cmp_op op a b }"
| "cden V F (FuncCond f es) = do { vs \<leftarrow> mapM (den V F) es; v \<leftarrow> F f vs; case v of BoolV b \<Rightarrow> Some b | _ \<Rightarrow> None }"

lemma mapM_comp:
  assumes "mapM f xs = Some ys" and "\<And>x y. x \<in> set xs \<Longrightarrow> f x = Some y \<Longrightarrow> g y = h x"
  shows "mapM g ys = mapM h xs"
  using assms
proof (induction xs arbitrary: ys)
  case (Cons x xs)
  then obtain y ys' where y: "f x = Some y" "mapM f xs = Some ys'" "ys = y # ys'" by (auto simp: bind_eq_Some_conv)
  then have "g y = h x" "mapM g ys' = mapM h xs" using Cons by auto
  then show ?case using y(3) by simp
qed simp

lemma mapM_map: "mapM f (map g xs) = mapM (\<lambda>x. f (g x)) xs"
  by (induction xs) simp_all

text \<open>Copying and simplifying the arguments of a call.\<close>

lemma call_args_den:
  assumes c: "\<And>x r. copy_n n x = Some r \<Longrightarrow> den V F r = den V F x" and s: "\<And>x y r. simplify_n n x = Some (y, r) \<Longrightarrow> den V F r = den V F x"
    and "mapM (copy_n n) es = Some es1" and "mapM (simplify_n n) es1 = Some es2"
  shows "mapM (den V F) (map snd es2) = mapM (den V F) es"
proof -
  have "mapM (\<lambda>x. den V F (snd x)) es2 = mapM (den V F) es1" by (rule mapM_comp [OF assms(4)]) (metis s surjective_pairing)
  also have "\<dots> = mapM (den V F) es" by (rule mapM_comp [OF assms(3)]) (rule c)
  finally show ?thesis by (simp add: mapM_map)
qed

lemma copy_simplify_den:
  "(copy_n n e = Some r \<longrightarrow> den V F r = den V F e) \<and> (simplify_n n e = Some (e', r) \<longrightarrow> den V F e' = den V F e \<and> den V F r = den V F e) \<and>
   (ccopy_n n c = Some c' \<longrightarrow> cden V F c' = cden V F c)"
proof (induction n arbitrary: e e' r c c')
  case (Suc n)
  note IH = Suc.IH
  have c: "den V F y = den V F x" if "copy_n n x = Some y" for x y using IH that by blast
  have s: "den V F z = den V F x" "den V F y = den V F x" if "simplify_n n x = Some (y, z)" for x y z using IH that by blast+
  have cc: "cden V F d' = cden V F d" if "ccopy_n n d = Some d'" for d d' using IH that by blast
  have args: "mapM (den V F) (map snd es2) = mapM (den V F) es" if "mapM (copy_n n) es = Some es1" "mapM (simplify_n n) es1 = Some es2" for es es1 es2
    using call_args_den [of n V F es es1 es2, OF _ _ that] c s(1) by blast
  have copy: "den V F r = den V F e" if run: "copy_n (Suc n) e = Some r" for e r
  proof (cases e)
    case (CondVal d a b)
    then obtain d' a' b' where d: "ccopy_n n d = Some d'" "copy_n n a = Some a'" "copy_n n b = Some b'" "r = CondVal d' a' b'"
      using run by (auto simp: bind_eq_Some_conv)
    show ?thesis by (simp add: CondVal d(4) cc [OF d(1)] c [OF d(2)] c [OF d(3)] cong: if_cong)
  qed (use run in \<open>auto simp: bind_eq_Some_conv args dest!: c cc\<close>)
  have simp: "den V F e' = den V F e \<and> den V F r = den V F e" if run: "simplify_n (Suc n) e = Some (e', r)" for e e' r
  proof (cases e)
    case (BinArithOp op a b fl)
    obtain a' b' where ab: "(if fl then Some (a, b) else do { (_, l) \<leftarrow> simplify_n n a; (_, r) \<leftarrow> simplify_n n b; Some (l, r) }) = Some (a', b')"
        "(case toNumbers a' b' of
           Some (x, y) \<Rightarrow> do { v \<leftarrow> doOp op x y; Some (BinArithOp op a' b' True, Number v) }
         | None \<Rightarrow> do { l \<leftarrow> copy_n n a'; r \<leftarrow> copy_n n b'; Some (BinArithOp op a' b' True, BinArithOp op l r False) }) = Some (e', r)"
      using run unfolding BinArithOp simplify_n.simps expr.case Let_def bind_eq_Some_conv [of "if _ then _ else _"] by auto
    have d: "den V F a' = den V F a" "den V F b' = den V F b" using ab(1) s(1) by (auto simp: bind_eq_Some_conv split: if_splits)
    show ?thesis using ab(2) c by (auto simp: BinArithOp num_op_def d [symmetric] toNumbers_Some bind_eq_Some_conv split: option.splits)
  next
    case (ExprParens x)
    then show ?thesis using run s by (auto simp: bind_eq_Some_conv)
  qed (use run copy in \<open>auto simp: bind_eq_Some_conv simp del: copy_n.simps(2)\<close>)
  have "cden V F c' = cden V F c" if run: "ccopy_n (Suc n) c = Some c'" for c c'
  proof (cases c)
    case (FuncCond f es)
    then obtain es1 es2 where es: "mapM (copy_n n) es = Some es1" "mapM (simplify_n n) es1 = Some es2" "c' = FuncCond f (map snd es2)"
      using run by (auto simp: bind_eq_Some_conv)
    show ?thesis by (simp add: FuncCond es(3) args [OF es(1, 2)])
  qed (use run in \<open>auto simp: bind_eq_Some_conv cong: if_cong dest!: c cc\<close>)
  then show ?case using copy simp by blast
qed simp

section \<open>What folding computes\<close>

text \<open>
  The reference: one structural recursion. \<open>copied\<close> simplifies only below a call; \<open>folded\<close> evaluates every operation of two
  numbers. \<open>fold_ok\<close>: no such operation divides by zero or shifts too far. \<open>fresh\<close>: no operation has had its sides
  simplified, which is how the parser makes expressions.
\<close>

definition mk_op :: "aop \<Rightarrow> expr \<Rightarrow> expr \<Rightarrow> expr" where
  "mk_op op l r = (case toNumbers l r of Some (a, b) \<Rightarrow> Number (the (doOp op a b)) | None \<Rightarrow> BinArithOp op l r False)"

fun copied :: "expr \<Rightarrow> expr" and folded :: "expr \<Rightarrow> expr" and ccopied :: "condexpr \<Rightarrow> condexpr" where
  "copied (FCall f es) = FCall f (map folded es)"
| "copied (IdStruct es) = IdStruct (map copied es)"
| "copied (IdArray i x fixed nofollow) = IdArray i (copied x) fixed nofollow"
| "copied (ExprParens x) = ExprParens (copied x)"
| "copied (BinArithOp op l r simplified) = BinArithOp op (copied l) (copied r) False"
| "copied (CondVal c t f) = CondVal (ccopied c) (copied t) (copied f)"
| "copied (Id x) = Id x"
| "copied (Boolean b) = Boolean b"
| "copied (Number n) = Number n"
| "folded (FCall f es) = FCall f (map folded es)"
| "folded (IdStruct es) = IdStruct (map copied es)"
| "folded (IdArray i x fixed nofollow) = IdArray i (copied x) fixed nofollow"
| "folded (ExprParens x) = ExprParens (folded x)"
| "folded (BinArithOp op l r simplified) = mk_op op (folded l) (folded r)"
| "folded (CondVal c t f) = CondVal (ccopied c) (copied t) (copied f)"
| "folded (Id x) = Id x"
| "folded (Boolean b) = Boolean b"
| "folded (Number n) = Number n"
| "ccopied (CondNot a) = CondNot (ccopied a)"
| "ccopied (BOPAnd a b) = BOPAnd (ccopied a) (ccopied b)"
| "ccopied (BOPOr a b) = BOPOr (ccopied a) (ccopied b)"
| "ccopied (CmpOp op l r) = CmpOp op (copied l) (copied r)"
| "ccopied (FuncCond f es) = FuncCond f (map folded es)"

fun fold_ok :: "expr \<Rightarrow> bool" and cfold_ok :: "condexpr \<Rightarrow> bool" where
  "fold_ok (FCall f es) = list_all fold_ok es"
| "fold_ok (IdStruct es) = list_all fold_ok es"
| "fold_ok (IdArray i x fixed nofollow) = fold_ok x"
| "fold_ok (ExprParens x) = fold_ok x"
| "fold_ok (BinArithOp op l r simplified) = (fold_ok l \<and> fold_ok r \<and> (case toNumbers (folded l) (folded r) of Some (a, b) \<Rightarrow> doOp op a b \<noteq> None | None \<Rightarrow> True))"
| "fold_ok (CondVal c t f) = (cfold_ok c \<and> fold_ok t \<and> fold_ok f)"
| "fold_ok (Id x) = True"
| "fold_ok (Boolean b) = True"
| "fold_ok (Number n) = True"
| "cfold_ok (CondNot a) = cfold_ok a"
| "cfold_ok (BOPAnd a b) = (cfold_ok a \<and> cfold_ok b)"
| "cfold_ok (BOPOr a b) = (cfold_ok a \<and> cfold_ok b)"
| "cfold_ok (CmpOp op l r) = (fold_ok l \<and> fold_ok r)"
| "cfold_ok (FuncCond f es) = list_all fold_ok es"

fun fresh :: "expr \<Rightarrow> bool" and cfresh :: "condexpr \<Rightarrow> bool" where
  "fresh (FCall f es) = list_all fresh es"
| "fresh (IdStruct es) = list_all fresh es"
| "fresh (IdArray i x fixed nofollow) = fresh x"
| "fresh (ExprParens x) = fresh x"
| "fresh (BinArithOp op l r simplified) = (\<not> simplified \<and> fresh l \<and> fresh r)"
| "fresh (CondVal c t f) = (cfresh c \<and> fresh t \<and> fresh f)"
| "fresh (Id x) = True"
| "fresh (Boolean b) = True"
| "fresh (Number n) = True"
| "cfresh (CondNot a) = cfresh a"
| "cfresh (BOPAnd a b) = (cfresh a \<and> cfresh b)"
| "cfresh (BOPOr a b) = (cfresh a \<and> cfresh b)"
| "cfresh (CmpOp op l r) = (fresh l \<and> fresh r)"
| "cfresh (FuncCond f es) = list_all fresh es"

lemma mk_op_cases:
  obtains a b where "l = Number a" "r = Number b" "mk_op op l r = Number (the (doOp op a b))"
  | "toNumbers l r = None" "mk_op op l r = BinArithOp op l r False"
proof (cases "toNumbers l r")
  case None
  then show thesis by (intro that(2)) (simp_all add: mk_op_def)
next
  case (Some p)
  obtain a b where p: "p = (a, b)" by (cases p)
  then have "l = Number a" "r = Number b" "mk_op op l r = Number (the (doOp op a b))" using Some by (auto simp: mk_op_def toNumbers_Some)
  then show thesis by (rule that(1))
qed

lemma copied_fresh: "fresh (copied e)" "fresh (folded e)" "cfresh (ccopied c)"
proof (induction e and e and c rule: copied_folded_ccopied.induct)
  case (14 op l r fl)
  then show ?case by (cases rule: mk_op_cases [of "folded l" "folded r" op]) auto
qed (auto simp: list_all_iff)

lemma copied_idem:
  "copied (copied e) = copied e \<and> folded (copied e) = folded e"
  "copied (folded e) = folded e \<and> folded (folded e) = folded e"
  "ccopied (ccopied c) = ccopied c"
proof (induction e and e and c rule: copied_folded_ccopied.induct)
  case (14 op l r fl)
  then show ?case by (cases rule: mk_op_cases [of "folded l" "folded r" op]) (auto simp: mk_op_def)
qed auto

lemma copied_fold_ok:
  "fold_ok e \<Longrightarrow> fold_ok (copied e)" "fold_ok e \<Longrightarrow> fold_ok (folded e)" "cfold_ok c \<Longrightarrow> cfold_ok (ccopied c)"
proof (induction e and e and c rule: copied_folded_ccopied.induct)
  case (14 op l r fl)
  then show ?case by (cases rule: mk_op_cases [of "folded l" "folded r" op]) (auto simp: copied_idem)
qed (auto simp: list_all_iff copied_idem)

lemma copied_size:
  "size (copied e) \<le> size e" "size (folded e) \<le> size e" "size (ccopied c) \<le> size c"
proof (induction e and e and c rule: copied_folded_ccopied.induct)
  case (14 op l r fl)
  then show ?case by (cases rule: mk_op_cases [of "folded l" "folded r" op]) auto
qed (auto intro!: sum_list_mono add_mono simp: size_list_conv_sum_list)

lemma mapM_all: "(\<And>x. x \<in> set xs \<Longrightarrow> f x = Some (g x)) \<Longrightarrow> mapM f xs = Some (map g xs)"
  by (induction xs) simp_all

lemma mapM_snd: "(\<And>x. x \<in> set xs \<Longrightarrow> \<exists>y. f x = Some (y, g x)) \<Longrightarrow> \<exists>ys. mapM f xs = Some ys \<and> map snd ys = map g xs"
proof (induction xs)
  case (Cons x xs)
  then obtain y ys where "f x = Some (y, g x)" "mapM f xs = Some ys" "map snd ys = map g xs" by (metis list.set_intros)
  then show ?case by simp
qed simp

lemma size_elem: "(x :: expr) \<in> set es \<Longrightarrow> size x \<le> size_list size es"
  by (erule size_list_estimation') (rule order_refl)

lemma fold_run_args:
  assumes c: "\<And>x. size x < n \<Longrightarrow> fresh x \<Longrightarrow> fold_ok x \<Longrightarrow> copy_n n x = Some (copied x)"
    and s: "\<And>x. size x < n \<Longrightarrow> fresh x \<Longrightarrow> fold_ok x \<Longrightarrow> \<exists>y. simplify_n n x = Some (y, folded x)"
    and "size_list size es < n" and "list_all fresh es" and "list_all fold_ok es"
  shows "mapM (copy_n n) es = Some (map copied es)" and "\<exists>ys. mapM (simplify_n n) (map copied es) = Some ys \<and> map snd ys = map folded es"
proof -
  have e: "size x < n" "fresh x" "fold_ok x" if "x \<in> set es" for x
    using assms(3-5) that size_elem [OF that] by (auto simp: list_all_iff)
  show "mapM (copy_n n) es = Some (map copied es)" by (rule mapM_all) (simp add: c e)
  have "\<exists>y. simplify_n n (copied x) = Some (y, folded x)" if "x \<in> set es" for x
    using s [of "copied x"] e [OF that] le_less_trans [OF copied_size(1)] copied_fresh(1) copied_fold_ok(1) copied_idem(1) by metis
  then show "\<exists>ys. mapM (simplify_n n) (map copied es) = Some ys \<and> map snd ys = map folded es"
    unfolding mapM_map by (intro mapM_snd) simp
qed

lemma fold_run:
  "(size e < n \<longrightarrow> fresh e \<longrightarrow> fold_ok e \<longrightarrow> copy_n n e = Some (copied e) \<and> (\<exists>e'. simplify_n n e = Some (e', folded e))) \<and>
   (size c < n \<longrightarrow> cfresh c \<longrightarrow> cfold_ok c \<longrightarrow> ccopy_n n c = Some (ccopied c))"
proof (induction n arbitrary: e c)
  case (Suc n)
  have c: "copy_n n x = Some (copied x)" and s: "\<exists>y. simplify_n n x = Some (y, folded x)" if "size x < n" "fresh x" "fold_ok x" for x
    using Suc.IH that by blast+
  have cc: "ccopy_n n d = Some (ccopied d)" if "size d < n" "cfresh d" "cfold_ok d" for d
    using Suc.IH that by blast
  have args: "mapM (copy_n n) es = Some (map copied es)" "\<exists>ys. mapM (simplify_n n) (map copied es) = Some ys \<and> map snd ys = map folded es"
    if "size_list size es < n" "list_all fresh es" "list_all fold_ok es" for es
    using fold_run_args [of n es] c s that by blast+
  have copy: "copy_n (Suc n) e = Some (copied e)" if "size e < Suc n" "fresh e" "fold_ok e" for e
    using that args by (cases e) (fastforce simp: c cc)+
  have "\<exists>e'. simplify_n (Suc n) e = Some (e', folded e)" if "size e < Suc n" "fresh e" "fold_ok e" for e
  proof (cases e)
    case (BinArithOp op a b fl)
    then have ok: "size a < n" "fresh a" "fold_ok a" "size b < n" "fresh b" "fold_ok b" "\<not> fl" using that by auto
    then obtain a' b' where "simplify_n n a = Some (a', folded a)" "simplify_n n b = Some (b', folded b)" using s by meson
    moreover have "copy_n n (folded x) = Some (folded x)" if "size x < n" "fold_ok x" for x
      using c [of "folded x"] that copied_size(2) [of x] copied_fresh(2) copied_fold_ok(2) [of x] copied_idem(2) [of x] by simp
    ultimately show ?thesis using that(3) ok by (auto simp: BinArithOp mk_op_def split: option.splits)
  next
    case (ExprParens x)
    then show ?thesis using that s [of x] by auto
  qed (use copy [OF that] in \<open>auto simp del: copy_n.simps\<close>)
  moreover have "ccopy_n (Suc n) c = Some (ccopied c)" if "size c < Suc n" "cfresh c" "cfold_ok c" for c
    using that args by (cases c) (fastforce simp: c cc)+
  ultimately show ?case using copy by blast
qed simp



text \<open>The object that \<open>simplify\<close> was called on gives the same result when it is simplified again.\<close>

lemma simplify_again: "simplify_n n e = Some (e', r) \<Longrightarrow> simplify_n n e' = Some (e', r)"
proof (induction n arbitrary: e e' r)
  case (Suc n)
  show ?case
  proof (cases e)
    case (BinArithOp op a b fl)
    then obtain l r' where "(if fl then Some (a, b) else do { (_, l) \<leftarrow> simplify_n n a; (_, r) \<leftarrow> simplify_n n b; Some (l, r) }) = Some (l, r')"
        and run: "(case toNumbers l r' of
           Some (x, y) \<Rightarrow> do { v \<leftarrow> doOp op x y; Some (BinArithOp op l r' True, Number v) }
         | None \<Rightarrow> do { x \<leftarrow> copy_n n l; y \<leftarrow> copy_n n r'; Some (BinArithOp op l r' True, BinArithOp op x y False) }) = Some (e', r)"
      using Suc.prems unfolding BinArithOp simplify_n.simps expr.case Let_def bind_eq_Some_conv [of "if _ then _ else _"] by auto
    moreover have "e' = BinArithOp op l r' True" using run by (auto simp: bind_eq_Some_conv split: option.splits)
    ultimately show ?thesis using run by simp
  next
    case (ExprParens x)
    then show ?thesis using Suc by (auto simp: bind_eq_Some_conv)
  qed (use Suc.prems in \<open>auto simp: bind_eq_Some_conv simp del: copy_n.simps\<close>)
qed simp

section \<open>Comparing expressions\<close>

fun expr_eq :: "expr \<Rightarrow> expr \<Rightarrow> bool" and exprs_eq :: "expr list \<Rightarrow> expr list \<Rightarrow> bool" where
  "expr_eq (Id x) e = (case e of Id y \<Rightarrow> x = y | _ \<Rightarrow> False)"
| "expr_eq (FCall f es) e = (case e of FCall g es' \<Rightarrow> f = g \<and> exprs_eq es es' | _ \<Rightarrow> False)"
| "expr_eq (IdStruct es) e = (case e of IdStruct es' \<Rightarrow> exprs_eq es es' | _ \<Rightarrow> False)"
| "expr_eq (IdArray i x fixed nofollow) e = (case e of IdArray j y _ _ \<Rightarrow> i = j \<and> expr_eq x y | _ \<Rightarrow> False)"
| "expr_eq (ExprParens x) e = (case e of ExprParens y \<Rightarrow> expr_eq x y | _ \<Rightarrow> False)"
| "expr_eq (Boolean b) e = (case e of Boolean b' \<Rightarrow> b = b' | _ \<Rightarrow> False)"
| "expr_eq (Number n) e = (case e of Number m \<Rightarrow> n = m | _ \<Rightarrow> False)"
| "expr_eq (BinArithOp op l r simplified) e = (case e of BinArithOp op' l' r' _ \<Rightarrow> op = op' \<and> expr_eq l l' \<and> expr_eq r r' | _ \<Rightarrow> False)"
| "expr_eq (CondVal c t f) e = (case e of CondVal c' t' f' \<Rightarrow> expr_eq t t' \<and> expr_eq f f' | _ \<Rightarrow> False)"
| "exprs_eq [] es = (es = [])"
| "exprs_eq (x # xs) es = (case es of [] \<Rightarrow> False | y # ys \<Rightarrow> length xs = length ys \<and> expr_eq x y \<and> exprs_eq xs ys)"

text \<open>What the comparison does not look at: the flags, and the condition of a \<open>CondVal\<close>.\<close>

fun erase :: "expr \<Rightarrow> expr" where
  "erase (FCall f es) = FCall f (map erase es)"
| "erase (IdStruct es) = IdStruct (map erase es)"
| "erase (IdArray i x fixed nofollow) = IdArray i (erase x) False False"
| "erase (ExprParens x) = ExprParens (erase x)"
| "erase (BinArithOp op l r simplified) = BinArithOp op (erase l) (erase r) False"
| "erase (CondVal c t f) = CondVal (FuncCond [] []) (erase t) (erase f)"
| "erase (Id x) = Id x"
| "erase (Boolean b) = Boolean b"
| "erase (Number n) = Number n"

lemma expr_eq_erase: "expr_eq a b \<longleftrightarrow> erase a = erase b" and exprs_eq_erase: "exprs_eq xs ys \<longleftrightarrow> map erase xs = map erase ys"
proof (induction a b and xs ys rule: expr_eq_exprs_eq.induct)
  case (11 x xs es)
  then show ?case by (cases es) (auto dest: map_eq_imp_length_eq)
qed (auto split: expr.splits)

section \<open>Rewriting\<close>

text \<open>
  \<open>new\<close> is what \<open>new_expr->simplify()\<close> returns (\<open>simplify_again\<close>: the same at every place), None where folding it is
  undefined. The result is the object after the call and the expression returned. The sides of a \<open>CondVal\<close> and the parts
  of an \<open>IdStruct\<close> are not rewritten; \<open>ExprParens\<close> never returns an expression of its own.
\<close>

definition Expr_rewrite :: "expr \<Rightarrow> expr option \<Rightarrow> expr \<Rightarrow> (expr \<times> expr option) option" where
  "Expr_rewrite to_rewrite new this = (if expr_eq this to_rewrite then map_option (\<lambda>r. (this, Some r)) new else Some (this, None))"

fun take_new :: "expr \<times> expr option \<Rightarrow> expr" where
  "take_new (this, None) = this"
| "take_new (this, Some r) = r"

fun rewrite :: "expr \<Rightarrow> expr option \<Rightarrow> expr \<Rightarrow> (expr \<times> expr option) option" and rewrite_list :: "expr \<Rightarrow> expr option \<Rightarrow> expr list \<Rightarrow> expr list option" where
  "rewrite to_rewrite new (FCall f es) = do { es \<leftarrow> rewrite_list to_rewrite new es; Expr_rewrite to_rewrite new (FCall f es) }"
| "rewrite to_rewrite new (IdArray i x fixed nofollow) = do {
     ret \<leftarrow> rewrite to_rewrite new x;
     Expr_rewrite to_rewrite new (IdArray i (take_new ret) fixed nofollow)
   }"
| "rewrite to_rewrite new (ExprParens x) = do { ret \<leftarrow> rewrite to_rewrite new x; Some (ExprParens (take_new ret), None) }"
| "rewrite to_rewrite new (BinArithOp op l r simplified) = do {
     ret \<leftarrow> rewrite to_rewrite new l;
     let l = take_new ret;
     ret \<leftarrow> rewrite to_rewrite new r;
     Expr_rewrite to_rewrite new (BinArithOp op l (take_new ret) simplified)
   }"
| "rewrite to_rewrite new (Id x) = Expr_rewrite to_rewrite new (Id x)"
| "rewrite to_rewrite new (IdStruct es) = Expr_rewrite to_rewrite new (IdStruct es)"
| "rewrite to_rewrite new (Boolean b) = Expr_rewrite to_rewrite new (Boolean b)"
| "rewrite to_rewrite new (Number n) = Expr_rewrite to_rewrite new (Number n)"
| "rewrite to_rewrite new (CondVal c t f) = Expr_rewrite to_rewrite new (CondVal c t f)"
| "rewrite_list to_rewrite new [] = Some []"
| "rewrite_list to_rewrite new (e # es) = do {
     ret \<leftarrow> rewrite to_rewrite new e;
     es \<leftarrow> rewrite_list to_rewrite new es;
     Some (take_new ret # es)
   }"

definition rewriteReplace :: "nat \<Rightarrow> expr \<Rightarrow> expr \<Rightarrow> expr \<Rightarrow> expr option" where
  "rewriteReplace n e to_rewrite new_expr = map_option take_new (rewrite to_rewrite (map_option snd (simplify_n n new_expr)) e)"

text \<open>None where the code aborts: a condition that is a call.\<close>

fun expr_rewrite :: "expr \<Rightarrow> expr option \<Rightarrow> condexpr \<Rightarrow> condexpr option" where
  "expr_rewrite to_rewrite new (CondNot c) = map_option CondNot (expr_rewrite to_rewrite new c)"
| "expr_rewrite to_rewrite new (BOPAnd a b) = do { a \<leftarrow> expr_rewrite to_rewrite new a; b \<leftarrow> expr_rewrite to_rewrite new b; Some (BOPAnd a b) }"
| "expr_rewrite to_rewrite new (BOPOr a b) = do { a \<leftarrow> expr_rewrite to_rewrite new a; b \<leftarrow> expr_rewrite to_rewrite new b; Some (BOPOr a b) }"
| "expr_rewrite to_rewrite new (CmpOp op l r) = do {
     l \<leftarrow> rewrite to_rewrite new l;
     r \<leftarrow> rewrite to_rewrite new r;
     Some (CmpOp op (take_new l) (take_new r))
   }"
| "expr_rewrite to_rewrite new (FuncCond f es) = None"

text \<open>\<open>plain\<close>: no part of the expression is one that \<open>rewrite\<close> skips.\<close>

fun plain :: "expr \<Rightarrow> bool" where
  "plain (FCall f es) = list_all plain es"
| "plain (ExprParens x) = plain x"
| "plain (BinArithOp op l r simplified) = (plain l \<and> plain r)"
| "plain (CondVal c t f) = False"
| "plain _ = True"

fun cplain :: "condexpr \<Rightarrow> bool" where
  "cplain (CondNot c) = cplain c"
| "cplain (BOPAnd a b) = (cplain a \<and> cplain b)"
| "cplain (BOPOr a b) = (cplain a \<and> cplain b)"
| "cplain (CmpOp op l r) = (plain l \<and> plain r)"
| "cplain (FuncCond f es) = False"

text \<open>Rewriting returns, and rewriting a variable substitutes it.\<close>

lemma rewrite_total: "\<exists>p. rewrite t (Some r) e = Some p" "\<exists>ys. rewrite_list t (Some r) es = Some ys"
  by (induction t "Some r" e and t "Some r" es rule: rewrite_rewrite_list.induct) (fastforce simp: Expr_rewrite_def Let_def)+

lemma rewrite_var_den:
  "plain e \<Longrightarrow> rewrite (Id x) (Some r) e = Some p \<Longrightarrow> den V F (take_new p) = den (V(x := den V F r)) F e"
  "list_all plain es \<Longrightarrow> rewrite_list (Id x) (Some r) es = Some es' \<Longrightarrow> mapM (den V F) es' = mapM (den (V(x := den V F r)) F) es"
  by (induction "Id x" "Some r" e and "Id x" "Some r" es arbitrary: p and es' rule: rewrite_rewrite_list.induct)
    (auto simp: Expr_rewrite_def Let_def bind_eq_Some_conv split: if_splits)

text \<open>
  C24: \<open>rewriteReplace\<close> of a variable is substitution. Where nothing is skipped, it returns an expression whose value is
  that of the old one with the value of the new expression for the variable.
\<close>

theorem rewriteReplace_substitutes:
  assumes "plain e" and "fresh new" and "fold_ok new" and "size new < n"
  shows "\<exists>e'. rewriteReplace n e (Id x) new = Some e' \<and> den V F e' = den (V(x := den V F new)) F e"
proof -
  obtain new' where new: "simplify_n n new = Some (new', folded new)" using fold_run [of new n] assms by blast
  then have d: "den V F (folded new) = den V F new" using copy_simplify_den [of n new "folded new" V F new'] by blast
  obtain p where p: "rewrite (Id x) (Some (folded new)) e = Some p" using rewrite_total(1) by blast
  then have "den V F (take_new p) = den (V(x := den V F new)) F e" using rewrite_var_den(1) [OF assms(1) p, of V F] d by simp
  then show ?thesis using p new by (simp add: rewriteReplace_def)
qed

theorem rewriteReplace_substitutes_witness:
  "\<exists>e'. rewriteReplace 9 (ExprParens (BinArithOp AOPAdd (Id ''x'') (FCall ''f'' [Id ''x'']) False)) (Id ''x'') (Number 5) = Some e' \<and>
     den (\<lambda>_. None) (\<lambda>_ vs. Some (hd vs)) e' = Some (NumV 10 :: unit cval)"
  using rewriteReplace_substitutes [of "ExprParens (BinArithOp AOPAdd (Id ''x'') (FCall ''f'' [Id ''x'']) False)" "Number 5" 9 "''x''"
      "\<lambda>_. None :: unit cval option" "\<lambda>_ vs. Some (hd vs)"]
  by (auto simp: num_op_def doOp_def)

text \<open>The same for conditions; a condition with a call aborts the compiler.\<close>

lemma expr_rewrite_substitutes:
  assumes "cplain c"
  shows "\<exists>c'. expr_rewrite (Id x) (Some r) c = Some c' \<and> cden V F c' = cden (V(x := den V F r)) F c"
  using assms
proof (induction c rule: cplain.induct)
  case (4 op a b)
  then obtain p q where "rewrite (Id x) (Some r) a = Some p" "rewrite (Id x) (Some r) b = Some q" using rewrite_total(1) by meson
  then show ?case using 4 rewrite_var_den(1) [of a x r p V F] rewrite_var_den(1) [of b x r q V F] by (simp del: fun_upd_apply)
qed (force cong: if_cong simp del: fun_upd_apply)+

end
