(* ===== verification/CConst.thy ===== *)
theory CConst
  imports CExpr "HOL-Library.List_Lexorder" "HOL-Library.Char_ord"
begin

text \<open>
  Named constants of the compiler (\<open>compiler/main.cc\<close>: \<open>load_primitive_ptypes\<close>, \<open>load_def_types\<close>, \<open>load_constants\<close>, \<open>load_enums\<close>,
  \<open>apply_consts_to_consts\<close>, \<open>simplify_constants\<close>; \<open>eval.cc\<close>: \<open>expr_resolve_consts\<close>; \<open>expr.h\<close>: \<open>ExprRewriteAll\<close>).

  \<^item> A \<open>std::map\<close> is a list of pairs in the order of the keys, the order in which it is traversed.
  \<^item> The fuel \<open>n\<close> is for copying and simplifying (\<open>CExpr\<close>). None is an undefined folding. \<open>Inl ()\<close> is the \<open>assert\<close> after
    \<open>MAX_PASSES\<close> passes.
  \<^item> With acyclic definitions that are at most 98 deep, the loop ends, and no constant
    mentions another one; circular definitions can end as well.
\<close>

section \<open>Maps and global statements\<close>

type_synonym 'v smap = "(string \<times> 'v) list"

fun smap_set :: "string \<Rightarrow> 'v \<Rightarrow> 'v smap \<Rightarrow> 'v smap" where
  "smap_set k v [] = [(k, v)]"
| "smap_set k v ((k', v') # m) = (if k = k' then (k, v) # m else if k < k' then (k, v) # (k', v') # m else (k', v') # smap_set k v m)"

datatype gstmt =
    ConstVar string expr
  | Enum string string "(string \<times> 64 word option) list"
  | DefType string string
  | OtherStmt

section \<open>Types with a fixed width\<close>

definition prim_ptypes :: "(string \<times> nat) list" where
  "prim_ptypes = [(''bool'', 1), (''int'', 64), (''uint'', 64)]"

definition load_primitive_ptypes :: "nat smap \<Rightarrow> nat smap" where
  "load_primitive_ptypes ctypes =
     fold (\<lambda>i. smap_set (''u'' @ dec i) i) [1..<65] (fold (\<lambda>(name, bits). smap_set name bits) prim_ptypes ctypes)"

fun load_def_types :: "gstmt list \<Rightarrow> nat smap \<times> string smap \<Rightarrow> nat smap \<times> string smap" where
  "load_def_types [] maps = maps"
| "load_def_types (DefType name target # gb) (ctypes, deftypes) =
     (if map_of ctypes name \<noteq> None then load_def_types gb (ctypes, deftypes)
      else if map_of deftypes name \<noteq> None then load_def_types gb (ctypes, deftypes)
      else if map_of deftypes target \<noteq> None then load_def_types gb (ctypes, deftypes)
      else case map_of ctypes target of
          None \<Rightarrow> load_def_types gb (ctypes, deftypes)
        | Some bits \<Rightarrow> load_def_types gb (smap_set name bits ctypes, smap_set name target deftypes))"
| "load_def_types (_ # gb) maps = load_def_types gb maps"

section \<open>Loading constants\<close>

fun load_const_vars :: "nat \<Rightarrow> gstmt list \<Rightarrow> expr smap \<Rightarrow> expr smap option" where
  "load_const_vars n [] cs = Some cs"
| "load_const_vars n (ConstVar name e # gb) cs = do { e \<leftarrow> copy_n n e; load_const_vars n gb (smap_set name e cs) }"
| "load_const_vars n (_ # gb) cs = load_const_vars n gb cs"

definition load_constants :: "nat \<Rightarrow> gstmt list \<Rightarrow> expr smap \<Rightarrow> expr smap option" where
  "load_constants n gb cs = load_const_vars n gb (smap_set ''false'' (Boolean False) (smap_set ''true'' (Boolean True) cs))"

text \<open>
  An entry without a number has a null pointer here; the constructor of \<open>EnumEnt\<close> leaves the pointer uninitialized.
\<close>

fun load_enum_ents :: "64 word \<Rightarrow> (string \<times> 64 word option) list \<Rightarrow> expr smap \<Rightarrow> expr smap" where
  "load_enum_ents n [] cs = cs"
| "load_enum_ents n ((name, num) # ents) cs =
     load_enum_ents (n + 1) ents (smap_set name (Number (case num of None \<Rightarrow> n | Some v \<Rightarrow> v)) cs)"

fun load_enums :: "gstmt list \<Rightarrow> expr smap \<times> nat smap \<Rightarrow> expr smap \<times> nat smap" where
  "load_enums [] maps = maps"
| "load_enums (Enum name type ents # gb) (cs, ctypes) =
     (let cs = load_enum_ents 0 ents cs in
      case map_of ctypes type of
        None \<Rightarrow> load_enums gb (cs, ctypes)
      | Some bits \<Rightarrow> load_enums gb (cs, smap_set name bits ctypes))"
| "load_enums (_ # gb) maps = load_enums gb maps"

section \<open>Replacing constants\<close>

text \<open>
  \<open>ExprRewriteAll\<close> with the visit of an \<open>Id\<close> as its argument. An operation is copied and gets the simplified new sides; it is
  not folded itself. The visit of an array makes a new array without the flags; the condition of a \<open>CondVal\<close> is copied.
\<close>

fun ExprRewriteAll :: "nat \<Rightarrow> (string \<Rightarrow> expr option) \<Rightarrow> expr \<Rightarrow> expr option" where
  "ExprRewriteAll n visit (Id x) = visit x"
| "ExprRewriteAll n visit (BinArithOp op l r simplified) = do {
     new_lhs \<leftarrow> ExprRewriteAll n visit l;
     new_rhs \<leftarrow> ExprRewriteAll n visit r;
     new_bop \<leftarrow> copy_n n (BinArithOp op l r simplified);
     (_, l) \<leftarrow> simplify_n n new_lhs;
     (_, r) \<leftarrow> simplify_n n new_rhs;
     Some (BinArithOp op l r False)
   }"
| "ExprRewriteAll n visit (FCall f es) = do {
     new_el \<leftarrow> mapM (ExprRewriteAll n visit) es;
     exprs \<leftarrow> mapM (simplify_n n) new_el;
     Some (FCall f (map snd exprs))
   }"
| "ExprRewriteAll n visit (IdArray i x fixed nofollow) = do { x \<leftarrow> ExprRewriteAll n visit x; Some (IdArray i x False False) }"
| "ExprRewriteAll n visit (ExprParens x) = do { x \<leftarrow> ExprRewriteAll n visit x; Some (ExprParens x) }"
| "ExprRewriteAll n visit (CondVal c t f) = do {
     c \<leftarrow> ccopy_n n c;
     t \<leftarrow> ExprRewriteAll n visit t;
     f \<leftarrow> ExprRewriteAll n visit f;
     Some (CondVal c t f)
   }"
| "ExprRewriteAll n visit e = map_option snd (simplify_n n e)"

definition visit_const :: "nat \<Rightarrow> expr smap \<Rightarrow> string \<Rightarrow> expr option" where
  "visit_const n cs x = (case map_of cs x of None \<Rightarrow> copy_n n (Id x) | Some e \<Rightarrow> copy_n n e)"

definition expr_resolve_consts :: "nat \<Rightarrow> expr smap \<Rightarrow> expr \<Rightarrow> expr option" where
  "expr_resolve_consts n cs e = ExprRewriteAll n (visit_const n cs) e"

fun apply_consts_from :: "nat \<Rightarrow> string list \<Rightarrow> expr smap \<Rightarrow> bool \<Rightarrow> (expr smap \<times> bool) option" where
  "apply_consts_from n [] cs updated = Some (cs, updated)"
| "apply_consts_from n (k # ks) cs updated = do {
     e \<leftarrow> map_of cs k;
     old_expr \<leftarrow> copy_n n e;
     new_expr \<leftarrow> expr_resolve_consts n cs e;
     if expr_eq old_expr new_expr then apply_consts_from n ks cs updated
     else apply_consts_from n ks (smap_set k new_expr cs) True
   }"

definition apply_consts_to_consts :: "nat \<Rightarrow> expr smap \<Rightarrow> (expr smap \<times> bool) option" where
  "apply_consts_to_consts n cs = apply_consts_from n (map fst cs) cs False"

definition MAX_PASSES :: nat where
  "MAX_PASSES = 100"

fun simplify_passes :: "nat \<Rightarrow> nat \<Rightarrow> expr smap \<Rightarrow> (unit + expr smap) option" where
  "simplify_passes n 0 cs = Some (Inl ())"
| "simplify_passes n (Suc left) cs = do {
     (cs, updated) \<leftarrow> apply_consts_to_consts n cs;
     if \<not> updated then Some (Inr cs) else simplify_passes n left cs
   }"

definition simplify_constants :: "nat \<Rightarrow> expr smap \<Rightarrow> (unit + expr smap) option" where
  "simplify_constants n cs = simplify_passes n MAX_PASSES cs"

text \<open>The part of \<open>main\<close> that sets up the constants.\<close>

definition setup_constants :: "nat \<Rightarrow> gstmt list \<Rightarrow> ((unit + expr smap) \<times> nat smap \<times> string smap) option" where
  "setup_constants n gb = do {
     let (ctypes, deftypes) = load_def_types gb (load_primitive_ptypes [], []);
     cs \<leftarrow> load_constants n gb [];
     let (cs, ctypes) = load_enums gb (cs, ctypes);
     cs \<leftarrow> simplify_constants n cs;
     Some (cs, ctypes, deftypes)
   }"

section \<open>What replacing constants computes\<close>

text \<open>
  The reference, for the expressions \<open>S\<close> put in place of the names. \<open>safe\<close>: divisions and shifts only by a number that
  allows them, so that folding is defined whatever is put in place of the names.
\<close>

fun subst :: "(string \<Rightarrow> expr) \<Rightarrow> expr \<Rightarrow> expr" where
  "subst S (Id x) = S x"
| "subst S (BinArithOp op l r simplified) = BinArithOp op (folded (subst S l)) (folded (subst S r)) False"
| "subst S (FCall f es) = FCall f (map (\<lambda>e. folded (subst S e)) es)"
| "subst S (IdArray i x fixed nofollow) = IdArray i (subst S x) False False"
| "subst S (ExprParens x) = ExprParens (subst S x)"
| "subst S (CondVal c t f) = CondVal (ccopied c) (subst S t) (subst S f)"
| "subst S e = folded e"

definition safe_op :: "aop \<Rightarrow> expr \<Rightarrow> bool" where
  "safe_op op r = (case op of
     AOPDiv \<Rightarrow> (case r of Number b \<Rightarrow> b \<noteq> 0 | _ \<Rightarrow> False)
   | AOPMod \<Rightarrow> (case r of Number b \<Rightarrow> b \<noteq> 0 | _ \<Rightarrow> False)
   | AOPLShift \<Rightarrow> (case r of Number b \<Rightarrow> unat b < 64 | _ \<Rightarrow> False)
   | AOPRShift \<Rightarrow> (case r of Number b \<Rightarrow> unat b < 64 | _ \<Rightarrow> False)
   | _ \<Rightarrow> True)"

fun safe :: "expr \<Rightarrow> bool" and csafe :: "condexpr \<Rightarrow> bool" where
  "safe (FCall f es) = list_all safe es"
| "safe (IdStruct es) = list_all safe es"
| "safe (IdArray i x fixed nofollow) = safe x"
| "safe (ExprParens x) = safe x"
| "safe (BinArithOp op l r simplified) = (safe l \<and> safe r \<and> safe_op op r)"
| "safe (CondVal c t f) = (csafe c \<and> safe t \<and> safe f)"
| "safe (Id x) = True"
| "safe (Boolean b) = True"
| "safe (Number n) = True"
| "csafe (CondNot a) = csafe a"
| "csafe (BOPAnd a b) = (csafe a \<and> csafe b)"
| "csafe (BOPOr a b) = (csafe a \<and> csafe b)"
| "csafe (CmpOp op l r) = (safe l \<and> safe r)"
| "csafe (FuncCond f es) = list_all safe es"

lemma safe_op_Number: "safe_op op (Number b) \<Longrightarrow> doOp op a b \<noteq> None"
  by (cases op) (auto simp: safe_op_def doOp_def)

text \<open>An operation whose second operand may be any expression is defined on all numbers.\<close>

lemma safe_op_cases: "safe_op op r \<Longrightarrow> (\<exists>b. r = Number b) \<or> (\<forall>r. safe_op op r)"
  by (cases op) (auto simp: safe_op_def split: expr.splits)

lemma safe_op_folded:
  assumes "safe_op op r" and "\<And>b. r = Number b \<Longrightarrow> r' = Number b"
  shows "safe_op op r'"
  using safe_op_cases [OF assms(1)] assms by blast

lemma safe_op_fold_ok:
  assumes "safe_op op r"
  shows "case toNumbers (folded l) (folded r) of Some (a, b) \<Rightarrow> doOp op a b \<noteq> None | None \<Rightarrow> True"
proof (cases "toNumbers (folded l) (folded r)")
  case (Some p)
  obtain a b where "p = (a, b)" "folded r = Number b" using Some by (cases p) (auto simp: toNumbers_Some)
  moreover have "safe_op op (folded r)" by (rule safe_op_folded [OF assms]) simp
  ultimately show ?thesis using Some safe_op_Number [of op b a] by simp
qed simp

lemma safe_fold_ok: "safe e \<Longrightarrow> fold_ok e" "csafe c \<Longrightarrow> cfold_ok c"
  by (induction e and c rule: safe_csafe.induct) (auto simp: list_all_iff safe_op_fold_ok)

lemma safe_copied:
  "safe e \<Longrightarrow> safe (copied e)" "safe e \<Longrightarrow> safe (folded e)" "csafe c \<Longrightarrow> csafe (ccopied c)"
proof (induction e and e and c rule: copied_folded_ccopied.induct)
  case (5 op l r fl)
  then show ?case by (auto intro: safe_op_folded)
next
  case (14 op l r fl)
  then have "safe_op op (folded r)" by (auto intro: safe_op_folded)
  with 14 show ?case by (cases rule: mk_op_cases [of "folded l" "folded r" op]) auto
qed (auto simp: list_all_iff)

lemma subst_safe: "safe e \<Longrightarrow> (\<And>x. safe (S x)) \<Longrightarrow> safe (subst S e)"
proof (induction S e rule: subst.induct)
  case (2 S op l r fl)
  then have "safe_op op (folded (subst S r))" by (auto intro: safe_op_folded)
  with 2 show ?case by (simp add: safe_copied)
qed (auto simp: list_all_iff safe_copied)

lemma subst_fresh: "(\<And>x. fresh (S x)) \<Longrightarrow> fresh (subst S e)"
  by (induction S e rule: subst.induct) (auto simp: list_all_iff copied_fresh)

lemma folded_den: "fresh e \<Longrightarrow> fold_ok e \<Longrightarrow> den V F (folded e) = den V F e"
  using fold_run [of e "Suc (size e)"] copy_simplify_den [of "Suc (size e)" e _ V F] by blast

lemma copied_den: "fresh e \<Longrightarrow> fold_ok e \<Longrightarrow> den V F (copied e) = den V F e"
  using fold_run [of e "Suc (size e)"] copy_simplify_den [of "Suc (size e)" e _ V F] by blast

lemma subst_den:
  assumes "plain e" and "fresh e" and "safe e" and S: "\<And>x. fresh (S x) \<and> safe (S x)"
  shows "den V F (subst S e) = den (\<lambda>x. den V F (S x)) F e"
  using assms(1-3)
proof (induction e rule: plain.induct)
  case (1 f es)
  have "den V F (folded (subst S x)) = den (\<lambda>x. den V F (S x)) F x" if "x \<in> set es" for x
    using 1 that folded_den [OF subst_fresh safe_fold_ok(1) [OF subst_safe], of S x V F] S by (auto simp: list_all_iff)
  then have "mapM (\<lambda>x. den V F (folded (subst S x))) es = mapM (den (\<lambda>x. den V F (S x)) F) es" by (intro mapM_cong) auto
  then show ?case by (simp add: mapM_map)
next
  case (3 op l r fl)
  have "den V F (folded (subst S x)) = den (\<lambda>x. den V F (S x)) F x" if "x = l \<or> x = r" for x
    using 3 that folded_den [OF subst_fresh safe_fold_ok(1) [OF subst_safe], of S x V F] S by auto
  then show ?case by simp
qed (auto simp: folded_den)

section \<open>Enough fuel\<close>

text \<open>What holds for all fuel from some bound on.\<close>

lemma copy_eventually: "fresh e \<Longrightarrow> safe e \<Longrightarrow> eventually (\<lambda>n. copy_n n e = Some (copied e)) sequentially"
  using fold_run [of e] safe_fold_ok(1) by (intro eventually_sequentiallyI [of "Suc (size e)"]) simp

lemma simplify_eventually: "fresh e \<Longrightarrow> safe e \<Longrightarrow> eventually (\<lambda>n. \<exists>e'. simplify_n n e = Some (e', folded e)) sequentially"
  using fold_run [of e] safe_fold_ok(1) by (intro eventually_sequentiallyI [of "Suc (size e)"]) simp

lemma ccopy_eventually: "cfresh c \<Longrightarrow> csafe c \<Longrightarrow> eventually (\<lambda>n. ccopy_n n c = Some (ccopied c)) sequentially"
  using fold_run [of _ _ c] safe_fold_ok(2) by (intro eventually_sequentiallyI [of "Suc (size c)"]) simp

lemma mapM_eventually:
  assumes "\<And>x. x \<in> set xs \<Longrightarrow> eventually (\<lambda>n. f n x = Some (g x)) F"
  shows "eventually (\<lambda>n. mapM (f n) xs = Some (map g xs)) F"
proof -
  have "eventually (\<lambda>n. \<forall>x \<in> set xs. f n x = Some (g x)) F" using assms by (simp add: eventually_ball_finite)
  then show ?thesis by (rule eventually_mono) (auto intro: mapM_all)
qed

lemma mapM_simplify_eventually:
  assumes "\<And>x. x \<in> set xs \<Longrightarrow> fresh x \<and> safe x"
  shows "eventually (\<lambda>n. \<exists>ys. mapM (simplify_n n) xs = Some ys \<and> map snd ys = map folded xs) sequentially"
proof -
  have "eventually (\<lambda>n. \<forall>x \<in> set xs. \<exists>e'. simplify_n n x = Some (e', folded x)) sequentially"
    using assms simplify_eventually by (simp add: eventually_ball_finite)
  then show ?thesis by (rule eventually_mono) (auto intro: mapM_snd)
qed

lemma ExprRewriteAll_eventually:
  assumes S: "\<And>x. fresh (S x) \<and> safe (S x)" and visit: "\<And>x. eventually (\<lambda>n. visit n x = Some (S x)) sequentially"
    and "fresh e" and "safe e"
  shows "eventually (\<lambda>n. ExprRewriteAll n (visit n) e = Some (subst S e)) sequentially"
  using assms(3, 4)
proof (induction e rule: erase.induct)
  case (7 x)
  then show ?case using visit by simp
next
  case (5 op l r fl)
  have ok: "fresh (subst S l)" "safe (subst S l)" "fresh (subst S r)" "safe (subst S r)" using 5 S by (simp_all add: subst_fresh subst_safe)
  note eventually_conj [OF eventually_conj [OF 5(1) 5(2)] eventually_conj [OF copy_eventually [OF 5(3, 4)]
      eventually_conj [OF simplify_eventually [OF ok(1, 2)] simplify_eventually [OF ok(3, 4)]]]]
  then show ?case using 5 by simp (erule eventually_mono, auto)
next
  case (1 f es)
  have ok: "x \<in> set (map (subst S) es) \<Longrightarrow> fresh x \<and> safe x" for x using 1 S by (auto simp: list_all_iff subst_fresh subst_safe)
  have "eventually (\<lambda>n. mapM (ExprRewriteAll n (visit n)) es = Some (map (subst S) es)) sequentially"
    using 1 by (intro mapM_eventually) (auto simp: list_all_iff)
  note eventually_conj [OF this mapM_simplify_eventually [of "map (subst S) es", OF ok]]
  then show ?case by (rule eventually_mono) (auto simp: comp_def)
next
  case (3 i x fixed nofollow)
  then have "eventually (\<lambda>n. ExprRewriteAll n (visit n) x = Some (subst S x)) sequentially" by simp
  then show ?case by (rule eventually_mono) simp
next
  case (4 x)
  then have "eventually (\<lambda>n. ExprRewriteAll n (visit n) x = Some (subst S x)) sequentially" by simp
  then show ?case by (rule eventually_mono) simp
next
  case (6 c t f)
  then have "eventually (\<lambda>n. ExprRewriteAll n (visit n) t = Some (subst S t)) sequentially"
    "eventually (\<lambda>n. ExprRewriteAll n (visit n) f = Some (subst S f)) sequentially"
    "eventually (\<lambda>n. ccopy_n n c = Some (ccopied c)) sequentially" by (simp_all add: ccopy_eventually)
  then have "eventually (\<lambda>n. ExprRewriteAll n (visit n) t = Some (subst S t) \<and> ExprRewriteAll n (visit n) f = Some (subst S f) \<and>
      ccopy_n n c = Some (ccopied c)) sequentially" by (simp add: eventually_conj)
  then show ?case by (rule eventually_mono) simp
next
  case (2 es)
  from simplify_eventually [OF 2(2, 3)] show ?case by (rule eventually_mono) auto
qed (rule eventually_sequentiallyI [of 1], auto simp: Suc_le_eq gr0_conv_Suc)+

section \<open>One pass over the constants\<close>

lemma map_of_smap_set [simp]: "map_of (smap_set k v m) = (map_of m)(k \<mapsto> v)"
proof
  show "map_of (smap_set k v m) x = ((map_of m)(k \<mapsto> v)) x" for x by (induction k v m rule: smap_set.induct) auto
qed

lemma keys_smap_set: "sorted_wrt (<) (map fst m) \<Longrightarrow> k \<in> fst ` set m \<Longrightarrow> map fst (smap_set k v m) = map fst m"
proof (induction k v m rule: smap_set.induct)
  case (2 k v k' v' m)
  have "k' < x" if "x \<in> fst ` set m" for x using 2(2) that by auto
  moreover have "k = k' \<or> k \<in> fst ` set m" using 2(3) by simp
  ultimately have "\<not> k < k'" "k \<noteq> k' \<Longrightarrow> k \<in> fst ` set m" using less_asym by blast+
  then show ?case using 2(1, 2) by simp
qed simp

lemma fst_set_smap_set [simp]: "fst ` set (smap_set k v m) = insert k (fst ` set m)"
  by (induction k v m rule: smap_set.induct) auto

text \<open>The names that \<open>ExprRewriteAll\<close> visits.\<close>

fun ids :: "expr \<Rightarrow> string list" where
  "ids (FCall f es) = concat (map ids es)"
| "ids (IdArray i x fixed nofollow) = ids x"
| "ids (ExprParens x) = ids x"
| "ids (BinArithOp op l r simplified) = ids l @ ids r"
| "ids (CondVal c t f) = ids t @ ids f"
| "ids (Id x) = [x]"
| "ids _ = []"

lemma ids_copied: "ids (copied e) = ids e" "ids (folded e) = ids e" "(c :: condexpr) = c"
proof (induction e and e and c rule: copied_folded_ccopied.induct)
  case (14 op l r fl)
  then show ?case by (cases rule: mk_op_cases [of "folded l" "folded r" op]) auto
qed (auto simp: comp_def intro: arg_cong [where f = concat])

declare ids_copied(1, 2) [simp]

lemma ids_subst: "set (ids (subst S e)) \<subseteq> (\<Union>x \<in> set (ids e). set (ids (S x)))"
  by (induction e rule: erase.induct) auto

lemma ids_erase: "ids (erase e) = ids e"
  by (induction e rule: erase.induct) (auto simp: comp_def intro: arg_cong [where f = concat])

lemma plain_copied: "plain e \<Longrightarrow> plain (copied e)" "plain e \<Longrightarrow> plain (folded e)" "(c :: condexpr) = c"
proof (induction e and e and c rule: copied_folded_ccopied.induct)
  case (14 op l r fl)
  then show ?case by (cases rule: mk_op_cases [of "folded l" "folded r" op]) auto
qed (auto simp: list_all_iff)

lemma plain_subst: "plain e \<Longrightarrow> (\<And>x. plain (S x)) \<Longrightarrow> plain (subst S e)"
  by (induction e rule: plain.induct) (auto simp: list_all_iff plain_copied)

text \<open>Replacing nothing: \<open>subst Id\<close> only folds, and folding again changes nothing.\<close>

lemma subst_Id_copied: "copied (subst Id e) = subst Id e"
  by (induction e rule: erase.induct) (auto simp: copied_idem)

lemma subst_Id_idem:
  "subst Id (subst Id e) = subst Id e \<and> folded (subst Id (folded (subst Id e))) = folded (subst Id e)"
proof (induction e rule: erase.induct)
  case (5 op l r fl)
  then show ?case
    by (cases rule: mk_op_cases [of "folded (subst Id l)" "folded (subst Id r)" op]) (auto simp: copied_idem)
qed (auto simp: subst_Id_copied copied_idem)

lemma subst_no_ids: "(\<And>x. x \<in> set (ids e) \<Longrightarrow> S x = T x) \<Longrightarrow> subst S e = subst T e"
  by (induction e rule: erase.induct) (auto intro: arg_cong [where f = folded])

definition const_subst :: "expr smap \<Rightarrow> string \<Rightarrow> expr" where
  "const_subst cs x = (case map_of cs x of None \<Rightarrow> Id x | Some e \<Rightarrow> copied e)"

definition const_new :: "expr smap \<Rightarrow> string \<Rightarrow> expr" where
  "const_new cs k = subst (const_subst cs) (the (map_of cs k))"

definition stable :: "expr smap \<Rightarrow> string \<Rightarrow> bool" where
  "stable cs k = expr_eq (copied (the (map_of cs k))) (const_new cs k)"

definition step :: "string \<Rightarrow> expr smap \<Rightarrow> expr smap" where
  "step k cs = (if stable cs k then cs else smap_set k (const_new cs k) cs)"

fun pass :: "string list \<Rightarrow> expr smap \<Rightarrow> bool \<Rightarrow> expr smap \<times> bool" where
  "pass [] cs updated = (cs, updated)"
| "pass (k # ks) cs updated = pass ks (step k cs) (updated \<or> \<not> stable cs k)"

definition const_ok :: "expr \<Rightarrow> bool" where
  "const_ok e \<longleftrightarrow> fresh e \<and> safe e \<and> plain e"

text \<open>
  \<open>ranked\<close>: the keys \<open>ks\<close> are in order, and every constant mentions only constants of a smaller rank. \<open>solves\<close>: the values of
  the variables are those that the constants define.
\<close>

definition ranked :: "(string \<Rightarrow> nat) \<Rightarrow> string list \<Rightarrow> expr smap \<Rightarrow> bool" where
  "ranked r ks cs \<longleftrightarrow> sorted_wrt (<) ks \<and> map fst cs = ks \<and>
     (\<forall>k e. map_of cs k = Some e \<longrightarrow> const_ok e \<and> (\<forall>x \<in> set (ids e) \<inter> set ks. r x < r k))"

definition solves :: "(string \<Rightarrow> 'c cval option) \<Rightarrow> (string \<Rightarrow> 'c cval list \<Rightarrow> 'c cval option) \<Rightarrow> expr smap \<Rightarrow> bool" where
  "solves V F cs \<longleftrightarrow> (\<forall>k e. map_of cs k = Some e \<longrightarrow> den V F e = V k)"

definition closed_const :: "expr smap \<Rightarrow> string \<Rightarrow> bool" where
  "closed_const cs k \<longleftrightarrow> set (ids (the (map_of cs k))) \<inter> fst ` set cs = {}"

definition settled :: "expr smap \<Rightarrow> string \<Rightarrow> bool" where
  "settled cs k \<longleftrightarrow> closed_const cs k \<and> stable cs k"

lemma ranked_keys: "ranked r ks cs \<Longrightarrow> fst ` set cs = set ks"
  by (auto simp: ranked_def simp flip: set_map)

lemma ranked_lookup: "ranked r ks cs \<Longrightarrow> k \<in> set ks \<Longrightarrow> \<exists>e. map_of cs k = Some e"
  using ranked_keys [of r ks cs] by (metis map_of_eq_None_iff not_None_eq)

lemma ranked_ok: "ranked r ks cs \<Longrightarrow> map_of cs k = Some e \<Longrightarrow> const_ok e"
  by (simp add: ranked_def)

lemma const_subst_ok: "ranked r ks cs \<Longrightarrow> const_ok (const_subst cs x)"
  using ranked_ok [of r ks cs x] by (auto simp: const_subst_def const_ok_def copied_fresh safe_copied plain_copied split: option.splits)

lemma const_new_ok: "ranked r ks cs \<Longrightarrow> k \<in> set ks \<Longrightarrow> const_ok (const_new cs k)"
  using ranked_lookup [of r ks cs k] ranked_ok [of r ks cs k] const_subst_ok [of r ks cs]
  by (auto simp: const_ok_def const_new_def subst_fresh subst_safe plain_subst)

lemma const_new_ids:
  assumes "ranked r ks cs" and "map_of cs k = Some e" and "y \<in> set (ids (const_new cs k)) \<inter> set ks"
  obtains x e' where "x \<in> set (ids e) \<inter> set ks" "map_of cs x = Some e'" "y \<in> set (ids e') \<inter> set ks"
proof -
  obtain x where x: "x \<in> set (ids e)" "y \<in> set (ids (const_subst cs x))"
    using assms(2, 3) ids_subst [of "const_subst cs" e] by (auto simp: const_new_def)
  show thesis
  proof (cases "map_of cs x")
    case None
    then have "x \<notin> set ks" using ranked_lookup [OF assms(1), of x] by auto
    then show thesis using x(2) None assms(3) by (simp add: const_subst_def)
  next
    case (Some e')
    then have "x \<in> set ks" using ranked_keys [OF assms(1)] map_of_SomeD [of cs x e'] by force
    moreover have "y \<in> set (ids e')" using x(2) Some by (auto simp: const_subst_def)
    ultimately show thesis using that [of x e'] x(1) Some assms(3) by simp
  qed
qed

lemma ranked_step:
  assumes "ranked r ks cs" and "k \<in> set ks"
  shows "ranked r ks (step k cs)"
proof (cases "stable cs k")
  case False
  obtain e where e: "map_of cs k = Some e" using ranked_lookup [OF assms] by blast
  have "r y < r k" if y: "y \<in> set (ids (const_new cs k)) \<inter> set ks" for y
  proof -
    obtain x e' where x: "x \<in> set (ids e) \<inter> set ks" "map_of cs x = Some e'" "y \<in> set (ids e') \<inter> set ks"
      using const_new_ids [OF assms(1) e y] by blast
    then have "r x < r k" "r y < r x" using assms(1) e by (auto simp: ranked_def)
    then show ?thesis by simp
  qed
  then show ?thesis using assms False const_new_ok [OF assms] keys_smap_set [of cs k] ranked_keys [OF assms(1)]
    by (auto simp: ranked_def step_def)
qed (use assms in \<open>simp add: step_def\<close>)

lemma solves_step:
  assumes "ranked r ks cs" and "k \<in> set ks" and "solves V F cs"
  shows "solves V F (step k cs)"
proof -
  obtain e where e: "map_of cs k = Some e" "const_ok e" using ranked_lookup [OF assms(1, 2)] ranked_ok [OF assms(1)] by blast
  have "den V F (const_subst cs x) = V x" for x
    using assms(3) ranked_ok [OF assms(1), of x]
    by (auto simp: copied_den safe_fold_ok(1) const_subst_def solves_def const_ok_def split: option.splits)
  then have "den V F (const_new cs k) = den V F e"
    using e const_subst_ok [OF assms(1)] by (simp add: const_new_def subst_den const_ok_def)
  then show ?thesis using assms(3) e by (auto simp: solves_def step_def)
qed

text \<open>Progress: what mentions only closed constants becomes closed, what is closed becomes stable and stays so.\<close>

lemma const_new_closed:
  assumes "ranked r ks cs" and "k \<in> set ks" and "closed_const cs k"
  shows "const_new cs k = subst Id (the (map_of cs k))"
proof -
  have "const_subst cs x = Id x" if "x \<in> set (ids (the (map_of cs k)))" for x
  proof -
    have "map_of cs x = None" using assms(3) that by (auto simp: closed_const_def map_of_eq_None_iff)
    then show ?thesis by (simp add: const_subst_def)
  qed
  then show ?thesis unfolding const_new_def by (rule subst_no_ids)
qed

lemma closed_step:
  assumes "ranked r ks cs" and "k \<in> set ks" and "x \<in> set ks" and "closed_const cs x"
  shows "closed_const (step k cs) x"
proof (cases "x = k \<and> \<not> stable cs k")
  case True
  then have "set (ids (const_new cs k)) \<subseteq> set (ids (the (map_of cs k)))"
    using const_new_closed [OF assms(1, 2)] assms(4) ids_subst [of Id "the (map_of cs k)"] by auto
  then show ?thesis using assms True ranked_keys [OF assms(1)] by (auto simp: closed_const_def step_def)
next
  case False
  then show ?thesis using assms ranked_keys [OF assms(1)] by (auto simp: closed_const_def step_def)
qed

lemma stable_ids: "stable cs k \<Longrightarrow> ids (the (map_of cs k)) = ids (const_new cs k)"
  unfolding stable_def expr_eq_erase by (metis ids_erase ids_copied(1))

lemma closed_rank_step:
  assumes "ranked r ks cs" and "k \<in> set ks" and low: "\<And>x. x \<in> set ks \<Longrightarrow> r x < r k \<Longrightarrow> closed_const cs x"
  shows "closed_const (step k cs) k"
proof -
  obtain e where e: "map_of cs k = Some e" using ranked_lookup [OF assms(1, 2)] by blast
  have "set (ids (const_new cs k)) \<inter> set ks = {}"
  proof (rule ccontr)
    assume "set (ids (const_new cs k)) \<inter> set ks \<noteq> {}"
    then obtain y where "y \<in> set (ids (const_new cs k)) \<inter> set ks" by blast
    then obtain x e' where x: "x \<in> set (ids e) \<inter> set ks" "map_of cs x = Some e'" "y \<in> set (ids e') \<inter> set ks"
      using const_new_ids [OF assms(1) e] by blast
    then have "r x < r k" using assms(1) e by (auto simp: ranked_def)
    then show False using low [of x] x ranked_keys [OF assms(1)] by (auto simp: closed_const_def)
  qed
  then show ?thesis using assms(2) ranked_keys [OF assms(1)] stable_ids [of cs k] by (auto simp: closed_const_def step_def insert_absorb)
qed

lemma settled_step:
  assumes "ranked r ks cs" and "k \<in> set ks" and "closed_const cs k"
  shows "settled (step k cs) k"
proof (cases "stable cs k")
  case False
  let ?e = "the (map_of cs k)"
  have new: "const_new cs k = subst Id ?e" by (rule const_new_closed [OF assms])
  have cl: "closed_const (step k cs) k" by (rule closed_step [OF assms(1, 2, 2, 3)])
  have "const_new (step k cs) k = subst Id (const_new cs k)"
    using const_new_closed [OF ranked_step [OF assms(1, 2)] assms(2) cl] False by (simp add: step_def)
  then have "stable (step k cs) k" using False by (simp add: stable_def [of "step k cs"] expr_eq_erase new subst_Id_idem) (simp add: step_def new subst_Id_copied)
  then show ?thesis using cl by (simp add: settled_def)
qed (use assms(3) in \<open>simp add: settled_def step_def\<close>)

lemma settled_keep:
  assumes "ranked r ks cs" and "k \<in> set ks" and "x \<in> set ks" and "settled cs x"
  shows "settled (step k cs) x"
proof (cases "x = k")
  case False
  have cl: "closed_const cs x" "closed_const (step k cs) x" using assms closed_step by (auto simp: settled_def)
  have same: "map_of (step k cs) x = map_of cs x" using False by (simp add: step_def)
  have "const_new (step k cs) x = const_new cs x"
    using const_new_closed [OF ranked_step [OF assms(1, 2)] assms(3) cl(2)] const_new_closed [OF assms(1, 3) cl(1)] same by simp
  then show ?thesis using assms(4) cl(2) same by (simp add: settled_def stable_def)
qed (use assms in \<open>simp add: settled_def step_def\<close>)

lemma pass_ranked: "ranked r ks cs \<Longrightarrow> set xs \<subseteq> set ks \<Longrightarrow> ranked r ks (fst (pass xs cs u))"
  by (induction xs arbitrary: cs u) (simp_all add: ranked_step)

lemma pass_solves: "ranked r ks cs \<Longrightarrow> set xs \<subseteq> set ks \<Longrightarrow> solves V F cs \<Longrightarrow> solves V F (fst (pass xs cs u))"
  by (induction xs arbitrary: cs u) (simp_all add: ranked_step solves_step)

lemma pass_closed: "ranked r ks cs \<Longrightarrow> set xs \<subseteq> set ks \<Longrightarrow> x \<in> set ks \<Longrightarrow> closed_const cs x \<Longrightarrow> closed_const (fst (pass xs cs u)) x"
  by (induction xs arbitrary: cs u) (simp_all add: ranked_step closed_step)

lemma pass_settled: "ranked r ks cs \<Longrightarrow> set xs \<subseteq> set ks \<Longrightarrow> x \<in> set ks \<Longrightarrow> settled cs x \<Longrightarrow> settled (fst (pass xs cs u)) x"
  by (induction xs arbitrary: cs u) (simp_all add: ranked_step settled_keep)

lemma pass_closes:
  "ranked r ks cs \<Longrightarrow> set xs \<subseteq> set ks \<Longrightarrow> (\<And>x. x \<in> set ks \<Longrightarrow> r x < j \<Longrightarrow> closed_const cs x) \<Longrightarrow>
   k \<in> set xs \<Longrightarrow> r k \<le> j \<Longrightarrow> closed_const (fst (pass xs cs u)) k"
proof (induction xs arbitrary: cs u)
  case (Cons a xs)
  have st: "ranked r ks (step a cs)" using Cons.prems by (simp add: ranked_step)
  have low: "closed_const (step a cs) x" if "x \<in> set ks" "r x < j" for x
    using closed_step [of r ks cs a x] Cons.prems that by simp
  show ?case
  proof (cases "k = a")
    case True
    then have "closed_const (step a cs) a" using closed_rank_step [of r ks cs a] Cons.prems by simp
    then show ?thesis using pass_closed [OF st, of xs a] Cons.prems True by simp
  next
    case False
    then show ?thesis using Cons.IH [OF st _ low] Cons.prems by simp
  qed
qed simp

lemma pass_settles:
  "ranked r ks cs \<Longrightarrow> set xs \<subseteq> set ks \<Longrightarrow> k \<in> set xs \<Longrightarrow> closed_const cs k \<Longrightarrow> settled (fst (pass xs cs u)) k"
proof (induction xs arbitrary: cs u)
  case (Cons a xs)
  have st: "ranked r ks (step a cs)" using Cons.prems by (simp add: ranked_step)
  show ?case
  proof (cases "k = a")
    case True
    then show ?thesis using pass_settled [OF st, of xs a] settled_step [of r ks cs a] Cons.prems by simp
  next
    case False
    then show ?thesis using Cons.IH [OF st] closed_step [of r ks cs a k] Cons.prems by auto
  qed
qed simp

lemma pass_no_update: "\<not> snd (pass xs cs u) \<Longrightarrow> \<not> u \<and> fst (pass xs cs u) = cs"
proof (induction xs arbitrary: cs u)
  case (Cons a xs)
  then have "\<not> (u \<or> \<not> stable cs a)" "fst (pass xs (step a cs) (u \<or> \<not> stable cs a)) = step a cs" by (metis pass.simps(2))+
  then show ?case by (simp add: step_def)
qed simp

lemma pass_stable: "(\<And>k. k \<in> set xs \<Longrightarrow> stable cs k) \<Longrightarrow> pass xs cs u = (cs, u)"
  by (induction xs) (simp_all add: step_def)

section \<open>All passes\<close>

fun passes :: "nat \<Rightarrow> expr smap \<Rightarrow> unit + expr smap" where
  "passes 0 cs = Inl ()"
| "passes (Suc p) cs = (let (cs', updated) = pass (map fst cs) cs False in if \<not> updated then Inr cs' else passes p cs')"

text \<open>The state after \<open>t\<close> passes.\<close>

definition resolved_to :: "(string \<Rightarrow> nat) \<Rightarrow> string list \<Rightarrow> nat \<Rightarrow> expr smap \<Rightarrow> bool" where
  "resolved_to r ks t cs \<longleftrightarrow> ranked r ks cs \<and> (\<forall>k \<in> set ks. (r k \<le> t \<longrightarrow> closed_const cs k) \<and> (r k < t \<longrightarrow> settled cs k))"

lemma resolved_start:
  assumes "ranked r ks cs"
  shows "resolved_to r ks 0 cs"
proof -
  have "closed_const cs k" if k: "k \<in> set ks" "r k = 0" for k
  proof -
    obtain e where e: "map_of cs k = Some e" using ranked_lookup [OF assms k(1)] by blast
    then have "\<forall>x \<in> set (ids e) \<inter> set ks. r x < r k" using assms by (simp add: ranked_def)
    then have "set (ids e) \<inter> set ks = {}" using k(2) by auto
    then show ?thesis using e ranked_keys [OF assms] by (simp add: closed_const_def)
  qed
  then show ?thesis using assms by (simp add: resolved_to_def)
qed

lemma resolved_pass: "resolved_to r ks t cs \<Longrightarrow> resolved_to r ks (Suc t) (fst (pass ks cs u))"
  unfolding resolved_to_def
  using pass_ranked [of r ks cs ks u] pass_closes [of r ks cs ks "Suc t" _ u] pass_settles [of r ks cs ks _ u] by (auto simp: less_Suc_eq_le)

lemma passes_resolve:
  assumes "resolved_to r ks t cs" and "\<And>k. k \<in> set ks \<Longrightarrow> r k + 2 \<le> t + p" and "0 < p"
  shows "\<exists>cs'. passes p cs = Inr cs' \<and> ranked r ks cs' \<and> (\<forall>k \<in> set ks. closed_const cs' k) \<and> (\<forall>V. solves V F cs \<longrightarrow> solves V F cs')"
  using assms
proof (induction p arbitrary: t cs)
  case (Suc p)
  let ?cs = "fst (pass ks cs False)"
  have rk: "ranked r ks cs" "map fst cs = ks" using Suc.prems(1) by (auto simp: resolved_to_def ranked_def)
  have sol: "solves V F ?cs" if "solves V F cs" for V using pass_solves [OF rk(1) order_refl that] .
  show ?case
  proof (cases "snd (pass ks cs False)")
    case False
    then have "?cs = cs" using pass_no_update by blast
    then have "resolved_to r ks (t + m) cs" for m
      using Suc.prems(1) resolved_pass [of r ks _ cs False] by (induction m) auto
    then have "resolved_to r ks (t + Suc p) cs" by blast
    then have "\<forall>k \<in> set ks. closed_const cs k" using Suc.prems(2) by (fastforce simp: resolved_to_def)
    then show ?thesis using False \<open>?cs = cs\<close> rk by (auto simp: case_prod_beta Let_def)
  next
    case True
    have "p \<noteq> 0"
    proof
      assume "p = 0"
      then have "stable cs k" if "k \<in> set ks" for k using Suc.prems(1) Suc.prems(2) [OF that] that by (auto simp: resolved_to_def settled_def)
      then show False using True pass_stable [of ks cs False] by simp
    qed
    then obtain cs' where cs': "passes p ?cs = Inr cs'" "ranked r ks cs'" "\<forall>k \<in> set ks. closed_const cs' k"
        "\<forall>V. solves V F ?cs \<longrightarrow> solves V F cs'"
      using Suc.IH [OF resolved_pass [OF Suc.prems(1)], of False] Suc.prems(2) by auto
    have "passes (Suc p) cs = Inr cs'" using True cs'(1) rk(2) by (simp add: case_prod_beta Let_def)
    then show ?thesis using cs'(2-4) sol by blast
  qed
qed simp

text \<open>With enough fuel the model of the code computes these passes.\<close>

lemma apply_consts_from_eventually:
  "ranked r ks cs \<Longrightarrow> set xs \<subseteq> set ks \<Longrightarrow> eventually (\<lambda>n. apply_consts_from n xs cs u = Some (pass xs cs u)) sequentially"
proof (induction xs arbitrary: cs u)
  case (Cons k xs)
  obtain e where e: "map_of cs k = Some e" "const_ok e" using ranked_lookup [of r ks cs k] ranked_ok [of r ks cs k] Cons.prems by auto
  have "eventually (\<lambda>n. visit_const n cs x = Some (const_subst cs x)) sequentially" for x
  proof (cases "map_of cs x")
    case None
    then show ?thesis by (intro eventually_sequentiallyI [of 1]) (auto simp: visit_const_def const_subst_def Suc_le_eq gr0_conv_Suc)
  next
    case (Some d)
    then have "const_ok d" using ranked_ok [of r ks cs x d] Cons.prems by simp
    then show ?thesis using copy_eventually [of d] Some by (simp add: visit_const_def const_subst_def const_ok_def)
  qed
  then have "eventually (\<lambda>n. ExprRewriteAll n (visit_const n cs) e = Some (subst (const_subst cs) e)) sequentially"
    using ExprRewriteAll_eventually [of "const_subst cs" "\<lambda>n. visit_const n cs" e] const_subst_ok [OF Cons.prems(1)] e(2) by (simp add: const_ok_def)
  moreover have "eventually (\<lambda>n. copy_n n e = Some (copied e)) sequentially" using copy_eventually e(2) by (simp add: const_ok_def)
  moreover have "eventually (\<lambda>n. apply_consts_from n xs (step k cs) (u \<or> \<not> stable cs k) = Some (pass xs (step k cs) (u \<or> \<not> stable cs k))) sequentially"
    using Cons.prems by (intro Cons.IH) (simp_all add: ranked_step)
  ultimately have "eventually (\<lambda>n. ExprRewriteAll n (visit_const n cs) e = Some (subst (const_subst cs) e) \<and> copy_n n e = Some (copied e) \<and>
      apply_consts_from n xs (step k cs) (u \<or> \<not> stable cs k) = Some (pass xs (step k cs) (u \<or> \<not> stable cs k))) sequentially"
    by (simp add: eventually_conj)
  then show ?case
  proof (rule eventually_mono)
    fix n
    assume "ExprRewriteAll n (visit_const n cs) e = Some (subst (const_subst cs) e) \<and> copy_n n e = Some (copied e) \<and>
      apply_consts_from n xs (step k cs) (u \<or> \<not> stable cs k) = Some (pass xs (step k cs) (u \<or> \<not> stable cs k))"
    then show "apply_consts_from n (k # xs) cs u = Some (pass (k # xs) cs u)"
      using e(1) by (auto simp: expr_resolve_consts_def step_def stable_def const_new_def split: if_splits)
  qed
qed simp

lemma simplify_passes_eventually: "ranked r ks cs \<Longrightarrow> eventually (\<lambda>n. simplify_passes n p cs = Some (passes p cs)) sequentially"
proof (induction p arbitrary: cs)
  case (Suc p)
  have ks: "map fst cs = ks" using Suc.prems by (simp add: ranked_def)
  have "eventually (\<lambda>n. apply_consts_to_consts n cs = Some (pass ks cs False)) sequentially"
    using apply_consts_from_eventually [OF Suc.prems order_refl] by (simp add: apply_consts_to_consts_def ks)
  moreover have "eventually (\<lambda>n. simplify_passes n p (fst (pass ks cs False)) = Some (passes p (fst (pass ks cs False)))) sequentially"
    using Suc pass_ranked by blast
  ultimately have "eventually (\<lambda>n. apply_consts_to_consts n cs = Some (pass ks cs False) \<and>
      simplify_passes n p (fst (pass ks cs False)) = Some (passes p (fst (pass ks cs False)))) sequentially" by (rule eventually_conj)
  then show ?case by (rule eventually_mono) (auto simp: ks case_prod_beta Let_def)
qed simp





section \<open>Widths\<close>

definition widths_ok :: "nat smap \<Rightarrow> bool" where
  "widths_ok ctypes \<longleftrightarrow> (\<forall>t bits. map_of ctypes t = Some bits \<longrightarrow> 1 \<le> bits \<and> bits \<le> 64)"

definition typedefs_ok :: "nat smap \<Rightarrow> string smap \<Rightarrow> bool" where
  "typedefs_ok ctypes deftypes \<longleftrightarrow> (\<forall>t target. map_of deftypes t = Some target \<longrightarrow>
     map_of deftypes target = None \<and> map_of ctypes t \<noteq> None \<and> map_of ctypes target \<noteq> None)"

lemma widths_set: "widths_ok m \<Longrightarrow> 1 \<le> b \<Longrightarrow> b \<le> 64 \<Longrightarrow> widths_ok (smap_set k b m)"
  by (simp add: widths_ok_def)

lemma widths_fold: "widths_ok m \<Longrightarrow> (\<And>x. x \<in> set xs \<Longrightarrow> 1 \<le> g x \<and> g x \<le> 64) \<Longrightarrow> widths_ok (fold (\<lambda>x. smap_set (f x) (g x)) xs m)"
  by (induction xs arbitrary: m) (simp_all add: widths_set)

lemma load_primitive_widths: "widths_ok ctypes \<Longrightarrow> widths_ok (load_primitive_ptypes ctypes)"
  unfolding load_primitive_ptypes_def case_prod_beta by (intro widths_fold) (auto simp: prim_ptypes_def)

lemma load_def_types_ok:
  "widths_ok (fst maps) \<Longrightarrow> typedefs_ok (fst maps) (snd maps) \<Longrightarrow> load_def_types gb maps = (ctypes, deftypes) \<Longrightarrow>
   widths_ok ctypes \<and> typedefs_ok ctypes deftypes"
proof (induction gb maps rule: load_def_types.induct)
  case (2 name target gb ct dt)
  have "widths_ok (smap_set name bits ct) \<and> typedefs_ok (smap_set name bits ct) (smap_set name target dt)"
    if "map_of ct name = None" "map_of dt target = None" "map_of ct target = Some bits" for bits
  proof
    show "widths_ok (smap_set name bits ct)" using 2(6) that(3) by (simp add: widths_ok_def)
    have "map_of dt t \<noteq> Some name" for t
      using 2(7) that(1) unfolding typedefs_ok_def fst_conv snd_conv by blast
    then show "typedefs_ok (smap_set name bits ct) (smap_set name target dt)" using 2(7) that by (auto simp: typedefs_ok_def)
  qed
  then show ?case using 2 by (auto split: if_splits option.splits)
qed auto

lemma load_enums_ok:
  "widths_ok (snd maps) \<Longrightarrow> typedefs_ok (snd maps) dt \<Longrightarrow> load_enums gb maps = (cs, ctypes) \<Longrightarrow> widths_ok ctypes \<and> typedefs_ok ctypes dt"
proof (induction gb maps rule: load_enums.induct)
  case (2 name type ents gb cs' ct)
  have "widths_ok (smap_set name bits ct) \<and> typedefs_ok (smap_set name bits ct) dt" if "map_of ct type = Some bits" for bits
    using 2(3,4) that by (auto simp: widths_ok_def typedefs_ok_def)
  then show ?case using 2 by (auto simp: Let_def split: option.splits)
qed auto

text \<open>
  After the compiler has read the type definitions and the enumerations, every type of a fixed width is between 1 and
  64 bits wide, and every typedef is a type of a fixed width whose target is one as well and is no typedef itself.
\<close>

theorem setup_constants_widths:
  assumes "setup_constants n gb = Some (cs, ctypes, deftypes)"
  shows "widths_ok ctypes \<and> typedefs_ok ctypes deftypes"
proof -
  obtain ct dt where l: "load_def_types gb (load_primitive_ptypes [], []) = (ct, dt)" by (rule prod.exhaust)
  have "widths_ok []" "typedefs_ok (load_primitive_ptypes []) []" by (simp_all add: widths_ok_def typedefs_ok_def)
  then have "widths_ok ct \<and> typedefs_ok ct dt" by (intro load_def_types_ok [OF _ _ l]) (simp_all only: fst_conv snd_conv load_primitive_widths)
  moreover obtain cs0 where c0: "load_constants n gb [] = Some cs0"
    using assms by (cases "load_constants n gb []") (simp_all add: setup_constants_def l)
  moreover obtain cs1 ct1 where e: "load_enums gb (cs0, ct) = (cs1, ct1)" by (rule prod.exhaust)
  moreover have "ctypes = ct1" "deftypes = dt" using assms by (auto simp: setup_constants_def l c0 e bind_eq_Some_conv)
  ultimately show ?thesis using load_enums_ok [of "(cs0, ct)" dt gb cs1 ct1] by simp
qed

theorem setup_constants_widths_witness:
  "setup_constants 2 [ConstVar ''A'' (Id ''true'')] =
     Some (Inr [(''A'', Boolean True), (''false'', Boolean False), (''true'', Boolean True)], load_primitive_ptypes [], []) \<and>
   widths_ok (load_primitive_ptypes [])"
proof -
  have "setup_constants 2 [ConstVar ''A'' (Id ''true'')] =
     Some (Inr [(''A'', Boolean True), (''false'', Boolean False), (''true'', Boolean True)], load_primitive_ptypes [], [])"
    by (simp add: setup_constants_def load_constants_def simplify_constants_def MAX_PASSES_def eval_nat_numeral apply_consts_to_consts_def
        expr_resolve_consts_def visit_const_def)
  then show ?thesis using setup_constants_widths by blast
qed

end
