(* ===== verification/CThunk.thy ===== *)
theory CThunk
  imports CConst
begin

text \<open>
  How the compiler lays out a type (\<open>compiler/symtab_thunkbuilder.cc\<close>, \<open>thunk_field.cc\<close>, \<open>thunk_type.cc\<close>, \<open>thunk_func.cc\<close> and their
  headers, \<open>symtab.cc\<close>, \<open>runtime_interface.cc\<close>): for every field it makes functions that compute the offset, the size of an
  element and the number of elements. The functions of a field call those of the field before it.

  \<^item> A field is a record. A function is an expression, or a condition with two expressions, under its name in the table of
    the type; a table is an ordered map. The first function of a name stays.
  \<^item> Copying a field makes the same expressions again (\<open>copied_idem\<close>), so it is not written out. \<open>simplified\<close> is what
    \<open>simplify\<close> returns (\<open>simplified_run\<close>), None where folding is undefined.
  \<^item> None is an abort, \<open>exit\<close>, or the use of freed memory: in a union \<open>copyCurrentOffset\<close> hands out the expression it keeps,
    and every caller frees it.
  \<^item> A type is known by its name, its number, the number of its arguments, and whether it is a union. Counters are naturals:
    a description has fewer than \<open>2 ^ 32\<close> fields.
\<close>

section \<open>Types and their statements\<close>

record utype =
  ut_name :: string
  ut_num :: "64 word"
  ut_args :: nat
  ut_union :: bool

record tctx =
  types_map :: "string \<rightharpoonup> utype"
  ctypes_map :: "string \<rightharpoonup> nat"

datatype tstmt =
    TypeDecl string string "(expr \<times> bool) option" bool
  | TypeParamDecl string "expr list" string "(expr \<times> bool) option"
  | TypeCond condexpr tstmt "tstmt option"
  | TypeBlock "tstmt list"
  | TypeUnion "tstmt list" string "expr option"
  | TypeFunc string "expr list"

section \<open>Functions of a type\<close>

datatype thunk_off = Off expr | OffCond condexpr expr "expr option"

datatype thunk_size = SizeExpr expr | SizeType utype

datatype thunk_func =
    FOff thunk_off
  | FSize thunk_size
  | FElems expr bool bool
  | FParams "expr list option"
  | FTypeSize expr

record thunk_field =
  tf_name :: string
  tf_off :: thunk_off
  tf_size :: thunk_size
  tf_elems :: expr
  tf_fixed :: bool
  tf_nofollow :: bool
  tf_params :: "expr list option"
  tf_num :: nat

definition TF_FIELDNUM_NONE :: nat where
  "TF_FIELDNUM_NONE = 2 ^ 32 - 1"

definition ThunkClosure :: expr where
  "ThunkClosure = Id ''__thunk_closure''"

definition ThunkArgOffset :: expr where
  "ThunkArgOffset = Id ''__thunk_arg_off''"

definition ThunkArgIdx :: expr where
  "ThunkArgIdx = Id ''__thunkparamsf_idx''"

definition rt_fail :: expr where
  "rt_fail = FCall ''fsl_fail'' [Number 0]"

definition from_base_fc :: expr where
  "from_base_fc = FCall ''from_base_bits'' []"

definition simplified :: "expr \<Rightarrow> expr option" where
  "simplified e = (if fold_ok e then Some (folded e) else None)"

definition getFCallName :: "string \<Rightarrow> string \<Rightarrow> string \<Rightarrow> string" where
  "getFCallName prefix T fieldname = ''__'' @ prefix @ ''_'' @ T @ ''_'' @ fieldname"

abbreviation off_name :: "string \<Rightarrow> string \<Rightarrow> string" where
  "off_name \<equiv> getFCallName ''thunkfieldoff''"

abbreviation size_name :: "string \<Rightarrow> string \<Rightarrow> string" where
  "size_name \<equiv> getFCallName ''thunkfieldsize''"

abbreviation elems_name :: "string \<Rightarrow> string \<Rightarrow> string" where
  "elems_name \<equiv> getFCallName ''thunkelems''"

definition params_name :: "string \<Rightarrow> thunk_field \<Rightarrow> string" where
  "params_name T tf = (case tf_params tf of None \<Rightarrow> ''__thunkparams_empty'' | Some es \<Rightarrow> getFCallName ''thunkparams'' T (tf_name tf))"

definition typesize_name :: "string \<Rightarrow> string" where
  "typesize_name T = ''__typesize_'' @ T"

definition copyFCall :: "string \<Rightarrow> expr" where
  "copyFCall name = FCall name [ThunkClosure]"

definition isSingleton :: "expr \<Rightarrow> bool" where
  "isSingleton e = (case e of Number n \<Rightarrow> n = 1 | _ \<Rightarrow> False)"

definition rt_computeArrayBits :: "utype \<Rightarrow> thunk_field \<Rightarrow> expr" where
  "rt_computeArrayBits t tf = FCall ''__computeArrayBits''
     [Number (ut_num t), ThunkClosure, Number (of_nat (tf_num tf)), copyFCall (elems_name (ut_name t) (tf_name tf))]"

definition copyNumBits :: "utype \<Rightarrow> thunk_field \<Rightarrow> expr" where
  "copyNumBits t tf =
     (let sz = copyFCall (size_name (ut_name t) (tf_name tf)); elems = copyFCall (elems_name (ut_name t) (tf_name tf)) in
      if isSingleton (tf_elems tf) then sz
      else case tf_size tf of
          SizeExpr e \<Rightarrow> BinArithOp AOPMul sz elems False
        | SizeType ft \<Rightarrow>
            if ut_union ft then BinArithOp AOPMul sz elems False
            else if tf_fixed tf then BinArithOp AOPMul sz elems False
            else rt_computeArrayBits t tf)"

definition copyNextOffset :: "utype \<Rightarrow> thunk_field \<Rightarrow> expr option" where
  "copyNextOffset t tf = map_option take_new (rewrite ThunkArgIdx (Some (Number 0))
     (BinArithOp AOPAdd (copyFCall (off_name (ut_name t) (tf_name tf))) (copyNumBits t tf) False))"

definition registerFunc :: "string \<Rightarrow> thunk_func \<Rightarrow> thunk_func smap \<Rightarrow> thunk_func smap" where
  "registerFunc name f funcs = (if map_of funcs name \<noteq> None then funcs else smap_set name f funcs)"

definition setFields :: "string \<Rightarrow> thunk_field \<Rightarrow> thunk_func smap \<Rightarrow> thunk_func smap" where
  "setFields T tf funcs =
     (let funcs = registerFunc (off_name T (tf_name tf)) (FOff (tf_off tf)) funcs;
          funcs = registerFunc (size_name T (tf_name tf)) (FSize (tf_size tf)) funcs;
          funcs = registerFunc (elems_name T (tf_name tf)) (FElems (tf_elems tf) (tf_fixed tf) (tf_nofollow tf)) funcs in
      registerFunc (params_name T tf) (FParams (tf_params tf)) funcs)"

section \<open>Symbol tables and the builder\<close>

record sym_ent =
  se_type :: string
  se_field :: string
  se_thunk :: thunk_field
  se_weak :: bool
  se_cond :: bool

record symtab =
  st_owner :: utype
  st_funcs :: "thunk_func smap"
  st_num_fields :: nat
  st_syms :: "sym_ent list"

record tbuilder =
  tb_type :: utype
  tb_funcs :: "thunk_func smap"
  tb_num_fields :: nat
  tb_syms :: "sym_ent list"
  tb_last :: thunk_field
  tb_union_off :: "expr option"
  tb_unions :: "symtab list"
  tb_conds :: "condexpr list"
  tb_union_c :: nat
  tb_weak_c :: nat
  tb_field_count :: nat

fun sym_lookup :: "string \<Rightarrow> sym_ent list \<Rightarrow> sym_ent option" where
  "sym_lookup name [] = None"
| "sym_lookup name (s # syms) = (if se_field s = name then Some s else sym_lookup name syms)"

definition sym_add :: "sym_ent \<Rightarrow> sym_ent list \<Rightarrow> sym_ent list option" where
  "sym_add s syms =
     (if sym_lookup (se_field s) syms \<noteq> None then Some syms
      else if \<not> se_weak s \<and> se_cond s then None
      else Some (syms @ [s]))"

abbreviation tb_name :: "tbuilder \<Rightarrow> string" where
  "tb_name tb \<equiv> ut_name (tb_type tb)"

definition copyCurrentOffset :: "tbuilder \<Rightarrow> expr option" where
  "copyCurrentOffset tb = (if 0 < tb_union_c tb then None else copyNextOffset (tb_type tb) (tb_last tb))"

definition copyFromBase :: "tbuilder \<Rightarrow> expr option" where
  "copyFromBase tb = do { cur \<leftarrow> copyCurrentOffset tb; Some (BinArithOp AOPSub cur ThunkArgOffset False) }"

definition getConds :: "condexpr list \<Rightarrow> condexpr option" where
  "getConds cs = (case cs of [] \<Rightarrow> None | c # cs' \<Rightarrow> if list_all cfold_ok cs then Some (foldl BOPAnd (ccopied c) (map ccopied cs')) else None)"

definition createInvisible :: "string \<Rightarrow> thunk_off \<Rightarrow> thunk_size \<Rightarrow> tbuilder \<Rightarrow> tbuilder" where
  "createInvisible fieldname off sz tb =
     (let tf = \<lparr>tf_name = fieldname, tf_off = off, tf_size = sz, tf_elems = Number 1, tf_fixed = False, tf_nofollow = False,
                tf_params = None, tf_num = TF_FIELDNUM_NONE\<rparr> in
      tb\<lparr>tb_funcs := setFields (tb_name tb) tf (tb_funcs tb), tb_last := tf\<rparr>)"

definition addThunk :: "string \<Rightarrow> string \<Rightarrow> thunk_field \<Rightarrow> tbuilder \<Rightarrow> tbuilder option" where
  "addThunk type_name field_name tf tb = do {
     let tb = tb\<lparr>tb_last := tf\<rparr>;
     syms \<leftarrow> sym_add \<lparr>se_type = type_name, se_field = field_name, se_thunk = tf, se_weak = 0 < tb_weak_c tb,
       se_cond = tb_conds tb \<noteq> []\<rparr> (tb_syms tb);
     Some (tb\<lparr>tb_syms := syms, tb_field_count := tb_field_count tb + 1\<rparr>)
   }"

text \<open>The constructor of a visible field: the functions are registered and the field gets the next number.\<close>

definition mk_field :: "thunk_field \<Rightarrow> tbuilder \<Rightarrow> thunk_field \<times> tbuilder" where
  "mk_field tf tb =
     (let tf = tf\<lparr>tf_num := tb_num_fields tb\<rparr> in
      (tf, tb\<lparr>tb_funcs := setFields (tb_name tb) tf (tb_funcs tb), tb_num_fields := tb_num_fields tb + 1\<rparr>))"

definition field_elems :: "expr \<Rightarrow> expr option \<Rightarrow> expr option" where
  "field_elems idx cur = do {
     idx \<leftarrow> simplified idx;
     ret \<leftarrow> rewrite from_base_fc cur idx;
     simplified (take_new ret)
   }"

definition field_off :: "tbuilder \<Rightarrow> thunk_off option" where
  "field_off tb = (case tb_union_off tb of
     Some u \<Rightarrow> if tb_conds tb \<noteq> [] then None else map_option Off (simplified (copied u))
   | None \<Rightarrow> do {
       cur \<leftarrow> copyCurrentOffset tb;
       if tb_conds tb = [] then map_option Off (simplified cur)
       else do { c \<leftarrow> getConds (tb_conds tb); Some (OffCond c cur (Some rt_fail)) }
     })"

definition field_size :: "tctx \<Rightarrow> string \<Rightarrow> thunk_size option" where
  "field_size cx type_str = (case types_map cx type_str of
     Some t \<Rightarrow> Some (SizeType t)
   | None \<Rightarrow> map_option (\<lambda>bits. SizeExpr (Number (of_nat bits))) (ctypes_map cx type_str))"

text \<open>None in the inner option: there are no parameters. None in the outer one: \<open>exit\<close>.\<close>

definition field_params :: "thunk_size \<Rightarrow> expr list option \<Rightarrow> expr list option option" where
  "field_params sz exprs = (case sz of
     SizeType t \<Rightarrow> if ut_args t \<noteq> 0
       then (case exprs of None \<Rightarrow> None | Some es \<Rightarrow> if ut_args t \<noteq> length es then None else Some (Some (map copied es)))
       else Some None
   | SizeExpr e \<Rightarrow> Some None)"

definition addToCurrentSymTab ::
  "tctx \<Rightarrow> string \<Rightarrow> string \<Rightarrow> (expr \<times> bool) option \<Rightarrow> bool \<Rightarrow> expr list option \<Rightarrow> tbuilder \<Rightarrow> tbuilder option" where
  "addToCurrentSymTab cx type_str field_name array no_follow exprs tb = do {
     off \<leftarrow> field_off tb;
     case field_size cx type_str of
       None \<Rightarrow> Some tb
     | Some sz \<Rightarrow> do {
         (elems, fixed) \<leftarrow> (case array of
             None \<Rightarrow> Some (Number 1, False)
           | Some (idx, fixed) \<Rightarrow> do {
               cur \<leftarrow> copyCurrentOffset tb;
               elems \<leftarrow> field_elems idx (simplified cur);
               Some (elems, fixed)
             });
         params \<leftarrow> field_params sz exprs;
         let (tf, tb) = mk_field \<lparr>tf_name = field_name, tf_off = off, tf_size = sz, tf_elems = elems, tf_fixed = fixed,
           tf_nofollow = no_follow, tf_params = params, tf_num = 0\<rparr> tb;
         addThunk type_str field_name tf tb
       }
   }"

section \<open>Statements that move the offset\<close>

text \<open>Number of arguments and prefix of the names of the generated fields.\<close>

definition tbf_map :: "string \<Rightarrow> (nat \<times> string) option" where
  "tbf_map = map_of
     [(''set_bytes'', 1, ''set_bytes''), (''set_bits'', 1, ''set_bits''), (''skip_bytes'', 1, ''skip_bytes''),
      (''skip_bits'', 1, ''skip_bits''), (''align_bits'', 1, ''align_bits''), (''align_bytes'', 1, ''align_bytes''),
      (''pad_phys_bytes'', 2, ''padphys_bytes'')]"

definition setupArgs :: "tbuilder \<Rightarrow> expr list \<Rightarrow> expr list option" where
  "setupArgs tb args = do {
     from_base \<leftarrow> copyFromBase tb;
     args \<leftarrow> mapM simplified args;
     rewrite_list from_base_fc (simplified from_base) args
   }"

definition getFuncName :: "string \<Rightarrow> nat \<Rightarrow> string" where
  "getFuncName func_prefix field_count = ''__'' @ func_prefix @ ''_'' @ dec field_count"

abbreviation times8 :: "expr \<Rightarrow> expr" where
  "times8 e \<equiv> BinArithOp AOPMul e (Number 8) False"

definition TBFSetBits :: "tbuilder \<Rightarrow> expr list \<Rightarrow> (expr \<times> expr) option" where
  "TBFSetBits tb args = do {
     a \<leftarrow> simplified (hd args);
     Some (BinArithOp AOPAdd ThunkArgOffset a False, Number 0)
   }"

definition TBFSetBytes :: "tbuilder \<Rightarrow> expr list \<Rightarrow> (expr \<times> expr) option" where
  "TBFSetBytes tb args = do {
     a \<leftarrow> simplified (hd args);
     Some (BinArithOp AOPAdd ThunkArgOffset (times8 a) False, Number 0)
   }"

definition TBFAlignBits :: "tbuilder \<Rightarrow> expr list \<Rightarrow> (expr \<times> expr) option" where
  "TBFAlignBits tb args = do {
     a \<leftarrow> simplified (hd args);
     from_base \<leftarrow> copyFromBase tb;
     cur \<leftarrow> copyCurrentOffset tb;
     Some (cur, BinArithOp AOPMod (BinArithOp AOPSub a from_base False) a False)
   }"

definition TBFAlignBytes :: "tbuilder \<Rightarrow> expr list \<Rightarrow> (expr \<times> expr) option" where
  "TBFAlignBytes tb args = do {
     a \<leftarrow> simplified (hd args);
     from_base \<leftarrow> copyFromBase tb;
     cur \<leftarrow> copyCurrentOffset tb;
     Some (cur, BinArithOp AOPMod (BinArithOp AOPSub (times8 a) from_base False) (times8 a) False)
   }"

definition TBFSkipBits :: "tbuilder \<Rightarrow> expr list \<Rightarrow> (expr \<times> expr) option" where
  "TBFSkipBits tb args = do {
     a \<leftarrow> simplified (hd args);
     cur \<leftarrow> copyCurrentOffset tb;
     Some (cur, a)
   }"

definition TBFSkipBytes :: "tbuilder \<Rightarrow> expr list \<Rightarrow> (expr \<times> expr) option" where
  "TBFSkipBytes tb args = do {
     a \<leftarrow> simplified (hd args);
     cur \<leftarrow> copyCurrentOffset tb;
     Some (cur, times8 a)
   }"

definition TBFPadPhysBytes :: "tbuilder \<Rightarrow> expr list \<Rightarrow> (expr \<times> expr) option" where
  "TBFPadPhysBytes tb args = do {
     a \<leftarrow> simplified (args ! 0);
     b \<leftarrow> simplified (args ! 1);
     cur \<leftarrow> copyCurrentOffset tb;
     let align_sz = times8 a;
     let min_space = times8 b;
     let rem_space = BinArithOp AOPSub (copied align_sz) (BinArithOp AOPMod (FCall ''__toPhys'' [ThunkClosure, folded cur]) align_sz False) False;
     Some (cur, CondVal (CmpOp LT (copied rem_space) (copied min_space)) rem_space (Number 0))
   }"

definition doIt :: "string \<Rightarrow> tbuilder \<Rightarrow> expr list \<Rightarrow> (expr \<times> expr) option" where
  "doIt name tb args =
     (if tb_conds tb \<noteq> [] then None
      else if name = ''set_bits'' then TBFSetBits tb args
      else if name = ''set_bytes'' then TBFSetBytes tb args
      else if name = ''align_bits'' then TBFAlignBits tb args
      else if name = ''align_bytes'' then TBFAlignBytes tb args
      else if name = ''skip_bits'' then TBFSkipBits tb args
      else if name = ''skip_bytes'' then TBFSkipBytes tb args
      else TBFPadPhysBytes tb args)"

definition visit_func :: "string \<Rightarrow> expr list \<Rightarrow> tbuilder \<Rightarrow> tbuilder option" where
  "visit_func name args tb = (case tbf_map name of
     None \<Rightarrow> Some tb
   | Some (num_args, prefix) \<Rightarrow> do {
       args \<leftarrow> setupArgs tb args;
       if length args \<noteq> num_args then Some tb
       else do {
         (off, sz) \<leftarrow> doIt name tb args;
         off \<leftarrow> simplified off;
         sz \<leftarrow> simplified sz;
         let tb = createInvisible (getFuncName prefix (tb_field_count tb)) (Off off) (SizeExpr sz) tb;
         Some (tb\<lparr>tb_field_count := tb_field_count tb + 1\<rparr>)
       }
     })"

section \<open>Conditions and unions\<close>

definition rebaseByCond :: "expr \<Rightarrow> condexpr \<Rightarrow> thunk_field \<Rightarrow> thunk_field option \<Rightarrow> tbuilder \<Rightarrow> tbuilder option" where
  "rebaseByCond initial_off c last_tf_true last_tf_false tb = do {
     let fieldname = ''__rebase_'' @ tb_name tb @ ''_'' @ dec (tb_field_count tb);
     let tb = tb\<lparr>tb_field_count := tb_field_count tb + 1\<rparr>;
     cond \<leftarrow> getConds (tb_conds tb @ [c]);
     next_off_true \<leftarrow> copyNextOffset (tb_type tb) last_tf_true;
     next_off_false \<leftarrow> (case last_tf_false of None \<Rightarrow> Some (copied initial_off) | Some tf \<Rightarrow> copyNextOffset (tb_type tb) tf);
     Some (createInvisible fieldname (OffCond cond next_off_true (Some next_off_false)) (SizeExpr (Number 0)) tb)
   }"

text \<open>A builder with the field \<open>__base\<close>, as both versions of \<open>getSymTab\<close> start.\<close>

definition base_builder :: "utype \<Rightarrow> tbuilder" where
  "base_builder t =
     (let tf = \<lparr>tf_name = ''__base'', tf_off = Off ThunkArgOffset, tf_size = SizeExpr (Number 0), tf_elems = Number 0, tf_fixed = False,
                tf_nofollow = False, tf_params = None, tf_num = TF_FIELDNUM_NONE\<rparr> in
      \<lparr>tb_type = t, tb_funcs = setFields (ut_name t) tf [], tb_num_fields = 0, tb_syms = [], tb_last = tf, tb_union_off = None,
       tb_unions = [], tb_conds = [], tb_union_c = 0, tb_weak_c = 0, tb_field_count = 0\<rparr>)"

definition finish_symtab :: "expr \<Rightarrow> tbuilder \<Rightarrow> symtab option" where
  "finish_symtab sz tb = do {
     sz \<leftarrow> simplified sz;
     Some \<lparr>st_owner = tb_type tb, st_funcs = registerFunc (typesize_name (tb_name tb)) (FTypeSize sz) (tb_funcs tb),
       st_num_fields = tb_num_fields tb, st_syms = tb_syms tb\<rparr>
   }"

definition maxValue :: "expr list \<Rightarrow> expr" where
  "maxValue es = FCall (''__max'' @ dec (length es)) es"

definition union_type :: "utype \<Rightarrow> string \<Rightarrow> utype" where
  "union_type owner name = \<lparr>ut_name = ''__union_'' @ ut_name owner @ ''_'' @ name, ut_num = - 1, ut_args = ut_args owner, ut_union = True\<rparr>"

definition getTypeFromUnionSyms :: "string \<Rightarrow> tbuilder \<Rightarrow> utype option" where
  "getTypeFromUnionSyms field_name tb =
     find (\<lambda>t. ut_name t = ''__union_'' @ tb_name tb @ ''_'' @ field_name) (map st_owner (tb_unions tb))"

definition addUnionToSymTab :: "string \<Rightarrow> expr option \<Rightarrow> tbuilder \<Rightarrow> tbuilder option" where
  "addUnionToSymTab field_name array tb = do {
     u \<leftarrow> tb_union_off tb;
     off \<leftarrow> simplified (copied u);
     t \<leftarrow> getTypeFromUnionSyms field_name tb;
     (elems, fixed) \<leftarrow> (case array of
         None \<Rightarrow> Some (Number 1, False)
       | Some idx \<Rightarrow> do { elems \<leftarrow> field_elems idx (simplified (copied u)); Some (elems, True) });
     if ut_args t \<noteq> 0 then None else do {
       let (tf, tb) = mk_field \<lparr>tf_name = field_name, tf_off = Off off, tf_size = SizeType t, tf_elems = elems, tf_fixed = fixed,
         tf_nofollow = False, tf_params = None, tf_num = 0\<rparr> tb;
       addThunk (ut_name t) field_name tf tb
     }
   }"

text \<open>
  \<open>visit\<close> has the type that owns the statements besides the builder, which in a union works for the type of the union.
\<close>

fun visit :: "tctx \<Rightarrow> utype \<Rightarrow> tstmt \<Rightarrow> tbuilder \<Rightarrow> tbuilder option" and visit_all :: "tctx \<Rightarrow> utype \<Rightarrow> tstmt list \<Rightarrow> tbuilder \<Rightarrow> tbuilder option" where
  "visit cx owner (TypeDecl type name array nofollow) tb = addToCurrentSymTab cx type name array nofollow None tb"
| "visit cx owner (TypeParamDecl type args name array) tb = addToCurrentSymTab cx type name array False (Some args) tb"
| "visit cx owner (TypeCond c t f) tb = do {
     initial_off \<leftarrow> copyCurrentOffset tb;
     let conds = tb_conds tb;
     let initial_tf = tb_last tb;
     tb \<leftarrow> visit cx owner t (tb\<lparr>tb_weak_c := tb_weak_c tb + 1, tb_conds := conds @ [c]\<rparr>);
     let last_tf_true = tb_last tb;
     (last_tf_false, tb) \<leftarrow> (case f of
         None \<Rightarrow> Some (None, tb)
       | Some s \<Rightarrow> do {
           tb \<leftarrow> visit cx owner s (tb\<lparr>tb_last := initial_tf, tb_conds := conds @ [CondNot (ccopied c)]\<rparr>);
           Some (Some (tb_last tb), tb)
         });
     rebaseByCond initial_off c last_tf_true last_tf_false (tb\<lparr>tb_weak_c := tb_weak_c tb - 1, tb_conds := conds\<rparr>)
   }"
| "visit cx owner (TypeBlock ss) tb = visit_all cx owner ss tb"
| "visit cx owner (TypeUnion ss name array) tb =
     (if 1 < tb_union_c tb then None else do {
       u \<leftarrow> (if tb_union_c tb = 0 then copyCurrentOffset tb else tb_union_off tb);
       tb \<leftarrow> visit_all cx owner ss (tb\<lparr>tb_union_off := Some u, tb_weak_c := tb_weak_c tb + 1, tb_union_c := tb_union_c tb + 1\<rparr>);
       let tb = tb\<lparr>tb_weak_c := tb_weak_c tb - 1, tb_union_c := tb_union_c tb - 1\<rparr>;
       let ub = base_builder (union_type owner name);
       uoff \<leftarrow> copyCurrentOffset ub;
       ub \<leftarrow> visit_all cx owner ss (ub\<lparr>tb_union_off := Some uoff, tb_union_c := 1, tb_weak_c := 1\<rparr>);
       st \<leftarrow> finish_symtab (maxValue (map (\<lambda>s. copyFCall (size_name (tb_name ub) (tf_name (se_thunk s)))) (tb_syms ub))) ub;
       tb \<leftarrow> addUnionToSymTab name array (tb\<lparr>tb_unions := tb_unions tb @ [st]\<rparr>);
       Some (if tb_union_c tb = 0 then tb\<lparr>tb_union_off := None\<rparr> else tb)
     })"
| "visit cx owner (TypeFunc name args) tb = visit_func name args tb"
| "visit_all cx owner [] tb = Some tb"
| "visit_all cx owner (s # ss) tb = do { tb \<leftarrow> visit cx owner s tb; visit_all cx owner ss tb }"

definition getSymTab :: "tctx \<Rightarrow> utype \<Rightarrow> tstmt list \<Rightarrow> (symtab \<times> symtab list) option" where
  "getSymTab cx t block = do {
     tb \<leftarrow> visit_all cx t block (base_builder t);
     last_off \<leftarrow> copyNextOffset (tb_type tb) (tb_last tb);
     st \<leftarrow> finish_symtab (BinArithOp AOPSub last_off ThunkArgOffset False) tb;
     Some (st, tb_unions tb)
   }"

section \<open>Folding, without the flags\<close>

lemma folded_den_ok:
  "fold_ok e \<Longrightarrow> den V F (copied e) = den V F e" "fold_ok e \<Longrightarrow> den V F (folded e) = den V F e" "cfold_ok c \<Longrightarrow> cden V F (ccopied c) = cden V F c"
proof (induction e and e and c rule: copied_folded_ccopied.induct)
  case (1 f es)
  then have "mapM (\<lambda>e. den V F (folded e)) es = mapM (den V F) es" by (intro mapM_cong) (auto simp: list_all_iff)
  then show ?case by (simp add: mapM_map)
next
  case (10 f es)
  then have "mapM (\<lambda>e. den V F (folded e)) es = mapM (den V F) es" by (intro mapM_cong) (auto simp: list_all_iff)
  then show ?case by (simp add: mapM_map)
next
  case (14 op l r fl)
  then show ?case
  proof (cases rule: mk_op_cases [of "folded l" "folded r" op])
    case (1 a b)
    then have "den V F l = Some (NumV a)" "den V F r = Some (NumV b)" "doOp op a b \<noteq> None" using 14 by auto
    then show ?thesis using 1 by (auto simp: num_op_def)
  qed simp
next
  case (23 f es)
  then have "mapM (\<lambda>e. den V F (folded e)) es = mapM (den V F) es" by (intro mapM_cong) (auto simp: list_all_iff)
  then show ?case by (simp add: mapM_map)
qed (auto cong: if_cong)

lemma simplified_den: "simplified e = Some r \<Longrightarrow> den V F r = den V F e"
  by (auto simp: simplified_def folded_den_ok split: if_splits)

lemma simplified_run: "fresh e \<Longrightarrow> simplified e = Some r \<Longrightarrow> size e < n \<Longrightarrow> \<exists>e'. simplify_n n e = Some (e', r)"
  using fold_run [of e n] by (auto simp: simplified_def split: if_splits)

section \<open>What the functions mean\<close>

text \<open>
  \<open>V\<close> gives the variables and the fields that an expression names, \<open>F\<close> the functions. \<open>models\<close>: for the instance \<open>clo\<close> the functions
  of a table have the values of their bodies. The size of a field whose type has a symbol table of its own and the
  parameters are left open.
\<close>

definition off_meaning :: "(string \<Rightarrow> 'c cval option) \<Rightarrow> (string \<Rightarrow> 'c cval list \<Rightarrow> 'c cval option) \<Rightarrow> thunk_off \<Rightarrow> 'c cval option" where
  "off_meaning V F off = (case off of
     Off e \<Rightarrow> den V F e
   | OffCond c t f \<Rightarrow> do { b \<leftarrow> cden V F c; if b then den V F t else (case f of None \<Rightarrow> Some (NumV 0) | Some f \<Rightarrow> den V F f) })"

definition agrees :: "(string \<Rightarrow> 'c cval option) \<Rightarrow> (string \<Rightarrow> 'c cval list \<Rightarrow> 'c cval option) \<Rightarrow> 'c cval option \<Rightarrow> thunk_func \<Rightarrow> bool" where
  "agrees V F v f = (case f of
     FOff off \<Rightarrow> v = off_meaning V F off
   | FSize (SizeExpr e) \<Rightarrow> v = den V F e
   | FSize (SizeType t) \<Rightarrow> True
   | FElems e fixed nofollow \<Rightarrow> v = den V F e
   | FParams es \<Rightarrow> True
   | FTypeSize e \<Rightarrow> v = den V F e)"

definition models :: "(string \<Rightarrow> 'c cval option) \<Rightarrow> (string \<Rightarrow> 'c cval list \<Rightarrow> 'c cval option) \<Rightarrow> 'c \<Rightarrow> (string \<rightharpoonup> thunk_func) \<Rightarrow> bool" where
  "models V F clo funcs \<longleftrightarrow> V ''__thunk_closure'' = Some (CloV clo) \<and> (\<forall>name f. funcs name = Some f \<longrightarrow> agrees V F (F name [CloV clo]) f)"

definition with_base :: "(string \<Rightarrow> 'c cval list \<Rightarrow> 'c cval option) \<Rightarrow> 'c cval option \<Rightarrow> string \<Rightarrow> 'c cval list \<Rightarrow> 'c cval option" where
  "with_base F v f vs = (if f = ''from_base_bits'' \<and> vs = [] then v else F f vs)"

fun num :: "'c cval \<Rightarrow> 64 word option" where
  "num (NumV n) = Some n"
| "num _ = None"

lemma num_Some [simp]: "num v = Some n \<longleftrightarrow> v = NumV n"
  by (cases v) auto

text \<open>Rewriting the call \<open>from_base_bits()\<close> gives it a value.\<close>

lemma rewrite_length: "rewrite_list t r es = Some es' \<Longrightarrow> length es' = length es"
  by (induction es arbitrary: es') (auto simp: bind_eq_Some_conv)

lemma mapM_length: "mapM f xs = Some ys \<Longrightarrow> length ys = length xs"
  by (simp add: mapM_Some)

lemma exprs_eq_Nil [simp]: "exprs_eq es [] \<longleftrightarrow> es = []"
  by (cases es) auto

lemma rewrite_base_den:
  "plain e \<Longrightarrow> rewrite from_base_fc (Some r) e = Some p \<Longrightarrow> den V F (take_new p) = den V (with_base F (den V F r)) e"
  "list_all plain es \<Longrightarrow> rewrite_list from_base_fc (Some r) es = Some es' \<Longrightarrow> mapM (den V F) es' = mapM (den V (with_base F (den V F r))) es"
proof (induction from_base_fc "Some r" e and from_base_fc "Some r" es arbitrary: p and es' rule: rewrite_rewrite_list.induct)
  case (1 f es)
  then obtain es' where es': "rewrite_list from_base_fc (Some r) es = Some es'" by (auto simp: bind_eq_Some_conv)
  then have m: "mapM (den V F) es' = mapM (den V (with_base F (den V F r))) es" using 1 by simp
  show ?case
  proof (cases "f = ''from_base_bits'' \<and> es = []")
    case True
    then show ?thesis using 1 by (auto simp: Expr_rewrite_def from_base_fc_def with_base_def)
  next
    case False
    then have "p = (FCall f es', None)"
      using 1 es' rewrite_length [OF es'] by (auto simp: Expr_rewrite_def from_base_fc_def split: if_splits)
    moreover have "with_base F (den V F r) f vs = F f vs" if "mapM (den V (with_base F (den V F r))) es = Some vs" for vs
      using False mapM_length [OF that] by (auto simp: with_base_def)
    ultimately show ?thesis using m by (cases "mapM (den V (with_base F (den V F r))) es") auto
  qed
qed (auto simp: Expr_rewrite_def from_base_fc_def Let_def bind_eq_Some_conv)

end
