(* ===== verification/CLayout.thy ===== *)
theory CLayout
  imports CThunk
begin

text \<open>
  The functions that the compiler makes for a type (\<open>CThunk\<close>) compute its layout. The reference \<open>lay\<close> walks over the
  statements of a type with the current offset: a field is at the current offset and moves it by its size, a condition takes one
  of its branches, the members of a union are at the same place. It is shown that the offset function of every field
  that is present returns its place in this walk, and the size function of the type the length of the walk.
\<close>

section \<open>The layout of a type\<close>

text \<open>The visible fields that the statements declare, in all branches.\<close>

fun fields :: "tctx \<Rightarrow> tstmt \<Rightarrow> string list" and fields_all :: "tctx \<Rightarrow> tstmt list \<Rightarrow> string list" where
  "fields cx (TypeDecl type name array nofollow) = (if field_size cx type = None then [] else [name])"
| "fields cx (TypeParamDecl type args name array) = (if field_size cx type = None then [] else [name])"
| "fields cx (TypeCond c t f) = fields cx t @ (case f of None \<Rightarrow> [] | Some s \<Rightarrow> fields cx s)"
| "fields cx (TypeBlock ss) = fields_all cx ss"
| "fields cx (TypeUnion ss name array) = fields_all cx ss @ [name]"
| "fields cx (TypeFunc name args) = []"
| "fields_all cx [] = []"
| "fields_all cx (s # ss) = fields cx s @ fields_all cx ss"

text \<open>
  The bits of a field. Arrays of a type without a fixed size are measured by the runtime.
\<close>

definition lay_bits ::
  "tctx \<Rightarrow> utype \<Rightarrow> (string \<Rightarrow> 'c cval option) \<Rightarrow> (string \<Rightarrow> 'c cval list \<Rightarrow> 'c cval option) \<Rightarrow> 'c \<Rightarrow>
   string \<Rightarrow> string \<Rightarrow> (expr \<times> bool) option \<Rightarrow> 64 word \<Rightarrow> nat \<Rightarrow> 64 word option" where
  "lay_bits cx t V F clo type name array cur fnum = do {
     sz \<leftarrow> (case types_map cx type of
         Some ft \<Rightarrow> F (size_name (ut_name t) name) [CloV clo] \<bind> num
       | None \<Rightarrow> map_option of_nat (ctypes_map cx type));
     case array of
       None \<Rightarrow> Some sz
     | Some (idx, fixed) \<Rightarrow> do {
         n \<leftarrow> den V (with_base F (Some (NumV cur))) idx \<bind> num;
         if folded idx = Number 1 then Some sz
         else case types_map cx type of
             None \<Rightarrow> Some (sz * n)
           | Some ft \<Rightarrow> if ut_union ft \<or> fixed then Some (sz * n)
               else F ''__computeArrayBits'' [NumV (ut_num t), CloV clo, NumV (of_nat fnum), NumV n] \<bind> num
       }
   }"

definition lay_union_bits ::
  "utype \<Rightarrow> (string \<Rightarrow> 'c cval option) \<Rightarrow> (string \<Rightarrow> 'c cval list \<Rightarrow> 'c cval option) \<Rightarrow> 'c \<Rightarrow> string \<Rightarrow> expr option \<Rightarrow> 64 word \<Rightarrow> 64 word option" where
  "lay_union_bits t V F clo name array cur = do {
     sz \<leftarrow> F (size_name (ut_name t) name) [CloV clo] \<bind> num;
     case array of
       None \<Rightarrow> Some sz
     | Some idx \<Rightarrow> do {
         n \<leftarrow> den V (with_base F (Some (NumV cur))) idx \<bind> num;
         Some (if folded idx = Number 1 then sz else sz * n)
       }
   }"

text \<open>The padding that moves an offset to the next multiple of \<open>a\<close>, as the compiler computes it.\<close>

definition align_pad :: "64 word \<Rightarrow> 64 word \<Rightarrow> 64 word option" where
  "align_pad a off = (if a = 0 then None else Some ((a - off) mod a))"

definition lay_func ::
  "(string \<Rightarrow> 'c cval option) \<Rightarrow> (string \<Rightarrow> 'c cval list \<Rightarrow> 'c cval option) \<Rightarrow> 'c \<Rightarrow> string \<Rightarrow> expr list \<Rightarrow> 64 word \<Rightarrow> 64 word \<Rightarrow> 64 word option" where
  "lay_func V F clo name args base cur = (case tbf_map name of
     None \<Rightarrow> Some cur
   | Some (num_args, prefix) \<Rightarrow>
       if length args \<noteq> num_args then Some cur
       else do {
         vs \<leftarrow> mapM (\<lambda>a. den V (with_base F (Some (NumV (cur - base)))) a \<bind> num) args;
         if name = ''set_bits'' then Some (base + vs ! 0)
         else if name = ''set_bytes'' then Some (base + vs ! 0 * 8)
         else if name = ''align_bits'' then map_option ((+) cur) (align_pad (vs ! 0) (cur - base))
         else if name = ''align_bytes'' then map_option ((+) cur) (align_pad (vs ! 0 * 8) (cur - base))
         else if name = ''skip_bits'' then Some (cur + vs ! 0)
         else if name = ''skip_bytes'' then Some (cur + vs ! 0 * 8)
         else do {
           phys \<leftarrow> F ''__toPhys'' [CloV clo, NumV cur] \<bind> num;
           if vs ! 0 * 8 = 0 then None
           else let rem_space = vs ! 0 * 8 - phys mod (vs ! 0 * 8) in Some (cur + (if rem_space < vs ! 1 * 8 then rem_space else 0))
         }
       })"

text \<open>
  The walk has the current offset and the number of the next field, and returns the fields that are present with their
  offsets.
\<close>

fun lay ::
  "tctx \<Rightarrow> utype \<Rightarrow> (string \<Rightarrow> 'c cval option) \<Rightarrow> (string \<Rightarrow> 'c cval list \<Rightarrow> 'c cval option) \<Rightarrow> 'c \<Rightarrow> 64 word \<Rightarrow>
   tstmt \<Rightarrow> 64 word \<Rightarrow> nat \<Rightarrow> ((string \<times> 64 word) list \<times> 64 word) option"
and lay_all ::
  "tctx \<Rightarrow> utype \<Rightarrow> (string \<Rightarrow> 'c cval option) \<Rightarrow> (string \<Rightarrow> 'c cval list \<Rightarrow> 'c cval option) \<Rightarrow> 'c \<Rightarrow> 64 word \<Rightarrow>
   tstmt list \<Rightarrow> 64 word \<Rightarrow> nat \<Rightarrow> ((string \<times> 64 word) list \<times> 64 word) option" where
  "lay cx t V F clo base (TypeDecl type name array nofollow) cur fnum =
     (if field_size cx type = None then Some ([], cur)
      else do { bits \<leftarrow> lay_bits cx t V F clo type name array cur fnum; Some ([(name, cur)], cur + bits) })"
| "lay cx t V F clo base (TypeParamDecl type args name array) cur fnum =
     (if field_size cx type = None then Some ([], cur)
      else do { bits \<leftarrow> lay_bits cx t V F clo type name array cur fnum; Some ([(name, cur)], cur + bits) })"
| "lay cx t V F clo base (TypeCond c s f) cur fnum = do {
     b \<leftarrow> cden V F c;
     if b then lay cx t V F clo base s cur fnum
     else case f of None \<Rightarrow> Some ([], cur) | Some s' \<Rightarrow> lay cx t V F clo base s' cur (fnum + length (fields cx s))
   }"
| "lay cx t V F clo base (TypeBlock ss) cur fnum = lay_all cx t V F clo base ss cur fnum"
| "lay cx t V F clo base (TypeUnion ss name array) cur fnum = do {
     bits \<leftarrow> lay_union_bits t V F clo name array cur;
     Some (map (\<lambda>f. (f, cur)) (fields_all cx ss @ [name]), cur + bits)
   }"
| "lay cx t V F clo base (TypeFunc name args) cur fnum = do {
     cur \<leftarrow> lay_func V F clo name args base cur;
     Some ([], cur)
   }"
| "lay_all cx t V F clo base [] cur fnum = Some ([], cur)"
| "lay_all cx t V F clo base (s # ss) cur fnum = do {
     (offs, cur) \<leftarrow> lay cx t V F clo base s cur fnum;
     (offs', cur) \<leftarrow> lay_all cx t V F clo base ss cur (fnum + length (fields cx s));
     Some (offs @ offs', cur)
   }"

section \<open>Names\<close>

definition digit_val :: "string \<Rightarrow> nat" where
  "digit_val s = foldl (\<lambda>a c. 10 * a + (of_char c - 48)) 0 s"

lemma digit_val_dec: "digit_val (dec n) = n"
proof (induction n rule: dec.induct)
  case (1 n)
  have d: "of_char (char_of (48 + m)) - 48 = m" if "m < 10" for m :: nat using that by simp
  show ?case
  proof (cases "n < 10")
    case True
    then show ?thesis using d [of n] by (subst dec.simps) (simp add: digit_val_def)
  next
    case False
    then have "digit_val (dec n) = 10 * digit_val (dec (n div 10)) + (of_char (char_of (48 + n mod 10)) - 48)"
      by (subst dec.simps) (simp add: digit_val_def)
    then show ?thesis using 1 [OF False] d [of "n mod 10"] by simp
  qed
qed

lemma dec_inject: "dec m = dec n \<longleftrightarrow> m = n"
  by (metis digit_val_dec)

text \<open>A field is in use when one of its functions has a name in the table.\<close>

definition used :: "string \<Rightarrow> (string \<rightharpoonup> thunk_func) \<Rightarrow> string \<Rightarrow> bool" where
  "used T funcs f \<longleftrightarrow> off_name T f \<in> dom funcs \<or> size_name T f \<in> dom funcs \<or> elems_name T f \<in> dom funcs"

definition user_name :: "string \<Rightarrow> bool" where
  "user_name f \<longleftrightarrow> take 2 f \<noteq> ''__''"

definition hidden :: "string \<Rightarrow> nat \<Rightarrow> string \<Rightarrow> bool" where
  "hidden T i f \<longleftrightarrow> f = ''__rebase_'' @ T @ ''_'' @ dec i \<or> (\<exists>name k p. tbf_map name = Some (k, p) \<and> f = getFuncName p i)"

lemma tbf_map_prefix:
  "tbf_map name = Some (k, p) \<Longrightarrow>
   p \<in> {''set_bytes'', ''set_bits'', ''skip_bytes'', ''skip_bits'', ''align_bits'', ''align_bytes'', ''padphys_bytes''}"
  by (auto simp: tbf_map_def split: if_splits)

lemma hidden_not_user: "hidden T i f \<Longrightarrow> \<not> user_name f \<and> f \<noteq> ''__base''"
  by (auto simp: hidden_def user_name_def getFuncName_def dest!: tbf_map_prefix)

lemma hidden_inject: "hidden T i f \<Longrightarrow> hidden T j f \<Longrightarrow> i = j"
  by (auto simp: hidden_def getFuncName_def dec_inject dest!: tbf_map_prefix)

lemmas name_defs = getFCallName_def params_name_def typesize_name_def

lemma names_inject [simp]:
  "getFCallName p T f = getFCallName p T g \<longleftrightarrow> f = g"
  by (simp add: getFCallName_def)

lemma names_differ [simp]:
  "off_name T f \<noteq> size_name T g" "size_name T f \<noteq> off_name T g" "off_name T f \<noteq> elems_name T g" "elems_name T f \<noteq> off_name T g"
  "size_name T f \<noteq> elems_name T g" "elems_name T f \<noteq> size_name T g"
  "params_name T tf \<noteq> off_name T g" "params_name T tf \<noteq> size_name T g" "params_name T tf \<noteq> elems_name T g"
  "off_name T g \<noteq> params_name T tf" "size_name T g \<noteq> params_name T tf" "elems_name T g \<noteq> params_name T tf"
  "typesize_name T \<noteq> off_name T g" "typesize_name T \<noteq> size_name T g" "typesize_name T \<noteq> elems_name T g" "typesize_name T \<noteq> params_name T tf"
  by (simp_all add: name_defs split: option.splits)

section \<open>Tables grow\<close>

lemma map_of_registerFunc: "map_of (registerFunc n f m) = (if n \<in> dom (map_of m) then map_of m else (map_of m)(n \<mapsto> f))"
  by (auto simp: registerFunc_def domIff)

lemma registerFunc_le: "map_of m \<subseteq>\<^sub>m map_of (registerFunc n f m)"
  by (auto simp: map_of_registerFunc map_le_def)

lemma setFields_le: "map_of m \<subseteq>\<^sub>m map_of (setFields T tf m)"
  unfolding setFields_def Let_def by (meson registerFunc_le map_le_trans)

lemma setFields_new:
  assumes "\<not> used T (map_of m) (tf_name tf)"
  shows "map_of (setFields T tf m) (off_name T (tf_name tf)) = Some (FOff (tf_off tf))"
    and "map_of (setFields T tf m) (size_name T (tf_name tf)) = Some (FSize (tf_size tf))"
    and "map_of (setFields T tf m) (elems_name T (tf_name tf)) = Some (FElems (tf_elems tf) (tf_fixed tf) (tf_nofollow tf))"
  using assms by (auto simp: setFields_def Let_def map_of_registerFunc used_def domIff)

lemma setFields_used: "used T (map_of (setFields T tf m)) f \<longleftrightarrow> used T (map_of m) f \<or> f = tf_name tf"
  by (auto simp: setFields_def Let_def map_of_registerFunc used_def domIff)

lemma setFields_typesize: "map_of (setFields T tf m) (typesize_name T) = map_of m (typesize_name T)"
  by (simp add: setFields_def Let_def map_of_registerFunc)

definition grows :: "tbuilder \<Rightarrow> tbuilder \<Rightarrow> bool" where
  "grows tb tb' \<longleftrightarrow> tb_type tb' = tb_type tb \<and> map_of (tb_funcs tb) \<subseteq>\<^sub>m map_of (tb_funcs tb') \<and> tb_field_count tb \<le> tb_field_count tb'"

definition same_ctx :: "tbuilder \<Rightarrow> tbuilder \<Rightarrow> bool" where
  "same_ctx tb tb' \<longleftrightarrow> tb_conds tb' = tb_conds tb \<and> tb_union_c tb' = tb_union_c tb \<and> tb_union_off tb' = tb_union_off tb \<and> tb_weak_c tb' = tb_weak_c tb"

definition clean :: "string set \<Rightarrow> tbuilder \<Rightarrow> bool" where
  "clean U tb \<longleftrightarrow> map_of (tb_funcs tb) (typesize_name (tb_name tb)) = None \<and> (\<forall>f. used (tb_name tb) (map_of (tb_funcs tb)) f \<longrightarrow>
     f \<in> U \<or> f = ''__base'' \<or> (\<exists>i < tb_field_count tb. hidden (tb_name tb) i f))"

text \<open>\<open>adds n ns tb tb'\<close>: the builder has grown by \<open>n\<close> visible fields, which are among \<open>ns\<close>.\<close>

definition adds :: "string list \<Rightarrow> tbuilder \<Rightarrow> tbuilder \<Rightarrow> bool" where
  "adds ns tb tb' \<longleftrightarrow> grows tb tb' \<and> tb_num_fields tb' = tb_num_fields tb + length ns \<and> (\<forall>U. clean U tb \<longrightarrow> clean (U \<union> set ns) tb')"

lemma grows_refl [simp]: "grows tb tb"
  by (simp add: grows_def)

lemma grows_trans: "grows a b \<Longrightarrow> grows b c \<Longrightarrow> grows a c"
  by (auto simp: grows_def intro: map_le_trans)

lemma adds_refl [simp]: "adds [] tb tb"
  by (simp add: adds_def)

lemma adds_trans: "adds ns a b \<Longrightarrow> adds ms b c \<Longrightarrow> adds (ns @ ms) a c"
  by (auto simp: adds_def Un_assoc intro: grows_trans)

lemma adds_update [simp]:
  "adds ns (tb\<lparr>tb_last := l\<rparr>) tb' = adds ns tb tb'" "adds ns tb (tb'\<lparr>tb_last := l\<rparr>) = adds ns tb tb'"
  "adds ns (tb\<lparr>tb_conds := cs\<rparr>) tb' = adds ns tb tb'" "adds ns tb (tb'\<lparr>tb_conds := cs\<rparr>) = adds ns tb tb'"
  "adds ns (tb\<lparr>tb_weak_c := w\<rparr>) tb' = adds ns tb tb'" "adds ns tb (tb'\<lparr>tb_weak_c := w\<rparr>) = adds ns tb tb'"
  "adds ns (tb\<lparr>tb_union_c := w\<rparr>) tb' = adds ns tb tb'" "adds ns tb (tb'\<lparr>tb_union_c := w\<rparr>) = adds ns tb tb'"
  "adds ns (tb\<lparr>tb_union_off := u\<rparr>) tb' = adds ns tb tb'" "adds ns tb (tb'\<lparr>tb_union_off := u\<rparr>) = adds ns tb tb'"
  "adds ns (tb\<lparr>tb_unions := us\<rparr>) tb' = adds ns tb tb'" "adds ns tb (tb'\<lparr>tb_unions := us\<rparr>) = adds ns tb tb'"
  by (simp_all add: adds_def grows_def clean_def)

lemma clean_not_used:
  assumes "clean U tb" and "f \<notin> U" and "user_name f"
  shows "\<not> used (tb_name tb) (map_of (tb_funcs tb)) f"
  using assms hidden_not_user by (fastforce simp: clean_def user_name_def)

lemma clean_hidden_not_used:
  assumes "clean U tb" and "\<forall>f \<in> U. user_name f" and "hidden (tb_name tb) (tb_field_count tb) f"
  shows "\<not> used (tb_name tb) (map_of (tb_funcs tb)) f"
proof
  assume "used (tb_name tb) (map_of (tb_funcs tb)) f"
  then consider "f \<in> U" | "f = ''__base''" | i where "i < tb_field_count tb" "hidden (tb_name tb) i f" using assms(1) unfolding clean_def by blast
  then show False
  proof cases
    case 3
    then show False using hidden_inject [OF assms(3) 3(2)] by simp
  qed (use assms(2) hidden_not_user [OF assms(3)] in auto)
qed

text \<open>The steps that add one field.\<close>

lemma add_visible:
  assumes "tb' = tb\<lparr>tb_funcs := setFields (tb_name tb) tf (tb_funcs tb), tb_num_fields := Suc (tb_num_fields tb), tb_last := tf,
    tb_syms := syms, tb_field_count := Suc (tb_field_count tb)\<rparr>" and "tf_name tf = name"
  shows "adds [name] tb tb'"
  using assms by (auto simp: adds_def grows_def setFields_le clean_def setFields_typesize setFields_used less_Suc_eq)

lemma add_hidden:
  assumes "hidden (tb_name tb) (tb_field_count tb) fieldname"
  shows "adds [] tb ((createInvisible fieldname off sz tb)\<lparr>tb_field_count := Suc (tb_field_count tb)\<rparr>)"
  using assms by (auto simp: adds_def grows_def createInvisible_def Let_def setFields_le clean_def setFields_typesize setFields_used less_Suc_eq)

definition decl_elems :: "tbuilder \<Rightarrow> (expr \<times> bool) option \<Rightarrow> (expr \<times> bool) option" where
  "decl_elems tb array = (case array of
     None \<Rightarrow> Some (Number 1, False)
   | Some (idx, fixed) \<Rightarrow> do {
       cur \<leftarrow> copyCurrentOffset tb;
       elems \<leftarrow> field_elems idx (simplified cur);
       Some (elems, fixed)
     })"

lemma addToCurrentSymTab_step:
  assumes "addToCurrentSymTab cx type name array nofollow exprs tb = Some tb'" and "field_size cx type = Some sz"
  obtains tf syms where "tf_name tf = name" "tf_num tf = tb_num_fields tb" "field_off tb = Some (tf_off tf)" "tf_size tf = sz"
    "decl_elems tb array = Some (tf_elems tf, tf_fixed tf)"
    "tb' = tb\<lparr>tb_funcs := setFields (tb_name tb) tf (tb_funcs tb), tb_num_fields := Suc (tb_num_fields tb), tb_last := tf, tb_syms := syms,
      tb_field_count := Suc (tb_field_count tb)\<rparr>"
proof -
  let ?tf = "\<lambda>off a b ps. \<lparr>tf_name = name, tf_off = off, tf_size = sz, tf_elems = a, tf_fixed = b, tf_nofollow = nofollow, tf_params = ps,
    tf_num = tb_num_fields tb\<rparr>"
  obtain off a b ps syms where "field_off tb = Some off" "decl_elems tb array = Some (a, b)"
    "tb' = tb\<lparr>tb_funcs := setFields (tb_name tb) (?tf off a b ps) (tb_funcs tb), tb_num_fields := Suc (tb_num_fields tb), tb_last := ?tf off a b ps,
      tb_syms := syms, tb_field_count := Suc (tb_field_count tb)\<rparr>"
    using assms unfolding addToCurrentSymTab_def decl_elems_def [symmetric]
    by (auto simp: bind_eq_Some_conv mk_field_def addThunk_def Let_def)
  then show thesis by (intro that [of "?tf off a b ps" syms]) simp_all
qed

lemma addUnionToSymTab_step:
  assumes "addUnionToSymTab name array tb = Some tb'"
  obtains tf syms u off t where "tf_name tf = name" "tf_num tf = tb_num_fields tb" "tb_union_off tb = Some u" "simplified (copied u) = Some off"
    "tf_off tf = Off off" "tf_size tf = SizeType t" "getTypeFromUnionSyms name tb = Some t"
    "(case array of None \<Rightarrow> Some (Number 1, False) | Some idx \<Rightarrow> do { elems \<leftarrow> field_elems idx (simplified (copied u)); Some (elems, True) }) =
      Some (tf_elems tf, tf_fixed tf)"
    "tb' = tb\<lparr>tb_funcs := setFields (tb_name tb) tf (tb_funcs tb), tb_num_fields := Suc (tb_num_fields tb), tb_last := tf, tb_syms := syms,
      tb_field_count := Suc (tb_field_count tb)\<rparr>"
proof -
  let ?tf = "\<lambda>off t a b. \<lparr>tf_name = name, tf_off = Off off, tf_size = SizeType t, tf_elems = a, tf_fixed = b, tf_nofollow = False,
    tf_params = None, tf_num = tb_num_fields tb\<rparr>"
  obtain u off t a b syms where "tb_union_off tb = Some u" "simplified (copied u) = Some off" "getTypeFromUnionSyms name tb = Some t"
    "(case array of None \<Rightarrow> Some (Number 1, False) | Some idx \<Rightarrow> do { elems \<leftarrow> field_elems idx (simplified (copied u)); Some (elems, True) }) = Some (a, b)"
    "tb' = tb\<lparr>tb_funcs := setFields (tb_name tb) (?tf off t a b) (tb_funcs tb), tb_num_fields := Suc (tb_num_fields tb), tb_last := ?tf off t a b,
      tb_syms := syms, tb_field_count := Suc (tb_field_count tb)\<rparr>"
    using assms unfolding addUnionToSymTab_def
    by (auto simp: bind_eq_Some_conv mk_field_def addThunk_def Let_def split: if_splits prod.splits)
  then show thesis by (intro that [of "?tf off t a b" u off t syms]) simp_all
qed

lemma visit_func_step:
  assumes "visit_func name args tb = Some tb'"
  obtains "tb' = tb" "(\<exists>k p. tbf_map name = Some (k, p) \<and> length args = k) \<Longrightarrow> False"
  | k p args' off sz off' sz' where "tbf_map name = Some (k, p)" "setupArgs tb args = Some args'" "length args' = k" "doIt name tb args' = Some (off, sz)"
    "simplified off = Some off'" "simplified sz = Some sz'"
    "tb' = (createInvisible (getFuncName p (tb_field_count tb)) (Off off') (SizeExpr sz') tb)\<lparr>tb_field_count := Suc (tb_field_count tb)\<rparr>"
proof (cases "tbf_map name")
  case None
  then show thesis using assms that(1) by (simp add: visit_func_def)
next
  case (Some kp)
  obtain k p where kp: "kp = (k, p)" by (cases kp)
  obtain args' where args': "setupArgs tb args = Some args'" using assms Some kp by (auto simp: visit_func_def bind_eq_Some_conv)
  then have len: "length args' = length args"
    by (auto simp: setupArgs_def bind_eq_Some_conv dest!: rewrite_length mapM_length)
  show thesis
  proof (cases "length args' = k")
    case True
    then show thesis using assms Some kp args' that(2) [of k p args']
      by (auto simp: visit_func_def bind_eq_Some_conv createInvisible_def Let_def)
  next
    case False
    then show thesis using assms Some kp args' len that(1) by (simp add: visit_func_def)
  qed
qed

lemma rebaseByCond_step:
  assumes "rebaseByCond ioff c tf_t tf_f tb = Some tb'"
  obtains cond t f where "getConds (tb_conds tb @ [c]) = Some cond" "copyNextOffset (tb_type tb) tf_t = Some t"
    "(case tf_f of None \<Rightarrow> Some (copied ioff) | Some tf \<Rightarrow> copyNextOffset (tb_type tb) tf) = Some f"
    "tb' = (createInvisible (''__rebase_'' @ tb_name tb @ ''_'' @ dec (tb_field_count tb)) (OffCond cond t (Some f)) (SizeExpr (Number 0)) tb)
      \<lparr>tb_field_count := Suc (tb_field_count tb)\<rparr>"
proof -
  let ?n = "''__rebase_'' @ tb_name tb @ ''_'' @ dec (tb_field_count tb)"
  obtain cond t f where c: "getConds (tb_conds tb @ [c]) = Some cond" "copyNextOffset (tb_type tb) tf_t = Some t"
      "(case tf_f of None \<Rightarrow> Some (copied ioff) | Some tf \<Rightarrow> copyNextOffset (tb_type tb) tf) = Some f"
      "tb' = createInvisible ?n (OffCond cond t (Some f)) (SizeExpr (Number 0)) (tb\<lparr>tb_field_count := tb_field_count tb + 1\<rparr>)"
    using assms by (cases tf_f) (auto simp: rebaseByCond_def bind_eq_Some_conv Let_def)
  have "tb' = (createInvisible ?n (OffCond cond t (Some f)) (SizeExpr (Number 0)) tb)\<lparr>tb_field_count := Suc (tb_field_count tb)\<rparr>"
    unfolding c(4) createInvisible_def Let_def by (rule tbuilder.equality) simp_all
  with c show thesis by (intro that [of cond t f])
qed

lemma rebase_hidden: "hidden T i (''__rebase_'' @ T @ ''_'' @ dec i)"
  by (simp add: hidden_def)

lemma func_hidden: "tbf_map name = Some (k, p) \<Longrightarrow> hidden T i (getFuncName p i)"
  by (auto simp: hidden_def)

lemma same_ctx_simps [simp]:
  "same_ctx tb tb" "same_ctx tb (createInvisible n off sz tb)" "same_ctx tb (tb'\<lparr>tb_field_count := k\<rparr>) = same_ctx tb tb'"
  by (simp_all add: same_ctx_def createInvisible_def Let_def)

lemma same_ctx_trans: "same_ctx a b \<Longrightarrow> same_ctx b c \<Longrightarrow> same_ctx a c"
  by (simp add: same_ctx_def)

lemma visit_frame:
  "visit cx owner s tb = Some tb' \<Longrightarrow> (tb_union_c tb = 0 \<Longrightarrow> tb_union_off tb = None) \<Longrightarrow> adds (fields cx s) tb tb' \<and> same_ctx tb tb'"
  "visit_all cx owner ss tb = Some tb' \<Longrightarrow> (tb_union_c tb = 0 \<Longrightarrow> tb_union_off tb = None) \<Longrightarrow> adds (fields_all cx ss) tb tb' \<and> same_ctx tb tb'"
proof (induction cx owner s tb and cx owner ss tb arbitrary: tb' and tb' rule: visit_visit_all.induct)
  case (1 cx owner type name array nofollow tb)
  then show ?case
  proof (cases "field_size cx type")
    case None
    then show ?thesis using 1 by (auto simp: addToCurrentSymTab_def bind_eq_Some_conv)
  next
    case (Some sz)
    show ?thesis using addToCurrentSymTab_step [OF 1(1) [unfolded visit.simps] Some] Some add_visible by (fastforce simp: same_ctx_def)
  qed
next
  case (2 cx owner type args name array tb)
  then show ?case
  proof (cases "field_size cx type")
    case None
    then show ?thesis using 2 by (auto simp: addToCurrentSymTab_def bind_eq_Some_conv)
  next
    case (Some sz)
    show ?thesis using addToCurrentSymTab_step [OF 2(1) [unfolded visit.simps] Some] Some add_visible by (fastforce simp: same_ctx_def)
  qed
next
  case (6 cx owner name args tb)
  show ?case using visit_func_step [OF 6(1) [unfolded visit.simps]]
    by cases (auto intro!: add_hidden func_hidden)
next
  case (8 cx owner s ss tb)
  then obtain tb1 where tb1: "visit cx owner s tb = Some tb1" "visit_all cx owner ss tb1 = Some tb'" by (auto simp: bind_eq_Some_conv)
  have 1: "adds (fields cx s) tb tb1" "same_ctx tb tb1" using 8(1) [OF tb1(1) 8(4)] by auto
  then have "adds (fields_all cx ss) tb1 tb'" "same_ctx tb1 tb'" using 8(2) [OF tb1 ] 8(4) by (auto simp: same_ctx_def)
  then show ?case using 1 adds_trans same_ctx_trans by fastforce
next
  case (3 cx owner c t f tb)
  let ?t1 = "tb\<lparr>tb_weak_c := tb_weak_c tb + 1, tb_conds := tb_conds tb @ [c]\<rparr>"
  let ?t2 = "\<lambda>tb1. tb1\<lparr>tb_last := tb_last tb, tb_conds := tb_conds tb @ [CondNot (ccopied c)]\<rparr>"
  obtain ioff tb1 lf tb2 where v: "copyCurrentOffset tb = Some ioff" "visit cx owner t ?t1 = Some tb1"
      "(case f of None \<Rightarrow> Some (None, tb1) | Some s \<Rightarrow> do { tb \<leftarrow> visit cx owner s (?t2 tb1); Some (Some (tb_last tb), tb) }) = Some (lf, tb2)"
      "rebaseByCond ioff c (tb_last tb1) lf (tb2\<lparr>tb_weak_c := tb_weak_c tb2 - 1, tb_conds := tb_conds tb\<rparr>) = Some tb'"
    using 3(3) by (auto simp: Let_def bind_eq_Some_conv)
  have a1: "adds (fields cx t) ?t1 tb1 \<and> same_ctx ?t1 tb1" using 3(1) [OF v(1) refl refl v(2)] 3(4) by simp
  have a2: "adds (case f of None \<Rightarrow> [] | Some s \<Rightarrow> fields cx s) tb1 tb2 \<and> same_ctx (tb1\<lparr>tb_conds := tb_conds tb2\<rparr>) tb2"
  proof (cases f)
    case None
    then show ?thesis using v(3) by (simp add: same_ctx_def)
  next
    case (Some s)
    then have "visit cx owner s (?t2 tb1) = Some tb2" using v(3) by (auto simp: bind_eq_Some_conv)
    then show ?thesis using 3(2) [OF v(1) refl refl v(2) refl Some, of tb2] 3(4) a1 Some by (simp add: same_ctx_def)
  qed
  let ?t3 = "tb2\<lparr>tb_weak_c := tb_weak_c tb2 - 1, tb_conds := tb_conds tb\<rparr>"
  obtain off where tb': "tb' = (createInvisible (''__rebase_'' @ tb_name ?t3 @ ''_'' @ dec (tb_field_count ?t3)) off (SizeExpr (Number 0)) ?t3)
      \<lparr>tb_field_count := Suc (tb_field_count ?t3)\<rparr>"
    using rebaseByCond_step [OF v(4)] by metis
  have "adds [] ?t3 tb'" unfolding tb' by (intro add_hidden rebase_hidden)
  moreover have "same_ctx ?t3 tb'" unfolding tb' by simp
  ultimately show ?case using a1 a2 adds_trans [of "fields cx t" tb tb1 _ tb2] adds_trans [of _ tb tb2 "[]" tb'] by (simp add: same_ctx_def)
next
  case (5 cx owner ss name array tb)
  obtain u tb1 st tb2 where v: "\<not> 1 < tb_union_c tb" "(if tb_union_c tb = 0 then copyCurrentOffset tb else tb_union_off tb) = Some u"
      "visit_all cx owner ss (tb\<lparr>tb_union_off := Some u, tb_weak_c := tb_weak_c tb + 1, tb_union_c := tb_union_c tb + 1\<rparr>) = Some tb1"
      "addUnionToSymTab name array (tb1\<lparr>tb_weak_c := tb_weak_c tb1 - 1, tb_union_c := tb_union_c tb1 - 1, tb_unions := tb_unions tb1 @ [st]\<rparr>) = Some tb2"
      "tb' = (if tb_union_c tb2 = 0 then tb2\<lparr>tb_union_off := None\<rparr> else tb2)"
    using 5(3) by (auto simp: Let_def bind_eq_Some_conv split: if_splits)
  have a1: "adds (fields_all cx ss) tb tb1 \<and> same_ctx (tb\<lparr>tb_union_off := Some u, tb_weak_c := tb_weak_c tb + 1, tb_union_c := tb_union_c tb + 1\<rparr>) tb1"
    using 5(1) [OF v(1-3)] by simp
  let ?t3 = "tb1\<lparr>tb_weak_c := tb_weak_c tb1 - 1, tb_union_c := tb_union_c tb1 - 1, tb_unions := tb_unions tb1 @ [st]\<rparr>"
  obtain tf syms where tf: "tf_name tf = name"
      "tb2 = ?t3\<lparr>tb_funcs := setFields (tb_name ?t3) tf (tb_funcs ?t3), tb_num_fields := Suc (tb_num_fields ?t3), tb_last := tf, tb_syms := syms,
        tb_field_count := Suc (tb_field_count ?t3)\<rparr>"
    by (rule addUnionToSymTab_step [OF v(4)]) (rule that, assumption+)
  have "adds [name] ?t3 tb2" by (rule add_visible [OF tf(2, 1)])
  then have "adds (fields_all cx ss @ [name]) tb tb2" using a1 adds_trans [of "fields_all cx ss" tb tb1 "[name]" tb2] by simp
  moreover have "same_ctx tb tb'" using v(5) tf(2) a1 5(4) v(2) by (auto simp: same_ctx_def split: if_splits)
  ultimately show ?case using v(5) by simp
qed auto

section \<open>The offset behind a field\<close>

abbreviation next_off :: "utype \<Rightarrow> thunk_field \<Rightarrow> expr" where
  "next_off t tf \<equiv> BinArithOp AOPAdd (copyFCall (off_name (ut_name t) (tf_name tf))) (copyNumBits t tf) False"

lemma copyNextOffset_eq [simp]: "copyNextOffset t tf = Some (next_off t tf)"
  by (simp add: copyNextOffset_def copyNumBits_def copyFCall_def rt_computeArrayBits_def ThunkArgIdx_def ThunkClosure_def Expr_rewrite_def
      Let_def split: thunk_size.splits)

lemma next_off_simplified: "simplified (next_off t tf) = Some (folded (next_off t tf))"
  by (auto simp: simplified_def copyNumBits_def copyFCall_def rt_computeArrayBits_def ThunkClosure_def toNumbers_def Let_def split: thunk_size.splits)

lemma next_off_fold_ok: "fold_ok (next_off t tf)"
  using next_off_simplified [of t tf] by (simp add: simplified_def split: if_splits)

lemma next_off_no_number: "folded (next_off t tf) \<noteq> Number v"
  by (simp add: mk_op_def toNumbers_def copyFCall_def)

lemma next_off_den: "den V F (folded (next_off t tf)) = den V F (next_off t tf)" "den V F (copied (next_off t tf)) = den V F (next_off t tf)"
  by (rule folded_den_ok(2) [OF next_off_fold_ok], rule folded_den_ok(1) [OF next_off_fold_ok])

text \<open>Rewriting does not make a number out of an expression that is none.\<close>

lemma rewrite_no_number:
  "rewrite from_base_fc (Some r) x = Some p \<Longrightarrow> (\<And>v. folded r \<noteq> Number v) \<Longrightarrow> folded (take_new p) = Number v \<Longrightarrow> folded x = Number v"
proof (induction x arbitrary: p v rule: plain.induct)
  case (3 op a b fl)
  obtain pa pb where p: "rewrite from_base_fc (Some r) a = Some pa" "rewrite from_base_fc (Some r) b = Some pb" "p = (BinArithOp op (take_new pa) (take_new pb) fl, None)"
    using 3(3) by (auto simp: bind_eq_Some_conv Let_def Expr_rewrite_def from_base_fc_def)
  have "mk_op op (folded (take_new pa)) (folded (take_new pb)) = Number v" using 3(5) p(3) by simp
  then show ?case
  proof (cases rule: mk_op_cases [of "folded (take_new pa)" "folded (take_new pb)" op])
    case (1 m n)
    then have "folded a = Number m" "folded b = Number n" using 3(1) [OF p(1) 3(4)] 3(2) [OF p(2) 3(4)] by auto
    then show ?thesis using 1 3(5) p(3) by simp
  qed simp
qed (auto simp: bind_eq_Some_conv Let_def Expr_rewrite_def from_base_fc_def split: if_splits)

lemma field_elems_den:
  assumes "field_elems idx (Some r) = Some e" and "plain idx" and "\<And>v. folded r \<noteq> Number v"
  shows "den V F e = den V (with_base F (den V F r)) idx" and "isSingleton e \<longleftrightarrow> folded idx = Number 1"
proof -
  obtain p where p: "fold_ok idx" "rewrite from_base_fc (Some r) (folded idx) = Some p" "simplified (take_new p) = Some e"
    using assms(1) by (auto simp: field_elems_def simplified_def bind_eq_Some_conv split: if_splits)
  have "den V F e = den V F (take_new p)" by (rule simplified_den [OF p(3)])
  also have "\<dots> = den V (with_base F (den V F r)) (folded idx)" by (rule rewrite_base_den(1) [OF _ p(2)]) (simp add: plain_copied assms(2))
  finally show "den V F e = den V (with_base F (den V F r)) idx" by (simp add: folded_den_ok p(1))
  have "e = folded (take_new p)" using p(3) by (simp add: simplified_def split: if_splits)
  then have "e = Number 1 \<Longrightarrow> folded idx = Number 1" using rewrite_no_number [OF p(2) assms(3), of 1] copied_idem(2) [of idx] by simp
  moreover have "folded idx = Number 1 \<Longrightarrow> e = Number 1" using p(2, 3) by (auto simp: Expr_rewrite_def from_base_fc_def simplified_def)
  ultimately show "isSingleton e \<longleftrightarrow> folded idx = Number 1" by (auto simp: isSingleton_def split: expr.splits)
qed

text \<open>The functions of a new field have the values of their bodies.\<close>

lemma models_closure: "models V F clo m \<Longrightarrow> den V F (copyFCall n) = F n [CloV clo]"
  by (simp add: models_def copyFCall_def ThunkClosure_def)

lemma models_new:
  assumes "models V F clo m" and "map_of (setFields T tf funcs) \<subseteq>\<^sub>m m" and "\<not> used T (map_of funcs) (tf_name tf)"
  shows "F (off_name T (tf_name tf)) [CloV clo] = off_meaning V F (tf_off tf)"
    and "tf_size tf = SizeExpr e \<Longrightarrow> F (size_name T (tf_name tf)) [CloV clo] = den V F e"
    and "F (elems_name T (tf_name tf)) [CloV clo] = den V F (tf_elems tf)"
proof -
  have "m n = Some f" if "map_of (setFields T tf funcs) n = Some f" for n f using assms(2) that by (force simp: map_le_def dom_def)
  then have ag: "agrees V F (F n [CloV clo]) f" if "map_of (setFields T tf funcs) n = Some f" for n f using assms(1) that by (auto simp: models_def)
  show "F (off_name T (tf_name tf)) [CloV clo] = off_meaning V F (tf_off tf)"
    and "tf_size tf = SizeExpr e \<Longrightarrow> F (size_name T (tf_name tf)) [CloV clo] = den V F e"
    and "F (elems_name T (tf_name tf)) [CloV clo] = den V F (tf_elems tf)"
    using ag [OF setFields_new(1) [OF assms(3)]] ag [OF setFields_new(2) [OF assms(3)]] ag [OF setFields_new(3) [OF assms(3)]]
    by (simp_all add: agrees_def)
qed

definition stands :: "(string \<Rightarrow> 'c cval option) \<Rightarrow> (string \<Rightarrow> 'c cval list \<Rightarrow> 'c cval option) \<Rightarrow> tbuilder \<Rightarrow> 64 word \<Rightarrow> bool" where
  "stands V F tb cur \<longleftrightarrow> den V F (next_off (tb_type tb) (tb_last tb)) = Some (NumV cur)"

lemma num_op_add [simp]: "num_op AOPAdd (NumV a) (NumV b) = Some (NumV (a + b))"
  by (simp add: num_op_def doOp_def)

lemma num_op_mul [simp]: "num_op AOPMul (NumV a) (NumV b) = Some (NumV (a * b))"
  by (simp add: num_op_def doOp_def)

lemma num_op_sub [simp]: "num_op AOPSub (NumV a) (NumV b) = Some (NumV (a - b))"
  by (simp add: num_op_def doOp_def)

lemma stands_hidden:
  assumes "models V F clo m" and "map_of (tb_funcs (createInvisible n off (SizeExpr sz) tb)) \<subseteq>\<^sub>m m" and "\<not> used (tb_name tb) (map_of (tb_funcs tb)) n"
    and "off_meaning V F off = Some (NumV a)" and "den V F sz = Some (NumV b)"
  shows "stands V F ((createInvisible n off (SizeExpr sz) tb)\<lparr>tb_field_count := k\<rparr>) (a + b)"
proof -
  let ?tf = "\<lparr>tf_name = n, tf_off = off, tf_size = SizeExpr sz, tf_elems = Number 1, tf_fixed = False, tf_nofollow = False,
    tf_params = None, tf_num = TF_FIELDNUM_NONE\<rparr>"
  have le: "map_of (setFields (tb_name tb) ?tf (tb_funcs tb)) \<subseteq>\<^sub>m m" using assms(2) by (simp add: createInvisible_def Let_def)
  note new = models_new [OF assms(1) le]
  show ?thesis using new(1, 2) assms by (simp add: stands_def createInvisible_def Let_def copyNumBits_def isSingleton_def models_closure)
qed

section \<open>Fields\<close>

lemma getConds_snoc:
  "getConds (cs @ [c]) = (if cs = [] then if cfold_ok c then Some (ccopied c) else None
     else do { d \<leftarrow> getConds cs; if cfold_ok c then Some (BOPAnd d (ccopied c)) else None })"
  by (cases cs) (auto simp: getConds_def)

definition conds_hold :: "(string \<Rightarrow> 'c cval option) \<Rightarrow> (string \<Rightarrow> 'c cval list \<Rightarrow> 'c cval option) \<Rightarrow> condexpr list \<Rightarrow> bool" where
  "conds_hold V F cs \<longleftrightarrow> (\<forall>c \<in> set cs. cden V F c = Some True)"

lemma getConds_hold: "getConds cs = Some d \<Longrightarrow> conds_hold V F cs \<Longrightarrow> cden V F d = Some True"
proof (induction cs arbitrary: d rule: rev_induct)
  case (snoc c cs)
  then show ?case by (auto simp: getConds_snoc folded_den_ok conds_hold_def bind_eq_Some_conv split: if_splits)
qed (simp add: getConds_def)

lemma getConds_last: "getConds (cs @ [c]) = Some d \<Longrightarrow> conds_hold V F cs \<Longrightarrow> cden V F d = cden V F c"
  using getConds_hold [of cs _ V F]
  by (cases "cden V F c") (auto simp: getConds_snoc folded_den_ok bind_eq_Some_conv split: if_splits)

lemma field_off_den:
  assumes "field_off tb = Some off" and "tb_union_off tb = None" and "conds_hold V F (tb_conds tb)" and "stands V F tb cur"
  shows "off_meaning V F off = Some (NumV cur)"
proof -
  have s: "simplified e = Some r \<Longrightarrow> copyCurrentOffset tb = Some e \<Longrightarrow> den V F r = Some (NumV cur)" for e r
    using simplified_den [of e r V F] assms(4) by (auto simp: copyCurrentOffset_def stands_def split: if_splits)
  show ?thesis
  proof (cases "tb_conds tb = []")
    case True
    then show ?thesis using assms(1, 2) s by (auto simp: field_off_def bind_eq_Some_conv off_meaning_def)
  next
    case False
    then obtain c where "getConds (tb_conds tb) = Some c" "off = OffCond c (next_off (tb_type tb) (tb_last tb)) (Some rt_fail)"
      using assms(1, 2) by (auto simp: field_off_def copyCurrentOffset_def bind_eq_Some_conv split: if_splits)
    then show ?thesis using getConds_hold [OF _ assms(3)] assms(4) by (simp add: off_meaning_def stands_def)
  qed
qed

fun array_plain :: "(expr \<times> bool) option \<Rightarrow> bool" where
  "array_plain None = True"
| "array_plain (Some (idx, fixed)) = plain idx"

text \<open>The number of bits of a new field.\<close>

lemma decl_bits:
  assumes "field_size cx type = Some (tf_size tf)" and "decl_elems tb array = Some (tf_elems tf, tf_fixed tf)" and "tb_union_c tb = 0"
    and "stands V F tb cur" and "array_plain array" and "models V F clo m"
    and "map_of (setFields (ut_name t) tf funcs) \<subseteq>\<^sub>m m" and "\<not> used (ut_name t) (map_of funcs) (tf_name tf)"
    and "lay_bits cx t V F clo type (tf_name tf) array cur (tf_num tf) = Some bits"
  shows "den V F (copyNumBits t tf) = Some (NumV bits)"
proof -
  note new = models_new [OF assms(6-8)]
  note call = models_closure [OF assms(6)]
  have clo: "V ''__thunk_closure'' = Some (CloV clo)" using assms(6) by (simp add: models_def)
  show ?thesis
  proof (cases array)
    case None
    then have "tf_elems tf = Number 1" using assms(2) by (simp add: decl_elems_def)
    then show ?thesis using assms(1, 9) None new(2) [OF sym]
      by (auto simp: copyNumBits_def isSingleton_def call lay_bits_def field_size_def bind_eq_Some_conv split: option.splits)
  next
    case (Some p)
    obtain idx fixed where p: "p = (idx, fixed)" by (cases p)
    have el: "field_elems idx (Some (folded (next_off (tb_type tb) (tb_last tb)))) = Some (tf_elems tf)" "fixed = tf_fixed tf"
      using assms(2, 3) Some p by (auto simp: decl_elems_def copyCurrentOffset_def next_off_simplified bind_eq_Some_conv)
    have pl: "plain idx" using assms(5) Some p by simp
    have nn: "folded (folded (next_off (tb_type tb) (tb_last tb))) \<noteq> Number v" for v
      unfolding copied_idem(2) [THEN conjunct2] by (rule next_off_no_number)
    have de: "den V F (folded (next_off (tb_type tb) (tb_last tb))) = Some (NumV cur)"
      unfolding next_off_den(1) using assms(4) unfolding stands_def .
    have d: "den V F (tf_elems tf) = den V (with_base F (Some (NumV cur))) idx"
      using field_elems_den(1) [OF el(1) pl nn, of V F] unfolding de .
    have sing: "isSingleton (tf_elems tf) \<longleftrightarrow> folded idx = Number 1" by (rule field_elems_den(2) [OF el(1) pl nn])
    show ?thesis
    proof (cases "types_map cx type")
      case None
      then obtain z where "ctypes_map cx type = Some z" "tf_size tf = SizeExpr (Number (of_nat z))" using assms(1) by (auto simp: field_size_def)
      then show ?thesis using assms(9) Some p d sing new(2, 3) None
        by (auto simp: copyNumBits_def Let_def call lay_bits_def bind_eq_Some_conv split: if_splits)
    next
      case ft: (Some ft)
      then have "tf_size tf = SizeType ft" using assms(1) by (simp add: field_size_def)
      then show ?thesis using assms(9) Some p el(2) d sing new(3) clo ft
        by (auto simp: copyNumBits_def Let_def call lay_bits_def bind_eq_Some_conv rt_computeArrayBits_def ThunkClosure_def split: if_splits)
    qed
  qed
qed

lemma decl_lays:
  assumes "addToCurrentSymTab cx type name array nofollow exprs tb = Some tb'" and "field_size cx type = Some sz"
    and "tb_union_c tb = 0" and "tb_union_off tb = None" and "conds_hold V F (tb_conds tb)" and "stands V F tb cur" and "array_plain array"
    and "models V F clo m" and "map_of (tb_funcs tb') \<subseteq>\<^sub>m m" and "\<not> used (tb_name tb) (map_of (tb_funcs tb)) name"
    and "lay_bits cx (tb_type tb) V F clo type name array cur (tb_num_fields tb) = Some bits"
  shows "F (off_name (tb_name tb) name) [CloV clo] = Some (NumV cur) \<and> stands V F tb' (cur + bits)"
proof -
  obtain tf syms where tf: "tf_name tf = name" "tf_num tf = tb_num_fields tb" "field_off tb = Some (tf_off tf)" "tf_size tf = sz"
      "decl_elems tb array = Some (tf_elems tf, tf_fixed tf)"
      "tb' = tb\<lparr>tb_funcs := setFields (tb_name tb) tf (tb_funcs tb), tb_num_fields := Suc (tb_num_fields tb), tb_last := tf, tb_syms := syms,
        tb_field_count := Suc (tb_field_count tb)\<rparr>"
    by (rule addToCurrentSymTab_step [OF assms(1, 2)]) (rule that, assumption+)
  have le: "map_of (setFields (tb_name tb) tf (tb_funcs tb)) \<subseteq>\<^sub>m m" using assms(9) tf(6) by simp
  have u: "\<not> used (tb_name tb) (map_of (tb_funcs tb)) (tf_name tf)" using assms(10) tf(1) by simp
  have off: "F (off_name (tb_name tb) name) [CloV clo] = Some (NumV cur)"
    using models_new(1) [OF assms(8) le u] field_off_den [OF tf(3) assms(4-6)] tf(1) by simp
  have "den V F (copyNumBits (tb_type tb) tf) = Some (NumV bits)"
    using decl_bits [OF _ tf(5) assms(3, 6, 7, 8) le u, of cx type bits] assms(2, 11) tf(1, 2, 4) by simp
  then show ?thesis using off tf(1, 6) by (simp add: stands_def models_closure [OF assms(8)])
qed

section \<open>Statements that move the offset\<close>

lemma mapM_num: "mapM (\<lambda>a. f a \<bind> num) xs = Some vs \<longleftrightarrow> mapM f xs = Some (map NumV vs)"
proof (induction xs arbitrary: vs)
  case (Cons x xs)
  then show ?case by (cases vs) (auto simp: bind_eq_Some_conv)
qed auto

lemma simplified_plain: "simplified e = Some r \<Longrightarrow> plain e \<Longrightarrow> plain r"
  by (auto simp: simplified_def plain_copied split: if_splits)

lemma mapM_simplified:
  assumes "mapM simplified es = Some rs" and "list_all plain es"
  shows "list_all plain rs" and "mapM (den V F) rs = mapM (den V F) es"
proof -
  have "plain (rs ! i)" if "i < length rs" for i using assms that simplified_plain [of "es ! i" "rs ! i"] by (simp add: mapM_Some list_all_length)
  then show "list_all plain rs" by (simp add: list_all_length)
  show "mapM (den V F) rs = mapM (den V F) es" by (rule mapM_comp [OF assms(1)]) (rule simplified_den)
qed

lemma setupArgs_den:
  assumes "setupArgs tb args = Some args'" and "stands V F tb cur" and "V ''__thunk_arg_off'' = Some (NumV base)" and "list_all plain args"
  shows "mapM (den V F) args' = mapM (den V (with_base F (Some (NumV (cur - base))))) args"
proof -
  let ?from = "BinArithOp AOPSub (next_off (tb_type tb) (tb_last tb)) ThunkArgOffset False"
  have ok: "fold_ok ?from" using next_off_fold_ok by (simp add: ThunkArgOffset_def toNumbers_def split: option.splits expr.splits)
  obtain rs where rs: "mapM simplified args = Some rs" "rewrite_list from_base_fc (Some (folded ?from)) rs = Some args'"
    using assms(1) ok by (auto simp: setupArgs_def copyFromBase_def copyCurrentOffset_def simplified_def bind_eq_Some_conv split: if_splits)
  have "den V F ?from = Some (NumV (cur - base))" using assms(2, 3) unfolding stands_def den.simps(8) [of V F AOPSub] by (simp add: ThunkArgOffset_def)
  then have "den V F (folded ?from) = Some (NumV (cur - base))" unfolding folded_den_ok(2) [OF ok] .
  then show ?thesis using rewrite_base_den(2) [OF mapM_simplified(1) [OF rs(1) assms(4)] rs(2), of V F] mapM_simplified(2) [OF rs(1) assms(4)] by simp
qed

lemma simplified_fold_ok: "simplified e = Some r \<Longrightarrow> fold_ok r"
  by (auto simp: simplified_def copied_fold_ok split: if_splits)

lemma times8_fold_ok: "fold_ok e \<Longrightarrow> fold_ok (times8 e)"
  by (simp add: doOp_def split: option.splits)

lemma num_op_mod [simp]: "b \<noteq> 0 \<Longrightarrow> num_op AOPMod (NumV a) (NumV b) = Some (NumV (a mod b))"
  by (simp add: num_op_def doOp_def)

lemma copyCurrentOffset_den:
  assumes "copyCurrentOffset tb = Some e" and "stands V F tb cur"
  shows "den V F e = Some (NumV cur)" "den V F (folded e) = Some (NumV cur)"
proof -
  have e: "e = next_off (tb_type tb) (tb_last tb)"
    using assms(1) unfolding copyCurrentOffset_def copyNextOffset_eq by (metis option.distinct(1) option.inject)
  show "den V F e = Some (NumV cur)" using assms(2) unfolding e stands_def .
  then show "den V F (folded e) = Some (NumV cur)" unfolding e next_off_den(1) .
qed

lemma copyFromBase_den:
  "copyFromBase tb = Some e \<Longrightarrow> stands V F tb cur \<Longrightarrow> V ''__thunk_arg_off'' = Some (NumV base) \<Longrightarrow> den V F e = Some (NumV (cur - base))"
  using copyCurrentOffset_den(1) [of tb _ V F cur] by (auto simp: copyFromBase_def bind_eq_Some_conv ThunkArgOffset_def)

text \<open>The offset and the size that each statement gives its hidden field.\<close>

lemma TBF_set_den:
  assumes "den V F (hd args) = Some (NumV v)" and "V ''__thunk_arg_off'' = Some (NumV base)"
  shows "TBFSetBits tb args = Some (off, sz) \<Longrightarrow> den V F off = Some (NumV (base + v)) \<and> den V F sz = Some (NumV 0)"
    and "TBFSetBytes tb args = Some (off, sz) \<Longrightarrow> den V F off = Some (NumV (base + v * 8)) \<and> den V F sz = Some (NumV 0)"
  using assms simplified_den [of "hd args" _ V F] by (auto simp: TBFSetBits_def TBFSetBytes_def bind_eq_Some_conv ThunkArgOffset_def)

lemma TBF_skip_den:
  assumes "den V F (hd args) = Some (NumV v)" and "stands V F tb cur"
  shows "TBFSkipBits tb args = Some (off, sz) \<Longrightarrow> den V F off = Some (NumV cur) \<and> den V F sz = Some (NumV v)"
    and "TBFSkipBytes tb args = Some (off, sz) \<Longrightarrow> den V F off = Some (NumV cur) \<and> den V F sz = Some (NumV (v * 8))"
  using assms simplified_den [of "hd args" _ V F] copyCurrentOffset_den(1) [of tb _ V F cur]
  by (auto simp: TBFSkipBits_def TBFSkipBytes_def bind_eq_Some_conv)

lemma TBF_align_den:
  assumes "den V F (hd args) = Some (NumV v)" and "stands V F tb cur" and "V ''__thunk_arg_off'' = Some (NumV base)"
  shows "TBFAlignBits tb args = Some (off, sz) \<Longrightarrow> align_pad v (cur - base) = Some pad \<Longrightarrow> den V F off = Some (NumV cur) \<and> den V F sz = Some (NumV pad)"
    and "TBFAlignBytes tb args = Some (off, sz) \<Longrightarrow> align_pad (v * 8) (cur - base) = Some pad \<Longrightarrow> den V F off = Some (NumV cur) \<and> den V F sz = Some (NumV pad)"
  using assms simplified_den [of "hd args" _ V F] copyCurrentOffset_den(1) [of tb _ V F cur] copyFromBase_den [of tb _ V F cur base]
  by (auto simp: TBFAlignBits_def TBFAlignBytes_def align_pad_def bind_eq_Some_conv split: if_splits)

lemma TBF_pad_den:
  assumes run: "TBFPadPhysBytes tb args = Some (off, sz)" and args: "den V F (args ! 0) = Some (NumV v)" "den V F (args ! 1) = Some (NumV w)"
    and st: "stands V F tb cur" and clo: "V ''__thunk_closure'' = Some (CloV clo)" and ok: "fold_ok sz"
    and ph: "F ''__toPhys'' [CloV clo, NumV cur] = Some (NumV ph)" "v * 8 \<noteq> 0"
  shows "den V F off = Some (NumV cur) \<and> den V F sz = Some (NumV (if v * 8 - ph mod (v * 8) < w * 8 then v * 8 - ph mod (v * 8) else 0))"
proof -
  let ?rem = "\<lambda>a e. BinArithOp AOPSub (copied (times8 a)) (BinArithOp AOPMod (FCall ''__toPhys'' [ThunkClosure, folded e]) (times8 a) False) False"
  obtain a b where r: "simplified (args ! 0) = Some a" "simplified (args ! 1) = Some b" "copyCurrentOffset tb = Some off"
      "sz = CondVal (CmpOp LT (copied (?rem a off)) (copied (times8 b))) (?rem a off) (Number 0)"
    using run by (auto simp: TBFPadPhysBytes_def bind_eq_Some_conv Let_def)
  have ab: "den V F a = Some (NumV v)" "den V F b = Some (NumV w)" using args simplified_den [OF r(1), of V F] simplified_den [OF r(2), of V F] by simp_all
  then have rem: "den V F (?rem a off) = Some (NumV (v * 8 - ph mod (v * 8)))"
    using ph clo folded_den_ok(1) [OF times8_fold_ok [OF simplified_fold_ok [OF r(1)]], of V F] copyCurrentOffset_den(2) [OF r(3) st]
    by (simp add: ThunkClosure_def del: copied.simps)
  have "den V F (copied (times8 b)) = Some (NumV (w * 8))"
    using ab folded_den_ok(1) [OF times8_fold_ok [OF simplified_fold_ok [OF r(2)]], of V F] by (simp del: copied.simps)
  moreover have "fold_ok (?rem a off)" using ok r(4) by (simp del: copied.simps)
  then have "den V F (copied (?rem a off)) = den V F (?rem a off)" by (rule folded_den_ok(1))
  ultimately show ?thesis using rem copyCurrentOffset_den(1) [OF r(3) st] r(4) by (simp add: cmp_op_def del: copied.simps den.simps(8))
qed

lemma doIt_den:
  assumes run: "doIt name tb args = Some (off, sz)" and st: "stands V F tb cur" and base: "V ''__thunk_arg_off'' = Some (NumV base)"
    and clo: "V ''__thunk_closure'' = Some (CloV clo)" and tbf: "tbf_map name = Some (length args, p)" and sz: "fold_ok sz"
    and args: "mapM (den V F) args = Some (map NumV vs)" and args0: "length args0 = length args"
      "mapM (\<lambda>a. den V (with_base F (Some (NumV (cur - base)))) a \<bind> num) args0 = Some vs"
    and lay: "lay_func V F clo name args0 base cur = Some cur'"
  shows "\<exists>a b. den V F off = Some (NumV a) \<and> den V F sz = Some (NumV b) \<and> a + b = cur'"
proof (cases "name = ''pad_phys_bytes''")
  case True
  then have l: "length args = 2" and run': "TBFPadPhysBytes tb args = Some (off, sz)"
    using tbf run by (auto simp: tbf_map_def doIt_def split: if_splits)
  have a: "den V F (args ! 0) = Some (NumV (vs ! 0))" "den V F (args ! 1) = Some (NumV (vs ! 1))" using args l by (auto simp: mapM_Some)
  obtain ph where "F ''__toPhys'' [CloV clo, NumV cur] = Some (NumV ph)" "vs ! 0 * 8 \<noteq> 0"
      "cur' = cur + (if vs ! 0 * 8 - ph mod (vs ! 0 * 8) < vs ! 1 * 8 then vs ! 0 * 8 - ph mod (vs ! 0 * 8) else 0)"
    using lay tbf True args0 by (auto simp: lay_func_def bind_eq_Some_conv Let_def tbf_map_def split: if_splits)
  then show ?thesis using TBF_pad_den [OF run' a st clo sz] by simp
next
  case False
  then have "length args = 1" using tbf by (auto simp: tbf_map_def split: if_splits)
  then have h: "den V F (hd args) = Some (NumV (vs ! 0))" using args by (cases args) (auto simp: bind_eq_Some_conv)
  note l = lay [unfolded lay_func_def] and r = run [unfolded doIt_def]
  consider "name = ''set_bits''" | "name = ''set_bytes''" | "name = ''align_bits''" | "name = ''align_bytes''" | "name = ''skip_bits''"
    | "name = ''skip_bytes''" using tbf False by (auto simp: tbf_map_def split: if_splits)
  then show ?thesis
  proof cases
    case 1
    then show ?thesis using r l tbf args0 TBF_set_den(1) [OF h base] by (simp add: tbf_map_def split: if_splits)
  next
    case 2
    then show ?thesis using r l tbf args0 TBF_set_den(2) [OF h base] by (simp add: tbf_map_def split: if_splits)
  next
    case 3
    then have "TBFAlignBits tb args = Some (off, sz)" using r by (simp split: if_splits)
    moreover obtain pad where "align_pad (vs ! 0) (cur - base) = Some pad" "cur' = cur + pad" using l tbf args0 3 by (auto simp: tbf_map_def)
    ultimately show ?thesis using TBF_align_den(1) [OF h st base] by blast
  next
    case 4
    then have "TBFAlignBytes tb args = Some (off, sz)" using r by (simp split: if_splits)
    moreover obtain pad where "align_pad (vs ! 0 * 8) (cur - base) = Some pad" "cur' = cur + pad" using l tbf args0 4 by (auto simp: tbf_map_def)
    ultimately show ?thesis using TBF_align_den(2) [OF h st base] by blast
  next
    case 5
    then show ?thesis using r l tbf args0 TBF_skip_den(1) [OF h st] by (simp add: tbf_map_def split: if_splits)
  next
    case 6
    then show ?thesis using r l tbf args0 TBF_skip_den(2) [OF h st] by (simp add: tbf_map_def split: if_splits)
  qed
qed

lemma visit_func_lays:
  assumes "visit_func name args tb = Some tb'" and "stands V F tb cur" and base: "V ''__thunk_arg_off'' = Some (NumV base)" and "list_all plain args"
    and m: "models V F clo m" and le: "map_of (tb_funcs tb') \<subseteq>\<^sub>m m" and "clean U tb" and "\<forall>f \<in> U. user_name f"
    and lay: "lay_func V F clo name args base cur = Some cur'"
  shows "stands V F tb' cur'"
  using assms(1)
proof (cases rule: visit_func_step)
  case 1
  then have "cur' = cur" using lay by (auto simp: lay_func_def split: option.splits if_splits)
  then show ?thesis using assms(2) 1(1) by simp
next
  case (2 k p args' off sz off' sz')
  have len: "length args = k" using 2(2, 3) by (auto simp: setupArgs_def bind_eq_Some_conv dest!: rewrite_length mapM_length)
  then obtain vs where vs: "mapM (\<lambda>a. den V (with_base F (Some (NumV (cur - base)))) a \<bind> num) args = Some vs"
    using lay 2(1) by (auto simp: lay_func_def bind_eq_Some_conv)
  have "mapM (den V F) args' = Some (map NumV vs)"
    using setupArgs_den [OF 2(2) assms(2) base assms(4)] vs by (simp add: mapM_num)
  moreover have "V ''__thunk_closure'' = Some (CloV clo)" using m by (simp add: models_def)
  moreover have "fold_ok sz" using 2(6) by (simp add: simplified_def split: if_splits)
  ultimately obtain a b where ab: "den V F off = Some (NumV a)" "den V F sz = Some (NumV b)" "a + b = cur'"
    using doIt_den [OF 2(4) assms(2) base] 2(1, 3) len vs lay by metis
  have "\<not> used (tb_name tb) (map_of (tb_funcs tb)) (getFuncName p (tb_field_count tb))"
    by (rule clean_hidden_not_used [OF assms(7, 8) func_hidden [OF 2(1)]])
  then show ?thesis
    using stands_hidden [OF m, of _ "Off off'" sz' tb a b] le 2(7) ab simplified_den [OF 2(5), of V F] simplified_den [OF 2(6), of V F]
    by (simp add: off_meaning_def)
qed

text \<open>Padding to a power of two aligns; the subtraction wraps, so padding to other numbers may not.\<close>

lemma take_bit_add_right: "take_bit k (a + take_bit k b) = take_bit k (a + b)" for a b :: "64 word"
proof (cases "k < 64")
  case True
  have "take_bit k (x + take_bit k y) = take_bit k (x + y)" for x y :: int by (simp add: take_bit_eq_mod mod_simps)
  then show ?thesis using True by (transfer fixing: k) (simp add: min_def)
next
  case False
  then show ?thesis by (simp add: take_bit_word_beyond_length_eq)
qed

lemma align_pad_aligns:
  assumes "align_pad (2 ^ k) off = Some pad"
  shows "pad < 2 ^ k \<and> (off + pad) mod 2 ^ k = 0"
proof -
  have nz: "2 ^ k \<noteq> (0 :: 64 word)" and p: "pad = take_bit k (2 ^ k - off)" using assms by (auto simp: align_pad_def take_bit_eq_mod split: if_splits)
  have "take_bit k (off + take_bit k (2 ^ k - off)) = take_bit k (off + (2 ^ k - off))"
    by (rule take_bit_add_right)
  then have "take_bit k (off + pad) = 0" unfolding p by (simp add: take_bit_eq_mod)
  moreover have "pad < 2 ^ k" using nz unfolding p take_bit_eq_mod by (intro word_mod_less_divisor) (simp add: word_gt_0)
  ultimately show ?thesis by (simp add: take_bit_eq_mod)
qed

lemma TBFAlignBits_misaligns:
  assumes "TBFAlignBits tb args = Some (off, sz)" and "den V F (hd args) = Some (NumV 24)" and "stands V F tb 32" and "V ''__thunk_arg_off'' = Some (NumV 0)"
  shows "den V F off = Some (NumV 32) \<and> den V F sz = Some (NumV 8) \<and> (32 + 8) mod 24 \<noteq> (0 :: 64 word)"
  using TBF_align_den(1) [OF assms(2-4) assms(1), of 8] by (simp add: align_pad_def)

section \<open>Unions\<close>

lemma union_decl_lays:
  assumes "addToCurrentSymTab cx type name array nofollow exprs tb = Some tb'" and "field_size cx type = Some sz" and "tb_union_off tb = Some u"
    and u: "\<And>off. simplified (copied u) = Some off \<Longrightarrow> den V F off = Some (NumV cur)"
    and m: "models V F clo m" and le: "map_of (tb_funcs tb') \<subseteq>\<^sub>m m" and nu: "\<not> used (tb_name tb) (map_of (tb_funcs tb)) name"
  shows "F (off_name (tb_name tb) name) [CloV clo] = Some (NumV cur)"
proof -
  obtain tf syms where tf: "tf_name tf = name" "field_off tb = Some (tf_off tf)"
      "tb' = tb\<lparr>tb_funcs := setFields (tb_name tb) tf (tb_funcs tb), tb_num_fields := Suc (tb_num_fields tb), tb_last := tf, tb_syms := syms,
        tb_field_count := Suc (tb_field_count tb)\<rparr>"
    by (rule addToCurrentSymTab_step [OF assms(1, 2)]) (rule that, assumption+)
  have "off_meaning V F (tf_off tf) = Some (NumV cur)" using tf(2) assms(3) u by (auto simp: field_off_def off_meaning_def dest!: sym [where t = "tf_off tf"] split: if_splits)
  moreover have "map_of (setFields (tb_name tb) tf (tb_funcs tb)) \<subseteq>\<^sub>m m" using le tf(3) by simp
  ultimately show ?thesis using models_new(1) [OF m _ , of "tb_name tb" tf "tb_funcs tb"] tf(1) nu by simp
qed

text \<open>The names that are declared are new, and different from each other.\<close>

definition new_names :: "string set \<Rightarrow> string list \<Rightarrow> bool" where
  "new_names U ns \<longleftrightarrow> distinct ns \<and> (\<forall>f \<in> set ns. user_name f \<and> f \<notin> U) \<and> (\<forall>f \<in> U. user_name f)"

lemma new_names_append: "new_names U (ns @ ms) \<longleftrightarrow> new_names U ns \<and> new_names (U \<union> set ns) ms"
  by (auto simp: new_names_def)

lemma adds_clean: "adds ns tb tb' \<Longrightarrow> clean U tb \<Longrightarrow> clean (U \<union> set ns) tb'"
  by (simp add: adds_def)

lemma adds_le: "adds ns tb tb' \<Longrightarrow> map_of (tb_funcs tb') \<subseteq>\<^sub>m m \<Longrightarrow> map_of (tb_funcs tb) \<subseteq>\<^sub>m m"
  by (auto simp: adds_def grows_def intro: map_le_trans)

lemma union_field_lays:
  assumes "addUnionToSymTab name array tb = Some tb'" and "tb_union_off tb = Some u"
    and u: "\<And>off. simplified (copied u) = Some off \<Longrightarrow> den V F off = Some (NumV cur)"
    and m: "models V F clo m" and le: "map_of (tb_funcs tb') \<subseteq>\<^sub>m m" and nu: "\<not> used (tb_name tb) (map_of (tb_funcs tb)) name"
  shows "F (off_name (tb_name tb) name) [CloV clo] = Some (NumV cur)"
proof -
  obtain tf syms u' off where tf: "tf_name tf = name" "simplified (copied u') = Some off" "tf_off tf = Off off"
      "tb' = tb\<lparr>tb_funcs := setFields (tb_name tb) tf (tb_funcs tb), tb_num_fields := Suc (tb_num_fields tb), tb_last := tf, tb_syms := syms,
        tb_field_count := Suc (tb_field_count tb)\<rparr>" "tb_union_off tb = Some u'"
    by (rule addUnionToSymTab_step [OF assms(1)]) (rule that, assumption+)
  have "map_of (setFields (tb_name tb) tf (tb_funcs tb)) \<subseteq>\<^sub>m m" using le tf(4) by simp
  then show ?thesis using models_new(1) [OF m _ , of "tb_name tb" tf "tb_funcs tb"] tf(1-3, 5) assms(2) u [of off] nu by (simp add: off_meaning_def)
qed

lemma visit_union_mode:
  assumes m: "models V F clo m" and u: "\<And>off. simplified (copied u) = Some off \<Longrightarrow> den V F off = Some (NumV cur)"
  shows "visit cx owner s tb = Some tb' \<Longrightarrow> 0 < tb_union_c tb \<Longrightarrow> tb_union_off tb = Some u \<Longrightarrow> clean U tb \<Longrightarrow> new_names U (fields cx s) \<Longrightarrow>
      map_of (tb_funcs tb') \<subseteq>\<^sub>m m \<Longrightarrow> \<forall>f \<in> set (fields cx s). F (off_name (tb_name tb) f) [CloV clo] = Some (NumV cur)"
    and "visit_all cx owner ss tb = Some tb' \<Longrightarrow> 0 < tb_union_c tb \<Longrightarrow> tb_union_off tb = Some u \<Longrightarrow> clean U tb \<Longrightarrow> new_names U (fields_all cx ss) \<Longrightarrow>
      map_of (tb_funcs tb') \<subseteq>\<^sub>m m \<Longrightarrow> \<forall>f \<in> set (fields_all cx ss). F (off_name (tb_name tb) f) [CloV clo] = Some (NumV cur)"
proof (induction cx owner s tb and cx owner ss tb arbitrary: tb' U and tb' U rule: visit_visit_all.induct)
  case (1 cx owner type name array nofollow tb)
  show ?case
  proof (cases "field_size cx type")
    case (Some sz)
    then have "\<not> used (tb_name tb) (map_of (tb_funcs tb)) name" using clean_not_used [OF 1(4)] 1(5) by (simp add: new_names_def)
    then show ?thesis using union_decl_lays [OF 1(1) [unfolded visit.simps] Some 1(3) u m 1(6)] Some by simp
  qed simp
next
  case (2 cx owner type args name array tb)
  show ?case
  proof (cases "field_size cx type")
    case (Some sz)
    then have "\<not> used (tb_name tb) (map_of (tb_funcs tb)) name" using clean_not_used [OF 2(4)] 2(5) by (simp add: new_names_def)
    then show ?thesis using union_decl_lays [OF 2(1) [unfolded visit.simps] Some 2(3) u m 2(6)] Some by simp
  qed simp
next
  case (3 cx owner c t f tb)
  then show ?case by (simp add: copyCurrentOffset_def)
next
  case (5 cx owner ss name array tb)
  let ?t1 = "tb\<lparr>tb_union_off := Some u, tb_weak_c := tb_weak_c tb + 1, tb_union_c := tb_union_c tb + 1\<rparr>"
  obtain tb1 st tb2 where v: "\<not> 1 < tb_union_c tb" "visit_all cx owner ss ?t1 = Some tb1"
      "addUnionToSymTab name array (tb1\<lparr>tb_weak_c := tb_weak_c tb1 - 1, tb_union_c := tb_union_c tb1 - 1, tb_unions := tb_unions tb1 @ [st]\<rparr>) = Some tb2"
      "tb_funcs tb' = tb_funcs tb2"
    using 5(3-5) by (auto simp: Let_def bind_eq_Some_conv split: if_splits)
  let ?t3 = "tb1\<lparr>tb_weak_c := tb_weak_c tb1 - 1, tb_union_c := tb_union_c tb1 - 1, tb_unions := tb_unions tb1 @ [st]\<rparr>"
  have a1: "adds (fields_all cx ss) ?t1 tb1" "same_ctx ?t1 tb1" using visit_frame(2) [OF v(2)] by simp_all
  have ty: "tb_type tb1 = tb_type tb" using a1(1) by (simp add: adds_def grows_def)
  have le2: "map_of (tb_funcs tb2) \<subseteq>\<^sub>m m" using 5(8) v(4) by simp
  obtain tf syms where "tb2 = ?t3\<lparr>tb_funcs := setFields (tb_name ?t3) tf (tb_funcs ?t3), tb_num_fields := Suc (tb_num_fields ?t3), tb_last := tf,
      tb_syms := syms, tb_field_count := Suc (tb_field_count ?t3)\<rparr>"
    by (rule addUnionToSymTab_step [OF v(3)]) (rule that)
  then have le1: "map_of (tb_funcs tb1) \<subseteq>\<^sub>m m" using le2 setFields_le map_le_trans by fastforce
  have nn: "new_names U (fields_all cx ss)" "new_names (U \<union> set (fields_all cx ss)) [name]" using 5(7) by (simp_all add: new_names_append)
  have "\<forall>f \<in> set (fields_all cx ss). F (off_name (tb_name tb) f) [CloV clo] = Some (NumV cur)"
    using 5(1) [OF v(1) _ v(2), of U] 5(4-6) nn(1) le1 by (simp add: clean_def)
  moreover have "clean (U \<union> set (fields_all cx ss)) ?t3" using adds_clean [OF a1(1), of U] 5(6) by (simp add: clean_def)
  then have "\<not> used (tb_name ?t3) (map_of (tb_funcs ?t3)) name" by (rule clean_not_used) (use nn(2) in \<open>simp_all add: new_names_def\<close>)
  then have "F (off_name (tb_name ?t3) name) [CloV clo] = Some (NumV cur)"
    using union_field_lays [OF v(3) _ u m le2] a1(2) by (simp add: same_ctx_def)
  ultimately show ?case using ty by simp
next
  case (8 cx owner s ss tb)
  then obtain tb1 where tb1: "visit cx owner s tb = Some tb1" "visit_all cx owner ss tb1 = Some tb'" by (auto simp: bind_eq_Some_conv)
  have a1: "adds (fields cx s) tb tb1" "same_ctx tb tb1" using visit_frame(1) [OF tb1(1)] 8(4) by auto
  have ctx: "0 < tb_union_c tb1" "tb_union_off tb1 = Some u" "tb_type tb1 = tb_type tb" using a1 8(4, 5) by (simp_all add: same_ctx_def adds_def grows_def)
  have a2: "adds (fields_all cx ss) tb1 tb'" using visit_frame(2) [OF tb1(2)] ctx(1) by simp
  have nn: "new_names U (fields cx s)" "new_names (U \<union> set (fields cx s)) (fields_all cx ss)" using 8(7) by (simp_all add: new_names_append)
  have "\<forall>f \<in> set (fields cx s). F (off_name (tb_name tb) f) [CloV clo] = Some (NumV cur)"
    by (rule 8(1) [OF tb1(1) 8(4-6) nn(1) adds_le [OF a2 8(8)]])
  moreover have "\<forall>f \<in> set (fields_all cx ss). F (off_name (tb_name tb1) f) [CloV clo] = Some (NumV cur)"
    by (rule 8(2) [OF tb1 ctx(1, 2) adds_clean [OF a1(1) 8(6)] nn(2) 8(8)])
  ultimately show ?case using ctx(3) by auto
qed auto

lemma union_bits:
  assumes el: "(case array of None \<Rightarrow> Some (Number 1, False) | Some idx \<Rightarrow> do { elems \<leftarrow> field_elems idx (simplified (copied u)); Some (elems, True) }) =
      Some (tf_elems tf, tf_fixed tf)" and u: "u = next_off t' tf'" "den V F u = Some (NumV cur)" and "tf_size tf = SizeType ft"
    and pl: "\<And>idx. array = Some idx \<Longrightarrow> plain idx" and m: "models V F clo m"
    and new: "map_of (setFields (ut_name t) tf funcs) \<subseteq>\<^sub>m m" "\<not> used (ut_name t) (map_of funcs) (tf_name tf)"
    and "lay_union_bits t V F clo (tf_name tf) array cur = Some bits"
  shows "den V F (copyNumBits t tf) = Some (NumV bits)"
proof (cases array)
  case None
  then have "tf_elems tf = Number 1" using el by auto
  then show ?thesis using assms(9) None by (auto simp: copyNumBits_def isSingleton_def models_closure [OF m] lay_union_bits_def bind_eq_Some_conv)
next
  case (Some idx)
  have s: "simplified (copied u) = Some (folded u)"
    using copied_fold_ok(1) [OF next_off_fold_ok] copied_idem(1) unfolding simplified_def u(1) by simp
  have "field_elems idx (Some (folded u)) = Some (tf_elems tf)" "tf_fixed tf" using el Some s by (auto simp: bind_eq_Some_conv)
  moreover have "folded (folded u) \<noteq> Number v" for v unfolding copied_idem(2) [THEN conjunct2] u(1) by (rule next_off_no_number)
  ultimately have d: "den V F (tf_elems tf) = den V (with_base F (den V F (folded u))) idx" "isSingleton (tf_elems tf) \<longleftrightarrow> folded idx = Number 1"
    using field_elems_den [of idx "folded u" "tf_elems tf"] pl [OF Some] by auto
  have "den V F (folded u) = Some (NumV cur)" using next_off_den(1) u by metis
  then show ?thesis using assms(9) Some d \<open>tf_fixed tf\<close> assms(4) models_new(3) [OF m new]
    by (auto simp: copyNumBits_def Let_def models_closure [OF m] lay_union_bits_def bind_eq_Some_conv)
qed

section \<open>The builder follows the walk\<close>

fun stmt_plain :: "tstmt \<Rightarrow> bool" and stmts_plain :: "tstmt list \<Rightarrow> bool" where
  "stmt_plain (TypeDecl type name array nofollow) = array_plain array"
| "stmt_plain (TypeParamDecl type args name array) = array_plain array"
| "stmt_plain (TypeCond c t f) = (stmt_plain t \<and> (case f of None \<Rightarrow> True | Some s \<Rightarrow> stmt_plain s))"
| "stmt_plain (TypeBlock ss) = stmts_plain ss"
| "stmt_plain (TypeUnion ss name array) = (case array of None \<Rightarrow> True | Some idx \<Rightarrow> plain idx)"
| "stmt_plain (TypeFunc name args) = list_all plain args"
| "stmts_plain [] = True"
| "stmts_plain (s # ss) = (stmt_plain s \<and> stmts_plain ss)"

definition laid :: "(string \<Rightarrow> 'c cval list \<Rightarrow> 'c cval option) \<Rightarrow> 'c \<Rightarrow> string \<Rightarrow> (string \<times> 64 word) list \<Rightarrow> bool" where
  "laid F clo T offs \<longleftrightarrow> (\<forall>(f, off) \<in> set offs. F (off_name T f) [CloV clo] = Some (NumV off))"

lemma laid_simps [simp]: "laid F clo T []" "laid F clo T (xs @ ys) \<longleftrightarrow> laid F clo T xs \<and> laid F clo T ys"
  by (auto simp: laid_def)

text \<open>What a statement needs: the builder is outside of unions, all conditions around it hold, and its names are new.\<close>

definition ready :: "(string \<Rightarrow> 'c cval option) \<Rightarrow> (string \<Rightarrow> 'c cval list \<Rightarrow> 'c cval option) \<Rightarrow> string set \<Rightarrow> string list \<Rightarrow> tbuilder \<Rightarrow> 64 word \<Rightarrow> bool" where
  "ready V F U ns tb cur \<longleftrightarrow> tb_union_c tb = 0 \<and> tb_union_off tb = None \<and> conds_hold V F (tb_conds tb) \<and> stands V F tb cur \<and> clean U tb \<and> new_names U ns"

lemma ready_next:
  assumes "adds ns tb tb'" and "same_ctx tb tb'" and "ready V F U (ns @ ms) tb cur" and "stands V F tb' cur'"
  shows "ready V F (U \<union> set ns) ms tb' cur'"
  using assms adds_clean [OF assms(1), of U] by (simp add: ready_def same_ctx_def new_names_append)

lemma rebase_lays:
  assumes "rebaseByCond ioff c tf_t tf_f tb = Some tb'" and "conds_hold V F (tb_conds tb)" and m: "models V F clo m"
    and le: "map_of (tb_funcs tb') \<subseteq>\<^sub>m m" and "clean U tb" and "\<forall>f \<in> U. user_name f" and c: "cden V F c = Some b"
    and t: "b \<Longrightarrow> den V F (next_off (tb_type tb) tf_t) = Some (NumV cur)"
    and f: "\<not> b \<Longrightarrow> den V F (case tf_f of None \<Rightarrow> copied ioff | Some tf \<Rightarrow> next_off (tb_type tb) tf) = Some (NumV cur)"
  shows "stands V F tb' cur"
  using assms(1)
proof (cases rule: rebaseByCond_step)
  case (1 cond tt ff)
  have ff: "tt = next_off (tb_type tb) tf_t" "ff = (case tf_f of None \<Rightarrow> copied ioff | Some tf \<Rightarrow> next_off (tb_type tb) tf)"
    using 1(2, 3) by (auto split: option.splits)
  have "off_meaning V F (OffCond cond tt (Some ff)) = Some (NumV cur)"
    unfolding off_meaning_def ff thunk_off.case getConds_last [OF 1(1) assms(2)] c using t f by (cases b) (simp_all only: bind.simps if_True if_False option.case not_False_eq_True simp_thms)
  moreover have "\<not> used (tb_name tb) (map_of (tb_funcs tb)) (''__rebase_'' @ tb_name tb @ ''_'' @ dec (tb_field_count tb))"
    by (rule clean_hidden_not_used [OF assms(5, 6) rebase_hidden])
  ultimately show ?thesis using stands_hidden [OF m, of _ _ "Number 0" tb cur 0] le 1(4) by simp
qed

lemma union_lays:
  assumes run: "visit cx owner (TypeUnion ss name array) tb = Some tb'" and rd: "ready V F U (fields cx (TypeUnion ss name array)) tb cur"
    and pl: "stmt_plain (TypeUnion ss name array)" and m: "models V F clo m" and le: "map_of (tb_funcs tb') \<subseteq>\<^sub>m m"
    and lay: "lay cx (tb_type tb) V F clo base (TypeUnion ss name array) cur fnum = Some (offs, cur')"
  shows "stands V F tb' cur' \<and> laid F clo (tb_name tb) offs"
proof -
  let ?u = "next_off (tb_type tb) (tb_last tb)"
  let ?t1 = "tb\<lparr>tb_union_off := Some ?u, tb_weak_c := tb_weak_c tb + 1, tb_union_c := tb_union_c tb + 1\<rparr>"
  have uc: "tb_union_c tb = 0" "tb_union_off tb = None" using rd by (simp_all add: ready_def)
  obtain tb1 st tb2 where v: "visit_all cx owner ss ?t1 = Some tb1"
      "addUnionToSymTab name array (tb1\<lparr>tb_weak_c := tb_weak_c tb1 - 1, tb_union_c := tb_union_c tb1 - 1, tb_unions := tb_unions tb1 @ [st]\<rparr>) = Some tb2"
      "tb_funcs tb' = tb_funcs tb2" "tb_last tb' = tb_last tb2" "tb_type tb' = tb_type tb2"
    using run uc by (auto simp: Let_def bind_eq_Some_conv copyCurrentOffset_def split: if_splits)
  let ?t3 = "tb1\<lparr>tb_weak_c := tb_weak_c tb1 - 1, tb_union_c := tb_union_c tb1 - 1, tb_unions := tb_unions tb1 @ [st]\<rparr>"
  have cur: "den V F ?u = Some (NumV cur)" using rd by (simp only: ready_def stands_def)
  have u: "den V F off = Some (NumV cur)" if "simplified (copied ?u) = Some off" for off
    using simplified_den [OF that, of V F] next_off_den(2) cur by metis
  have a1: "adds (fields_all cx ss) ?t1 tb1" "same_ctx ?t1 tb1" using visit_frame(2) [OF v(1)] by simp_all
  have ty: "tb_type tb1 = tb_type tb" using a1(1) by (simp add: adds_def grows_def)
  have nn: "new_names U (fields_all cx ss)" "new_names (U \<union> set (fields_all cx ss)) [name]" using rd by (simp_all add: ready_def new_names_append)
  have le2: "map_of (tb_funcs tb2) \<subseteq>\<^sub>m m" using le v(3) by simp
  obtain tf syms ft where tf: "tf_name tf = name" "tf_size tf = SizeType ft"
      "(case array of None \<Rightarrow> Some (Number 1, False) | Some idx \<Rightarrow> do { elems \<leftarrow> field_elems idx (simplified (copied ?u)); Some (elems, True) }) =
        Some (tf_elems tf, tf_fixed tf)"
      "tb2 = ?t3\<lparr>tb_funcs := setFields (tb_name ?t3) tf (tb_funcs ?t3), tb_num_fields := Suc (tb_num_fields ?t3), tb_last := tf,
        tb_syms := syms, tb_field_count := Suc (tb_field_count ?t3)\<rparr>"
  proof (rule addUnionToSymTab_step [OF v(2)], goal_cases)
    case (1 tf syms u off t)
    have "u = ?u" using 1(4) a1(2) by (simp add: same_ctx_def)
    show ?case by (rule 1(1) [OF 1(2, 7) _ 1(10)]) (rule 1(9) [unfolded \<open>u = ?u\<close>])
  qed
  have le3: "map_of (setFields (tb_name tb) tf (tb_funcs tb1)) \<subseteq>\<^sub>m m" using le2 tf(4) ty by simp
  have "clean (U \<union> set (fields_all cx ss)) ?t3" using adds_clean [OF a1(1), of U] rd by (simp add: clean_def ready_def)
  then have nu: "\<not> used (tb_name ?t3) (map_of (tb_funcs ?t3)) name" by (rule clean_not_used) (use nn(2) in \<open>simp_all add: new_names_def\<close>)
  have off: "F (off_name (tb_name tb) name) [CloV clo] = Some (NumV cur)"
    using union_field_lays [OF v(2) _ u m le2 nu] a1(2) ty by (simp add: same_ctx_def)
  have "\<forall>f \<in> set (fields_all cx ss). F (off_name (tb_name ?t1) f) [CloV clo] = Some (NumV cur)"
    by (rule visit_union_mode(2) [OF m u v(1) _ _ _ nn(1)]) (use rd map_le_trans [OF setFields_le le3] in \<open>simp_all add: clean_def ready_def\<close>)
  moreover obtain bits where bits: "lay_union_bits (tb_type tb) V F clo name array cur = Some bits"
      "offs = map (\<lambda>f. (f, cur)) (fields_all cx ss @ [name])" "cur' = cur + bits" using lay by (auto simp: bind_eq_Some_conv)
  moreover have "den V F (copyNumBits (tb_type tb) tf) = Some (NumV bits)"
    using union_bits [OF tf(3) refl cur tf(2) _ m le3] pl nu ty tf(1) bits(1) by (simp split: option.splits)
  ultimately show ?thesis using off v(4, 5) tf(1, 4) ty by (auto simp: laid_def stands_def models_closure [OF m])
qed

lemma decl_ready_lays:
  assumes "addToCurrentSymTab cx type name array nofollow exprs tb = Some tb'"
    and rd: "ready V F U (if field_size cx type = None then [] else [name]) tb cur" and "array_plain array" and "models V F clo m" and "map_of (tb_funcs tb') \<subseteq>\<^sub>m m"
    and lay: "(if field_size cx type = None then Some ([], cur)
      else do { bits \<leftarrow> lay_bits cx (tb_type tb) V F clo type name array cur (tb_num_fields tb); Some ([(name, cur)], cur + bits) }) = Some (offs, cur')"
  shows "stands V F tb' cur' \<and> laid F clo (tb_name tb) offs"
proof (cases "field_size cx type")
  case None
  then have "tb' = tb" using assms(1) by (auto simp: addToCurrentSymTab_def bind_eq_Some_conv)
  then show ?thesis using None rd lay by (simp add: ready_def)
next
  case (Some sz)
  then obtain bits where bits: "lay_bits cx (tb_type tb) V F clo type name array cur (tb_num_fields tb) = Some bits" "offs = [(name, cur)]" "cur' = cur + bits"
    using lay by (auto simp: bind_eq_Some_conv)
  have r: "tb_union_c tb = 0" "tb_union_off tb = None" "conds_hold V F (tb_conds tb)" "stands V F tb cur" using rd by (simp_all add: ready_def)
  have "\<not> used (tb_name tb) (map_of (tb_funcs tb)) name" by (rule clean_not_used [of U]) (use rd Some in \<open>simp_all add: ready_def new_names_def\<close>)
  then show ?thesis using decl_lays [OF assms(1) Some r assms(3-5) _ bits(1)] bits(2, 3) by (simp add: laid_def)
qed

lemma cond_lays:
  assumes run: "visit cx owner (TypeCond c t f) tb = Some tb'" and rd: "ready V F U (fields cx (TypeCond c t f)) tb cur"
    and m: "models V F clo m" and le: "map_of (tb_funcs tb') \<subseteq>\<^sub>m m"
    and lay: "lay cx (tb_type tb) V F clo base (TypeCond c t f) cur (tb_num_fields tb) = Some (offs, cur')"
    and IHt: "\<And>tb1. visit cx owner t (tb\<lparr>tb_weak_c := tb_weak_c tb + 1, tb_conds := tb_conds tb @ [c]\<rparr>) = Some tb1 \<Longrightarrow> cden V F c = Some True \<Longrightarrow>
      map_of (tb_funcs tb1) \<subseteq>\<^sub>m m \<Longrightarrow> stands V F tb1 cur' \<and> laid F clo (tb_name tb) offs"
    and IHf: "\<And>tb1 s tb2. visit cx owner t (tb\<lparr>tb_weak_c := tb_weak_c tb + 1, tb_conds := tb_conds tb @ [c]\<rparr>) = Some tb1 \<Longrightarrow> f = Some s \<Longrightarrow>
      visit cx owner s (tb1\<lparr>tb_last := tb_last tb, tb_conds := tb_conds tb @ [CondNot (ccopied c)]\<rparr>) = Some tb2 \<Longrightarrow> cden V F c = Some False \<Longrightarrow> cfold_ok c \<Longrightarrow>
      map_of (tb_funcs tb2) \<subseteq>\<^sub>m m \<Longrightarrow> stands V F tb2 cur' \<and> laid F clo (tb_name tb) offs"
  shows "stands V F tb' cur' \<and> laid F clo (tb_name tb) offs"
proof -
  let ?t1 = "tb\<lparr>tb_weak_c := tb_weak_c tb + 1, tb_conds := tb_conds tb @ [c]\<rparr>"
  let ?t2 = "\<lambda>tb1. tb1\<lparr>tb_last := tb_last tb, tb_conds := tb_conds tb @ [CondNot (ccopied c)]\<rparr>"
  obtain tb1 lf tb2 where v: "visit cx owner t ?t1 = Some tb1"
      "(case f of None \<Rightarrow> Some (None, tb1) | Some s \<Rightarrow> do { tb \<leftarrow> visit cx owner s (?t2 tb1); Some (Some (tb_last tb), tb) }) = Some (lf, tb2)"
      "rebaseByCond (next_off (tb_type tb) (tb_last tb)) c (tb_last tb1) lf (tb2\<lparr>tb_weak_c := tb_weak_c tb2 - 1, tb_conds := tb_conds tb\<rparr>) = Some tb'"
    using run by (auto simp: Let_def bind_eq_Some_conv copyCurrentOffset_def split: if_splits)
  let ?t3 = "tb2\<lparr>tb_weak_c := tb_weak_c tb2 - 1, tb_conds := tb_conds tb\<rparr>"
  have uc: "tb_union_off tb = None" using rd by (simp add: ready_def)
  have a1: "adds (fields cx t) ?t1 tb1" "same_ctx ?t1 tb1" using visit_frame(1) [OF v(1)] uc by simp_all
  have a2: "adds (case f of None \<Rightarrow> [] | Some s \<Rightarrow> fields cx s) tb1 tb2"
    using v(2) visit_frame(1) [of cx owner _ "?t2 tb1" tb2] a1(2) uc by (auto simp: bind_eq_Some_conv same_ctx_def split: option.splits)
  have a: "adds (fields cx (TypeCond c t f)) tb tb2" using adds_trans [of "fields cx t" tb tb1 _ tb2] a1(1) a2 by simp
  have ty: "tb_type tb1 = tb_type tb" "tb_type tb2 = tb_type tb" using a1(1) a by (simp_all add: adds_def grows_def)
  obtain cond off where rb: "getConds (tb_conds ?t3 @ [c]) = Some cond"
      "tb' = (createInvisible (''__rebase_'' @ tb_name ?t3 @ ''_'' @ dec (tb_field_count ?t3)) off (SizeExpr (Number 0)) ?t3)
        \<lparr>tb_field_count := Suc (tb_field_count ?t3)\<rparr>"
    by (rule rebaseByCond_step [OF v(3)]) (rule that, assumption+)
  obtain tf where "tb_funcs tb' = setFields (tb_name tb2) tf (tb_funcs tb2)" using rb(2) by (simp add: createInvisible_def Let_def)
  then have le2: "map_of (tb_funcs tb2) \<subseteq>\<^sub>m m" using le setFields_le map_le_trans by metis
  have fold: "cfold_ok c" using rb(1) by (auto simp: getConds_snoc bind_eq_Some_conv split: if_splits)
  have le1: "map_of (tb_funcs tb1) \<subseteq>\<^sub>m m" by (rule adds_le [OF a2 le2])
  have cl: "clean (U \<union> set (fields cx (TypeCond c t f))) ?t3" using adds_clean [OF a, of U] rd by (simp add: ready_def clean_def)
  have us: "\<forall>g \<in> U \<union> set (fields cx (TypeCond c t f)). user_name g" using rd by (auto simp: ready_def new_names_def)
  obtain b where b: "cden V F c = Some b" using lay by (auto simp: bind_eq_Some_conv)
  have T: "den V F (next_off (tb_type ?t3) (tb_last tb1)) = Some (NumV cur') \<and> laid F clo (tb_name tb) offs" if b
    using IHt [OF v(1) _ le1] b that ty unfolding stands_def by simp
  have Fa: "den V F (case lf of None \<Rightarrow> copied (next_off (tb_type tb) (tb_last tb)) | Some tf \<Rightarrow> next_off (tb_type ?t3) tf) = Some (NumV cur') \<and>
      laid F clo (tb_name tb) offs" if "\<not> b"
  proof (cases f)
    case None
    then have "lf = None" "cur' = cur" "offs = []" using v(2) lay b that by auto
    moreover have "den V F (copied (next_off (tb_type tb) (tb_last tb))) = Some (NumV cur)"
      unfolding next_off_den(2) using rd by (simp only: ready_def stands_def)
    ultimately show ?thesis by (simp only: option.case laid_simps simp_thms)
  next
    case (Some s)
    then have s: "visit cx owner s (?t2 tb1) = Some tb2" "lf = Some (tb_last tb2)" using v(2) by (auto simp: bind_eq_Some_conv)
    show ?thesis using IHf [OF v(1) Some s(1) _ fold le2] b that ty s(2) unfolding stands_def by simp
  qed
  have "conds_hold V F (tb_conds ?t3)" using rd by (simp add: ready_def)
  then have "stands V F tb' cur'" using rebase_lays [OF v(3) _ m le cl us b] T Fa by blast
  then show ?thesis using T Fa by blast
qed

lemma visit_lays:
  assumes m: "models V F clo m" and base: "V ''__thunk_arg_off'' = Some (NumV base)"
  shows "visit cx owner s tb = Some tb' \<Longrightarrow> ready V F U (fields cx s) tb cur \<Longrightarrow> stmt_plain s \<Longrightarrow> map_of (tb_funcs tb') \<subseteq>\<^sub>m m \<Longrightarrow>
      lay cx (tb_type tb) V F clo base s cur (tb_num_fields tb) = Some (offs, cur') \<Longrightarrow> stands V F tb' cur' \<and> laid F clo (tb_name tb) offs"
    and "visit_all cx owner ss tb = Some tb' \<Longrightarrow> ready V F U (fields_all cx ss) tb cur \<Longrightarrow> stmts_plain ss \<Longrightarrow> map_of (tb_funcs tb') \<subseteq>\<^sub>m m \<Longrightarrow>
      lay_all cx (tb_type tb) V F clo base ss cur (tb_num_fields tb) = Some (offs, cur') \<Longrightarrow> stands V F tb' cur' \<and> laid F clo (tb_name tb) offs"
proof (induction cx owner s tb and cx owner ss tb arbitrary: tb' U cur offs cur' and tb' U cur offs cur' rule: visit_visit_all.induct)
  case (1 cx owner type name array nofollow tb)
  show ?case by (rule decl_ready_lays [OF 1(1) [unfolded visit.simps] _ _ m 1(4)]) (use 1 in simp_all)
next
  case (2 cx owner type args name array tb)
  show ?case by (rule decl_ready_lays [OF 2(1) [unfolded visit.simps] _ _ m 2(4)]) (use 2 in simp_all)
next
  case (3 cx owner c t f tb)
  have uc: "copyCurrentOffset tb = Some (next_off (tb_type tb) (tb_last tb))" "tb_union_c tb = 0" "tb_union_off tb = None" "stands V F tb cur" "clean U tb"
      "conds_hold V F (tb_conds tb)" "new_names U (fields cx t)" "\<And>s. f = Some s \<Longrightarrow> new_names (U \<union> set (fields cx t)) (fields cx s)"
    using 3(4) by (auto simp: ready_def copyCurrentOffset_def new_names_append)
  let ?t1 = "tb\<lparr>tb_weak_c := tb_weak_c tb + 1, tb_conds := tb_conds tb @ [c]\<rparr>"
  show ?case
  proof (rule cond_lays [OF 3(3, 4) m 3(6, 7)])
    fix tb1
    assume t: "visit cx owner t ?t1 = Some tb1" "cden V F c = Some True" "map_of (tb_funcs tb1) \<subseteq>\<^sub>m m"
    have "ready V F U (fields cx t) ?t1 cur" using uc t(2) by (auto simp: ready_def stands_def clean_def conds_hold_def)
    then show "stands V F tb1 cur' \<and> laid F clo (tb_name tb) offs"
      using 3(1) [OF uc(1) refl refl t(1), of U cur offs cur'] 3(5, 7) t(2, 3) by simp
  next
    fix tb1 tb2 :: tbuilder and s :: tstmt
    let ?t2 = "tb1\<lparr>tb_last := tb_last tb, tb_conds := tb_conds tb @ [CondNot (ccopied c)]\<rparr>"
    assume s: "visit cx owner t ?t1 = Some tb1" "f = Some s" "visit cx owner s ?t2 = Some tb2" "cden V F c = Some False" "cfold_ok c" "map_of (tb_funcs tb2) \<subseteq>\<^sub>m m"
    have a1: "adds (fields cx t) tb tb1" "same_ctx ?t1 tb1" using visit_frame(1) [OF s(1)] uc(3) by simp_all
    have ty: "tb_type tb1 = tb_type tb" "tb_num_fields tb1 = tb_num_fields tb + length (fields cx t)" using a1(1) by (simp_all add: adds_def grows_def)
    have "clean (U \<union> set (fields cx t)) tb1" by (rule adds_clean [OF a1(1) uc(5)])
    then have "ready V F (U \<union> set (fields cx t)) (fields cx s) ?t2 cur"
      using uc s(2, 4, 5) a1(2) ty(1) folded_den_ok(3) [OF s(5), of V F] by (auto simp: ready_def stands_def clean_def conds_hold_def same_ctx_def)
    then show "stands V F tb2 cur' \<and> laid F clo (tb_name tb) offs"
      using 3(2) [OF uc(1) refl refl s(1) refl s(2, 3), of "U \<union> set (fields cx t)" cur offs cur'] 3(5, 7) s(2, 4, 6) ty by simp
  qed
next
  case (5 cx owner ss name array tb)
  show ?case by (rule union_lays [OF 5(3-5) m 5(6, 7)])
next
  case (6 cx owner name args tb)
  have "lay_func V F clo name args base cur = Some cur'" "offs = []" using 6(5) by (auto simp: bind_eq_Some_conv)
  then show ?case
    using visit_func_lays [OF 6(1) [unfolded visit.simps] _ base _ m 6(4), of cur U cur'] 6(2, 3) by (simp add: ready_def new_names_def)
next
  case (8 cx owner s ss tb)
  obtain tb1 where tb1: "visit cx owner s tb = Some tb1" "visit_all cx owner ss tb1 = Some tb'" using 8(3) by (auto simp: bind_eq_Some_conv)
  obtain offs1 cur1 offs2 where l: "lay cx (tb_type tb) V F clo base s cur (tb_num_fields tb) = Some (offs1, cur1)"
      "lay_all cx (tb_type tb) V F clo base ss cur1 (tb_num_fields tb + length (fields cx s)) = Some (offs2, cur')" "offs = offs1 @ offs2"
    using 8(7) by (auto simp: bind_eq_Some_conv)
  have uc: "tb_union_off tb = None" using 8(4) by (simp add: ready_def)
  have a1: "adds (fields cx s) tb tb1" "same_ctx tb tb1" using visit_frame(1) [OF tb1(1)] uc by simp_all
  have ty: "tb_type tb1 = tb_type tb" "tb_num_fields tb1 = tb_num_fields tb + length (fields cx s)" using a1(1) by (simp_all add: adds_def grows_def)
  have a2: "adds (fields_all cx ss) tb1 tb'" using visit_frame(2) [OF tb1(2)] uc a1(2) by (simp add: same_ctx_def)
  have rd: "ready V F U (fields cx s) tb cur" using 8(4) by (simp add: ready_def new_names_append)
  have 1: "stands V F tb1 cur1 \<and> laid F clo (tb_name tb) offs1"
    by (rule 8(1) [OF tb1(1) rd _ adds_le [OF a2 8(6)] l(1)]) (use 8(5) in simp)
  then have "ready V F (U \<union> set (fields cx s)) (fields_all cx ss) tb1 cur1" using ready_next [OF a1, of V F U] 8(4) by simp
  then show ?case using 8(2) [OF tb1 _ _ 8(6), of "U \<union> set (fields cx s)" cur1 offs2 cur'] 8(5) l(2, 3) ty 1 by simp
qed (auto simp: ready_def)

section \<open>Types\<close>

lemma base_ready:
  assumes "models V F clo m" and "map_of (tb_funcs (base_builder t)) \<subseteq>\<^sub>m m" and "V ''__thunk_arg_off'' = Some (NumV base)"
    and "distinct ns" and "\<forall>f \<in> set ns. user_name f"
  shows "ready V F {} ns (base_builder t) base"
proof -
  let ?tf = "tb_last (base_builder t)"
  have tf: "tf_name ?tf = ''__base''" "tf_off ?tf = Off ThunkArgOffset" "tf_size ?tf = SizeExpr (Number 0)" "tf_elems ?tf = Number 0"
      "tb_funcs (base_builder t) = setFields (ut_name t) ?tf []" "tb_type (base_builder t) = t"
    by (simp_all add: base_builder_def Let_def)
  have nu: "\<not> used (ut_name t) (map_of []) (tf_name ?tf)" by (simp add: used_def)
  have le: "map_of (setFields (ut_name t) ?tf []) \<subseteq>\<^sub>m m" using assms(2) tf(5) by simp
  have "stands V F (base_builder t) base"
    using models_new [OF assms(1) le nu] tf assms(3)
    by (simp add: stands_def copyNumBits_def isSingleton_def models_closure [OF assms(1)] off_meaning_def ThunkArgOffset_def)
  moreover have "clean {} (base_builder t)"
    unfolding clean_def tf(5, 6) setFields_typesize setFields_used tf(1) by (simp add: used_def)
  ultimately show ?thesis using assms(4, 5) by (simp add: ready_def base_builder_def Let_def conds_hold_def new_names_def)
qed

text \<open>An example: a field and an array, in a type that begins at bit 100.\<close>

definition demo_cx :: tctx where
  "demo_cx = \<lparr>types_map = Map.empty, ctypes_map = map_of [(''u8'', 8), (''u16'', 16), (''u32'', 32)]\<rparr>"

definition demo_type :: utype where
  "demo_type = \<lparr>ut_name = ''T'', ut_num = 0, ut_args = 0, ut_union = False\<rparr>"

definition demo_block :: "tstmt list" where
  "demo_block = [TypeDecl ''u8'' ''n'' None False, TypeDecl ''u16'' ''a'' (Some (BinArithOp AOPAdd (Number 1) (Number 2) False, False)) False]"

definition demo_V :: "string \<Rightarrow> unit cval option" where
  "demo_V = map_of [(''__thunk_closure'', CloV ()), (''__thunk_arg_off'', NumV 100)]"

definition demo_F :: "string \<Rightarrow> unit cval list \<Rightarrow> unit cval option" where
  "demo_F f vs = map_of
     [(''__thunkfieldoff_T___base'', NumV 100), (''__thunkfieldsize_T___base'', NumV 0), (''__thunkelems_T___base'', NumV 0),
      (''__thunkfieldoff_T_n'', NumV 100), (''__thunkfieldsize_T_n'', NumV 8), (''__thunkelems_T_n'', NumV 1),
      (''__thunkfieldoff_T_a'', NumV 108), (''__thunkfieldsize_T_a'', NumV 16), (''__thunkelems_T_a'', NumV 3),
      (''__typesize_T'', NumV 56)] f"

lemmas demo_defs = demo_cx_def demo_type_def demo_block_def demo_V_def demo_F_def

lemma models_list: "V ''__thunk_closure'' = Some (CloV clo) \<Longrightarrow> list_all (\<lambda>(n, f). agrees V F (F n [CloV clo]) f) fs \<Longrightarrow> models V F clo (map_of fs)"
  by (auto simp: models_def list_all_iff dest!: map_of_SomeD)

lemma bind_weak: "m = n \<Longrightarrow> Option.bind m f = Option.bind n f" by simp

lemmas build_defs = getSymTab_def finish_symtab_def base_builder_def addToCurrentSymTab_def field_off_def field_size_def field_elems_def field_params_def
  mk_field_def addThunk_def sym_add_def copyCurrentOffset_def copyNumBits_def copyFCall_def isSingleton_def setFields_def registerFunc_def
  getFCallName_def params_name_def typesize_name_def simplified_def mk_op_def toNumbers_def doOp_def
  from_base_fc_def Expr_rewrite_def ThunkClosure_def ThunkArgOffset_def

lemma demo_models: "\<exists>st. getSymTab demo_cx demo_type demo_block = Some (st, []) \<and> models demo_V demo_F () (map_of (st_funcs st))"
  apply (intro exI conjI)
   apply (simp add: demo_cx_def demo_type_def demo_block_def build_defs cong: bind_weak let_weak_cong option.case_cong_weak)
  apply (rule models_list)
   apply (simp add: demo_V_def)
  apply (simp add: demo_V_def demo_F_def agrees_def off_meaning_def num_op_def doOp_def)
  done

lemma demo_lay: "lay_all demo_cx demo_type demo_V demo_F () 100 demo_block 100 0 = Some ([(''n'', 100), (''a'', 108)], 156)"
  by (simp add: demo_defs lay_bits_def with_base_def num_op_def doOp_def mk_op_def toNumbers_def field_size_def cong: bind_weak)

text \<open>
  C3: the functions that the compiler generates for a type compute its layout. Whenever the compiler accepts a type whose
  field names are different and do not begin with two underscores, and the functions mean what their bodies say, the offset
  function of every field that is present returns the offset at which a walk over the statements of the type finds it, and
  the size function of the type returns the length of the walk.
\<close>

theorem getSymTab_lays_out:
  assumes "getSymTab cx t block = Some (st, unions)" and "distinct (fields_all cx block)" and "\<forall>f \<in> set (fields_all cx block). user_name f"
    and "stmts_plain block" and m: "models V F clo (map_of (st_funcs st))" and base: "V ''__thunk_arg_off'' = Some (NumV base)"
    and lay: "lay_all cx t V F clo base block base 0 = Some (offs, cur)"
  shows "(\<forall>(f, off) \<in> set offs. F (off_name (ut_name t) f) [CloV clo] = Some (NumV off)) \<and>
    F (typesize_name (ut_name t)) [CloV clo] = Some (NumV (cur - base))"
proof -
  let ?b = "base_builder t"
  have b: "tb_type ?b = t" "tb_num_fields ?b = 0" "tb_union_off ?b = None" by (simp_all add: base_builder_def Let_def)
  let ?sz = "\<lambda>tb. BinArithOp AOPSub (next_off (tb_type tb) (tb_last tb)) ThunkArgOffset False"
  obtain tb sz where tb: "visit_all cx t block ?b = Some tb" "simplified (?sz tb) = Some sz"
      "st_funcs st = registerFunc (typesize_name (tb_name tb)) (FTypeSize sz) (tb_funcs tb)"
    using assms(1) by (auto simp: getSymTab_def finish_symtab_def bind_eq_Some_conv)
  have a: "adds (fields_all cx block) ?b tb" using visit_frame(2) [OF tb(1)] b(3) by simp
  have ty: "tb_type tb = t" using a b(1) by (simp add: adds_def grows_def)
  have le: "map_of (tb_funcs tb) \<subseteq>\<^sub>m map_of (st_funcs st)" unfolding tb(3) by (rule registerFunc_le)
  have rd: "ready V F {} (fields_all cx block) ?b base" by (rule base_ready [OF m adds_le [OF a le] base assms(2, 3)])
  have res: "stands V F tb cur \<and> laid F clo (ut_name t) offs"
    using visit_lays(2) [OF m base tb(1) rd assms(4) le] lay b(1, 2) by simp
  have "clean (set (fields_all cx block)) tb" using adds_clean [OF a, of "{}"] rd by (simp add: ready_def)
  then have "map_of (st_funcs st) (typesize_name (ut_name t)) = Some (FTypeSize sz)" unfolding tb(3) by (auto simp: map_of_registerFunc clean_def ty)
  then have "agrees V F (F (typesize_name (ut_name t)) [CloV clo]) (FTypeSize sz)" using m by (simp add: models_def)
  then have "F (typesize_name (ut_name t)) [CloV clo] = den V F sz" by (simp add: agrees_def)
  also have "\<dots> = den V F (?sz tb)" by (rule simplified_den [OF tb(2)])
  also have "\<dots> = Some (NumV (cur - base))" using res base unfolding stands_def den.simps(8) [of V F AOPSub] by (simp add: ThunkArgOffset_def)
  finally show ?thesis using res by (simp add: laid_def)
qed

theorem getSymTab_lays_out_witness:
  "\<exists>st. getSymTab demo_cx demo_type demo_block = Some (st, []) \<and> models demo_V demo_F () (map_of (st_funcs st)) \<and>
   (\<forall>(f, off) \<in> set [(''n'', 100), (''a'', 108)]. demo_F (off_name (ut_name demo_type) f) [CloV ()] = Some (NumV off)) \<and>
   demo_F (typesize_name (ut_name demo_type)) [CloV ()] = Some (NumV 56)"
proof -
  obtain st where st: "getSymTab demo_cx demo_type demo_block = Some (st, [])" "models demo_V demo_F () (map_of (st_funcs st))"
    using demo_models by blast
  have "distinct (fields_all demo_cx demo_block)" "\<forall>f \<in> set (fields_all demo_cx demo_block). user_name f" "stmts_plain demo_block"
    "demo_V ''__thunk_arg_off'' = Some (NumV 100)" by (simp_all add: demo_defs field_size_def user_name_def)
  from getSymTab_lays_out [OF st(1) this(1-3) st(2) this(4) demo_lay] st show ?thesis by auto
qed

text \<open>
  C25: the padding that the compiler computes for \<open>align_bits\<close> is right for powers of two: it is less than the alignment and the
  offset behind it, from the begin of the type, is a multiple of the alignment, whatever the offset in 64 bits is.
\<close>

theorem TBFAlignBits_aligns:
  assumes "TBFAlignBits tb args = Some (off, sz)" and "den V F (hd args) = Some (NumV (2 ^ k))" and "k < 64"
    and "copyCurrentOffset tb = Some e" and "den V F e = Some (NumV cur)" and "V ''__thunk_arg_off'' = Some (NumV base)"
  shows "\<exists>pad. den V F off = Some (NumV cur) \<and> den V F sz = Some (NumV pad) \<and> pad < 2 ^ k \<and> (cur + pad - base) mod 2 ^ k = 0"
proof -
  have "stands V F tb cur" using assms(4, 5) unfolding copyCurrentOffset_def copyNextOffset_eq stands_def by (metis option.distinct(1) option.inject)
  then show ?thesis
    using TBF_align_den(1) [OF assms(2) _ assms(6) assms(1), of cur] align_pad_aligns [of k "cur - base"] assms(3)
    by (auto simp: align_pad_def algebra_simps)
qed

theorem TBFAlignBits_aligns_witness:
  "\<exists>off sz e pad. TBFAlignBits (base_builder demo_type) [Number 8] = Some (off, sz) \<and> copyCurrentOffset (base_builder demo_type) = Some e \<and>
     den (demo_V(''__thunk_arg_off'' \<mapsto> NumV 97)) demo_F e = Some (NumV 100) \<and>
     den (demo_V(''__thunk_arg_off'' \<mapsto> NumV 97)) demo_F sz = Some (NumV pad) \<and> pad < 2 ^ 3 \<and> (100 + pad - 97) mod 2 ^ 3 = (0 :: 64 word)"
proof -
  let ?b = "base_builder demo_type" and ?V = "demo_V(''__thunk_arg_off'' \<mapsto> NumV 97)"
  define e where "e = next_off (tb_type ?b) (tb_last ?b)"
  have e: "copyCurrentOffset ?b = Some e" "den ?V demo_F e = Some (NumV 100)"
    by (simp_all add: e_def copyCurrentOffset_def demo_defs base_builder_def Let_def copyNumBits_def copyFCall_def isSingleton_def
        getFCallName_def ThunkClosure_def)
  obtain off sz where o: "TBFAlignBits ?b [Number 8] = Some (off, sz)" using e(1) by (simp add: TBFAlignBits_def copyFromBase_def simplified_def)
  have "den ?V demo_F (hd [Number 8]) = Some (NumV (2 ^ 3))" by simp
  from TBFAlignBits_aligns [OF o this _ e, of 97] o e show ?thesis by auto
qed

end
