(* ===== verification/Spec2Isabelle.thy ===== *)
theory Spec2Isabelle
  imports RtMax Bitmap RtTypes Choice Usemap RtLog IoCache Io IoPread IoMmap Virt RtCore TypeInfo TiHeap TiCopy WritePkt TypePrint ScanSafe Modify ToolSafe CLayout
begin

text \<open>
  Verification of the FSL runtime, of the tools built on it, and of the part of the compiler that lays out types.

  FSL is a language for describing file systems. A compiler (\<open>src/compiler\<close>) turns a description into tables of types with
  generated functions: where a field is, how many elements it has, what it points to, which bits a modification writes.
  The runtime (\<open>src/runtime\<close>) interprets these tables over a disk image, and tools (\<open>src/tool\<close>) use the runtime to check,
  browse, move and defragment file systems they know nothing about. This development models the runtime and the tools, and
  of the compiler the expressions, the constants and the layout of types.

  \<^bold>\<open>Parts and how they interact\<close>

  \<^item> \<open>Prelude\<close>: the vocabulary. An operation that may abort returns an option; \<open>None\<close> is a run without a result, that is
    a failed assertion, an access out of bounds or a loop that does not end. Unsigned integers are naturals with their
    wrap-around written out.
  \<^item> \<open>RtTypes\<close> (\<open>runtime.h\<close>, \<open>type_info.h\<close>, \<open>virt.h\<close>, \<open>log.h\<close>): the data model. \<open>fsl_tables\<close> are the generated tables, a
    parameter of everything; \<open>env\<close> is the global environment: the disk, the block cache, the logs, the hooks, the heaps of
    type instances and of mappings, the counters.
  \<^item> \<open>RtMax\<close> (\<open>max.c\<close>), \<open>Bitmap\<close> (\<open>bitmap.c\<close>), \<open>Choice\<close> (\<open>choice.c\<close>), \<open>Usemap\<close> (\<open>usemap.c\<close>), \<open>Lookup\<close> (\<open>lookup.c\<close>): the data
    structures. The bitmap refines a set of bit numbers, the choice cache a set of free choices.
  \<^item> \<open>RtLog\<close> (\<open>log.c\<close>, \<open>hits.c\<close>, \<open>temporal.c\<close>, the hooks of \<open>io.c\<close>): callbacks, the read log, the write log.
  \<^item> \<open>IoCache\<close> (\<open>rt-pread/cache.c\<close>), \<open>Io\<close> (\<open>io.c\<close>), \<open>IoPread\<close> (\<open>rt-pread/io.c\<close>), \<open>IoMmap\<close> (\<open>rt-mmap/io.c\<close>): reading and
    writing bit fields. The locale \<open>phys_reader\<close> is the contract of an aligned read; both back ends interpret it.
  \<^item> \<open>Virt\<close> (\<open>virt.c\<close>): virtual address spaces that are glued together from pieces of the disk, with their translation cache.
    \<open>RtCore\<close> (\<open>runtime.c\<close>): reads through closures, sizes of arrays, the memo table.
  \<^item> \<open>TypeInfo\<close> (\<open>type_info.c\<close>): reference counted instances of types, created by following fields, pointers, iterators and
    virtual types. \<open>TiHeap\<close>, \<open>TiCopy\<close> and \<open>GenCode\<close> hold their theory: right counts, bounded chains, exact copies, and what
    is expected of generated functions.
  \<^item> \<open>TypePrint\<close> (\<open>type_print.c\<close>): the text that is printed for an instance.
  \<^item> \<open>WritePkt\<close> (\<open>writepkt.c\<close>): the write packets that move an instance. \<open>Scan\<close> (\<open>scan.c\<close>): the stack machine that visits
    every instance; \<open>ScanSafe\<close>: its termination.
  \<^item> \<open>Bridge\<close> (\<open>bridge.c\<close>, \<open>tool/fuse_node.c\<close>): the nodes and paths that the browsers walk.
  \<^item> \<open>ToolReloc\<close> (\<open>smushtool.c\<close>, \<open>scattertool.c\<close>, \<open>thrashcopy.c\<close>, \<open>relocate.c\<close>, \<open>defragtool.c\<close>) and \<open>ToolScan\<close> (\<open>fsck.c\<close>,
    \<open>fragtool.c\<close>, \<open>scantool.c\<close>): the tools. \<open>ToolSafe\<close>: their searches for free space; the locale \<open>chooser\<close> is the contract
    between a search and the code that uses its result. \<open>Modify\<close> (\<open>modify.c\<close>): the lookup of a path with dots.
  \<^item> \<open>CExpr\<close> (\<open>compiler/expr.h\<close>, \<open>binarithop.h\<close>, \<open>cond.h\<close>): expressions, with copying, folding and rewriting. \<open>CConst\<close>
    (\<open>compiler/main.cc\<close>, \<open>eval.cc\<close>): primitive types, constants and enumerations. \<open>CThunk\<close> (\<open>symtab_thunkbuilder.cc\<close>,
    \<open>thunk_field.cc\<close>, \<open>thunk_type.cc\<close>, \<open>symtab.cc\<close>): the builder that walks over a type and makes the functions that compute
    the offset, size and length of every field; \<open>CLayout\<close>: that these functions compute the layout. The functions are what the
    tables \<open>fsl_tables\<close> of the runtime hold.

  A definition has the name of the C function it translates; where several files have a function of the same name, the
  name of the tool or back end is put before it. A loop of a C function is a function of its own, next to it.

  \<^bold>\<open>What is shown\<close>

  \<^item> Reading and writing: a read returns the bits that the disk has at this place, through the cache, aligned or not,
    little and big endian; a write changes exactly these bits and is seen by the next read; committing a log applies
    its entries in order; the two back ends agree. The exceptions that the code has are theorems too.
  \<^item> Relocation: the transaction of \<open>wpkt_relocate\<close> writes to the disk exactly the packets in the order the code means.
  \<^item> Instances: releasing and creating keep reference counts right; a verified chain has no repetitions and so a bound;
    a scan ends, whatever the disk contains, and gives back every instance.
  \<^item> Bitmaps and choices: the operations implement the set operations, the searches are first fit and exact.
  \<^item> Address translation: an address of a virtual space goes to the element and offset it should, on cache hits and misses.
  \<^item> Printing: the text of a dump, read back, is the data.
  \<^item> Nodes: they are well-typed, own what they name, and paths are resolved element by element.
  \<^item> Tools: a tool moves data only to free places; which searches end, and on which inputs two of them do not;
    the lookup of a path finds the field it names and gives every instance back.
  \<^item> Compiler: folding and rewriting keep the value of an expression; the constants of a description are resolved by the
    passes of \<open>simplify_constants\<close>, unless they are circular, which the code does not notice; the offset functions of the fields of a type
    return where a walk over its statements finds the fields, and its size function the length of the walk.

  \<^bold>\<open>Bounds\<close>

  Copying and folding of expressions have fuel, because they call each other on results: more than the size of the
  expression is enough. No other operation of the model has: loops are structural, have a measure, or are
  partial functions whose result is
  proved to exist. The bound on the depth of a scan, \<open>stk_bound\<close>, is part of a measure and not of the model. Sizes are
  limited where the code limits them: 32-bit counters, bitmaps of less than \<open>2 ^ 31\<close> bits. The host is little-endian.

  \<^bold>\<open>Not modelled\<close>

  \<^item> The parser of the compiler, the resolution of names in expressions (\<open>evalctx.cc\<close>), the emission of LLVM code and of tables:
    most of it is calls of the LLVM library. What the compiler puts out is the parameter \<open>fsl_tables\<close>, and what the runtime
    relies on in generated functions is a hypothesis of the theorems (they return, leave the heap of instances alone, give as
    many parameters as asked for).
  \<^item> The kernel module: glue to Linux interfaces that are not part of the repository.
  \<^item> The interactive tools (\<open>browser.c\<close>, \<open>fuse-browser.c\<close>), command lines, messages,
    loading of picture files: input and output around the modelled functions.
  \<^item> Failing system calls and running out of memory: the code asserts that they do not happen.
\<close>

end
